(* ===== verification/Prelude.thy ===== *)
theory Prelude
  imports Main "HOL-Library.Word"
begin

unbundle bit_operations_syntax

text \<open>
  The vocabulary shared by every component of the model: machine integers, Rust
  strings as UTF-8 byte lists, \<open>Result\<close> and \<open>Poll\<close> values, and the functions of
  Rust's standard library on strings and integers that the crate calls
  (\<open>to_ascii_lowercase\<close>, \<open>eq_ignore_ascii_case\<close>, \<open>starts_with\<close>, \<open>ends_with\<close>,
  \<open>split\<close>, \<open>trim\<close>, decimal formatting and parsing). The collections \<open>wf_intros\<close>
  and \<open>byte_simps\<close> gather the hints the component theories share.
\<close>

named_theorems wf_intros \<open>introduction rules for the components' invariants\<close>
named_theorems byte_simps \<open>evaluation of byte strings and literals\<close>

section \<open>Types\<close>

type_synonym u8 = "8 word"
type_synonym u32 = "32 word"
type_synonym u64 = "64 word"
type_synonym bytes = "u8 list"

text \<open>A Rust \<open>str\<close> or \<open>String\<close> is its UTF-8 bytes.\<close>

type_synonym str = "u8 list"

text \<open>\<open>std::task::Poll\<close>.\<close>

datatype 'a poll = Pending | Ready 'a

fun map_poll :: "('a \<Rightarrow> 'b) \<Rightarrow> 'a poll \<Rightarrow> 'b poll" where
  "map_poll f Pending = Pending"
| "map_poll f (Ready x) = Ready (f x)"

text \<open>
  \<open>Result<T, E>\<close> is \<open>'e + 'a\<close>: \<open>Inl\<close> is \<open>Err\<close>, \<open>Inr\<close> is \<open>Ok\<close>. The
  combinator below is \<open>and_then\<close>, or the \<open>?\<close> operator followed by the rest of the body.
\<close>

fun and_then :: "'e + 'a \<Rightarrow> ('a \<Rightarrow> 'e + 'b) \<Rightarrow> 'e + 'b" where
  "and_then (Inl e) f = Inl e"
| "and_then (Inr x) f = f x"

lemma and_then_eq_Inr: "and_then r f = Inr y \<longleftrightarrow> (\<exists>x. r = Inr x \<and> f x = Inr y)"
  by (cases r) auto

lemma and_then_eq_Inl: "and_then r f = Inl e \<longleftrightarrow> r = Inl e \<or> (\<exists>x. r = Inr x \<and> f x = Inl e)"
  by (cases r) auto

section \<open>String literals\<close>

definition lit :: "string \<Rightarrow> str" where
  "lit s = map of_char s"

lemma unat_of_char: "unat (of_char c :: u8) = (of_char c :: nat)"
proof -
  have "(of_char c :: u8) = of_nat (of_char c :: nat)"
    by (rule of_nat_of_char [symmetric])
  then have "unat (of_char c :: u8) = (of_char c :: nat) mod 2 ^ LENGTH(8)"
    by (simp only: unat_of_nat)
  then show ?thesis by simp
qed

lemma of_char_u8_eq_iff [simp]: "(of_char c :: u8) = of_char d \<longleftrightarrow> c = d"
proof
  assume "(of_char c :: u8) = of_char d"
  then have "unat (of_char c :: u8) = unat (of_char d :: u8)" by (rule arg_cong)
  then have "(of_char c :: nat) = of_char d" unfolding unat_of_char .
  then show "c = d" by simp
qed simp

lemma lit_eq_iff [simp]: "lit s = lit t \<longleftrightarrow> s = t"
proof
  show "lit s = lit t \<Longrightarrow> s = t"
  proof (induction s arbitrary: t)
    case Nil
    then show ?case by (simp add: lit_def)
  next
    case (Cons a s)
    then show ?case by (cases t) (auto simp: lit_def)
  qed
qed simp

lemma lit_Nil [simp]: "lit [] = []"
  by (simp add: lit_def)

lemma lit_eq_Nil [simp]: "lit s = [] \<longleftrightarrow> s = []"
  by (simp add: lit_def)

lemma Nil_eq_lit [simp]: "[] = lit s \<longleftrightarrow> s = []"
  by (auto simp: lit_def)

declare lit_def [byte_simps]

section \<open>ASCII\<close>

text \<open>\<open>u8::to_ascii_lowercase\<close>, \<open>str::to_ascii_lowercase\<close>, \<open>str::eq_ignore_ascii_case\<close>.\<close>

definition lower_byte :: "u8 \<Rightarrow> u8" where
  "lower_byte b = (if 0x41 \<le> b \<and> b \<le> 0x5A then b + 0x20 else b)"

definition to_ascii_lowercase :: "str \<Rightarrow> str" where
  "to_ascii_lowercase s = map lower_byte s"

definition eq_ignore_ascii_case :: "str \<Rightarrow> str \<Rightarrow> bool" where
  "eq_ignore_ascii_case s t \<longleftrightarrow> to_ascii_lowercase s = to_ascii_lowercase t"

lemma lower_byte_range: "\<not> (0x41 \<le> lower_byte b \<and> lower_byte b \<le> 0x5A)"
  unfolding lower_byte_def word_le_nat_alt
  by (auto simp: unat_word_ariths word_le_nat_alt)

lemma lower_byte_idem [simp]: "lower_byte (lower_byte b) = lower_byte b"
  using lower_byte_range [of b] by (simp add: lower_byte_def [of "lower_byte b"])

lemma to_ascii_lowercase_idem [simp]:
  "to_ascii_lowercase (to_ascii_lowercase s) = to_ascii_lowercase s"
  by (simp add: to_ascii_lowercase_def)

lemma length_to_ascii_lowercase [simp]: "length (to_ascii_lowercase s) = length s"
  by (simp add: to_ascii_lowercase_def)

lemma to_ascii_lowercase_append:
  "to_ascii_lowercase (s @ t) = to_ascii_lowercase s @ to_ascii_lowercase t"
  by (simp add: to_ascii_lowercase_def)

lemma eq_ignore_ascii_case_refl [simp]: "eq_ignore_ascii_case s s"
  by (simp add: eq_ignore_ascii_case_def)

text \<open>\<open>u8::is_ascii_digit\<close>.\<close>

definition is_ascii_digit :: "u8 \<Rightarrow> bool" where
  "is_ascii_digit b \<longleftrightarrow> 0x30 \<le> b \<and> b \<le> 0x39"

text \<open>The printable range \<open>0x20..=0x7E\<close> that metadata values and \<open>grpc-message\<close> use.\<close>

definition printable :: "u8 \<Rightarrow> bool" where
  "printable b \<longleftrightarrow> 0x20 \<le> b \<and> b \<le> 0x7E"

section \<open>Substrings\<close>

text \<open>\<open>str::starts_with\<close>, \<open>str::ends_with\<close>, \<open>str::strip_prefix\<close>.\<close>

definition starts_with :: "str \<Rightarrow> str \<Rightarrow> bool" where
  "starts_with s p \<longleftrightarrow> take (length p) s = p"

definition ends_with :: "str \<Rightarrow> str \<Rightarrow> bool" where
  "ends_with s p \<longleftrightarrow> length p \<le> length s \<and> drop (length s - length p) s = p"

definition strip_prefix :: "str \<Rightarrow> str \<Rightarrow> str option" where
  "strip_prefix s p = (if starts_with s p then Some (drop (length p) s) else None)"

lemma strip_prefix_Some_iff: "strip_prefix s p = Some r \<longleftrightarrow> s = p @ r"
proof
  assume "strip_prefix s p = Some r"
  then have "take (length p) s = p" and "drop (length p) s = r"
    by (auto simp: strip_prefix_def starts_with_def split: if_splits)
  then show "s = p @ r" by (metis append_take_drop_id)
qed (simp add: strip_prefix_def starts_with_def)

lemma starts_with_iff: "starts_with s p \<longleftrightarrow> (\<exists>r. s = p @ r)"
  unfolding starts_with_def by (metis append_eq_conv_conj append_take_drop_id)

lemma ends_with_iff: "ends_with s p \<longleftrightarrow> (\<exists>r. s = r @ p)"
proof
  assume "ends_with s p"
  then have "s = take (length s - length p) s @ p"
    by (metis append_take_drop_id ends_with_def)
  then show "\<exists>r. s = r @ p" ..
qed (auto simp: ends_with_def)

text \<open>\<open>str::split\<close> on one ASCII character: always at least one piece.\<close>

fun split_on :: "u8 \<Rightarrow> str \<Rightarrow> str list" where
  "split_on c [] = [[]]"
| "split_on c (x # xs) =
     (if x = c then [] # split_on c xs
      else (case split_on c xs of [] \<Rightarrow> [[x]] | p # ps \<Rightarrow> (x # p) # ps))"

lemma split_on_not_Nil [simp]: "split_on c s \<noteq> []"
  by (cases s) (auto split: list.splits)

lemma split_on_no_sep: "c \<notin> set s \<Longrightarrow> split_on c s = [s]"
  by (induction s) auto

lemma split_on_append: "c \<notin> set s \<Longrightarrow> split_on c (s @ c # t) = s # split_on c t"
  by (induction s) auto

text \<open>\<open>[String]::join\<close>.\<close>

fun join :: "str \<Rightarrow> str list \<Rightarrow> str" where
  "join sep [] = []"
| "join sep [p] = p"
| "join sep (p # ps) = p @ sep @ join sep ps"

lemma split_on_join:
  "ps \<noteq> [] \<Longrightarrow> \<forall>p \<in> set ps. c \<notin> set p \<Longrightarrow> split_on c (join [c] ps) = ps"
  by (induction "[c]" ps rule: join.induct) (auto simp: split_on_no_sep split_on_append)

text \<open>
  \<open>str::trim\<close>: the characters with the Unicode \<open>White_Space\<close> property, as UTF-8, are
  removed from both ends.
\<close>

definition white_space :: "bytes list" where
  "white_space =
    [[0x09], [0x0A], [0x0B], [0x0C], [0x0D], [0x20], [0xC2, 0x85], [0xC2, 0xA0],
     [0xE1, 0x9A, 0x80], [0xE2, 0x80, 0x80], [0xE2, 0x80, 0x81], [0xE2, 0x80, 0x82],
     [0xE2, 0x80, 0x83], [0xE2, 0x80, 0x84], [0xE2, 0x80, 0x85], [0xE2, 0x80, 0x86],
     [0xE2, 0x80, 0x87], [0xE2, 0x80, 0x88], [0xE2, 0x80, 0x89], [0xE2, 0x80, 0x8A],
     [0xE2, 0x80, 0xA8], [0xE2, 0x80, 0xA9], [0xE2, 0x80, 0xAF], [0xE2, 0x81, 0x9F],
     [0xE3, 0x80, 0x80]]"

function trim_start :: "str \<Rightarrow> str" where
  "trim_start s =
     (case find (\<lambda>w. starts_with s w) white_space of
        None \<Rightarrow> s | Some w \<Rightarrow> trim_start (drop (length w) s))"
  by pat_completeness auto
termination
proof (relation "measure length")
  show "wf (measure (length :: str \<Rightarrow> nat))" by simp
next
  fix s w
  assume "find (\<lambda>w. starts_with s w) white_space = Some w"
  then have "w \<in> set white_space" and "starts_with s w"
    by (auto simp: find_Some_iff)
  moreover from this have "w \<noteq> []" by (auto simp: white_space_def)
  ultimately show "(drop (length w) s, s) \<in> measure length"
    by (auto simp: starts_with_iff)
qed

function trim_end :: "str \<Rightarrow> str" where
  "trim_end s =
     (case find (\<lambda>w. ends_with s w) white_space of
        None \<Rightarrow> s | Some w \<Rightarrow> trim_end (take (length s - length w) s))"
  by pat_completeness auto
termination
proof (relation "measure length")
  show "wf (measure (length :: str \<Rightarrow> nat))" by simp
next
  fix s w
  assume "find (\<lambda>w. ends_with s w) white_space = Some w"
  then have "w \<in> set white_space" and "ends_with s w"
    by (auto simp: find_Some_iff)
  moreover from this have "w \<noteq> []" by (auto simp: white_space_def)
  ultimately show "(take (length s - length w) s, s) \<in> measure length"
    by (auto simp: ends_with_iff)
qed

declare trim_start.simps [simp del] trim_end.simps [simp del]

definition trim :: "str \<Rightarrow> str" where
  "trim s = trim_end (trim_start s)"

text \<open>A string of printable bytes with no space at either end is already trimmed.\<close>

lemma white_space_ascii:
  "w \<in> set white_space \<Longrightarrow> \<forall>b \<in> set w. b \<le> 0x7E \<Longrightarrow> \<exists>b. w = [b] \<and> b \<le> 0x20"
  by (auto simp: white_space_def)

lemma trim_start_id:
  assumes "\<forall>b \<in> set s. 0x20 < b \<and> b \<le> 0x7E"
  shows "trim_start s = s"
proof -
  have "\<not> starts_with s w" if w: "w \<in> set white_space" for w
  proof
    assume "starts_with s w"
    then obtain r where s: "s = w @ r" by (auto simp: starts_with_iff)
    with assms w obtain b where "w = [b]" and "b \<le> 0x20"
      using white_space_ascii [of w] by auto
    with s assms show False by auto
  qed
  then have "find (\<lambda>w. starts_with s w) white_space = None"
    by (auto simp: find_None_iff)
  then show ?thesis by (simp add: trim_start.simps [of s])
qed

lemma trim_end_id:
  assumes "\<forall>b \<in> set s. 0x20 < b \<and> b \<le> 0x7E"
  shows "trim_end s = s"
proof -
  have "\<not> ends_with s w" if w: "w \<in> set white_space" for w
  proof
    assume "ends_with s w"
    then obtain r where s: "s = r @ w" by (auto simp: ends_with_iff)
    with assms w obtain b where "w = [b]" and "b \<le> 0x20"
      using white_space_ascii [of w] by auto
    with s assms show False by auto
  qed
  then have "find (\<lambda>w. ends_with s w) white_space = None"
    by (auto simp: find_None_iff)
  then show ?thesis by (simp add: trim_end.simps [of s])
qed

lemma trim_id: "\<forall>b \<in> set s. 0x20 < b \<and> b \<le> 0x7E \<Longrightarrow> trim s = s"
  by (simp add: trim_def trim_start_id trim_end_id)

section \<open>Lists\<close>

lemma concat_map_concat:
  "concat (map (\<lambda>x. concat (map f (g x))) xs) = concat (map f (concat (map g xs)))"
  by (induction xs) auto

lemma filter_concat_map:
  "filter P (concat (map f xs)) = concat (map (\<lambda>x. filter P (f x)) xs)"
  by (induction xs) auto

lemma find_SomeD: "find P xs = Some x \<Longrightarrow> x \<in> set xs \<and> P x"
  by (induction xs) (auto split: if_splits)

lemma take_drop_read: "take k (drop p xs) @ drop (p + k) xs = drop p xs"
  by (metis append_take_drop_id drop_drop add.commute)

section \<open>Decimal numbers\<close>

text \<open>\<open>u8::to_string\<close>, \<open>format!("{n}")\<close>.\<close>

fun show_nat :: "nat \<Rightarrow> str" where
  "show_nat n =
     (if n < 10 then [0x30 + of_nat n] else show_nat (n div 10) @ [0x30 + of_nat (n mod 10)])"

declare show_nat.simps [simp del]

text \<open>
  \<open><uN as FromStr>::from_str\<close> for an unsigned type of values below \<open>bound\<close>: an optional
  leading \<open>+\<close>, then at least one digit, and the value must fit.
\<close>

definition digit_value :: "u8 \<Rightarrow> nat" where
  "digit_value b = unat (b - 0x30)"

definition digits_value :: "str \<Rightarrow> nat" where
  "digits_value ds = foldl (\<lambda>acc b. 10 * acc + digit_value b) 0 ds"

definition drop_plus :: "str \<Rightarrow> str" where
  "drop_plus s = (case s of [] \<Rightarrow> [] | b # r \<Rightarrow> if b = 0x2B then r else s)"

definition parse_unsigned :: "nat \<Rightarrow> str \<Rightarrow> nat option" where
  "parse_unsigned bound s =
     (let ds = drop_plus s in
      if ds = [] \<or> \<not> list_all is_ascii_digit ds then None
      else if digits_value ds < bound then Some (digits_value ds) else None)"

lemma digit_of_nat:
  assumes "n < 10"
  shows "is_ascii_digit (0x30 + of_nat n)" and "digit_value (0x30 + of_nat n) = n"
proof -
  have "n \<in> {0, 1, 2, 3, 4, 5, 6, 7, 8, 9}" using assms by auto
  then show "is_ascii_digit (0x30 + of_nat n)" and "digit_value (0x30 + of_nat n) = n"
    by (auto simp: is_ascii_digit_def digit_value_def)
qed

lemma show_nat_not_Nil [simp]: "show_nat n \<noteq> []"
  by (subst show_nat.simps) simp

lemma show_nat_digits: "list_all is_ascii_digit (show_nat n)"
proof (induction n rule: show_nat.induct)
  case (1 n)
  then show ?case
    by (subst show_nat.simps) (auto simp: digit_of_nat)
qed

lemma digits_value_show_nat [simp]: "digits_value (show_nat n) = n"
proof (induction n rule: show_nat.induct)
  case (1 n)
  then show ?case
    by (subst show_nat.simps) (auto simp: digits_value_def digit_of_nat)
qed

lemma digits_value_snoc: "digits_value (ds @ [b]) = 10 * digits_value ds + digit_value b"
  by (simp add: digits_value_def)

lemma drop_plus_digits: "list_all is_ascii_digit s \<Longrightarrow> drop_plus s = s"
  by (auto simp: drop_plus_def is_ascii_digit_def split: list.splits)

lemma parse_unsigned_digits:
  "s \<noteq> [] \<Longrightarrow> list_all is_ascii_digit s \<Longrightarrow>
   parse_unsigned bound s = (if digits_value s < bound then Some (digits_value s) else None)"
  by (simp add: parse_unsigned_def drop_plus_digits)

lemma parse_unsigned_show_nat [simp]: "n < bound \<Longrightarrow> parse_unsigned bound (show_nat n) = Some n"
  by (simp add: parse_unsigned_digits show_nat_digits)

lemma parse_unsigned_bound: "parse_unsigned bound s = Some n \<Longrightarrow> n < bound"
  by (auto simp: parse_unsigned_def Let_def split: if_splits)

lemma show_nat_inj [simp]: "show_nat m = show_nat n \<longleftrightarrow> m = n"
  by (metis digits_value_show_nat)

lemma show_nat_printable: "\<forall>b \<in> set (show_nat n). 0x20 < b \<and> b \<le> 0x7E"
proof -
  have "is_ascii_digit b \<Longrightarrow> 0x20 < b \<and> b \<le> 0x7E" for b
    by (auto simp: is_ascii_digit_def word_le_nat_alt word_less_nat_alt)
  with show_nat_digits [of n] show ?thesis by (auto simp: list_all_iff)
qed

lemma length_show_nat: "n < 10 ^ k \<Longrightarrow> 0 < k \<Longrightarrow> length (show_nat n) \<le> k"
proof (induction n arbitrary: k rule: show_nat.induct)
  case (1 n)
  show ?case
  proof (cases "n < 10")
    case True
    with "1.prems" show ?thesis by (subst show_nat.simps) simp
  next
    case False
    with "1.prems" obtain j where k: "k = Suc j" and j: "0 < j"
      by (cases k; cases "k - 1") auto
    with "1.prems" have "n div 10 < 10 ^ j" by (simp add: less_mult_imp_div_less mult.commute)
    with "1.IH" False j have "length (show_nat (n div 10)) \<le> j" by simp
    with False k show ?thesis by (subst show_nat.simps) simp
  qed
qed

end
