(* ===== verification/Utf8.thy ===== *)
theory Utf8
  imports Prelude
begin

text \<open>
  UTF-8 as Rust's standard library reads it: \<open>String::from_utf8\<close> accepts exactly the
  byte strings on which \<open>utf8_valid\<close> holds, and \<open>String::from_utf8_lossy\<close> replaces
  each maximal ill-formed part by U+FFFD. Both are used by \<open>percent_decode\<close> in
  \<open>src/status.rs\<close>. The lemmas show that the lossy conversion always yields a valid
  string and leaves a valid string alone.
\<close>

section \<open>Decoding one character\<close>

definition is_continuation :: "u8 \<Rightarrow> bool" where
  "is_continuation b \<longleftrightarrow> 0x80 \<le> b \<and> b \<le> 0xBF"

text \<open>The library's safe access: a read past the end yields 0, which no sequence allows.\<close>

fun safe_get :: "bytes \<Rightarrow> nat \<Rightarrow> u8" where
  "safe_get [] i = 0"
| "safe_get (x # xs) 0 = x"
| "safe_get (x # xs) (Suc i) = safe_get xs i"

definition second_ok3 :: "u8 \<Rightarrow> u8 \<Rightarrow> bool" where
  "second_ok3 b c \<longleftrightarrow>
     (if b = 0xE0 then 0xA0 \<le> c \<and> c \<le> 0xBF
      else if b = 0xED then 0x80 \<le> c \<and> c \<le> 0x9F
      else is_continuation c)"

definition second_ok4 :: "u8 \<Rightarrow> u8 \<Rightarrow> bool" where
  "second_ok4 b c \<longleftrightarrow>
     (if b = 0xF0 then 0x90 \<le> c \<and> c \<le> 0xBF
      else if b = 0xF4 then 0x80 \<le> c \<and> c \<le> 0x8F
      else is_continuation c)"

text \<open>
  The next character or ill-formed part of a non-empty string: whether it is well-formed,
  and how many bytes it takes.
\<close>

fun utf8_next :: "bytes \<Rightarrow> bool \<times> nat" where
  "utf8_next [] = (False, 0)"
| "utf8_next (b # r) =
     (if b < 0x80 then (True, 1)
      else if 0xC2 \<le> b \<and> b \<le> 0xDF then
        (if is_continuation (safe_get r 0) then (True, 2) else (False, 1))
      else if 0xE0 \<le> b \<and> b \<le> 0xEF then
        (if \<not> second_ok3 b (safe_get r 0) then (False, 1)
         else if \<not> is_continuation (safe_get r (Suc 0)) then (False, 2)
         else (True, 3))
      else if 0xF0 \<le> b \<and> b \<le> 0xF4 then
        (if \<not> second_ok4 b (safe_get r 0) then (False, 1)
         else if \<not> is_continuation (safe_get r (Suc 0)) then (False, 2)
         else if \<not> is_continuation (safe_get r (Suc (Suc 0))) then (False, 3)
         else (True, 4))
      else (False, 1))"

lemma not_continuation_0 [simp]: "\<not> is_continuation 0" "\<not> second_ok3 b 0" "\<not> second_ok4 b 0"
  by (auto simp: is_continuation_def second_ok3_def second_ok4_def)

lemma utf8_next_pos: "s \<noteq> [] \<Longrightarrow> 0 < snd (utf8_next s)"
  by (cases s) auto

lemma utf8_next_append:
  assumes "utf8_next s = (True, n)"
  shows "n \<le> length s" and "utf8_next (take n s @ t) = (True, n)"
proof -
  consider (nil) "s = []" | (one) b where "s = [b]" | (two) b c where "s = [b, c]"
    | (three) b c d where "s = [b, c, d]" | (four) b c d e r where "s = b # c # d # e # r"
    by (cases s; cases "tl s"; cases "tl (tl s)"; cases "tl (tl (tl s))") auto
  then have "n \<le> length s \<and> utf8_next (take n s @ t) = (True, n)"
    using assms
    by cases (auto split: if_splits simp: eval_nat_numeral)
  then show "n \<le> length s" and "utf8_next (take n s @ t) = (True, n)"
    by auto
qed

section \<open>Validity and lossy conversion\<close>

function utf8_valid :: "bytes \<Rightarrow> bool" where
  "utf8_valid s =
     (if s = [] then True
      else let (ok, n) = utf8_next s in ok \<and> utf8_valid (drop n s))"
  by pat_completeness auto
termination
proof (relation "measure length", goal_cases)
  case 1
  show ?case by simp
next
  case (2 s x ok n)
  then have "utf8_next s = (ok, n)" by simp
  with 2(1) have "0 < n" by (metis utf8_next_pos snd_conv)
  with 2(1) show ?case by simp
qed

function from_utf8_lossy :: "bytes \<Rightarrow> str" where
  "from_utf8_lossy s =
     (if s = [] then []
      else let (ok, n) = utf8_next s in
        (if ok then take n s else [0xEF, 0xBF, 0xBD]) @ from_utf8_lossy (drop n s))"
  by pat_completeness auto
termination
proof (relation "measure length", goal_cases)
  case 1
  show ?case by simp
next
  case (2 s x ok n)
  then have "utf8_next s = (ok, n)" by simp
  with 2(1) have "0 < n" by (metis utf8_next_pos snd_conv)
  with 2(1) show ?case by simp
qed

declare utf8_valid.simps [simp del] from_utf8_lossy.simps [simp del]

lemma utf8_valid_Nil [simp]: "utf8_valid []"
  by (simp add: utf8_valid.simps)

lemma utf8_valid_next:
  "s \<noteq> [] \<Longrightarrow> utf8_next s = (True, n) \<Longrightarrow> utf8_valid s \<longleftrightarrow> utf8_valid (drop n s)"
  by (simp add: utf8_valid.simps [of s])

lemma utf8_valid_append: "utf8_valid s \<Longrightarrow> utf8_valid t \<Longrightarrow> utf8_valid (s @ t)"
proof (induction s rule: utf8_valid.induct)
  case (1 s)
  show ?case
  proof (cases "s = []")
    case True
    with "1.prems" show ?thesis by simp
  next
    case False
    with "1.prems"(1) obtain n where n: "utf8_next s = (True, n)" and d: "utf8_valid (drop n s)"
      by (auto simp: utf8_valid.simps [of s] split: prod.splits)
    note len = utf8_next_append(1) [OF n]
    have "take n s @ (drop n s @ t) = s @ t" by (simp flip: append_assoc)
    then have st: "utf8_next (s @ t) = (True, n)"
      using utf8_next_append(2) [OF n, of "drop n s @ t"] by (simp only:)
    have "utf8_valid (drop n s @ t)"
      using "1.IH" False n d "1.prems"(2) by (auto simp: prod_eq_iff)
    with False st len show ?thesis by (simp add: utf8_valid_next)
  qed
qed

lemma utf8_valid_take_next:
  assumes "utf8_next s = (True, n)"
  shows "utf8_valid (take n s)"
proof (cases "take n s = []")
  case True
  then show ?thesis by (simp only: utf8_valid_Nil)
next
  case False
  have t: "utf8_next (take n s) = (True, n)"
    using utf8_next_append(2) [OF assms, of "[]"] by simp
  show ?thesis using utf8_valid_next [OF False t] by simp
qed

lemma utf8_valid_ascii: "\<forall>b \<in> set s. b < 0x80 \<Longrightarrow> utf8_valid s"
proof (induction s)
  case (Cons b s)
  then have "utf8_next (b # s) = (True, 1)" by simp
  with Cons show ?case by (simp add: utf8_valid_next)
qed simp

lemma from_utf8_lossy_valid: "utf8_valid (from_utf8_lossy s)"
proof (induction s rule: from_utf8_lossy.induct)
  case (1 s)
  have bad: "utf8_valid [0xEF, 0xBF, 0xBD]"
    by (simp add: utf8_valid.simps second_ok3_def is_continuation_def)
  show ?case
  proof (cases "s = []")
    case True
    then show ?thesis by (simp add: from_utf8_lossy.simps)
  next
    case False
    obtain ok n where n: "utf8_next s = (ok, n)" by (cases "utf8_next s")
    have "utf8_valid (if ok then take n s else [0xEF, 0xBF, 0xBD])"
      using bad n utf8_valid_take_next by auto
    moreover have "utf8_valid (from_utf8_lossy (drop n s))"
      using "1.IH" False n by (auto simp: prod_eq_iff)
    ultimately show ?thesis
      using False n by (simp add: from_utf8_lossy.simps [of s] utf8_valid_append)
  qed
qed

lemma from_utf8_lossy_id: "utf8_valid s \<Longrightarrow> from_utf8_lossy s = s"
proof (induction s rule: from_utf8_lossy.induct)
  case (1 s)
  then show ?case
    by (auto simp: from_utf8_lossy.simps [of s] utf8_valid.simps [of s] split: prod.splits)
qed

text \<open>\<open>String::from_utf8\<close>, then \<open>from_utf8_lossy\<close> on the bytes it refuses.\<close>

definition from_utf8 :: "bytes \<Rightarrow> str option" where
  "from_utf8 bs = (if utf8_valid bs then Some bs else None)"

definition is_char_boundary :: "str \<Rightarrow> nat \<Rightarrow> bool" where
  "is_char_boundary s i \<longleftrightarrow>
     i = 0 \<or> i = length s \<or> (i < length s \<and> \<not> is_continuation (safe_get s i))"

text \<open>\<open>str::get(..n)\<close>: \<open>None\<close> past the end or inside a character.\<close>

definition get_to :: "str \<Rightarrow> nat \<Rightarrow> str option" where
  "get_to s n = (if n \<le> length s \<and> is_char_boundary s n then Some (take n s) else None)"

lemma safe_get_nth: "i < length s \<Longrightarrow> safe_get s i = s ! i"
  by (induction s i rule: safe_get.induct) auto

end
