(* ===== verification/HttpHeaders.thy ===== *)
theory HttpHeaders
  imports Utf8 "HOL-Library.DAList"
begin

text \<open>
  The header map of the \<open>trillium\<close> crate is not part of this repository: it is a
  parameter of every definition that reads or writes headers, a record of the
  \<open>trillium::Headers\<close> methods the crate calls. \<open>headers_ok\<close> states what their
  documentation promises: names are compared without regard to ASCII case, \<open>insert\<close>
  replaces, \<open>append\<close> adds after the values already there, \<open>get_str\<close> reads a header
  that has one value, and \<open>iter\<close> visits each present name once, in an order that is
  not specified; \<open>as_str\<close> yields the value when it is UTF-8. \<open>dalist_headers\<close> is one header map that keeps these promises; it only
  serves to evaluate concrete examples.
\<close>

section \<open>The operations\<close>

text \<open>Header values are byte strings; \<open>h_as_str\<close> is \<open>HeaderValue::as_str\<close>.\<close>

record 'h headers_api =
  h_new :: 'h
  h_insert :: "'h \<Rightarrow> str \<Rightarrow> str \<Rightarrow> 'h"
  h_append :: "'h \<Rightarrow> str \<Rightarrow> str \<Rightarrow> 'h"
  h_remove :: "'h \<Rightarrow> str \<Rightarrow> 'h"
  h_get_values :: "'h \<Rightarrow> str \<Rightarrow> str list option"
  h_get_str :: "'h \<Rightarrow> str \<Rightarrow> str option"
  h_as_str :: "str \<Rightarrow> str option"
  h_iter :: "'h \<Rightarrow> (str \<times> str list) list"

definition header_values :: "'h headers_api \<Rightarrow> 'h \<Rightarrow> str \<Rightarrow> str list" where
  "header_values H h k = (case h_get_values H h k of None \<Rightarrow> [] | Some vs \<Rightarrow> vs)"

section \<open>What the documentation promises\<close>

definition headers_ok :: "'h headers_api \<Rightarrow> bool" where
  "headers_ok H \<longleftrightarrow>
     (\<forall>k. h_get_values H (h_new H) k = None) \<and>
     (\<forall>h k v k'. h_get_values H (h_insert H h k v) k' =
        (if eq_ignore_ascii_case k k' then Some [v] else h_get_values H h k')) \<and>
     (\<forall>h k v k'. h_get_values H (h_append H h k v) k' =
        (if eq_ignore_ascii_case k k' then Some (header_values H h k' @ [v])
         else h_get_values H h k')) \<and>
     (\<forall>h k k'. h_get_values H (h_remove H h k) k' =
        (if eq_ignore_ascii_case k k' then None else h_get_values H h k')) \<and>
     (\<forall>h k. h_get_values H h k = None \<longrightarrow> h_get_str H h k = None) \<and>
     (\<forall>h k v. h_get_values H h k = Some [v] \<longrightarrow> h_get_str H h k = h_as_str H v) \<and>
     (\<forall>v. h_as_str H v = from_utf8 v) \<and>
     (\<forall>h. distinct (map (to_ascii_lowercase \<circ> fst) (h_iter H h))) \<and>
     (\<forall>h k. map_of (map (\<lambda>(n, vs). (to_ascii_lowercase n, vs)) (h_iter H h)) (to_ascii_lowercase k)
        = h_get_values H h k)"

lemmas h_get_values_new [simp] =
  headers_ok_def [THEN iffD1, THEN conjunct1, rule_format]

lemmas h_get_values_insert =
  headers_ok_def [THEN iffD1, THEN conjunct2, THEN conjunct1, rule_format]

lemmas h_get_values_append =
  headers_ok_def [THEN iffD1, THEN conjunct2, THEN conjunct2, THEN conjunct1, rule_format]

lemmas h_get_values_remove =
  headers_ok_def [THEN iffD1, THEN conjunct2, THEN conjunct2, THEN conjunct2, THEN conjunct1, rule_format]

lemmas h_get_str_None [simp] =
  headers_ok_def [THEN iffD1, THEN conjunct2, THEN conjunct2, THEN conjunct2, THEN conjunct2, THEN conjunct1, rule_format]

lemmas h_get_str_single =
  headers_ok_def [THEN iffD1, THEN conjunct2, THEN conjunct2, THEN conjunct2, THEN conjunct2, THEN conjunct2, THEN conjunct1, rule_format]

lemmas h_as_str_eq =
  headers_ok_def [THEN iffD1, THEN conjunct2, THEN conjunct2, THEN conjunct2, THEN conjunct2, THEN conjunct2, THEN conjunct2, THEN conjunct1, rule_format]

lemmas h_iter_distinct =
  headers_ok_def [THEN iffD1, THEN conjunct2, THEN conjunct2, THEN conjunct2, THEN conjunct2, THEN conjunct2, THEN conjunct2, THEN conjunct2, THEN conjunct1, rule_format]

lemmas h_iter_map_of =
  headers_ok_def [THEN iffD1, THEN conjunct2, THEN conjunct2, THEN conjunct2, THEN conjunct2, THEN conjunct2, THEN conjunct2, THEN conjunct2, THEN conjunct2, rule_format]

lemma h_as_str_valid [simp]: "headers_ok H \<Longrightarrow> utf8_valid v \<Longrightarrow> h_as_str H v = Some v"
  by (simp add: h_as_str_eq from_utf8_def)

lemma h_as_str_SomeD: "headers_ok H \<Longrightarrow> h_as_str H v = Some s \<Longrightarrow> s = v \<and> utf8_valid v"
  by (auto simp: h_as_str_eq from_utf8_def split: if_splits)

lemma h_get_str_inserted:
  "headers_ok H \<Longrightarrow> utf8_valid v \<Longrightarrow> h_get_str H (h_insert H h k v) k = Some v"
  by (simp add: h_get_str_single [where v = v] h_get_values_insert)

lemma h_get_str_new [simp]: "headers_ok H \<Longrightarrow> h_get_str H (h_new H) k = None"
  by simp

lemma h_get_str_removed [simp]: "headers_ok H \<Longrightarrow> h_get_str H (h_remove H h k) k = None"
  by (simp add: h_get_values_remove)

lemma header_values_new [simp]: "headers_ok H \<Longrightarrow> header_values H (h_new H) k = []"
  by (simp add: header_values_def)

lemma header_values_append:
  "headers_ok H \<Longrightarrow> header_values H (h_append H h k v) k' =
     header_values H h k' @ (if eq_ignore_ascii_case k k' then [v] else [])"
  by (simp add: header_values_def h_get_values_append)

lemma h_iter_header_values:
  assumes "headers_ok H"
  shows "concat (map (\<lambda>(n, vs). if to_ascii_lowercase n = k then vs else []) (h_iter H h))
    = (if to_ascii_lowercase k = k then header_values H h k else [])"
proof -
  define xs where "xs = map (\<lambda>(n, vs). (to_ascii_lowercase n, vs)) (h_iter H h)"
  have c: "concat (map (\<lambda>(n, vs). if to_ascii_lowercase n = k then vs else []) (h_iter H h))
    = concat (map (\<lambda>(n, vs). if n = k then vs else []) xs)"
    unfolding xs_def map_map by (rule arg_cong [where f = concat]) auto
  have d: "distinct (map fst xs)"
    using h_iter_distinct [OF assms, of h] by (simp add: xs_def comp_def case_prod_beta)
  have "concat (map (\<lambda>(n, vs). if n = k then vs else []) xs)
    = (case map_of xs k of None \<Rightarrow> [] | Some vs \<Rightarrow> vs)"
    using d
  proof (induction xs)
    case (Cons x xs)
    have "k \<notin> fst ` set xs \<Longrightarrow> concat (map (\<lambda>(n, vs). if n = k then vs else []) xs) = []"
      by (induction xs) auto
    with Cons show ?case by (cases x) auto
  qed simp
  moreover have "map_of xs k = (if to_ascii_lowercase k = k then h_get_values H h k else None)"
  proof (cases "to_ascii_lowercase k = k")
    case True
    then show ?thesis using h_iter_map_of [OF assms, of h k] by (simp add: xs_def)
  next
    case False
    have "k \<notin> fst ` set xs"
    proof
      assume "k \<in> fst ` set xs"
      then obtain n where "k = to_ascii_lowercase n" by (auto simp: xs_def)
      with False show False by simp
    qed
    with False show ?thesis by (simp add: map_of_eq_None_iff)
  qed
  ultimately show ?thesis using c by (simp add: header_values_def)
qed

section \<open>Header names the crate uses\<close>

lemma eq_ignore_ascii_case_lower:
  "to_ascii_lowercase k = k \<Longrightarrow> to_ascii_lowercase k' = k' \<Longrightarrow>
   eq_ignore_ascii_case k k' \<longleftrightarrow> k = k'"
  by (simp add: eq_ignore_ascii_case_def)

lemma lower_names [simp]:
  "to_ascii_lowercase (lit ''grpc-status'') = lit ''grpc-status''"
  "to_ascii_lowercase (lit ''grpc-message'') = lit ''grpc-message''"
  "to_ascii_lowercase (lit ''grpc-encoding'') = lit ''grpc-encoding''"
  "to_ascii_lowercase (lit ''grpc-accept-encoding'') = lit ''grpc-accept-encoding''"
  "to_ascii_lowercase (lit ''grpc-timeout'') = lit ''grpc-timeout''"
  "to_ascii_lowercase (lit ''content-type'') = lit ''content-type''"
  "to_ascii_lowercase (lit ''te'') = lit ''te''"
  by (simp_all add: to_ascii_lowercase_def byte_simps lower_byte_def)

section \<open>Values that travel in one header\<close>

text \<open>
  The interface between a component that has a wire form for its values (\<open>grpc-status\<close>
  codes, \<open>grpc-encoding\<close> tokens, \<open>grpc-timeout\<close> durations) and the code that puts them
  into a header and reads them back: a printer, a parser, and the values they agree on.
\<close>

locale wire_token =
  fixes show_token :: "'a \<Rightarrow> str"
    and read_token :: "str \<Rightarrow> 'a option"
    and valid :: "'a \<Rightarrow> bool"
  assumes read_show: "valid x \<Longrightarrow> read_token (show_token x) = Some x"
    and show_utf8: "valid x \<Longrightarrow> utf8_valid (show_token x)"
begin

lemma show_inj: "valid x \<Longrightarrow> valid y \<Longrightarrow> show_token x = show_token y \<longleftrightarrow> x = y"
  by (metis read_show option.inject)

lemma through_header:
  "headers_ok H \<Longrightarrow> valid x \<Longrightarrow>
   Option.bind (h_get_str H (h_insert H h k (show_token x)) k) read_token = Some x"
  by (simp add: h_get_str_inserted show_utf8 read_show)

end

section \<open>A concrete header map for examples\<close>

definition dalist_headers :: "(str, str list) alist headers_api" where
  "dalist_headers = \<lparr>
     h_new = DAList.empty,
     h_insert = (\<lambda>h k v. DAList.update (to_ascii_lowercase k) [v] h),
     h_append = (\<lambda>h k v. DAList.update (to_ascii_lowercase k)
        ((case DAList.lookup h (to_ascii_lowercase k) of None \<Rightarrow> [] | Some vs \<Rightarrow> vs) @ [v]) h),
     h_remove = (\<lambda>h k. DAList.delete (to_ascii_lowercase k) h),
     h_get_values = (\<lambda>h k. DAList.lookup h (to_ascii_lowercase k)),
     h_get_str = (\<lambda>h k. case DAList.lookup h (to_ascii_lowercase k) of
        Some [v] \<Rightarrow> from_utf8 v | _ \<Rightarrow> None),
     h_as_str = from_utf8,
     h_iter = (\<lambda>h. filter (\<lambda>(n, _). to_ascii_lowercase n = n) (DAList.impl_of h))\<rparr>"

lemma headers_ok_dalist: "headers_ok dalist_headers"
proof -
  have d: "distinct (map (to_ascii_lowercase \<circ> fst)
      (filter (\<lambda>(n, _). to_ascii_lowercase n = n) (DAList.impl_of h)))" for h :: "(str, str list) alist"
  proof -
    have "map (to_ascii_lowercase \<circ> fst) (filter (\<lambda>(n, _). to_ascii_lowercase n = n) (DAList.impl_of h))
      = map fst (filter (\<lambda>(n, _). to_ascii_lowercase n = n) (DAList.impl_of h))"
      by (auto simp: map_eq_conv)
    then show ?thesis by (simp only: distinct_map_filter impl_of_distinct)
  qed
  have m: "map_of (map (\<lambda>(n, vs). (to_ascii_lowercase n, vs))
      (filter (\<lambda>(n, _). to_ascii_lowercase n = n) xs)) (to_ascii_lowercase k) = map_of xs (to_ascii_lowercase k)"
    for xs :: "(str \<times> str list) list" and k
    by (induction xs) auto
  have i: "map_of (DAList.impl_of h) = DAList.lookup h" for h :: "(str, str list) alist"
    by (simp add: DAList.lookup.rep_eq)
  show ?thesis
    unfolding headers_ok_def
  proof (intro conjI allI impI, goal_cases)
    case (8 h)
    show ?case using d by (simp add: dalist_headers_def)
  next
    case (9 h k)
    show ?case using m by (simp add: dalist_headers_def i)
  qed (auto simp: dalist_headers_def DAList.lookup_update eq_ignore_ascii_case_def
      header_values_def from_utf8_def split: option.splits if_splits)
qed

end
