(* ===== verification/Metadata.thy ===== *)
theory Metadata
  imports HttpHeaders
begin

text \<open>
  \<open>src/metadata.rs\<close>: the ordered multi-map of custom metadata, its validated inserts
  and its passage to and from the transport's headers. The base64 engine
  (\<open>STANDARD_NO_PAD\<close> of the \<open>base64\<close> crate) is a parameter; \<open>base64_ok\<close> is its
  documented round trip. The invariant \<open>metadata_wf\<close> says what the private field
  \<open>entries\<close> can hold; \<open>documented_entry\<close> is the stricter rule of the documentation, which the
  inserts enforce and \<open>from_headers\<close>, whose text values only have to be UTF-8, does not.
\<close>

section \<open>The base64 engine\<close>

record base64_api =
  b64_encode :: "bytes \<Rightarrow> str"
  b64_decode :: "str \<Rightarrow> bytes option"

definition base64_ok :: "base64_api \<Rightarrow> bool" where
  "base64_ok B \<longleftrightarrow> (\<forall>b. b64_decode B (b64_encode B b) = Some b)"

section \<open>Data\<close>

datatype metadata_value = Ascii str | Binary bytes

record metadata =
  entries :: "(str \<times> metadata_value) list"

datatype metadata_error =
    InvalidKey str
  | ReservedKey str
  | AsciiKeyHasBinSuffix str
  | BinaryKeyMissingBinSuffix str
  | InvalidAsciiValue

text \<open>The errors' \<open>Display\<close>; \<open>dbg\<close> is the \<open>Debug\<close> formatting of strings.\<close>

fun metadata_error_display :: "(str \<Rightarrow> str) \<Rightarrow> metadata_error \<Rightarrow> str" where
  "metadata_error_display dbg (InvalidKey k) =
     lit ''metadata key '' @ dbg k @ lit '' contains invalid characters (must match [0-9a-z_'' @ [0x5C] @ lit ''-.]+)''"
| "metadata_error_display dbg (ReservedKey k) =
     lit ''metadata key '' @ dbg k @ lit '' is reserved by the gRPC framework''"
| "metadata_error_display dbg (AsciiKeyHasBinSuffix k) =
     lit ''ASCII metadata key '' @ dbg k @ lit '' must not end in -bin''"
| "metadata_error_display dbg (BinaryKeyMissingBinSuffix k) =
     lit ''binary metadata key '' @ dbg k @ lit '' must end in -bin''"
| "metadata_error_display dbg InvalidAsciiValue =
     lit ''ASCII metadata value contains non-printable bytes''"

text \<open>\<open>MetadataValue::as_ascii\<close> and \<open>as_binary\<close>.\<close>

fun as_ascii :: "metadata_value \<Rightarrow> str option" where
  "as_ascii (Ascii s) = Some s"
| "as_ascii (Binary b) = None"

fun as_binary :: "metadata_value \<Rightarrow> bytes option" where
  "as_binary (Binary b) = Some b"
| "as_binary (Ascii s) = None"

section \<open>Key and value rules\<close>

definition key_byte :: "u8 \<Rightarrow> bool" where
  "key_byte b \<longleftrightarrow>
     (0x30 \<le> b \<and> b \<le> 0x39) \<or> (0x61 \<le> b \<and> b \<le> 0x7A) \<or> b = 0x5F \<or> b = 0x2D \<or> b = 0x2E"

definition is_valid_key :: "str \<Rightarrow> bool" where
  "is_valid_key key \<longleftrightarrow> key \<noteq> [] \<and> list_all key_byte key"

definition validate_key :: "str \<Rightarrow> metadata_error + unit" where
  "validate_key key = (if is_valid_key key then Inr () else Inl (InvalidKey key))"

definition is_valid_ascii_value :: "str \<Rightarrow> bool" where
  "is_valid_ascii_value value \<longleftrightarrow> list_all printable value"

definition is_reserved :: "str \<Rightarrow> bool" where
  "is_reserved key \<longleftrightarrow>
     starts_with key (lit ''grpc-'') \<or>
     key \<in> {lit ''te'', lit ''content-type'', lit ''user-agent'', lit ''host'', lit ''connection''}"

section \<open>Operations\<close>

definition metadata_new :: metadata where
  "metadata_new = \<lparr>entries = []\<rparr>"

definition metadata_is_empty :: "metadata \<Rightarrow> bool" where
  "metadata_is_empty m \<longleftrightarrow> entries m = []"

definition metadata_len :: "metadata \<Rightarrow> nat" where
  "metadata_len m = length (entries m)"

text \<open>The inserts return the new map, or the error; on an error the map is untouched.\<close>

definition insert_ascii :: "metadata \<Rightarrow> str \<Rightarrow> str \<Rightarrow> metadata_error + metadata" where
  "insert_ascii m key value =
     and_then (validate_key key) (\<lambda>_.
       if is_reserved key then Inl (ReservedKey key)
       else if ends_with key (lit ''-bin'') then Inl (AsciiKeyHasBinSuffix key)
       else if \<not> is_valid_ascii_value value then Inl InvalidAsciiValue
       else Inr (m\<lparr>entries := entries m @ [(key, Ascii value)]\<rparr>))"

definition insert_binary :: "metadata \<Rightarrow> str \<Rightarrow> bytes \<Rightarrow> metadata_error + metadata" where
  "insert_binary m key value =
     and_then (validate_key key) (\<lambda>_.
       if is_reserved key then Inl (ReservedKey key)
       else if \<not> ends_with key (lit ''-bin'') then Inl (BinaryKeyMissingBinSuffix key)
       else Inr (m\<lparr>entries := entries m @ [(key, Binary value)]\<rparr>))"

text \<open>\<open>Iterator::find_map\<close>.\<close>

fun find_map :: "('a \<Rightarrow> 'b option) \<Rightarrow> 'a list \<Rightarrow> 'b option" where
  "find_map f [] = None"
| "find_map f (x # xs) = (case f x of None \<Rightarrow> find_map f xs | Some y \<Rightarrow> Some y)"

definition get_ascii :: "metadata \<Rightarrow> str \<Rightarrow> str option" where
  "get_ascii m key =
     find_map (\<lambda>(k, v). case v of Ascii s \<Rightarrow> if k = key then Some s else None | _ \<Rightarrow> None) (entries m)"

definition get_binary :: "metadata \<Rightarrow> str \<Rightarrow> bytes option" where
  "get_binary m key =
     find_map (\<lambda>(k, v). case v of Binary b \<Rightarrow> if k = key then Some b else None | _ \<Rightarrow> None) (entries m)"

definition metadata_iter :: "metadata \<Rightarrow> (str \<times> metadata_value) list" where
  "metadata_iter m = entries m"

text \<open>
  \<open>Metadata::from_headers\<close>: the inner loop over the values of one header, and the outer
  loop over the headers.
\<close>

definition pluck_value :: "'h headers_api \<Rightarrow> base64_api \<Rightarrow> str \<Rightarrow> str \<Rightarrow> (str \<times> metadata_value) list" where
  "pluck_value H B key value =
     (if ends_with key (lit ''-bin'') then
        (case b64_decode B value of Some decoded \<Rightarrow> [(key, Binary decoded)] | None \<Rightarrow> [])
      else (case h_as_str H value of Some s \<Rightarrow> [(key, Ascii s)] | None \<Rightarrow> []))"

fun pluck_header :: "'h headers_api \<Rightarrow> base64_api \<Rightarrow> str \<times> str list \<Rightarrow> (str \<times> metadata_value) list" where
  "pluck_header H B (name, values) =
     (let key = to_ascii_lowercase name in
      if is_reserved key \<or> \<not> is_valid_key key then []
      else concat (map (pluck_value H B key) values))"

definition from_headers :: "'h headers_api \<Rightarrow> base64_api \<Rightarrow> 'h \<Rightarrow> metadata" where
  "from_headers H B headers = \<lparr>entries = concat (map (pluck_header H B) (h_iter H headers))\<rparr>"

text \<open>\<open>Metadata::write_into\<close>.\<close>

definition write_entry :: "'h headers_api \<Rightarrow> base64_api \<Rightarrow> str \<times> metadata_value \<Rightarrow> 'h \<Rightarrow> 'h" where
  "write_entry H B e headers =
     (case e of
        (key, Ascii v) \<Rightarrow> h_append H headers key v
      | (key, Binary b) \<Rightarrow> h_append H headers key (b64_encode B b))"

definition metadata_write_into :: "'h headers_api \<Rightarrow> base64_api \<Rightarrow> metadata \<Rightarrow> 'h \<Rightarrow> 'h" where
  "metadata_write_into H B m headers = fold (write_entry H B) (entries m) headers"

section \<open>The invariant\<close>

fun entry_wf :: "str \<times> metadata_value \<Rightarrow> bool" where
  "entry_wf (k, v) \<longleftrightarrow>
     is_valid_key k \<and> \<not> is_reserved k \<and>
     (case v of Ascii s \<Rightarrow> \<not> ends_with k (lit ''-bin'') \<and> utf8_valid s
              | Binary b \<Rightarrow> ends_with k (lit ''-bin''))"

definition metadata_wf :: "metadata \<Rightarrow> bool" where
  "metadata_wf m \<longleftrightarrow> list_all entry_wf (entries m)"

lemma printable_utf8: "list_all printable s \<Longrightarrow> utf8_valid s"
  by (rule utf8_valid_ascii)
     (auto simp: list_all_iff printable_def word_le_nat_alt word_less_nat_alt)

lemma metadata_wf_new [wf_intros]: "metadata_wf metadata_new"
  by (simp add: metadata_wf_def metadata_new_def)

lemma insert_ascii_eq_Inr:
  "insert_ascii m key value = Inr m' \<longleftrightarrow>
     is_valid_key key \<and> \<not> is_reserved key \<and> \<not> ends_with key (lit ''-bin'') \<and>
     list_all printable value \<and> m' = m\<lparr>entries := entries m @ [(key, Ascii value)]\<rparr>"
  by (auto simp: insert_ascii_def validate_key_def is_valid_ascii_value_def and_then_eq_Inr)

lemma insert_binary_eq_Inr:
  "insert_binary m key value = Inr m' \<longleftrightarrow>
     is_valid_key key \<and> \<not> is_reserved key \<and> ends_with key (lit ''-bin'') \<and>
     m' = m\<lparr>entries := entries m @ [(key, Binary value)]\<rparr>"
  by (auto simp: insert_binary_def validate_key_def and_then_eq_Inr)

lemma insert_ascii_wf [wf_intros]:
  "metadata_wf m \<Longrightarrow> insert_ascii m key value = Inr m' \<Longrightarrow> metadata_wf m'"
  by (auto simp: metadata_wf_def insert_ascii_eq_Inr printable_utf8)

lemma insert_binary_wf [wf_intros]:
  "metadata_wf m \<Longrightarrow> insert_binary m key value = Inr m' \<Longrightarrow> metadata_wf m'"
  by (auto simp: metadata_wf_def insert_binary_eq_Inr)

lemma pluck_value_wf:
  "headers_ok H \<Longrightarrow> is_valid_key key \<Longrightarrow> \<not> is_reserved key \<Longrightarrow>
   list_all entry_wf (pluck_value H B key value)"
  by (auto simp: pluck_value_def split: option.splits dest: h_as_str_SomeD)

declare entry_wf.simps [simp del]

lemma pluck_header_wf: "headers_ok H \<Longrightarrow> list_all entry_wf (pluck_header H B nv)"
proof (cases nv)
  case (Pair name vs)
  assume ok: "headers_ok H"
  show ?thesis
    unfolding Pair using pluck_value_wf [OF ok, of "to_ascii_lowercase name" B]
    by (auto simp: Let_def list_all_iff)
qed

lemma from_headers_wf [wf_intros]: "headers_ok H \<Longrightarrow> metadata_wf (from_headers H B h)"
  using pluck_header_wf [of H B]
  by (auto simp: metadata_wf_def from_headers_def list_all_iff)

section \<open>The values stored under a key\<close>

definition values_of :: "metadata \<Rightarrow> str \<Rightarrow> metadata_value list" where
  "values_of m k = map snd (filter (\<lambda>e. fst e = k) (entries m))"

text \<open>The wire form of a value, and its decoding under a key.\<close>

fun wire_value :: "base64_api \<Rightarrow> metadata_value \<Rightarrow> str" where
  "wire_value B (Ascii s) = s"
| "wire_value B (Binary b) = b64_encode B b"

lemma write_entry_eq: "write_entry H B e h = h_append H h (fst e) (wire_value B (snd e))"
  by (cases e; cases "snd e") (auto simp: write_entry_def)

lemma key_byte_lower: "key_byte b \<Longrightarrow> lower_byte b = b"
  by (auto simp: key_byte_def lower_byte_def word_le_nat_alt)

lemma is_valid_key_lower: "is_valid_key k \<Longrightarrow> to_ascii_lowercase k = k"
  by (auto simp: is_valid_key_def to_ascii_lowercase_def list_all_iff key_byte_lower
      intro!: map_idI)

lemma entry_wf_lower: "entry_wf e \<Longrightarrow> to_ascii_lowercase (fst e) = fst e"
  by (cases e) (auto simp: entry_wf.simps is_valid_key_lower)

lemma header_values_write_into:
  assumes "headers_ok H" and "metadata_wf m" and "to_ascii_lowercase k = k"
  shows "header_values H (metadata_write_into H B m h) k =
    header_values H h k @ map (wire_value B) (values_of m k)"
proof -
  have "header_values H (fold (write_entry H B) es h) k =
      header_values H h k @ map (wire_value B) (map snd (filter (\<lambda>e. fst e = k) es))"
    if "list_all entry_wf es" for es
    using that
  proof (induction es arbitrary: h)
    case (Cons e es)
    then have "eq_ignore_ascii_case (fst e) k \<longleftrightarrow> fst e = k"
      using assms(3) by (simp add: eq_ignore_ascii_case_lower entry_wf_lower)
    with Cons assms(1) show ?case
      by (auto simp: write_entry_eq header_values_append)
  qed simp
  with assms(2) show ?thesis
    by (simp add: metadata_write_into_def metadata_wf_def values_of_def)
qed

text \<open>Headers outside the map's keys are not touched; in particular the reserved ones.\<close>

lemma get_values_write_into_other:
  assumes "headers_ok H" and "metadata_wf m" and "to_ascii_lowercase k = k"
    and "\<forall>e \<in> set (entries m). fst e \<noteq> k"
  shows "h_get_values H (metadata_write_into H B m h) k = h_get_values H h k"
proof -
  have "h_get_values H (fold (write_entry H B) es h) k = h_get_values H h k"
    if "list_all entry_wf es" and "\<forall>e \<in> set es. fst e \<noteq> k" for es
    using that
  proof (induction es arbitrary: h)
    case (Cons e es)
    then have "\<not> eq_ignore_ascii_case (fst e) k"
      using assms(3) by (simp add: eq_ignore_ascii_case_lower entry_wf_lower)
    with Cons assms(1) show ?case
      by (auto simp: write_entry_eq h_get_values_append)
  qed simp
  with assms(2,4) show ?thesis
    by (simp add: metadata_write_into_def metadata_wf_def)
qed

lemma get_values_write_into_reserved:
  assumes "headers_ok H" and "metadata_wf m" and "to_ascii_lowercase k = k" and "is_reserved k"
  shows "h_get_values H (metadata_write_into H B m h) k = h_get_values H h k"
  using assms(2,4)
  by (intro get_values_write_into_other assms(1-3))
     (auto simp: metadata_wf_def list_all_iff entry_wf.simps)

text \<open>What \<open>from_headers\<close> stores under a key.\<close>

lemma pluck_header_key: "e \<in> set (pluck_header H B (n, vs)) \<Longrightarrow> fst e = to_ascii_lowercase n"
  by (auto simp: Let_def pluck_value_def split: if_splits option.splits)

lemma values_of_from_headers:
  assumes ok: "headers_ok H" and k: "is_valid_key k" "\<not> is_reserved k"
  shows "values_of (from_headers H B h) k =
    map snd (concat (map (pluck_value H B k) (header_values H h k)))"
proof -
  have low: "to_ascii_lowercase k = k" using k(1) by (rule is_valid_key_lower)
  have pv: "filter (\<lambda>e. fst e = k') (pluck_value H B k' v) = pluck_value H B k' v" for k' v
    by (auto simp: pluck_value_def split: option.splits)
  have one: "filter (\<lambda>e. fst e = k) (pluck_header H B nv) =
      concat (map (pluck_value H B k) ((\<lambda>(n, vs). if to_ascii_lowercase n = k then vs else []) nv))"
    for nv
  proof (cases nv)
    case (Pair n vs)
    show ?thesis
    proof (cases "to_ascii_lowercase n = k")
      case True
      with Pair k show ?thesis by (simp add: filter_concat_map pv)
    next
      case False
      with Pair pluck_header_key [of _ H B n vs] show ?thesis
        by (auto simp: filter_empty_conv simp del: pluck_header.simps)
    qed
  qed
  have "filter (\<lambda>e. fst e = k) (entries (from_headers H B h)) =
      concat (map (\<lambda>nv. concat (map (pluck_value H B k)
        ((\<lambda>(n, vs). if to_ascii_lowercase n = k then vs else []) nv))) (h_iter H h))"
    by (simp add: from_headers_def filter_concat_map one del: pluck_header.simps)
  also have "\<dots> = concat (map (pluck_value H B k)
      (concat (map (\<lambda>(n, vs). if to_ascii_lowercase n = k then vs else []) (h_iter H h))))"
    by (rule concat_map_concat)
  finally show ?thesis
    by (simp add: values_of_def h_iter_header_values [OF ok] low)
qed

lemma pluck_wire_value:
  assumes "headers_ok H" and "base64_ok B" and "entry_wf (k, v)"
  shows "pluck_value H B k (wire_value B v) = [(k, v)]"
  using assms by (cases v) (auto simp: pluck_value_def entry_wf.simps base64_ok_def)

lemma values_of_not_allowed:
  "metadata_wf m \<Longrightarrow> \<not> is_valid_key k \<or> is_reserved k \<Longrightarrow> values_of m k = []"
  by (auto simp: values_of_def metadata_wf_def list_all_iff filter_empty_conv entry_wf.simps)

text \<open>Equal keys stand together in what \<open>from_headers\<close> returns.\<close>

lemma remdups_adj_constant_append:
  "\<forall>x \<in> set xs. x = a \<Longrightarrow> a \<notin> set ys \<Longrightarrow>
   remdups_adj (xs @ ys) = (if xs = [] then remdups_adj ys else a # remdups_adj ys)"
proof (induction xs)
  case (Cons x xs)
  then show ?case
    by (cases "xs @ ys") (auto simp: remdups_adj_Cons split: list.splits if_splits)
qed simp

lemma distinct_remdups_adj_concat:
  "distinct (map f xs) \<Longrightarrow> \<forall>x \<in> set xs. \<forall>y \<in> set (g x). y = f x \<Longrightarrow>
   distinct (remdups_adj (concat (map g xs)))"
proof (induction xs)
  case (Cons x xs)
  then have "f x \<notin> set (concat (map g xs))" by (auto simp: image_iff)
  with Cons show ?case by (simp add: remdups_adj_constant_append [where a = "f x"])
qed simp

text \<open>The round trip through headers, key by key.\<close>

lemma values_of_written_back:
  assumes ok: "headers_ok H" and b64: "base64_ok B" and wf: "metadata_wf m"
  shows "values_of (from_headers H B (metadata_write_into H B m (h_new H))) k = values_of m k"
proof (cases "is_valid_key k \<and> \<not> is_reserved k")
  case True
  then have k: "is_valid_key k" "\<not> is_reserved k" by auto
  have "concat (map (pluck_value H B k) (map (wire_value B) (values_of m k)))
    = map (Pair k) (values_of m k)"
  proof -
    have "\<forall>v \<in> set (values_of m k). pluck_value H B k (wire_value B v) = [(k, v)]"
      using wf by (auto simp: values_of_def metadata_wf_def list_all_iff
          intro!: pluck_wire_value [OF ok b64])
    moreover have "\<forall>v \<in> set vs. f v = [g v] \<Longrightarrow> concat (map f vs) = map g vs"
      for f :: "metadata_value \<Rightarrow> (str \<times> metadata_value) list" and g vs
      by (induction vs) auto
    ultimately show ?thesis by (simp add: comp_def)
  qed
  then show ?thesis
    by (simp add: values_of_from_headers [OF ok k] header_values_write_into ok wf
        is_valid_key_lower k comp_def)
next
  case False
  then show ?thesis
    by (auto simp: values_of_not_allowed wf from_headers_wf [OF ok])
qed

text \<open>Whatever the headers, equal keys come back next to each other.\<close>

lemma from_headers_grouped:
  assumes "headers_ok H"
  shows "distinct (remdups_adj (map fst (entries (from_headers H B h))))"
proof -
  have "map fst (entries (from_headers H B h)) =
      concat (map (\<lambda>nv. map fst (pluck_header H B nv)) (h_iter H h))"
    by (simp add: from_headers_def map_concat comp_def del: pluck_header.simps)
  moreover have "distinct (remdups_adj \<dots>)"
    by (rule distinct_remdups_adj_concat [where f = "to_ascii_lowercase \<circ> fst"])
       (use h_iter_distinct [OF assms] in \<open>auto dest: pluck_header_key simp del: pluck_header.simps\<close>)
  ultimately show ?thesis by simp
qed

section \<open>The rules of the documentation\<close>

definition documented_key :: "str \<Rightarrow> bool" where
  "documented_key k \<longleftrightarrow>
     k \<noteq> [] \<and> set k \<subseteq> set (lit ''0123456789abcdefghijklmnopqrstuvwxyz_-.'') \<and> (\<nexists>s. k = lit ''grpc-'' @ s) \<and>
     k \<notin> {lit ''te'', lit ''content-type'', lit ''user-agent'', lit ''host'', lit ''connection''}"

fun documented_entry :: "str \<times> metadata_value \<Rightarrow> bool" where
  "documented_entry (k, Ascii s) \<longleftrightarrow>
     documented_key k \<and> (\<nexists>p. k = p @ lit ''-bin'') \<and> (\<forall>b \<in> set s. 0x20 \<le> b \<and> b \<le> 0x7E)"
| "documented_entry (k, Binary d) \<longleftrightarrow> documented_key k \<and> (\<exists>p. k = p @ lit ''-bin'')"

lemma key_byte_set: "key_byte b \<longleftrightarrow> b \<in> set (lit ''0123456789abcdefghijklmnopqrstuvwxyz_-.'')"
  unfolding key_byte_def lit_def
  by (simp add: word_le_nat_alt word_unat_eq_iff) presburger

lemma documented_key_eq: "documented_key k \<longleftrightarrow> is_valid_key k \<and> \<not> is_reserved k"
  by (auto simp: documented_key_def is_valid_key_def is_reserved_def list_all_iff key_byte_set starts_with_iff)

lemma documented_ascii:
  "documented_entry (k, Ascii s) \<longleftrightarrow>
     is_valid_key k \<and> \<not> is_reserved k \<and> \<not> ends_with k (lit ''-bin'') \<and> list_all printable s"
  by (auto simp: documented_key_eq ends_with_iff printable_def list_all_iff)

lemma documented_binary:
  "documented_entry (k, Binary d) \<longleftrightarrow> is_valid_key k \<and> \<not> is_reserved k \<and> ends_with k (lit ''-bin'')"
  by (auto simp: documented_key_eq ends_with_iff)

declare documented_entry.simps [simp del]

lemma not_Inr_iff: "(\<forall>y. x \<noteq> Inr y) \<longleftrightarrow> (\<exists>e. x = Inl e)"
  by (cases x) auto

lemma insert_ascii_documented:
  "documented_entry (key, Ascii value) \<Longrightarrow> insert_ascii m key value = Inr (m\<lparr>entries := entries m @ [(key, Ascii value)]\<rparr>)"
  "\<not> documented_entry (key, Ascii value) \<Longrightarrow> \<exists>e. insert_ascii m key value = Inl e"
  by (auto simp: documented_ascii insert_ascii_eq_Inr simp flip: not_Inr_iff)

lemma insert_binary_documented:
  "documented_entry (key, Binary data) \<Longrightarrow> insert_binary m key data = Inr (m\<lparr>entries := entries m @ [(key, Binary data)]\<rparr>)"
  "\<not> documented_entry (key, Binary data) \<Longrightarrow> \<exists>e. insert_binary m key data = Inl e"
  by (auto simp: documented_binary insert_binary_eq_Inr simp flip: not_Inr_iff)

lemma from_headers_documented:
  assumes ok: "headers_ok H"
    and "\<forall>nv \<in> set (h_iter H h). \<forall>v \<in> set (snd nv). \<forall>b \<in> set v. 0x20 \<le> b \<and> b \<le> 0x7E"
    and "e \<in> set (entries (from_headers H B h))"
  shows "documented_entry e"
proof -
  obtain name vs v where v: "(name, vs) \<in> set (h_iter H h)" "v \<in> set vs"
      "e \<in> set (pluck_value H B (to_ascii_lowercase name) v)"
    and key: "is_valid_key (to_ascii_lowercase name)" "\<not> is_reserved (to_ascii_lowercase name)"
    using assms(3) by (auto simp: from_headers_def Let_def split: if_splits)
  have "list_all printable v" using assms(2) v(1,2) by (fastforce simp: list_all_iff printable_def)
  with v(3) key show ?thesis
    by (auto simp: pluck_value_def documented_ascii documented_binary dest!: h_as_str_SomeD [OF ok, OF sym] split: if_splits option.splits)
qed

section \<open>Properties\<close>

text \<open>
  C21: The rules of the documentation. An insert is accepted exactly if the key is made of
  lower-case letters, digits, \<open>_\<close>, \<open>-\<close> and \<open>.\<close>, is not reserved, has the \<open>-bin\<close> suffix exactly
  for a binary value, and an ASCII value is printable (0x20 to 0x7E); it then appends the entry and
  leaves the others alone. What \<open>from_headers\<close> parses obeys the same rules of keys and kinds,
  whatever the headers are, but a text value only has to be UTF-8; it is printable when the values
  of the headers are.
\<close>

theorem metadata_invariant:
  assumes "headers_ok H" and "metadata_wf m"
  shows "(case insert_ascii m key value of
      Inr m' \<Rightarrow> entries m' = entries m @ [(key, Ascii value)] \<and> documented_entry (key, Ascii value) \<and> metadata_wf m'
    | Inl _ \<Rightarrow> \<not> documented_entry (key, Ascii value)) \<and>
    (case insert_binary m key data of
      Inr m' \<Rightarrow> entries m' = entries m @ [(key, Binary data)] \<and> documented_entry (key, Binary data) \<and> metadata_wf m'
    | Inl _ \<Rightarrow> \<not> documented_entry (key, Binary data)) \<and>
    metadata_wf metadata_new \<and> metadata_wf (from_headers H B h) \<and>
    ((\<forall>nv \<in> set (h_iter H h). \<forall>v \<in> set (snd nv). \<forall>b \<in> set v. 0x20 \<le> b \<and> b \<le> 0x7E) \<longrightarrow>
      (\<forall>e \<in> set (entries (from_headers H B h)). documented_entry e))"
proof (intro conjI impI)
  show "case insert_ascii m key value of
      Inr m' \<Rightarrow> entries m' = entries m @ [(key, Ascii value)] \<and> documented_entry (key, Ascii value) \<and> metadata_wf m'
    | Inl _ \<Rightarrow> \<not> documented_entry (key, Ascii value)"
    using insert_ascii_documented [of key "value" m] insert_ascii_wf [OF assms(2), of key "value"]
    by (cases "documented_entry (key, Ascii value)") auto
  show "case insert_binary m key data of
      Inr m' \<Rightarrow> entries m' = entries m @ [(key, Binary data)] \<and> documented_entry (key, Binary data) \<and> metadata_wf m'
    | Inl _ \<Rightarrow> \<not> documented_entry (key, Binary data)"
    using insert_binary_documented [of key data m] insert_binary_wf [OF assms(2), of key data]
    by (cases "documented_entry (key, Binary data)") auto
  assume "\<forall>nv \<in> set (h_iter H h). \<forall>v \<in> set (snd nv). \<forall>b \<in> set v. 0x20 \<le> b \<and> b \<le> 0x7E"
  then show "\<forall>e \<in> set (entries (from_headers H B h)). documented_entry e"
    using from_headers_documented [OF assms(1)] by blast
qed (use assms in \<open>auto intro: wf_intros\<close>)

theorem metadata_invariant_witness:
  "insert_ascii metadata_new (lit ''trace-id'') (lit ''abc'') = Inr \<lparr>entries = [(lit ''trace-id'', Ascii (lit ''abc''))]\<rparr> \<and>
   documented_entry (lit ''trace-id'', Ascii (lit ''abc'')) \<and>
   insert_ascii metadata_new (lit ''trace-id'') [0x61, 0x0A] = Inl InvalidAsciiValue \<and>
   \<not> documented_entry (lit ''trace-id'', Ascii [0x61, 0x0A]) \<and>
   insert_binary metadata_new (lit ''token-bin'') [1, 2, 255] = Inr \<lparr>entries = [(lit ''token-bin'', Binary [1, 2, 255])]\<rparr> \<and>
   values_of (from_headers dalist_headers \<lparr>b64_encode = id, b64_decode = Some\<rparr>
     (h_append dalist_headers (h_new dalist_headers) (lit ''trace-id'') [0x61, 0x09])) (lit ''trace-id'') = [Ascii [0x61, 0x09]] \<and>
   \<not> documented_entry (lit ''trace-id'', Ascii [0x61, 0x09])"
proof -
  let ?k = "lit ''trace-id''" and ?b = "lit ''token-bin''" and ?B = "\<lparr>b64_encode = id, b64_decode = Some\<rparr>"
  have i: "insert_ascii metadata_new ?k (lit ''abc'') = Inr \<lparr>entries = [(?k, Ascii (lit ''abc''))]\<rparr>"
      "insert_ascii metadata_new ?k [0x61, 0x0A] = Inl InvalidAsciiValue"
      "insert_ascii metadata_new ?k [0x61, 0x09] = Inl InvalidAsciiValue"
      "insert_binary metadata_new ?b [1, 2, 255] = Inr \<lparr>entries = [(?b, Binary [1, 2, 255])]\<rparr>"
    by (simp_all add: insert_ascii_def insert_binary_def validate_key_def is_valid_key_def key_byte_def is_reserved_def
        is_valid_ascii_value_def printable_def starts_with_def ends_with_def metadata_new_def byte_simps)
  have k: "is_valid_key ?k" "\<not> is_reserved ?k" "\<not> ends_with ?k (lit ''-bin'')"
    by (simp_all add: is_valid_key_def key_byte_def is_reserved_def starts_with_def ends_with_def byte_simps)
  have "utf8_valid [0x61, 0x09]" by (rule utf8_valid_ascii) simp
  then have f: "values_of (from_headers dalist_headers ?B (h_append dalist_headers (h_new dalist_headers) ?k [0x61, 0x09])) ?k
      = [Ascii [0x61, 0x09]]"
    by (simp add: values_of_from_headers k headers_ok_dalist header_values_append pluck_value_def
        h_as_str_eq from_utf8_def)
  note inv = metadata_invariant [OF headers_ok_dalist metadata_wf_new]
  show ?thesis
    using i f inv [of ?k "lit ''abc''" "[]"] inv [of ?k "[0x61, 0x0A]" "[]"] inv [of ?k "[0x61, 0x09]" "[]"] by simp
qed

text \<open>
  C22: Writing a metadata map into fresh headers and reading the headers back yields, under
  every key, the same values in the same order, binary values included; values of different
  keys are not mixed up and none is lost. The order between different keys is not kept: equal
  keys come back next to each other whatever the map was, so a map that holds a key, then
  another, then the first again never comes back as it was.
\<close>

theorem metadata_roundtrip:
  assumes "headers_ok H" and "base64_ok B" and "metadata_wf m"
  shows "(let m' = from_headers H B (metadata_write_into H B m (h_new H)) in
    (\<forall>k. values_of m' k = values_of m k) \<and> distinct (remdups_adj (map fst (entries m'))) \<and>
    (entries m = [(a, v1), (b, v2), (a, v3)] \<and> a \<noteq> b \<longrightarrow> m' \<noteq> m))"
  using values_of_written_back [OF assms]
    from_headers_grouped [OF assms(1), of B "metadata_write_into H B m (h_new H)"]
  by (auto simp: Let_def)

theorem metadata_roundtrip_witness:
  "values_of (from_headers dalist_headers \<lparr>b64_encode = id, b64_decode = Some\<rparr>
     (metadata_write_into dalist_headers \<lparr>b64_encode = id, b64_decode = Some\<rparr>
       \<lparr>entries = [(lit ''trace-id'', Ascii (lit ''abc'')), (lit ''token-bin'', Binary [0, 255]),
                   (lit ''trace-id'', Ascii (lit ''def''))]\<rparr> (h_new dalist_headers))) (lit ''trace-id'')
   = [Ascii (lit ''abc''), Ascii (lit ''def'')]"
proof -
  have "metadata_wf \<lparr>entries = [(lit ''trace-id'', Ascii (lit ''abc'')),
      (lit ''token-bin'', Binary [0, 255]), (lit ''trace-id'', Ascii (lit ''def''))]\<rparr>"
    by (simp add: metadata_wf_def entry_wf.simps is_valid_key_def is_reserved_def key_byte_def
        starts_with_def ends_with_def byte_simps utf8_valid_ascii)
  from metadata_roundtrip [OF headers_ok_dalist _ this, of "\<lparr>b64_encode = id, b64_decode = Some\<rparr>"]
  show ?thesis by (simp add: base64_ok_def values_of_def Let_def)
qed

end
