(* ===== verification/Status.thy ===== *)
theory Status
  imports Metadata
begin

text \<open>
  \<open>src/status.rs\<close>: the status codes, the \<open>Status\<close> value, its percent-encoded message and
  its passage through the \<open>grpc-status\<close> trailers.
\<close>

section \<open>Codes\<close>

datatype code =
    Ok | Cancelled | Unknown | InvalidArgument | DeadlineExceeded | NotFound | AlreadyExists
  | PermissionDenied | ResourceExhausted | FailedPrecondition | Aborted | OutOfRange
  | Unimplemented | Internal | Unavailable | DataLoss | Unauthenticated

definition code_from_u8 :: "u8 \<Rightarrow> code option" where
  "code_from_u8 n =
     (if n = 0 then Some Ok
      else if n = 1 then Some Cancelled
      else if n = 2 then Some Unknown
      else if n = 3 then Some InvalidArgument
      else if n = 4 then Some DeadlineExceeded
      else if n = 5 then Some NotFound
      else if n = 6 then Some AlreadyExists
      else if n = 7 then Some PermissionDenied
      else if n = 8 then Some ResourceExhausted
      else if n = 9 then Some FailedPrecondition
      else if n = 10 then Some Aborted
      else if n = 11 then Some OutOfRange
      else if n = 12 then Some Unimplemented
      else if n = 13 then Some Internal
      else if n = 14 then Some Unavailable
      else if n = 15 then Some DataLoss
      else if n = 16 then Some Unauthenticated
      else None)"

text \<open>\<open>as_u8\<close> is the discriminant.\<close>

fun as_u8 :: "code \<Rightarrow> u8" where
  "as_u8 Ok = 0"
| "as_u8 Cancelled = 1"
| "as_u8 Unknown = 2"
| "as_u8 InvalidArgument = 3"
| "as_u8 DeadlineExceeded = 4"
| "as_u8 NotFound = 5"
| "as_u8 AlreadyExists = 6"
| "as_u8 PermissionDenied = 7"
| "as_u8 ResourceExhausted = 8"
| "as_u8 FailedPrecondition = 9"
| "as_u8 Aborted = 10"
| "as_u8 OutOfRange = 11"
| "as_u8 Unimplemented = 12"
| "as_u8 Internal = 13"
| "as_u8 Unavailable = 14"
| "as_u8 DataLoss = 15"
| "as_u8 Unauthenticated = 16"

lemma code_from_as_u8 [simp]: "code_from_u8 (as_u8 c) = Some c"
  by (cases c) (simp_all add: code_from_u8_def)

lemma as_u8_inj [simp]: "as_u8 c = as_u8 d \<longleftrightarrow> c = d"
  by (metis code_from_as_u8 option.inject)

lemma as_u8_from: "code_from_u8 n = Some c \<Longrightarrow> as_u8 c = n"
  by (auto simp: code_from_u8_def split: if_splits)

text \<open>Codes are ordered by their wire number.\<close>

instantiation code :: linorder
begin

definition less_eq_code :: "code \<Rightarrow> code \<Rightarrow> bool" where
  "less_eq_code c d \<longleftrightarrow> as_u8 c \<le> as_u8 d"

definition less_code :: "code \<Rightarrow> code \<Rightarrow> bool" where
  "less_code c d \<longleftrightarrow> as_u8 c < as_u8 d"

instance
  by standard (auto simp: less_eq_code_def less_code_def intro: order_le_neq_trans)

end

section \<open>Percent coding of the message\<close>

text \<open>\<open>None\<close> is the \<open>unreachable!()\<close> arm.\<close>

definition hex_nibble :: "u8 \<Rightarrow> u8 option" where
  "hex_nibble n =
     (if n \<le> 9 then Some (0x30 + n) else if n \<le> 15 then Some (0x41 + n - 10) else None)"

definition hex_value :: "u8 \<Rightarrow> u8 option" where
  "hex_value b =
     (if 0x30 \<le> b \<and> b \<le> 0x39 then Some (b - 0x30)
      else if 0x61 \<le> b \<and> b \<le> 0x66 then Some (b - 0x61 + 10)
      else if 0x41 \<le> b \<and> b \<le> 0x46 then Some (b - 0x41 + 10)
      else None)"

definition percent_encode_byte :: "u8 \<Rightarrow> str" where
  "percent_encode_byte b =
     (if 0x20 \<le> b \<and> b \<le> 0x7E \<and> b \<noteq> 0x25 then [b]
      else [0x25, the (hex_nibble (drop_bit 4 b)), the (hex_nibble (b AND 0x0F))])"

definition percent_encode :: "str \<Rightarrow> str" where
  "percent_encode s = concat (map percent_encode_byte s)"

text \<open>The loop of \<open>percent_decode\<close>, on the bytes from position \<open>i\<close> on.\<close>

fun percent_decode_bytes :: "bytes \<Rightarrow> bytes" where
  "percent_decode_bytes [] = []"
| "percent_decode_bytes (b # r) =
     (case r of
        h # l # r' \<Rightarrow>
          (if b = 0x25 then
             (case (hex_value h, hex_value l) of
                (Some hi, Some lo) \<Rightarrow> (push_bit 4 hi OR lo) # percent_decode_bytes r'
              | _ \<Rightarrow> b # percent_decode_bytes r)
           else b # percent_decode_bytes r)
      | _ \<Rightarrow> b # percent_decode_bytes r)"

definition percent_decode :: "str \<Rightarrow> str" where
  "percent_decode s =
     (let out = percent_decode_bytes s in
      case from_utf8 out of Some t \<Rightarrow> t | None \<Rightarrow> from_utf8_lossy out)"

section \<open>Status\<close>

record status =
  st_code :: code
  st_message :: str
  st_metadata :: metadata

definition status_new :: "code \<Rightarrow> str \<Rightarrow> status" where
  "status_new c m = \<lparr>st_code = c, st_message = m, st_metadata = metadata_new\<rparr>"

definition status_ok :: status where
  "status_ok = \<lparr>st_code = Ok, st_message = [], st_metadata = metadata_new\<rparr>"

definition status_is_ok :: "status \<Rightarrow> bool" where
  "status_is_ok s \<longleftrightarrow> st_code s = Ok"

definition with_metadata :: "status \<Rightarrow> metadata \<Rightarrow> status" where
  "with_metadata s m = s\<lparr>st_metadata := m\<rparr>"

text \<open>\<open>Result<T, Status>\<close>.\<close>

type_synonym 'a result = "status + 'a"

definition status_write_into :: "'h headers_api \<Rightarrow> base64_api \<Rightarrow> status \<Rightarrow> 'h \<Rightarrow> 'h" where
  "status_write_into H B s headers =
     (let h1 = h_insert H headers (lit ''grpc-status'') (show_nat (unat (as_u8 (st_code s))));
          h2 = (if st_message s \<noteq> [] then h_insert H h1 (lit ''grpc-message'') (percent_encode (st_message s))
                else h1)
      in metadata_write_into H B (st_metadata s) h2)"

definition into_trailers :: "'h headers_api \<Rightarrow> base64_api \<Rightarrow> status \<Rightarrow> 'h" where
  "into_trailers H B s = status_write_into H B s (h_new H)"

text \<open>The code a \<open>grpc-status\<close> value stands for; anything unreadable is \<open>Unknown\<close>.\<close>

definition trailers_code :: "str option \<Rightarrow> code" where
  "trailers_code v =
     (case Option.bind (Option.bind v (parse_unsigned 256)) (\<lambda>n. code_from_u8 (of_nat n)) of
        Some c \<Rightarrow> c | None \<Rightarrow> Unknown)"

definition from_trailers :: "'h headers_api \<Rightarrow> base64_api \<Rightarrow> 'h \<Rightarrow> unit result" where
  "from_trailers H B headers =
     (let c = trailers_code (h_get_str H headers (lit ''grpc-status'')) in
      if c = Ok then Inr ()
      else Inl \<lparr>st_code = c,
                st_message = (case h_get_str H headers (lit ''grpc-message'') of
                   Some m \<Rightarrow> percent_decode m | None \<Rightarrow> []),
                st_metadata = from_headers H B headers\<rparr>)"

text \<open>\<open>Display\<close>: the code's \<open>Debug\<close> name, then the message.\<close>

fun code_name :: "code \<Rightarrow> str" where
  "code_name Ok = lit ''Ok''"
| "code_name Cancelled = lit ''Cancelled''"
| "code_name Unknown = lit ''Unknown''"
| "code_name InvalidArgument = lit ''InvalidArgument''"
| "code_name DeadlineExceeded = lit ''DeadlineExceeded''"
| "code_name NotFound = lit ''NotFound''"
| "code_name AlreadyExists = lit ''AlreadyExists''"
| "code_name PermissionDenied = lit ''PermissionDenied''"
| "code_name ResourceExhausted = lit ''ResourceExhausted''"
| "code_name FailedPrecondition = lit ''FailedPrecondition''"
| "code_name Aborted = lit ''Aborted''"
| "code_name OutOfRange = lit ''OutOfRange''"
| "code_name Unimplemented = lit ''Unimplemented''"
| "code_name Internal = lit ''Internal''"
| "code_name Unavailable = lit ''Unavailable''"
| "code_name DataLoss = lit ''DataLoss''"
| "code_name Unauthenticated = lit ''Unauthenticated''"

definition status_display :: "status \<Rightarrow> str" where
  "status_display s = code_name (st_code s) @ lit '': '' @ st_message s"

text \<open>The constructors the macro \<open>status_constructors!\<close> generates.\<close>

abbreviation st_cancelled :: "str \<Rightarrow> status" where "st_cancelled \<equiv> status_new Cancelled"
abbreviation st_unknown :: "str \<Rightarrow> status" where "st_unknown \<equiv> status_new Unknown"
abbreviation st_invalid_argument :: "str \<Rightarrow> status" where
  "st_invalid_argument \<equiv> status_new InvalidArgument"
abbreviation st_deadline_exceeded :: "str \<Rightarrow> status" where
  "st_deadline_exceeded \<equiv> status_new DeadlineExceeded"
abbreviation st_resource_exhausted :: "str \<Rightarrow> status" where
  "st_resource_exhausted \<equiv> status_new ResourceExhausted"
abbreviation st_unimplemented :: "str \<Rightarrow> status" where
  "st_unimplemented \<equiv> status_new Unimplemented"
abbreviation st_internal :: "str \<Rightarrow> status" where "st_internal \<equiv> status_new Internal"
abbreviation st_unavailable :: "str \<Rightarrow> status" where "st_unavailable \<equiv> status_new Unavailable"

section \<open>Percent coding: lemmas\<close>

lemma nibble_cases:
  assumes "n \<le> (15 :: u8)"
  shows "n \<in> {0, 1, 2, 3, 4, 5, 6, 7, 8, 9, 10, 11, 12, 13, 14, 15}"
proof -
  have "unat n \<le> 15" using assms by (simp add: word_le_nat_alt)
  then have "unat n \<in> set [0..<16]" by simp
  then have "unat n \<in> {0, 1, 2, 3, 4, 5, 6, 7, 8, 9, 10, 11, 12, 13, 14, 15}"
    by (simp add: upt_rec eval_nat_numeral del: set_upt)
  then have "(of_nat (unat n) :: u8) \<in> of_nat ` {0, 1, 2, 3, 4, 5, 6, 7, 8, 9, 10, 11, 12, 13, 14, 15}"
    by (rule imageI)
  then show ?thesis by simp
qed

lemma hex_nibble_ok:
  assumes "n \<le> 15"
  shows "\<exists>c. hex_nibble n = Some c \<and> hex_value c = Some n \<and> 0x30 \<le> c \<and> c \<le> 0x46"
  using nibble_cases [OF assms]
  by (elim insertE emptyE) (simp_all add: hex_nibble_def hex_value_def)

lemma high_nibble_le: "drop_bit 4 (b :: u8) \<le> 15"
proof -
  have "unat (drop_bit 4 b) = unat b div 2 ^ 4" by (simp add: unat_drop_bit_eq drop_bit_eq_div unat_div_distrib)
  also have "\<dots> \<le> 15"
  proof -
    have "unat b < 2 ^ LENGTH(8)" by (rule unsigned_less)
    then show ?thesis by simp
  qed
  finally show ?thesis by (simp add: word_le_nat_alt)
qed

lemma low_nibble_le: "(b :: u8) AND 15 \<le> 15"
  by (rule word_and_le1)

lemma nibbles_join: "push_bit 4 (drop_bit 4 b) OR (b AND 15) = (b :: u8)"
proof -
  have "(15 :: u8) = mask 4" by (simp add: mask_eq_exp_minus_1)
  then show ?thesis
    by (auto simp: bit_eq_iff bit_simps)
qed

lemma percent_encode_Cons: "percent_encode (b # s) = percent_encode_byte b @ percent_encode s"
  by (simp add: percent_encode_def)

lemma percent_encode_eq_Nil [simp]: "percent_encode s = [] \<longleftrightarrow> s = []"
  by (cases s) (auto simp: percent_encode_def percent_encode_byte_def)

lemma percent_decode_encode_byte:
  "percent_decode_bytes (percent_encode_byte b @ s) = b # percent_decode_bytes s"
proof (cases "0x20 \<le> b \<and> b \<le> 0x7E \<and> b \<noteq> 0x25")
  case True
  then show ?thesis by (auto simp: percent_encode_byte_def split: list.splits)
next
  case False
  obtain c d where
    "hex_nibble (drop_bit 4 b) = Some c" "hex_value c = Some (drop_bit 4 b)"
    "hex_nibble (b AND 15) = Some d" "hex_value d = Some (b AND 15)"
    using hex_nibble_ok [OF high_nibble_le [of b]] hex_nibble_ok [OF low_nibble_le [of b]] by auto
  with False have "percent_encode_byte b = [0x25, c, d]"
    by (auto simp: percent_encode_byte_def)
  with \<open>hex_value c = _\<close> \<open>hex_value d = _\<close> show ?thesis by (simp add: nibbles_join)
qed

lemma percent_decode_encode_bytes: "percent_decode_bytes (percent_encode s) = s"
  by (induction s) (simp_all add: percent_encode_Cons percent_decode_encode_byte, simp add: percent_encode_def)

lemma percent_encode_byte_printable: "list_all printable (percent_encode_byte b)"
proof -
  obtain c d where "hex_nibble (drop_bit 4 b) = Some c" "hex_nibble (b AND 15) = Some d"
    and "0x30 \<le> c" "c \<le> 0x46" "0x30 \<le> d" "d \<le> 0x46"
    using hex_nibble_ok [OF high_nibble_le [of b]] hex_nibble_ok [OF low_nibble_le [of b]] by auto
  then show ?thesis
    by (auto simp: percent_encode_byte_def printable_def word_le_nat_alt)
qed

lemma percent_encode_printable: "list_all printable (percent_encode s)"
  using percent_encode_byte_printable by (auto simp: percent_encode_def list_all_iff)

lemma percent_decode_valid: "utf8_valid (percent_decode s)"
  by (auto simp: percent_decode_def Let_def from_utf8_def from_utf8_lossy_valid)

lemma percent_decode_encode [simp]: "utf8_valid s \<Longrightarrow> percent_decode (percent_encode s) = s"
  by (simp add: percent_decode_def percent_decode_encode_bytes from_utf8_def)

lemma status_new_eq [simp]: "status_new c m = status_new d n \<longleftrightarrow> c = d \<and> m = n"
  by (simp add: status_new_def)

lemma status_new_sel [simp]:
  "st_code (status_new c m) = c" "st_message (status_new c m) = m"
  "st_metadata (status_new c m) = metadata_new"
  by (simp_all add: status_new_def)

section \<open>Codes on the wire\<close>

lemma show_nat_utf8: "utf8_valid (show_nat n)"
  by (rule utf8_valid_ascii)
     (use show_nat_printable [of n] in \<open>auto simp: word_le_nat_alt word_less_nat_alt\<close>)

definition show_code :: "code \<Rightarrow> str" where
  "show_code c = show_nat (unat (as_u8 c))"

definition read_code :: "str \<Rightarrow> code option" where
  "read_code s = Option.bind (parse_unsigned 256 s) (\<lambda>n. code_from_u8 (of_nat n))"

lemma read_show_code [simp]: "read_code (show_code c) = Some c"
proof -
  have "unat (as_u8 c) < 2 ^ LENGTH(8)" by (rule unsigned_less)
  then show ?thesis by (simp add: read_code_def show_code_def)
qed

interpretation status_code: wire_token show_code read_code "\<lambda>_. True"
  by unfold_locales (simp, simp add: show_code_def show_nat_utf8)

lemma trailers_code_eq:
  "trailers_code v = (case Option.bind v read_code of Some c \<Rightarrow> c | None \<Rightarrow> Unknown)"
  by (cases v) (simp_all add: trailers_code_def read_code_def)

section \<open>Trailers: lemmas\<close>

lemma reserved_names [simp]:
  "is_reserved (lit ''grpc-status'')" "is_reserved (lit ''grpc-message'')"
  "is_reserved (lit ''grpc-encoding'')" "is_reserved (lit ''grpc-timeout'')"
  "is_reserved (lit ''grpc-accept-encoding'')" "is_reserved (lit ''content-type'')"
  "is_reserved (lit ''te'')"
  by (simp_all add: is_reserved_def starts_with_def lit_def)

lemma write_into_values:
  assumes "headers_ok H" and "metadata_wf (st_metadata s)"
  shows "h_get_values H (status_write_into H B s h) (lit ''grpc-status'') = Some [show_code (st_code s)]"
    and "h_get_values H (status_write_into H B s h) (lit ''grpc-message'') =
      (if st_message s \<noteq> [] then Some [percent_encode (st_message s)]
       else h_get_values H h (lit ''grpc-message''))"
  using assms
  by (auto simp: status_write_into_def Let_def get_values_write_into_reserved
      h_get_values_insert eq_ignore_ascii_case_lower show_code_def)

lemma write_into_strs:
  assumes "headers_ok H" and "metadata_wf (st_metadata s)"
  shows "h_get_str H (status_write_into H B s h) (lit ''grpc-status'') = Some (show_code (st_code s))"
    and "st_message s \<noteq> [] \<Longrightarrow>
      h_get_str H (status_write_into H B s h) (lit ''grpc-message'') = Some (percent_encode (st_message s))"
  using assms
  by (simp_all add: h_get_str_single write_into_values printable_utf8 percent_encode_printable
      show_code_def show_nat_utf8)

lemma header_values_write_into_status:
  assumes "headers_ok H" and "metadata_wf (st_metadata s)" and "is_valid_key k" and "\<not> is_reserved k"
  shows "header_values H (status_write_into H B s h) k =
    header_values H h k @ map (wire_value B) (values_of (st_metadata s) k)"
proof -
  have "k \<noteq> lit ''grpc-status''" "k \<noteq> lit ''grpc-message''" using assms(4) by auto
  then show ?thesis
    using assms
    by (simp add: status_write_into_def Let_def header_values_write_into is_valid_key_lower
        header_values_def [of H "h_insert H _ _ _"] h_get_values_insert eq_ignore_ascii_case_lower
        header_values_def [symmetric])
qed

lemma pluck_wire_values:
  assumes "headers_ok H" and "base64_ok B" and "metadata_wf m"
  shows "map snd (concat (map (pluck_value H B k) (map (wire_value B) (values_of m k)))) = values_of m k"
proof -
  have "\<forall>v \<in> set (values_of m k). pluck_value H B k (wire_value B v) = [(k, v)]"
    using assms by (auto simp: values_of_def metadata_wf_def list_all_iff intro!: pluck_wire_value)
  moreover have "\<forall>v \<in> set vs. f v = [(k, v)] \<Longrightarrow> map snd (concat (map f vs)) = vs"
    for f :: "metadata_value \<Rightarrow> (str \<times> metadata_value) list" and vs
    by (induction vs) auto
  ultimately show ?thesis by (simp add: comp_def)
qed

lemma values_of_written:
  assumes "headers_ok H" and "base64_ok B" and "metadata_wf (st_metadata s)"
  shows "values_of (from_headers H B (status_write_into H B s h)) k =
    values_of (from_headers H B h) k @ values_of (st_metadata s) k"
proof (cases "is_valid_key k \<and> \<not> is_reserved k")
  case True
  with assms show ?thesis
    using pluck_wire_values [OF assms, of k]
    by (simp add: values_of_from_headers header_values_write_into_status)
next
  case False
  then show ?thesis
    by (auto simp: values_of_not_allowed assms(3) from_headers_wf [OF assms(1)])
qed

lemma trailers_code_written:
  "headers_ok H \<Longrightarrow> metadata_wf (st_metadata s) \<Longrightarrow>
   trailers_code (h_get_str H (status_write_into H B s h) (lit ''grpc-status'')) = st_code s"
  by (simp add: trailers_code_eq write_into_strs)

lemma from_trailers_written_ok:
  "headers_ok H \<Longrightarrow> metadata_wf (st_metadata s) \<Longrightarrow> st_code s = Ok \<Longrightarrow>
   from_trailers H B (status_write_into H B s h) = Inr ()"
  by (simp add: from_trailers_def trailers_code_written)

lemma from_trailers_written:
  assumes "headers_ok H" and "metadata_wf (st_metadata s)" and "utf8_valid (st_message s)"
    and "h_get_values H h (lit ''grpc-message'') = None"
  shows "from_trailers H B (status_write_into H B s h) =
    (if st_code s = Ok then Inr ()
     else Inl \<lparr>st_code = st_code s, st_message = st_message s,
               st_metadata = from_headers H B (status_write_into H B s h)\<rparr>)"
proof -
  have "(case h_get_str H (status_write_into H B s h) (lit ''grpc-message'') of
      Some m \<Rightarrow> percent_decode m | None \<Rightarrow> []) = st_message s"
  proof (cases "st_message s = []")
    case True
    with assms have "h_get_str H (status_write_into H B s h) (lit ''grpc-message'') = None"
      by (simp add: write_into_values)
    with True show ?thesis by simp
  next
    case False
    with assms show ?thesis by (simp add: write_into_strs)
  qed
  then show ?thesis by (simp add: from_trailers_def trailers_code_written assms(1,2))
qed

section \<open>Properties\<close>

text \<open>
  The codes and their wire numbers are in bijection: each of the numbers 0 to 16 is a
  code, every code comes back from its number, and every other byte is refused.
\<close>

lemma code_numbers:
  "(code_from_u8 n = Some c \<longleftrightarrow> as_u8 c = n) \<and> (code_from_u8 n = None \<longleftrightarrow> n > 16)"
proof
  show "code_from_u8 n = Some c \<longleftrightarrow> as_u8 c = n"
    using as_u8_from by auto
  have "code_from_u8 n \<noteq> None" if n: "n \<le> 16"
  proof (cases "n = 16")
    case False
    with n have "unat n \<le> 16" and "unat n \<noteq> unat (16 :: u8)"
      by (simp_all add: word_le_nat_alt word_unat_eq_iff)
    then have "n \<le> 15" by (simp add: word_le_nat_alt)
    from nibble_cases [OF this] show ?thesis
      by (elim insertE emptyE) (simp_all add: code_from_u8_def)
  qed (simp add: code_from_u8_def)
  moreover have "n \<le> 16" if "code_from_u8 n = Some d" for d
    using as_u8_from [OF that] by (cases d) auto
  ultimately show "code_from_u8 n = None \<longleftrightarrow> n > 16"
    by (cases "n \<le> 16"; cases "code_from_u8 n") (auto simp: not_le)
qed

text \<open>
  A status message survives its percent-encoding: decoding the encoded form of any Rust
  string gives the string back, and the encoded form is printable ASCII, so it cannot break
  a header line. The \<open>unreachable!()\<close> arm of \<open>hex_nibble\<close> is never reached.
\<close>

lemma percent_roundtrip:
  assumes "utf8_valid s"
  shows "percent_decode (percent_encode s) = s \<and> list_all printable (percent_encode s) \<and>
    hex_nibble (drop_bit 4 b) \<noteq> None \<and> hex_nibble (b AND 0x0F) \<noteq> None"
  using assms hex_nibble_ok [OF high_nibble_le [of b]] hex_nibble_ok [OF low_nibble_le [of b]]
  by (auto simp: percent_encode_printable)

lemma percent_roundtrip_witness:
  "percent_decode (percent_encode [0x63, 0xC3, 0xA9, 0x25]) = [0x63, 0xC3, 0xA9, 0x25] \<and>
   list_all printable (percent_encode [0x63, 0xC3, 0xA9, 0x25]) \<and>
   hex_nibble (drop_bit 4 0xFF) \<noteq> None \<and> hex_nibble (0xFF AND 0x0F) \<noteq> None"
proof -
  have "utf8_valid [0x63, 0xC3, 0xA9, 0x25]"
    by (simp add: utf8_valid.simps is_continuation_def)
  from percent_roundtrip [OF this, of "0xFF"] show ?thesis .
qed

text \<open>
  Whatever bytes a peer puts into \<open>grpc-message\<close>, the decoded message is well-formed
  UTF-8, and it is exactly the unescaped bytes when those are UTF-8.
\<close>

lemma percent_decode_total:
  "utf8_valid (percent_decode s) \<and>
   (if utf8_valid (percent_decode_bytes s) then percent_decode s = percent_decode_bytes s
    else percent_decode s = from_utf8_lossy (percent_decode_bytes s))"
  by (simp add: percent_decode_valid) (simp add: percent_decode_def Let_def from_utf8_def)

text \<open>
  C14: A status written into any trailers is read back from them: success as \<open>Ok(())\<close>,
  every error with its code, its message (unless the trailers already held a
  \<open>grpc-message\<close> and the status has none) and, under each key, the values the trailers
  already held followed by its own metadata.
\<close>

theorem status_roundtrip:
  assumes "headers_ok H" and "base64_ok B" and "metadata_wf (st_metadata s)" and "utf8_valid (st_message s)"
    and "h_get_values H h (lit ''grpc-message'') = None"
  shows "from_trailers H B (status_write_into H B s h) =
    (if st_code s = Ok then Inr ()
     else Inl \<lparr>st_code = st_code s, st_message = st_message s,
               st_metadata = from_headers H B (status_write_into H B s h)\<rparr>) \<and>
    values_of (from_headers H B (status_write_into H B s h)) k =
      values_of (from_headers H B h) k @ values_of (st_metadata s) k"
  using from_trailers_written [OF assms(1,3-5)] values_of_written [OF assms(1-3)] by blast

theorem status_roundtrip_witness:
  "from_trailers dalist_headers \<lparr>b64_encode = id, b64_decode = Some\<rparr>
     (status_write_into dalist_headers \<lparr>b64_encode = id, b64_decode = Some\<rparr>
       (status_new NotFound (lit ''user 42 missing'')) DAList.empty) =
   Inl \<lparr>st_code = NotFound, st_message = lit ''user 42 missing'',
        st_metadata = from_headers dalist_headers \<lparr>b64_encode = id, b64_decode = Some\<rparr>
          (status_write_into dalist_headers \<lparr>b64_encode = id, b64_decode = Some\<rparr>
            (status_new NotFound (lit ''user 42 missing'')) DAList.empty)\<rparr>"
  using status_roundtrip [OF headers_ok_dalist, of "\<lparr>b64_encode = id, b64_decode = Some\<rparr>"
      "status_new NotFound (lit ''user 42 missing'')" DAList.empty]
  by (simp add: base64_ok_def status_new_def metadata_wf_new dalist_headers_def
      utf8_valid_ascii byte_simps)

text \<open>
  C15: Reading trailers is total and never mistakes an error for success: the result is
  \<open>Ok(())\<close> exactly when a single \<open>grpc-status\<close> header is present that parses to 0; a missing, repeated,
  non-numeric, overflowing or unassigned status is the error \<open>Unknown\<close>.
\<close>

theorem from_trailers_verdict:
  "(from_trailers H B h = Inr () \<longleftrightarrow>
     (\<exists>v. h_get_str H h (lit ''grpc-status'') = Some v \<and> parse_unsigned 256 v = Some 0)) \<and>
   (Option.bind (Option.bind (h_get_str H h (lit ''grpc-status'')) (parse_unsigned 256))
      (\<lambda>n. code_from_u8 (of_nat n)) = None \<longrightarrow>
    (\<exists>s. from_trailers H B h = Inl s \<and> st_code s = Unknown))"
proof -
  have zero: "code_from_u8 (of_nat n) = Some Ok \<longleftrightarrow> n = 0" if "n < 256" for n
  proof -
    have "(of_nat n :: u8) = 0 \<longleftrightarrow> n = 0"
      using that by (auto simp: word_of_nat_eq_0_iff dest: dvd_imp_le)
    moreover have "code_from_u8 m = Some Ok \<longleftrightarrow> m = 0" for m
      using as_u8_from [of m Ok] code_from_as_u8 [of Ok] by auto
    ultimately show ?thesis by blast
  qed
  have "trailers_code v = Ok \<longleftrightarrow> (\<exists>s. v = Some s \<and> parse_unsigned 256 s = Some 0)" for v
    using zero parse_unsigned_bound [of 256]
    by (fastforce simp: trailers_code_def bind_eq_Some_conv split: option.splits)
  then show ?thesis
    by (auto simp: from_trailers_def Let_def trailers_code_def)
qed

theorem from_trailers_verdict_witness:
  "\<exists>s. from_trailers dalist_headers \<lparr>b64_encode = id, b64_decode = Some\<rparr>
     (h_insert dalist_headers DAList.empty (lit ''grpc-status'') (lit ''999'')) = Inl s \<and> st_code s = Unknown"
  using from_trailers_verdict [of dalist_headers "\<lparr>b64_encode = id, b64_decode = Some\<rparr>"
      "h_insert dalist_headers DAList.empty (lit ''grpc-status'') (lit ''999'')"]
  by (simp add: h_get_str_inserted headers_ok_dalist utf8_valid_ascii lit_def
      parse_unsigned_digits is_ascii_digit_def digits_value_def digit_value_def)

end
