(* ===== verification/Encoding.thy ===== *)
theory Encoding
  imports Status
begin

text \<open>
  \<open>src/encoding.rs\<close>: the per-message compression codecs, their wire tokens, and
  compression and decompression with the size cap. Which codecs exist depends on the Cargo
  features of the build, a parameter of the model. The compression libraries (\<open>flate2\<close>,
  \<open>zstd\<close>) are parameters too; \<open>codecs_ok\<close> is their documented round trip.
\<close>

section \<open>Data\<close>

definition DEFAULT_MAX_MESSAGE_SIZE :: nat where
  "DEFAULT_MAX_MESSAGE_SIZE = 4 * 1024 * 1024"

datatype encoding = Identity | Gzip | Deflate | Zstd

text \<open>The \<open>gzip\<close>, \<open>deflate\<close> and \<open>zstd\<close> features of a build.\<close>

record features =
  f_gzip :: bool
  f_deflate :: bool
  f_zstd :: bool

text \<open>The variants a build has.\<close>

fun enabled :: "features \<Rightarrow> encoding \<Rightarrow> bool" where
  "enabled F Identity = True"
| "enabled F Gzip = f_gzip F"
| "enabled F Deflate = f_deflate F"
| "enabled F Zstd = f_zstd F"

definition all_encodings :: "features \<Rightarrow> encoding list" where
  "all_encodings F =
     [Identity] @ (if f_gzip F then [Gzip] else []) @ (if f_deflate F then [Deflate] else [])
       @ (if f_zstd F then [Zstd] else [])"

section \<open>Wire tokens\<close>

definition from_grpc_encoding :: "features \<Rightarrow> str \<Rightarrow> encoding option" where
  "from_grpc_encoding F s =
     (if s = lit ''identity'' then Some Identity
      else if f_gzip F \<and> s = lit ''gzip'' then Some Gzip
      else if f_deflate F \<and> s = lit ''deflate'' then Some Deflate
      else if f_zstd F \<and> s = lit ''zstd'' then Some Zstd
      else None)"

fun as_grpc_encoding :: "encoding \<Rightarrow> str" where
  "as_grpc_encoding Identity = lit ''identity''"
| "as_grpc_encoding Gzip = lit ''gzip''"
| "as_grpc_encoding Deflate = lit ''deflate''"
| "as_grpc_encoding Zstd = lit ''zstd''"

definition accepted_encodings :: "features \<Rightarrow> str" where
  "accepted_encodings F = join (lit '','') (map as_grpc_encoding (all_encodings F))"

section \<open>Compression\<close>

text \<open>
  The libraries. A compressor yields the compressed bytes or an I/O error's text. A decoder
  is a reader: the bytes it yields, and the error that ends them if one does. Building the
  zstd decoder can itself fail.
\<close>

record codecs =
  gz_compress :: "bytes \<Rightarrow> str + bytes"
  gz_decoder :: "bytes \<Rightarrow> bytes \<times> str option"
  df_compress :: "bytes \<Rightarrow> str + bytes"
  df_decoder :: "bytes \<Rightarrow> bytes \<times> str option"
  zs_compress :: "bytes \<Rightarrow> str + bytes"
  zs_decoder :: "bytes \<Rightarrow> str + (bytes \<times> str option)"

definition oversize :: "nat \<Rightarrow> status" where
  "oversize max_size = st_resource_exhausted
     (lit ''decompressed message exceeds limit of '' @ show_nat max_size @ lit '' bytes'')"

definition map_io_err :: "string \<Rightarrow> str + 'a \<Rightarrow> 'a result" where
  "map_io_err ctx r = (case r of Inl e \<Rightarrow> Inl (st_internal (lit ctx @ lit '': '' @ e)) | Inr x \<Rightarrow> Inr x)"

text \<open>
  \<open>read_capped\<close>: \<open>take(max_size as u64 + 1)\<close>, then \<open>read_to_end\<close>. The limit is a
  64-bit sum, which wraps in a build without overflow checks. A reader that has yielded the
  limit is not polled again, so an error behind the limit is not seen.
\<close>

definition take_limit :: "nat \<Rightarrow> nat" where
  "take_limit max_size = unat (of_nat max_size + 1 :: u64)"

definition read_capped :: "bytes \<times> str option \<Rightarrow> nat \<Rightarrow> string \<Rightarrow> bytes result" where
  "read_capped r max_size ctx =
     (let limit = take_limit max_size in
      and_then
        (map_io_err ctx
          (if length (fst r) < limit
           then (case snd r of Some e \<Rightarrow> Inl e | None \<Rightarrow> Inr (fst r))
           else Inr (take limit (fst r))))
        (\<lambda>out. if length out > max_size then Inl (oversize max_size) else Inr out))"

definition gzip_compress :: "codecs \<Rightarrow> bytes \<Rightarrow> bytes result" where
  "gzip_compress C data = map_io_err ''gzip compress'' (gz_compress C data)"

definition gzip_decompress :: "codecs \<Rightarrow> bytes \<Rightarrow> nat \<Rightarrow> bytes result" where
  "gzip_decompress C data max_size = read_capped (gz_decoder C data) max_size ''gzip decompress''"

definition deflate_compress :: "codecs \<Rightarrow> bytes \<Rightarrow> bytes result" where
  "deflate_compress C data = map_io_err ''deflate compress'' (df_compress C data)"

definition deflate_decompress :: "codecs \<Rightarrow> bytes \<Rightarrow> nat \<Rightarrow> bytes result" where
  "deflate_decompress C data max_size =
     read_capped (df_decoder C data) max_size ''deflate decompress''"

definition zstd_compress :: "codecs \<Rightarrow> bytes \<Rightarrow> bytes result" where
  "zstd_compress C data = map_io_err ''zstd compress'' (zs_compress C data)"

definition zstd_decompress :: "codecs \<Rightarrow> bytes \<Rightarrow> nat \<Rightarrow> bytes result" where
  "zstd_decompress C data max_size =
     and_then (map_io_err ''zstd decompress'' (zs_decoder C data))
       (\<lambda>dec. read_capped dec max_size ''zstd decompress'')"

fun compress :: "codecs \<Rightarrow> encoding \<Rightarrow> bytes \<Rightarrow> bytes result" where
  "compress C Identity data = Inr data"
| "compress C Gzip data = gzip_compress C data"
| "compress C Deflate data = deflate_compress C data"
| "compress C Zstd data = zstd_compress C data"

fun decompress :: "codecs \<Rightarrow> encoding \<Rightarrow> bytes \<Rightarrow> nat \<Rightarrow> bytes result" where
  "decompress C Identity data max_size =
     (if length data > max_size then Inl (oversize max_size) else Inr data)"
| "decompress C Gzip data max_size = gzip_decompress C data max_size"
| "decompress C Deflate data max_size = deflate_decompress C data max_size"
| "decompress C Zstd data max_size = zstd_decompress C data max_size"

text \<open>The documented round trip of the libraries.\<close>

definition codecs_ok :: "codecs \<Rightarrow> bool" where
  "codecs_ok C \<longleftrightarrow>
     (\<forall>d z. gz_compress C d = Inr z \<longrightarrow> gz_decoder C z = (d, None)) \<and>
     (\<forall>d z. df_compress C d = Inr z \<longrightarrow> df_decoder C z = (d, None)) \<and>
     (\<forall>d z. zs_compress C d = Inr z \<longrightarrow> zs_decoder C z = Inr (d, None))"

section \<open>Lemmas\<close>

lemma set_all_encodings: "set (all_encodings F) = {e. enabled F e}"
proof -
  have "e \<in> set (all_encodings F) \<longleftrightarrow> enabled F e" for e
    by (cases e) (auto simp: all_encodings_def)
  then show ?thesis by blast
qed

lemma distinct_all_encodings: "distinct (all_encodings F)"
  by (simp add: all_encodings_def)

lemma from_grpc_encoding_Some:
  "from_grpc_encoding F s = Some e \<longleftrightarrow> enabled F e \<and> s = as_grpc_encoding e"
  by (cases e) (auto simp: from_grpc_encoding_def)

lemma token_bytes: "\<forall>b \<in> set (as_grpc_encoding e). 0x61 \<le> b \<and> b \<le> 0x7A"
  by (cases e) (simp_all add: lit_def)

lemma token_utf8: "utf8_valid (as_grpc_encoding e)"
  by (rule utf8_valid_ascii)
     (use token_bytes [of e] in \<open>auto simp: word_le_nat_alt word_less_nat_alt\<close>)

lemma token_trim: "trim (as_grpc_encoding e) = as_grpc_encoding e"
  by (rule trim_id)
     (use token_bytes [of e] in \<open>auto simp: word_le_nat_alt word_less_nat_alt\<close>)

interpretation encoding_token:
  wire_token as_grpc_encoding "from_grpc_encoding F" "enabled F" for F
  by unfold_locales (simp_all add: from_grpc_encoding_Some token_utf8)

lemma as_grpc_encoding_inj [simp]: "as_grpc_encoding d = as_grpc_encoding e \<longleftrightarrow> d = e"
  by (cases d; cases e) simp_all

lemma accepted_encodings_split:
  "split_on 0x2C (accepted_encodings F) = map as_grpc_encoding (all_encodings F)"
proof -
  have "\<forall>p \<in> set (map as_grpc_encoding (all_encodings F)). 0x2C \<notin> set p"
    using token_bytes by fastforce
  moreover have "map as_grpc_encoding (all_encodings F) \<noteq> []"
    by (simp add: all_encodings_def)
  ultimately show ?thesis
    by (simp add: accepted_encodings_def split_on_join lit_def)
qed

lemma take_limit_small: "max_size < 2 ^ 64 - 1 \<Longrightarrow> take_limit max_size = Suc max_size"
proof -
  assume "max_size < 2 ^ 64 - 1"
  then have "Suc max_size < 2 ^ LENGTH(64)" by simp
  moreover have "(of_nat max_size + 1 :: u64) = of_nat (Suc max_size)" by (simp add: add.commute)
  ultimately show ?thesis by (simp only: take_limit_def unat_of_nat mod_less)
qed

lemma take_limit_wraps: "take_limit (2 ^ 64 - 1) = 0"
  by (simp add: take_limit_def)

lemma map_io_err_Inr [simp]: "map_io_err ctx (Inr x) = Inr x"
  by (simp add: map_io_err_def)

lemma map_io_err_eq_Inr: "map_io_err ctx r = Inr x \<longleftrightarrow> r = Inr x"
  by (cases r) (auto simp: map_io_err_def)

lemma read_capped_bound: "read_capped r max_size ctx = Inr out \<Longrightarrow> length out \<le> max_size"
  by (auto simp: read_capped_def Let_def and_then_eq_Inr split: if_splits)

lemma read_capped_within:
  "max_size < 2 ^ 64 - 1 \<Longrightarrow> length d \<le> max_size \<Longrightarrow> read_capped (d, None) max_size ctx = Inr d"
  by (simp add: read_capped_def take_limit_small Let_def)

lemma read_capped_exceeds:
  "max_size < 2 ^ 64 - 1 \<Longrightarrow> length (fst r) > max_size \<Longrightarrow>
   read_capped r max_size ctx = Inl (oversize max_size)"
  by (simp add: read_capped_def take_limit_small Let_def min_def)

lemma read_capped_wraps:
  "read_capped r (2 ^ 64 - 1) ctx = Inr []"
  by (simp only: read_capped_def take_limit_wraps) simp

lemmas read_capped_wraps' = read_capped_wraps [simplified]

text \<open>
  The decoder that \<open>decompress\<close> drains under a compressing codec, and the name it gives to
  errors: one case per feature in the code, one function here.
\<close>

definition decoder :: "codecs \<Rightarrow> encoding \<Rightarrow> bytes \<Rightarrow> (bytes \<times> str option) result" where
  "decoder C e data =
     (case e of Identity \<Rightarrow> Inr (data, None) | Gzip \<Rightarrow> Inr (gz_decoder C data)
      | Deflate \<Rightarrow> Inr (df_decoder C data)
      | Zstd \<Rightarrow> map_io_err ''zstd decompress'' (zs_decoder C data))"

definition decoder_ctx :: "encoding \<Rightarrow> string" where
  "decoder_ctx e = (case e of Identity \<Rightarrow> [] | Gzip \<Rightarrow> ''gzip decompress''
      | Deflate \<Rightarrow> ''deflate decompress'' | Zstd \<Rightarrow> ''zstd decompress'')"

lemma decompress_decoder:
  "e \<noteq> Identity \<Longrightarrow>
   decompress C e data max_size =
     and_then (decoder C e data) (\<lambda>r. read_capped r max_size (decoder_ctx e))"
  by (cases e) (simp_all add: decoder_def decoder_ctx_def gzip_decompress_def
      deflate_decompress_def zstd_decompress_def)

lemma decompress_bound: "decompress C e data max_size = Inr out \<Longrightarrow> length out \<le> max_size"
proof (cases "e = Identity")
  case False
  assume "decompress C e data max_size = Inr out"
  then show ?thesis
    using False by (auto simp: decompress_decoder and_then_eq_Inr dest: read_capped_bound)
qed (auto split: if_splits)

lemma decoder_of_compressed:
  "codecs_ok C \<Longrightarrow> compress C e data = Inr z \<Longrightarrow> decoder C e z = Inr (data, None)"
  by (cases e) (auto simp: codecs_ok_def decoder_def gzip_compress_def deflate_compress_def
      zstd_compress_def map_io_err_eq_Inr)

lemma decompress_compressed:
  assumes "codecs_ok C" and "compress C e data = Inr z"
    and "length data \<le> max_size" and "max_size < 2 ^ 64 - 1"
  shows "decompress C e z max_size = Inr data"
proof (cases "e = Identity")
  case False
  with assms show ?thesis
    by (simp add: decompress_decoder decoder_of_compressed read_capped_within)
qed (use assms in auto)

lemma decompress_too_big:
  assumes "decoder C e data = Inr r" and "length (fst r) > max_size" and "max_size < 2 ^ 64 - 1"
  shows "decompress C e data max_size = Inl (oversize max_size)"
proof (cases "e = Identity")
  case False
  with assms show ?thesis by (simp add: decompress_decoder read_capped_exceeds)
qed (use assms in \<open>auto simp: decoder_def\<close>)

text \<open>Codecs for examples: compression that prefixes one byte.\<close>

definition prefix_codecs :: codecs where
  "prefix_codecs = \<lparr>
     gz_compress = (\<lambda>d. Inr (0x1F # d)), gz_decoder = (\<lambda>z. (tl z, None)),
     df_compress = (\<lambda>d. Inr (0x78 # d)), df_decoder = (\<lambda>z. (tl z, None)),
     zs_compress = (\<lambda>d. Inr (0x28 # d)), zs_decoder = (\<lambda>z. Inr (tl z, None))\<rparr>"

lemma codecs_ok_prefix: "codecs_ok prefix_codecs"
  by (auto simp: codecs_ok_def prefix_codecs_def)

section \<open>Properties\<close>

text \<open>
  The value of \<open>grpc-accept-encoding\<close> that a build sends splits at its commas into
  tokens that the same build parses back to exactly its own codecs, \<open>identity\<close> first and
  no codec twice, and no other token is accepted.
\<close>

lemma advertised_encodings:
  "map (from_grpc_encoding F) (split_on 0x2C (accepted_encodings F)) = map Some (all_encodings F) \<and>
   hd (all_encodings F) = Identity \<and> distinct (all_encodings F) \<and>
   (from_grpc_encoding F s = None \<longleftrightarrow> s \<notin> set (split_on 0x2C (accepted_encodings F)))"
proof -
  have tok: "from_grpc_encoding F (as_grpc_encoding e) = Some e \<longleftrightarrow> enabled F e" for e
    by (simp add: from_grpc_encoding_Some)
  have "map (from_grpc_encoding F) (map as_grpc_encoding (all_encodings F)) = map Some (all_encodings F)"
    using set_all_encodings [of F] by (auto simp: tok)
  moreover have "from_grpc_encoding F s = None \<longleftrightarrow> s \<notin> as_grpc_encoding ` set (all_encodings F)"
    by (cases "from_grpc_encoding F s")
       (use from_grpc_encoding_Some [of F s] in \<open>fastforce simp: set_all_encodings\<close>)+
  moreover have "hd (all_encodings F) = Identity" by (simp add: all_encodings_def)
  ultimately show ?thesis
    using distinct_all_encodings [of F]
    by (simp add: accepted_encodings_split)
qed

text \<open>
  Decompression is the inverse of compression for every codec, up to the cap: a message
  of at most \<open>max_size\<close> bytes comes back, and a longer one is refused with
  \<open>ResourceExhausted\<close>, provided the cap is not the largest \<open>usize\<close>.
\<close>

lemma compression_roundtrip:
  assumes "codecs_ok C" and "compress C e data = Inr z" and "max_size < 2 ^ 64 - 1"
  shows "decompress C e z max_size =
    (if length data \<le> max_size then Inr data else Inl (oversize max_size))"
  using assms decompress_compressed decompress_too_big decoder_of_compressed by simp

lemma compression_roundtrip_witness:
  "decompress prefix_codecs Gzip [0x1F, 1, 2, 3] 3 = Inr [1, 2, 3] \<and>
   decompress prefix_codecs Gzip [0x1F, 1, 2, 3] 2 = Inl (oversize 2)"
proof -
  have "compress prefix_codecs Gzip [1, 2, 3] = Inr [0x1F, 1, 2, 3]"
    by (simp add: prefix_codecs_def gzip_compress_def)
  from compression_roundtrip [OF codecs_ok_prefix this, of 3]
       compression_roundtrip [OF codecs_ok_prefix this, of 2]
  show ?thesis by simp
qed

text \<open>
  C39: The zip-bomb defence: whatever the compressed bytes are and whatever the codec library
  does with them, decompression never yields more than \<open>max_size\<close> bytes, and when the
  decoder would yield more the result is the \<open>ResourceExhausted\<close> error, even if the
  decoder would also fail behind the cap.
\<close>

theorem decompress_capped:
  assumes "max_size < 2 ^ 64 - 1"
  shows "(\<forall>out. decompress C e data max_size = Inr out \<longrightarrow> length out \<le> max_size) \<and>
    (\<forall>out err. decoder C e data = Inr (out, err) \<longrightarrow> length out > max_size \<longrightarrow>
       decompress C e data max_size = Inl (oversize max_size))"
  using assms decompress_bound decompress_too_big [where r = "(a, b)" for a b] by auto

theorem decompress_capped_witness:
  "decompress (prefix_codecs\<lparr>gz_decoder := (\<lambda>_. (replicate 1000 0, Some (lit ''corrupt'')))\<rparr>)
     Gzip [7] 999 = Inl (oversize 999)"
  using decompress_capped [of 999
      "prefix_codecs\<lparr>gz_decoder := (\<lambda>_. (replicate 1000 0, Some (lit ''corrupt'')))\<rparr>" Gzip "[7]"]
  by (simp add: decoder_def)

text \<open>
  With the cap set to the largest \<open>usize\<close> (\<open>with_max_message_size(usize::MAX)\<close>, the
  natural way to ask for no cap) the sum \<open>max_size as u64 + 1\<close> wraps to 0 and every
  compressed message whose decoder can be built decompresses to the empty message, with no
  error; only the identity codec still returns the data.
\<close>

lemma unlimited_cap_loses_data:
  assumes "decoder C e data = Inr r"
  shows "decompress C e data (2 ^ 64 - 1) =
    (if e = Identity then (if length data < 2 ^ 64 then Inr data else Inl (oversize (2 ^ 64 - 1)))
     else Inr [])"
  using assms
  by (cases "e = Identity") (auto simp: decompress_decoder read_capped_wraps')

lemma unlimited_cap_loses_data_witness:
  "decompress prefix_codecs Gzip [0x1F, 1, 2, 3] (2 ^ 64 - 1) = Inr []"
  using unlimited_cap_loses_data [of prefix_codecs Gzip "[0x1F, 1, 2, 3]" "([1, 2, 3], None)"]
  by (simp add: decoder_def prefix_codecs_def)

end
