(* ===== verification/Codec.thy ===== *)
theory Codec
  imports Encoding
begin

text \<open>
  \<open>src/codec/mod.rs\<close> and \<open>src/codec/prost_codec.rs\<close>: the \<open>Codec\<close> trait as a record of its
  functions, and its protobuf implementation over the \<open>prost\<close> library, which is a
  parameter. \<open>codec_ok\<close> is the law a codec is written to satisfy; \<open>prost_ok\<close> is the
  documented round trip of the library, from which the implementation has it.
\<close>

record 'a codec =
  content_type_suffix :: str
  encode_msg :: "'a \<Rightarrow> bytes result"
  decode_msg :: "bytes \<Rightarrow> 'a result"

definition codec_ok :: "'a codec \<Rightarrow> bool" where
  "codec_ok K \<longleftrightarrow> (\<forall>v b. encode_msg K v = Inr b \<longrightarrow> decode_msg K b = Inr v)"

text \<open>\<open>prost::Message\<close>: the errors are the text of the library's error values.\<close>

record 'a prost_api =
  pm_encode :: "'a \<Rightarrow> str + bytes"
  pm_decode :: "bytes \<Rightarrow> str + 'a"

definition prost_ok :: "'a prost_api \<Rightarrow> bool" where
  "prost_ok P \<longleftrightarrow> (\<forall>v b. pm_encode P v = Inr b \<longrightarrow> pm_decode P b = Inr v)"

definition prost_encode :: "'a prost_api \<Rightarrow> 'a \<Rightarrow> bytes result" where
  "prost_encode P value =
     (case pm_encode P value of
        Inl e \<Rightarrow> Inl (st_internal (lit ''prost encode failed: '' @ e))
      | Inr buf \<Rightarrow> Inr buf)"

definition prost_decode :: "'a prost_api \<Rightarrow> bytes \<Rightarrow> 'a result" where
  "prost_decode P b =
     (case pm_decode P b of
        Inl e \<Rightarrow> Inl (st_invalid_argument (lit ''prost decode failed: '' @ e))
      | Inr v \<Rightarrow> Inr v)"

definition prost_codec :: "'a prost_api \<Rightarrow> 'a codec" where
  "prost_codec P = \<lparr>content_type_suffix = lit ''proto'', encode_msg = prost_encode P,
                     decode_msg = prost_decode P\<rparr>"

lemma codec_ok_prost [wf_intros]: "prost_ok P \<Longrightarrow> codec_ok (prost_codec P)"
  by (auto simp: codec_ok_def prost_ok_def prost_codec_def prost_encode_def prost_decode_def
      split: sum.splits)

text \<open>A codec for examples: a message is its bytes.\<close>

definition raw_codec :: "bytes codec" where
  "raw_codec = \<lparr>content_type_suffix = lit ''proto'', encode_msg = Inr, decode_msg = Inr\<rparr>"

lemma codec_ok_raw: "codec_ok raw_codec"
  by (simp add: codec_ok_def raw_codec_def)

end
