(* ===== verification/FrameWriter.thy ===== *)
theory FrameWriter
  imports Codec
begin

text \<open>
  \<open>src/frame/writer.rs\<close>: one message as a frame, a flag byte, the payload's length as a
  big-endian \<open>u32\<close>, and the payload. The length is cast with \<open>as u32\<close>, which keeps the
  low 32 bits.
\<close>

definition PREFIX_LEN :: nat where
  "PREFIX_LEN = 5"

text \<open>\<open>u32::to_be_bytes\<close> and \<open>u32::from_be_bytes\<close>.\<close>

definition u32_to_be_bytes :: "u32 \<Rightarrow> bytes" where
  "u32_to_be_bytes w = [ucast (drop_bit 24 w), ucast (drop_bit 16 w), ucast (drop_bit 8 w), ucast w]"

definition u32_from_be_bytes :: "u8 \<Rightarrow> u8 \<Rightarrow> u8 \<Rightarrow> u8 \<Rightarrow> u32" where
  "u32_from_be_bytes a b c d =
     push_bit 24 (ucast a) OR push_bit 16 (ucast b) OR push_bit 8 (ucast c) OR ucast d"

definition encode_payload :: "codecs \<Rightarrow> bytes \<Rightarrow> encoding \<Rightarrow> bytes result" where
  "encode_payload C payload enc =
     and_then
       (case enc of
          Identity \<Rightarrow> Inr (0 :: u8, payload)
        | _ \<Rightarrow> and_then (compress C enc payload) (\<lambda>z. Inr (1, z)))
       (\<lambda>(flag, payload).
          Inr ([flag] @ u32_to_be_bytes (of_nat (length payload)) @ payload))"

definition encode_frame :: "codecs \<Rightarrow> 'a codec \<Rightarrow> 'a \<Rightarrow> encoding \<Rightarrow> bytes result" where
  "encode_frame C K value enc =
     and_then (encode_msg K value) (\<lambda>b. encode_payload C b enc)"

section \<open>Lemmas\<close>

lemma length_u32_to_be_bytes [simp]: "length (u32_to_be_bytes w) = 4"
  by (simp add: u32_to_be_bytes_def)

lemma u32_be_bytes_inverse:
  "u32_from_be_bytes (ucast (drop_bit 24 w)) (ucast (drop_bit 16 w)) (ucast (drop_bit 8 w)) (ucast w) = w"
proof (rule bit_word_eqI, goal_cases)
  case (1 n)
  then consider "n < 8" | "8 \<le> n" "n < 16" | "16 \<le> n" "n < 24" | "24 \<le> n" "n < 32" by fastforce
  then show ?case by cases (auto simp: u32_from_be_bytes_def bit_simps)
qed

lemma encode_payload_eq:
  "encode_payload C payload enc =
     and_then (compress C enc payload) (\<lambda>z.
       Inr ((if enc = Identity then 0 else 1) # u32_to_be_bytes (of_nat (length z)) @ z))"
  by (cases enc) (simp_all add: encode_payload_def, auto split: sum.splits
      simp: gzip_compress_def deflate_compress_def zstd_compress_def map_io_err_def)

lemma encode_payload_Inr:
  "encode_payload C payload enc = Inr frame \<longleftrightarrow>
     (\<exists>z. compress C enc payload = Inr z \<and>
          frame = (if enc = Identity then 0 else 1) # u32_to_be_bytes (of_nat (length z)) @ z)"
  by (auto simp: encode_payload_eq and_then_eq_Inr)

lemma encode_frame_Inr:
  "encode_frame C K v enc = Inr frame \<longleftrightarrow>
     (\<exists>b z. encode_msg K v = Inr b \<and> compress C enc b = Inr z \<and>
          frame = (if enc = Identity then 0 else 1) # u32_to_be_bytes (of_nat (length z)) @ z)"
  by (auto simp: encode_frame_def and_then_eq_Inr encode_payload_Inr)

text \<open>The length a reader finds in a frame.\<close>

definition frame_len :: "bytes \<Rightarrow> nat" where
  "frame_len buf = unat (u32_from_be_bytes (buf ! 1) (buf ! 2) (buf ! 3) (buf ! 4))"

lemma frame_len_written:
  "frame_len (f # u32_to_be_bytes (of_nat n) @ rest) = n mod 2 ^ 32"
proof -
  have "unat (of_nat n :: u32) = n mod 2 ^ LENGTH(32)" by (rule unat_of_nat)
  then show ?thesis
    by (simp add: frame_len_def u32_to_be_bytes_def u32_be_bytes_inverse [of "of_nat n", simplified])
qed

section \<open>Properties\<close>

text \<open>
  A frame is the flag byte (0 for the identity codec, 1 for a compressing one), the four
  length bytes and the (compressed) payload; the length bytes read back as the payload's
  length exactly when that is below \<open>2 ^ 32\<close>. A longer payload is not refused: its length is
  silently reduced modulo \<open>2 ^ 32\<close>, so the peer is told a shorter one and takes the rest of
  the payload for further frames.
\<close>

lemma frame_layout:
  assumes "encode_payload C payload enc = Inr frame"
  shows "\<exists>z. compress C enc payload = Inr z \<and> length frame = PREFIX_LEN + length z \<and>
    hd frame = (if enc = Identity then 0 else 1) \<and> drop PREFIX_LEN frame = z \<and>
    frame_len frame = length z mod 2 ^ 32 \<and> (frame_len frame = length z \<longleftrightarrow> length z < 2 ^ 32)"
proof -
  from assms obtain z where z: "compress C enc payload = Inr z"
    and f: "frame = (if enc = Identity then 0 else 1) # u32_to_be_bytes (of_nat (length z)) @ z"
    by (auto simp: encode_payload_Inr)
  have len: "frame_len frame = length z mod 2 ^ 32"
    unfolding f by (rule frame_len_written)
  moreover have "length z mod 2 ^ 32 = length z \<longleftrightarrow> length z < 2 ^ 32"
    by (metis mod_less mod_less_divisor zero_less_numeral zero_less_power)
  ultimately show ?thesis
    using z by (auto simp: f PREFIX_LEN_def intro!: exI [of _ z] split: if_splits)
qed

lemma frame_layout_witness:
  "\<exists>z. compress prefix_codecs Gzip [7] = Inr z \<and> length [1, 0, 0, 0, 2, 0x1F, 7 :: u8] = PREFIX_LEN + length z \<and>
    hd [1, 0, 0, 0, 2, 0x1F, 7 :: u8] = (if Gzip = Identity then 0 else 1) \<and>
    drop PREFIX_LEN [1, 0, 0, 0, 2, 0x1F, 7] = z \<and>
    frame_len [1, 0, 0, 0, 2, 0x1F, 7] = length z mod 2 ^ 32 \<and>
    (frame_len [1, 0, 0, 0, 2, 0x1F, 7] = length z \<longleftrightarrow> length z < 2 ^ 32)"
  by (rule frame_layout)
     (simp add: encode_payload_eq prefix_codecs_def gzip_compress_def u32_to_be_bytes_def)

end
