(* ===== verification/FrameReader.thy ===== *)
theory FrameReader
  imports FrameWriter
begin

text \<open>
  \<open>src/frame/reader.rs\<close>: the state machine that turns any \<open>AsyncRead\<close> into a stream of
  decoded messages, resumable between polls. A reader is a state with a \<open>poll_read\<close>
  function that takes the size of the buffer and yields the bytes it put there.

  The locales are the interface of the readers: \<open>async_read\<close> is the contract of
  \<open>AsyncRead\<close>, \<open>byte_source\<close> a reader with a definite content, \<open>live_source\<close> one that
  is not pending for ever. Inside them the state machine is shown to implement the frame
  grammar \<open>next_frame\<close>, which knows nothing of chunks and polls.
\<close>

section \<open>Data\<close>

text \<open>An I/O error is its text.\<close>

type_synonym 'r poll_read_fn = "'r \<Rightarrow> nat \<Rightarrow> (str + bytes) poll \<times> 'r"

datatype read_state =
    ReadingPrefix bytes nat
  | ReadingPayload bool bytes nat
  | Done

definition read_state_new :: read_state where
  "read_state_new = ReadingPrefix (replicate PREFIX_LEN 0) 0"

record ('a, 'r) message_stream =
  ms_reader :: 'r
  ms_state :: read_state
  ms_max_message_size :: nat
  ms_encoding :: encoding
  ms_decode :: "bytes \<Rightarrow> 'a result"

definition message_stream_new :: "'r \<Rightarrow> (bytes \<Rightarrow> 'a result) \<Rightarrow> ('a, 'r) message_stream" where
  "message_stream_new reader decode =
     \<lparr>ms_reader = reader, ms_state = read_state_new,
      ms_max_message_size = DEFAULT_MAX_MESSAGE_SIZE, ms_encoding = Identity, ms_decode = decode\<rparr>"

definition with_max_message_size :: "('a, 'r) message_stream \<Rightarrow> nat \<Rightarrow> ('a, 'r) message_stream" where
  "with_max_message_size s max_size = s\<lparr>ms_max_message_size := max_size\<rparr>"

definition with_encoding :: "('a, 'r) message_stream \<Rightarrow> encoding \<Rightarrow> ('a, 'r) message_stream" where
  "with_encoding s enc = s\<lparr>ms_encoding := enc\<rparr>"

section \<open>The state machine\<close>

text \<open>
  The \<open>while *filled < len\<close> loops: read into the unfilled part of the buffer until it is
  full, or the reader is pending, fails or is at its end. The buffer and the fill mark are
  what the loop leaves in the state.
\<close>

datatype fill = FillPending | FillErr str | FillEof | FillFull

definition overwrite :: "bytes \<Rightarrow> nat \<Rightarrow> bytes \<Rightarrow> bytes" where
  "overwrite buf at bs = take at buf @ bs @ drop (at + length bs) buf"

function fill_loop :: "'r poll_read_fn \<Rightarrow> bytes \<Rightarrow> nat \<Rightarrow> 'r \<Rightarrow> fill \<times> bytes \<times> nat \<times> 'r" where
  "fill_loop poll_read buf filled reader =
     (if filled < length buf then
        (case poll_read reader (length buf - filled) of
           (Pending, reader') \<Rightarrow> (FillPending, buf, filled, reader')
         | (Ready (Inl e), reader') \<Rightarrow> (FillErr e, buf, filled, reader')
         | (Ready (Inr bs), reader') \<Rightarrow>
             (if bs = [] then (FillEof, buf, filled, reader')
              else fill_loop poll_read (overwrite buf filled bs) (filled + length bs) reader'))
      else (FillFull, buf, filled, reader))"
  by pat_completeness auto
termination
proof (relation "measure (\<lambda>(_, buf, filled, _). length buf - filled)")
  fix buf bs :: bytes and filled and poll_read :: "'r poll_read_fn" and r reader
  assume "filled < length buf" and "bs \<noteq> []"
  then show "((poll_read, overwrite buf filled bs, filled + length bs, r), poll_read, buf, filled, reader)
      \<in> measure (\<lambda>(_, buf, filled, _). length buf - filled)"
    by (cases bs) (auto simp: overwrite_def)
qed simp

declare fill_loop.simps [simp del]

text \<open>What the last arm does with a complete payload.\<close>

definition finish_message ::
  "codecs \<Rightarrow> (bytes \<Rightarrow> 'a result) \<Rightarrow> encoding \<Rightarrow> nat \<Rightarrow> bool \<Rightarrow> bytes \<Rightarrow> 'a result" where
  "finish_message C decode enc max_size compressed payload =
     and_then
       (if compressed then
          (if enc = Identity
           then Inl (st_internal (lit ''received compressed message but no encoding negotiated''))
           else decompress C enc payload max_size)
        else Inr payload)
       decode"

function poll_read_message ::
  "codecs \<Rightarrow> 'r poll_read_fn \<Rightarrow> (bytes \<Rightarrow> 'a result) \<Rightarrow> encoding \<Rightarrow> nat \<Rightarrow> read_state \<Rightarrow> 'r
   \<Rightarrow> ('a result) option poll \<times> read_state \<times> 'r" where
  "poll_read_message C poll_read decode enc max_size Done reader = (Ready None, Done, reader)"
| "poll_read_message C poll_read decode enc max_size (ReadingPrefix buf filled) reader =
     (case fill_loop poll_read buf filled reader of
        (FillPending, buf, filled, reader) \<Rightarrow> (Pending, ReadingPrefix buf filled, reader)
      | (FillErr e, buf, filled, reader) \<Rightarrow>
          (Ready (Some (Inl (st_unavailable (lit ''read error: '' @ e)))), Done, reader)
      | (FillEof, buf, filled, reader) \<Rightarrow>
          (if filled = 0 then (Ready None, Done, reader)
           else (Ready (Some (Inl (st_internal (lit ''unexpected EOF in frame prefix'')))), Done, reader))
      | (FillFull, buf, filled, reader) \<Rightarrow>
          (let compressed = (buf ! 0 \<noteq> 0); len = frame_len buf in
           if len > max_size then
             (Ready (Some (Inl (st_resource_exhausted
                (lit ''received message of '' @ show_nat len @ lit '' bytes exceeds limit of ''
                   @ show_nat max_size)))), Done, reader)
           else poll_read_message C poll_read decode enc max_size
                  (ReadingPayload compressed (replicate len 0) 0) reader))"
| "poll_read_message C poll_read decode enc max_size (ReadingPayload compressed payload filled) reader =
     (case fill_loop poll_read payload filled reader of
        (FillPending, payload, filled, reader) \<Rightarrow>
          (Pending, ReadingPayload compressed payload filled, reader)
      | (FillErr e, payload, filled, reader) \<Rightarrow>
          (Ready (Some (Inl (st_unavailable (lit ''read error: '' @ e)))), Done, reader)
      | (FillEof, payload, filled, reader) \<Rightarrow>
          (Ready (Some (Inl (st_internal (lit ''unexpected EOF in frame payload'')))), Done, reader)
      | (FillFull, payload, filled, reader) \<Rightarrow>
          (Ready (Some (finish_message C decode enc max_size compressed payload)),
           read_state_new, reader))"
  by pat_completeness auto
termination
  by (relation "measure (\<lambda>(_, _, _, _, _, st, _). case st of ReadingPrefix _ _ \<Rightarrow> 1 | _ \<Rightarrow> 0)") simp_all

definition poll_next ::
  "codecs \<Rightarrow> 'r poll_read_fn \<Rightarrow> ('a, 'r) message_stream
   \<Rightarrow> ('a result) option poll \<times> ('a, 'r) message_stream" where
  "poll_next C poll_read s =
     (case poll_read_message C poll_read (ms_decode s) (ms_encoding s) (ms_max_message_size s)
             (ms_state s) (ms_reader s) of
        (p, st, reader) \<Rightarrow> (p, s\<lparr>ms_state := st, ms_reader := reader\<rparr>))"

section \<open>The frame grammar\<close>

text \<open>
  The abstract specification: the first item of a byte string, and what is left of it, or
  \<open>None\<close> when the stream is over. It has no chunks, no buffers and no polls.
\<close>

definition next_frame ::
  "codecs \<Rightarrow> (bytes \<Rightarrow> 'a result) \<Rightarrow> encoding \<Rightarrow> nat \<Rightarrow> bytes \<Rightarrow> ('a result) option \<times> bytes option" where
  "next_frame C decode enc max_size bs =
     (if bs = [] then (None, None)
      else if length bs < PREFIX_LEN then
        (Some (Inl (st_internal (lit ''unexpected EOF in frame prefix''))), None)
      else if frame_len bs > max_size then
        (Some (Inl (st_resource_exhausted
            (lit ''received message of '' @ show_nat (frame_len bs)
               @ lit '' bytes exceeds limit of '' @ show_nat max_size))), None)
      else if length bs < PREFIX_LEN + frame_len bs then
        (Some (Inl (st_internal (lit ''unexpected EOF in frame payload''))), None)
      else
        (Some (finish_message C decode enc max_size (hd bs \<noteq> 0)
                 (take (frame_len bs) (drop PREFIX_LEN bs))),
         Some (drop (PREFIX_LEN + frame_len bs) bs)))"

text \<open>The bytes of the current frame that the state already holds.\<close>

definition len_to_prefix :: "bool \<Rightarrow> nat \<Rightarrow> bytes" where
  "len_to_prefix compressed n = (if compressed then 1 else 0) # u32_to_be_bytes (of_nat n)"

fun held :: "read_state \<Rightarrow> bytes" where
  "held Done = []"
| "held (ReadingPrefix buf filled) = take filled buf"
| "held (ReadingPayload compressed payload filled) =
     len_to_prefix compressed (length payload) @ take filled payload"

text \<open>The invariant of the state.\<close>

fun state_wf :: "nat \<Rightarrow> read_state \<Rightarrow> bool" where
  "state_wf max_size Done \<longleftrightarrow> True"
| "state_wf max_size (ReadingPrefix buf filled) \<longleftrightarrow> length buf = PREFIX_LEN \<and> filled < PREFIX_LEN"
| "state_wf max_size (ReadingPayload compressed payload filled) \<longleftrightarrow>
     filled \<le> length payload \<and> length payload \<le> max_size \<and> length payload < 2 ^ 32"

lemma state_wf_new [simp, wf_intros]: "state_wf max_size read_state_new"
  by (simp add: read_state_new_def PREFIX_LEN_def)

lemma held_new [simp]: "held read_state_new = []"
  by (simp add: read_state_new_def)

lemma read_state_new_not_Done [simp]: "read_state_new \<noteq> Done"
  by (simp add: read_state_new_def)

lemma length_overwrite [simp]:
  "at + length bs \<le> length buf \<Longrightarrow> length (overwrite buf at bs) = length buf"
  by (simp add: overwrite_def)

lemma take_overwrite [simp]:
  "at + length bs \<le> length buf \<Longrightarrow> take (at + length bs) (overwrite buf at bs) = take at buf @ bs"
  by (simp add: overwrite_def)

lemma frame_len_bound: "frame_len buf < 2 ^ 32"
proof -
  have "frame_len buf < 2 ^ LENGTH(32)" unfolding frame_len_def by (rule unsigned_less)
  then show ?thesis by simp
qed

lemma frame_len_append:
  "length b = PREFIX_LEN \<Longrightarrow> frame_len (b @ c) = frame_len b"
  by (simp add: frame_len_def nth_append PREFIX_LEN_def)

lemma length_len_to_prefix [simp]: "length (len_to_prefix c n) = PREFIX_LEN"
  by (simp add: len_to_prefix_def PREFIX_LEN_def)

lemma frame_len_to_prefix [simp]: "n < 2 ^ 32 \<Longrightarrow> frame_len (len_to_prefix c n @ bs) = n"
  using frame_len_written [of "if c then 1 else 0" n bs] by (simp add: len_to_prefix_def)

lemma hd_len_to_prefix [simp]: "hd (len_to_prefix c n @ bs) \<noteq> 0 \<longleftrightarrow> c"
  by (simp add: len_to_prefix_def)

text \<open>The grammar only looks at the flag's being zero and the length.\<close>

lemma next_frame_prefix:
  assumes "length b = PREFIX_LEN"
  shows "next_frame C decode enc max_size (b @ bs) =
    (if frame_len b > max_size then
        (Some (Inl (st_resource_exhausted
            (lit ''received message of '' @ show_nat (frame_len b)
               @ lit '' bytes exceeds limit of '' @ show_nat max_size))), None)
     else if length bs < frame_len b then
        (Some (Inl (st_internal (lit ''unexpected EOF in frame payload''))), None)
     else (Some (finish_message C decode enc max_size (b ! 0 \<noteq> 0) (take (frame_len b) bs)),
           Some (drop (frame_len b) bs)))"
proof -
  from assms have "b \<noteq> []" by (auto simp: PREFIX_LEN_def)
  then have "hd (b @ bs) = b ! 0" by (simp add: hd_conv_nth nth_append)
  with assms \<open>b \<noteq> []\<close> show ?thesis
    by (simp add: next_frame_def frame_len_append)
qed

lemma next_frame_same_prefix:
  "length b = PREFIX_LEN \<Longrightarrow> frame_len b \<le> max_size \<Longrightarrow>
   next_frame C decode enc max_size (len_to_prefix (b ! 0 \<noteq> 0) (frame_len b) @ bs)
     = next_frame C decode enc max_size (b @ bs)"
  using frame_len_bound [of b] frame_len_to_prefix [of "frame_len b" "b ! 0 \<noteq> 0" "[]"]
  by (simp add: next_frame_prefix) (simp add: len_to_prefix_def)

text \<open>
  What a poll must return and leave: what the grammar says of the bytes held in the state
  followed by those still to come. The one thing the reader adds is its own failure.
\<close>

definition remaining :: "('r \<Rightarrow> bytes) \<Rightarrow> read_state \<Rightarrow> 'r \<Rightarrow> bytes option" where
  "remaining content st r = (if st = Done then None else Some (held st @ content r))"

definition expected ::
  "codecs \<Rightarrow> (bytes \<Rightarrow> 'a result) \<Rightarrow> encoding \<Rightarrow> nat \<Rightarrow> bytes option \<Rightarrow> ('a result) option \<times> bytes option" where
  "expected C decode enc max_size bs =
     (case bs of None \<Rightarrow> (None, None) | Some bs \<Rightarrow> next_frame C decode enc max_size bs)"

definition read_error :: "('a result) option poll \<Rightarrow> read_state \<Rightarrow> bool" where
  "read_error p st \<longleftrightarrow> st = Done \<and>
     (\<exists>e. p = Ready (Some (Inl (st_unavailable (lit ''read error: '' @ e)))))"

text \<open>The whole stream by the grammar, and the whole stream by polling, at most \<open>n\<close> times.\<close>

lemma next_frame_shorter:
  "next_frame C decode enc max_size bs = (x, Some r) \<Longrightarrow> length r < length bs"
  by (auto simp: next_frame_def PREFIX_LEN_def split: if_splits)

function items :: "codecs \<Rightarrow> (bytes \<Rightarrow> 'a result) \<Rightarrow> encoding \<Rightarrow> nat \<Rightarrow> bytes \<Rightarrow> ('a result) list" where
  "items C decode enc max_size bs =
     (case next_frame C decode enc max_size bs of
        (None, _) \<Rightarrow> []
      | (Some x, None) \<Rightarrow> [x]
      | (Some x, Some r) \<Rightarrow> x # items C decode enc max_size r)"
  by pat_completeness auto
termination
  by (relation "measure (\<lambda>(_, _, _, _, bs). length bs)") (simp_all, metis next_frame_shorter)

declare items.simps [simp del]

definition items_opt :: "codecs \<Rightarrow> (bytes \<Rightarrow> 'a result) \<Rightarrow> encoding \<Rightarrow> nat \<Rightarrow> bytes option \<Rightarrow> ('a result) list" where
  "items_opt C decode enc max_size bs =
     (case bs of None \<Rightarrow> [] | Some bs \<Rightarrow> items C decode enc max_size bs)"

lemma items_opt_expected:
  "expected C decode enc max_size bs = (x, bs') \<Longrightarrow>
   items_opt C decode enc max_size bs =
     (case x of None \<Rightarrow> [] | Some i \<Rightarrow> i # items_opt C decode enc max_size bs')"
  by (cases bs) (auto simp: expected_def items_opt_def items.simps [of C decode enc max_size]
      split: option.splits)

fun collect ::
  "nat \<Rightarrow> codecs \<Rightarrow> 'r poll_read_fn \<Rightarrow> ('a, 'r) message_stream \<Rightarrow> ('a result) list \<times> bool" where
  "collect 0 C poll_read s = ([], False)"
| "collect (Suc n) C poll_read s =
     (case poll_next C poll_read s of
        (Pending, s') \<Rightarrow> collect n C poll_read s'
      | (Ready None, s') \<Rightarrow> ([], True)
      | (Ready (Some x), s') \<Rightarrow> (case collect n C poll_read s' of (xs, e) \<Rightarrow> (x # xs, e)))"

section \<open>Readers\<close>

lemma fill_loop_full: "\<not> filled < length buf \<Longrightarrow> fill_loop poll_read buf filled r = (FillFull, buf, filled, r)"
  by (simp add: fill_loop.simps [of poll_read])

lemma fill_loop_more:
  "filled < length buf \<Longrightarrow> poll_read r (length buf - filled) = (Ready (Inr bs), r1) \<Longrightarrow> bs \<noteq> [] \<Longrightarrow>
   fill_loop poll_read buf filled r = fill_loop poll_read (overwrite buf filled bs) (filled + length bs) r1"
  by (simp add: fill_loop.simps [of poll_read buf])

lemma fill_loop_stop:
  "filled < length buf \<Longrightarrow> poll_read r (length buf - filled) = (p, r1) \<Longrightarrow>
   \<not> (\<exists>bs. p = Ready (Inr bs) \<and> bs \<noteq> []) \<Longrightarrow>
   fill_loop poll_read buf filled r =
     (case p of Pending \<Rightarrow> FillPending | Ready (Inl e) \<Rightarrow> FillErr e | Ready (Inr _) \<Rightarrow> FillEof,
      buf, filled, r1)"
  by (auto simp: fill_loop.simps [of poll_read buf] split: poll.splits sum.splits)

text \<open>Induction along the loop: it stops at once, or reads a chunk and goes on.\<close>

lemma fill_loop_induct [case_names full stop more]:
  assumes "\<And>buf filled r. \<not> filled < length buf \<Longrightarrow> P buf filled r"
    and "\<And>buf filled r p r1. filled < length buf \<Longrightarrow>
      poll_read r (length buf - filled) = (p, r1) \<Longrightarrow>
      \<not> (\<exists>bs. p = Ready (Inr bs) \<and> bs \<noteq> []) \<Longrightarrow> P buf filled r"
    and "\<And>buf filled r bs r1. filled < length buf \<Longrightarrow>
      poll_read r (length buf - filled) = (Ready (Inr bs), r1) \<Longrightarrow> bs \<noteq> [] \<Longrightarrow>
      P (overwrite buf filled bs) (filled + length bs) r1 \<Longrightarrow> P buf filled r"
  shows "P buf filled r"
proof (induction "length buf - filled" arbitrary: buf filled r rule: less_induct)
  case (less buf filled r)
  show ?case
  proof (cases "filled < length buf")
    case True
    obtain p r1 where p: "poll_read r (length buf - filled) = (p, r1)"
      by (cases "poll_read r (length buf - filled)")
    show ?thesis
    proof (cases "\<exists>bs. p = Ready (Inr bs) \<and> bs \<noteq> []")
      case True': True
      then obtain bs where bs: "p = Ready (Inr bs)" "bs \<noteq> []" by auto
      with True have "length (overwrite buf filled bs) - (filled + length bs) < length buf - filled"
        by (cases bs) (auto simp: overwrite_def)
      then have "P (overwrite buf filled bs) (filled + length bs) r1" by (rule less)
      then show ?thesis by (rule assms(3) [OF True p [unfolded bs(1)] bs(2)])
    next
      case False
      then show ?thesis by (rule assms(2) [OF True p])
    qed
  qed (rule assms(1))
qed

locale async_read =
  fixes poll_read :: "'r poll_read_fn"
  assumes within_buffer: "poll_read r n = (Ready (Inr bs), r') \<Longrightarrow> length bs \<le> n"
begin

lemma fill_loop_wf:
  "fill_loop poll_read buf filled r = (f, buf', filled', r') \<Longrightarrow> filled \<le> length buf \<Longrightarrow>
   length buf' = length buf \<and> filled' \<le> length buf \<and> (f = FillFull \<longleftrightarrow> filled' = length buf)"
proof (induction buf filled r rule: fill_loop_induct [where poll_read = poll_read])
  case (full buf filled r)
  then show ?case by (auto simp: fill_loop_full)
next
  case (stop buf filled r p r1)
  then show ?case by (auto simp: fill_loop_stop split: poll.splits sum.splits)
next
  case (more buf filled r bs r1)
  with within_buffer [OF more(2)] show ?case by (simp add: fill_loop_more)
qed

lemma read_payload_wf:
  "state_wf max_size (ReadingPayload c pl k) \<Longrightarrow>
   poll_read_message C poll_read decode enc max_size (ReadingPayload c pl k) r = (p, st', r') \<Longrightarrow>
   state_wf max_size st'"
  by (auto split: prod.splits fill.splits dest: fill_loop_wf)

lemma poll_read_message_wf:
  "state_wf max_size st \<Longrightarrow>
   poll_read_message C poll_read decode enc max_size st r = (p, st', r') \<Longrightarrow> state_wf max_size st'"
proof (cases st)
  case (ReadingPrefix b k)
  assume wf: "state_wf max_size st" and eq: "poll_read_message C poll_read decode enc max_size st r = (p, st', r')"
  obtain f b' k' r1 where fl: "fill_loop poll_read b k r = (f, b', k', r1)" by (metis prod_cases4)
  with wf ReadingPrefix have "length b' = PREFIX_LEN" "k' \<le> PREFIX_LEN" "f = FillFull \<longleftrightarrow> k' = PREFIX_LEN"
    using fill_loop_wf [OF fl] by auto
  moreover have "state_wf max_size (ReadingPayload c (replicate (frame_len b') 0) 0)"
    if "\<not> frame_len b' > max_size" for c
    using that frame_len_bound [of b'] by simp
  ultimately show ?thesis
    using eq fl wf read_payload_wf
    unfolding ReadingPrefix
    by (fastforce simp: Let_def simp del: poll_read_message.simps(3) state_wf.simps(3)
        split: fill.splits if_splits)
next
  case (ReadingPayload c pl k)
  then show "state_wf max_size st \<Longrightarrow>
    poll_read_message C poll_read decode enc max_size st r = (p, st', r') \<Longrightarrow> ?thesis"
    using read_payload_wf by blast
qed auto

end

text \<open>
  A reader with a definite remaining content: every chunk is a prefix of it, an empty chunk
  into a non-empty buffer means that nothing remains, and a pending poll loses nothing. A
  read may still fail.
\<close>

locale byte_source = async_read poll_read for poll_read :: "'r poll_read_fn" +
  fixes content :: "'r \<Rightarrow> bytes" and good :: "'r \<Rightarrow> bool"
  assumes keep: "good r \<Longrightarrow> poll_read r n = (p, r') \<Longrightarrow> good r'"
    and chunk: "good r \<Longrightarrow> poll_read r n = (Ready (Inr bs), r') \<Longrightarrow> content r = bs @ content r'"
    and at_end: "good r \<Longrightarrow> poll_read r n = (Ready (Inr []), r') \<Longrightarrow> 0 < n \<Longrightarrow> content r = []"
    and pending: "good r \<Longrightarrow> poll_read r n = (Pending, r') \<Longrightarrow> content r' = content r"
begin

lemma fill_loop_keep:
  "fill_loop poll_read buf filled r = (f, buf', filled', r') \<Longrightarrow> good r \<Longrightarrow> good r'"
proof (induction buf filled r rule: fill_loop_induct [where poll_read = poll_read])
  case (full buf filled r)
  then show ?case by (auto simp: fill_loop_full)
next
  case (stop buf filled r p r1)
  with keep [OF stop(5) stop(2)] show ?case by (auto simp: fill_loop_stop)
next
  case (more buf filled r bs r1)
  with keep [OF more(6) more(2)] show ?case by (simp add: fill_loop_more)
qed

lemma poll_read_message_keep:
  "poll_read_message C poll_read decode enc max_size st r = (p, st', r') \<Longrightarrow> good r \<Longrightarrow> good r'"
proof -
  have payload: "poll_read_message C poll_read decode enc max_size (ReadingPayload c pl k) r = (p, st', r') \<Longrightarrow>
      good r \<Longrightarrow> good r'" for c pl k r
    by (auto split: prod.splits fill.splits if_splits dest: fill_loop_keep)
  show "poll_read_message C poll_read decode enc max_size st r = (p, st', r') \<Longrightarrow> good r \<Longrightarrow> good r'"
    by (cases st)
       (auto split: prod.splits fill.splits if_splits dest: fill_loop_keep payload
         simp: Let_def simp del: poll_read_message.simps(3))
qed

lemma fill_loop_content:
  "fill_loop poll_read buf filled r = (f, buf', filled', r') \<Longrightarrow> filled \<le> length buf \<Longrightarrow> good r \<Longrightarrow>
   (\<nexists>e. f = FillErr e) \<Longrightarrow>
   take filled' buf' @ content r' = take filled buf @ content r \<and> (f = FillEof \<longrightarrow> content r' = [])"
proof (induction buf filled r rule: fill_loop_induct [where poll_read = poll_read])
  case (full buf filled r)
  then show ?case by (auto simp: fill_loop_full)
next
  case (stop buf filled r p r1)
  then show ?case
    using pending [of r "length buf - filled"] at_end [of r "length buf - filled"]
      chunk [of r "length buf - filled" "[]"]
    by (auto simp: fill_loop_stop split: poll.splits sum.splits)
next
  case (more buf filled r bs r1)
  with within_buffer [OF more(2)] chunk [OF _ more(2)] keep [OF _ more(2)] show ?case by (simp add: fill_loop_more)
qed

lemma read_payload_refines:
  assumes "state_wf max_size (ReadingPayload c pl k)" and "good r"
    and "poll_read_message C poll_read decode enc max_size (ReadingPayload c pl k) r = (p, st', r')"
  shows "read_error p st' \<or>
    (case p of Pending \<Rightarrow> remaining content st' r' = remaining content (ReadingPayload c pl k) r
     | Ready x \<Rightarrow> (x, remaining content st' r') =
         next_frame C decode enc max_size (held (ReadingPayload c pl k) @ content r))"
proof -
  obtain f pl' k' r1 where fl: "fill_loop poll_read pl k r = (f, pl', k', r1)" by (metis prod_cases4)
  have wf: "length pl' = length pl" "k' \<le> length pl" "f = FillFull \<longleftrightarrow> k' = length pl"
    using fill_loop_wf [OF fl] assms(1) by auto
  note content = fill_loop_content [OF fl _ assms(2)]
  have bounds: "length pl \<le> max_size" "length pl < 2 ^ 32" "k \<le> length pl" using assms(1) by auto
  have spec: "next_frame C decode enc max_size (len_to_prefix c (length pl) @ bs) =
    (if length bs < length pl then
        (Some (Inl (st_internal (lit ''unexpected EOF in frame payload''))), None)
     else (Some (finish_message C decode enc max_size c (take (length pl) bs)),
           Some (drop (length pl) bs)))" for bs
    using bounds frame_len_to_prefix [of "length pl" c "[]"]
    by (simp add: next_frame_prefix) (simp add: len_to_prefix_def)
  show ?thesis
  proof (cases f)
    case FillPending
    with content bounds wf assms(3) fl show ?thesis by (auto simp: remaining_def)
  next
    case (FillErr e)
    with assms(3) fl show ?thesis by (auto simp: read_error_def)
  next
    case FillEof
    with content bounds wf have "take k pl @ content r = take k' pl'" and "k' < length pl" by auto
    with FillEof assms(3) fl wf show ?thesis by (auto simp: spec remaining_def)
  next
    case FillFull
    with content bounds wf have "take k pl @ content r = pl' @ content r1" by auto
    with FillFull assms(3) fl wf show ?thesis by (auto simp: spec remaining_def)
  qed
qed

lemma poll_read_message_refines:
  assumes "state_wf max_size st" and "good r"
    and "poll_read_message C poll_read decode enc max_size st r = (p, st', r')"
  shows "read_error p st' \<or>
    (case p of Pending \<Rightarrow> expected C decode enc max_size (remaining content st' r') = expected C decode enc max_size (remaining content st r)
     | Ready x \<Rightarrow> (x, remaining content st' r') = expected C decode enc max_size (remaining content st r))"
proof (cases st)
  case Done
  with assms show ?thesis by (auto simp: remaining_def expected_def)
next
  case (ReadingPayload c pl k)
  with assms read_payload_refines [of max_size c pl k r C decode enc p st' r'] show ?thesis
    by (auto simp: remaining_def expected_def split: poll.splits)
next
  case (ReadingPrefix b k)
  obtain f b' k' r1 where fl: "fill_loop poll_read b k r = (f, b', k', r1)" by (metis prod_cases4)
  have wf: "length b' = PREFIX_LEN" "k' \<le> PREFIX_LEN" "f = FillFull \<longleftrightarrow> k' = PREFIX_LEN"
    using fill_loop_wf [OF fl] assms(1) ReadingPrefix by auto
  have content: "\<nexists>e. f = FillErr e \<Longrightarrow>
      take k' b' @ content r1 = take k b @ content r \<and> (f = FillEof \<longrightarrow> content r1 = [])"
    using fill_loop_content [OF fl _ assms(2)] assms(1) ReadingPrefix by auto
  have held: "remaining content (ReadingPrefix b k) r = Some (take k b @ content r)" for b k r by (simp add: remaining_def)
  show ?thesis
  proof (cases f)
    case FillPending
    with content wf assms(3) fl show ?thesis by (auto simp: expected_def held ReadingPrefix)
  next
    case (FillErr e)
    with assms(3) fl show ?thesis by (auto simp: ReadingPrefix read_error_def)
  next
    case FillEof
    with content wf have "take k b @ content r = take k' b'" and "k' < PREFIX_LEN" by auto
    moreover from this wf have "take k' b' = [] \<longleftrightarrow> k' = 0" and "length (take k' b') = k'"
      by (auto simp: PREFIX_LEN_def)
    ultimately show ?thesis
      using FillEof assms(3) fl wf
      by (cases "k' = 0") (auto simp: expected_def held next_frame_def ReadingPrefix remaining_def [of _ Done])
  next
    case FillFull
    with content wf have bs: "take k b @ content r = b' @ content r1" by auto
    show ?thesis
    proof (cases "frame_len b' > max_size")
      case True
      with FillFull assms(3) fl wf bs show ?thesis
        by (auto simp: expected_def held ReadingPrefix Let_def next_frame_prefix remaining_def [of _ Done])
    next
      case False
      then have wf': "state_wf max_size (ReadingPayload (b' ! 0 \<noteq> 0) (replicate (frame_len b') 0) 0)"
        using frame_len_bound [of b'] by simp
      have "poll_read_message C poll_read decode enc max_size
          (ReadingPayload (b' ! 0 \<noteq> 0) (replicate (frame_len b') 0) 0) r1 = (p, st', r')"
        using assms(3) fl FillFull False by (simp add: ReadingPrefix Let_def del: poll_read_message.simps(3))
      from read_payload_refines [OF wf' fill_loop_keep [OF fl assms(2)] this] False wf(1) bs show ?thesis
        by (auto simp: expected_def held ReadingPrefix next_frame_same_prefix
            remaining_def [of _ "ReadingPayload _ _ _"] split: poll.splits)
    qed
  qed
qed

end

text \<open>A source that delivers: it never fails, and is pending only finitely often.\<close>

locale live_source = byte_source poll_read content good
  for poll_read :: "'r poll_read_fn" and content :: "'r \<Rightarrow> bytes" and good :: "'r \<Rightarrow> bool" +
  fixes delay :: "'r \<Rightarrow> nat"
  assumes no_error: "good r \<Longrightarrow> poll_read r n \<noteq> (Ready (Inl e), r')"
    and pending_delay: "good r \<Longrightarrow> poll_read r n = (Pending, r') \<Longrightarrow> delay r' < delay r"
    and ready_delay: "good r \<Longrightarrow> poll_read r n = (Ready x, r') \<Longrightarrow> delay r' \<le> delay r"
begin

lemma fill_loop_delay:
  "fill_loop poll_read buf filled r = (f, buf', filled', r') \<Longrightarrow> good r \<Longrightarrow>
   (if f = FillPending then delay r' < delay r else delay r' \<le> delay r) \<and> f \<noteq> FillErr e"
proof (induction buf filled r rule: fill_loop_induct [where poll_read = poll_read])
  case (full buf filled r)
  then show ?case by (auto simp: fill_loop_full)
next
  case (stop buf filled r p r1)
  then show ?case
    using no_error pending_delay ready_delay
    by (cases p) (auto simp: fill_loop_stop split: sum.splits)
next
  case (more buf filled r bs r1)
  with ready_delay [OF more(6,2)] keep [OF more(6,2)] show ?case
    by (fastforce simp: fill_loop_more split: if_splits)
qed

lemma read_payload_delay:
  "poll_read_message C poll_read decode enc max_size (ReadingPayload c pl k) r = (p, st', r') \<Longrightarrow> good r \<Longrightarrow>
   (if p = Pending then delay r' < delay r else delay r' \<le> delay r) \<and> \<not> read_error p st'"
  using fill_loop_delay [of pl k r]
  by (auto simp: read_error_def split: prod.splits fill.splits if_splits)

lemma poll_read_message_delay:
  "poll_read_message C poll_read decode enc max_size st r = (p, st', r') \<Longrightarrow> good r \<Longrightarrow>
   (if p = Pending then delay r' < delay r else delay r' \<le> delay r) \<and> \<not> read_error p st'"
proof (cases st)
  case (ReadingPrefix b k)
  assume eq: "poll_read_message C poll_read decode enc max_size st r = (p, st', r')" and good: "good r"
  obtain f b' k' r1 where fl: "fill_loop poll_read b k r = (f, b', k', r1)" by (metis prod_cases4)
  show ?thesis
  proof (cases "f = FillFull \<and> \<not> frame_len b' > max_size")
    case True
    with eq fl have "poll_read_message C poll_read decode enc max_size
        (ReadingPayload (b' ! 0 \<noteq> 0) (replicate (frame_len b') 0) 0) r1 = (p, st', r')"
      by (simp add: ReadingPrefix Let_def del: poll_read_message.simps(3))
    from read_payload_delay [OF this fill_loop_keep [OF fl good]] fill_loop_delay [OF fl good] True show ?thesis
      by (auto split: if_splits)
  next
    case False
    with eq fl fill_loop_delay [OF fl good] show ?thesis
      by (auto simp: ReadingPrefix Let_def read_error_def split: fill.splits if_splits)
  qed
next
  case (ReadingPayload c pl k)
  then show "poll_read_message C poll_read decode enc max_size st r = (p, st', r') \<Longrightarrow> good r \<Longrightarrow> ?thesis"
    using read_payload_delay by blast
qed (auto simp: read_error_def)

text \<open>Polling such a source to the end yields what the grammar says, whatever the chunks.\<close>

lemma collect_items:
  assumes "state_wf (ms_max_message_size s) (ms_state s)" and "good (ms_reader s)"
    and "bs = remaining content (ms_state s) (ms_reader s)"
    and "length (items_opt C (ms_decode s) (ms_encoding s) (ms_max_message_size s) bs)
      + delay (ms_reader s) < n"
  shows "collect n C poll_read s =
    (items_opt C (ms_decode s) (ms_encoding s) (ms_max_message_size s) bs, True)"
  using assms
proof (induction n arbitrary: s bs)
  case (Suc n)
  obtain p st r where p: "poll_read_message C poll_read (ms_decode s) (ms_encoding s)
      (ms_max_message_size s) (ms_state s) (ms_reader s) = (p, st, r)" by (metis prod_cases3)
  define s' where "s' = s\<lparr>ms_state := st, ms_reader := r\<rparr>"
  have next': "poll_next C poll_read s = (p, s')" by (simp add: poll_next_def p s'_def)
  have wf: "state_wf (ms_max_message_size s') (ms_state s')"
    using poll_read_message_wf [OF Suc.prems(1) p] by (simp add: s'_def)
  have same: "ms_decode s' = ms_decode s" "ms_encoding s' = ms_encoding s"
    "ms_max_message_size s' = ms_max_message_size s" "ms_state s' = st" "ms_reader s' = r"
    by (simp_all add: s'_def)
  have good': "good (ms_reader s')"
    using poll_read_message_keep [OF p Suc.prems(2)] by (simp add: s'_def)
  note ref = poll_read_message_refines [OF Suc.prems(1,2) p] poll_read_message_delay [OF p Suc.prems(2)]
  show ?case
  proof (cases p)
    case Pending
    with ref Suc.prems have "expected C (ms_decode s) (ms_encoding s) (ms_max_message_size s)
        (remaining content st r) = expected C (ms_decode s) (ms_encoding s) (ms_max_message_size s) bs"
      and d: "delay r < delay (ms_reader s)" by auto
    then have items: "items_opt C (ms_decode s) (ms_encoding s) (ms_max_message_size s) (remaining content st r) =
        items_opt C (ms_decode s) (ms_encoding s) (ms_max_message_size s) bs"
      by (metis items_opt_expected prod.exhaust)
    have "collect n C poll_read s' = (items_opt C (ms_decode s) (ms_encoding s) (ms_max_message_size s) bs, True)"
      using Suc.IH [OF wf good' refl] Suc.prems(4) d by (simp add: same items)
    with Pending show ?thesis by (simp add: next')
  next
    case (Ready x)
    with ref Suc.prems have e: "expected C (ms_decode s) (ms_encoding s) (ms_max_message_size s) bs
        = (x, remaining content st r)" and d: "delay r \<le> delay (ms_reader s)" by auto
    note items = items_opt_expected [OF e]
    show ?thesis
    proof (cases x)
      case None
      with Ready items show ?thesis by (simp add: next')
    next
      case (Some i)
      with items Suc.prems(4) d have "collect n C poll_read s' =
          (items_opt C (ms_decode s) (ms_encoding s) (ms_max_message_size s) (remaining content st r), True)"
        using Suc.IH [OF wf good' refl] by (simp add: same)
      with Ready Some items show ?thesis by (simp add: next')
    qed
  qed
qed simp

end

section \<open>A reader over a byte string\<close>

text \<open>
  \<open>AsyncRead for Cursor<&[u8]>\<close>: as much as fits and remains. The response bodies of the
  server read out their buffers in the same way.
\<close>

definition cursor_read :: "bytes poll_read_fn" where
  "cursor_read r n = (Ready (Inr (take n r)), drop n r)"

text \<open>A transport that delivers a list of chunks, \<open>None\<close> standing for a pending poll.\<close>

fun chunk_read :: "bytes option list poll_read_fn" where
  "chunk_read [] n = (Ready (Inr []), [])"
| "chunk_read (None # cs) n = (Pending, cs)"
| "chunk_read (Some c # cs) n =
     (if c = [] then chunk_read cs n
      else if length c \<le> n then (Ready (Inr c), cs)
      else (Ready (Inr (take n c)), Some (drop n c) # cs))"

fun chunk_content :: "bytes option list \<Rightarrow> bytes" where
  "chunk_content [] = []"
| "chunk_content (None # cs) = chunk_content cs"
| "chunk_content (Some c # cs) = c @ chunk_content cs"

interpretation cursor: live_source cursor_read "\<lambda>r. r" "\<lambda>_. True" "\<lambda>_. 0"
  by unfold_locales (auto simp: cursor_read_def)

lemma chunk_read_spec:
  "chunk_read cs n = (p, cs') \<Longrightarrow>
   (case p of
      Pending \<Rightarrow> chunk_content cs' = chunk_content cs \<and> count_list cs' None < count_list cs None
    | Ready (Inl e) \<Rightarrow> False
    | Ready (Inr bs) \<Rightarrow> length bs \<le> n \<and> chunk_content cs = bs @ chunk_content cs' \<and>
        count_list cs' None \<le> count_list cs None \<and> (bs = [] \<longrightarrow> 0 < n \<longrightarrow> chunk_content cs = []))"
  by (induction cs n rule: chunk_read.induct) (auto split: if_splits poll.splits sum.splits)

interpretation chunks: live_source chunk_read chunk_content "\<lambda>_. True" "\<lambda>cs. count_list cs None"
  by unfold_locales (auto dest!: chunk_read_spec split: sum.splits poll.splits)

section \<open>Whole streams\<close>

lemma items_of_stream:
  "items_opt C decode enc max_size (remaining content read_state_new r) = items C decode enc max_size (content r)"
  by (simp add: remaining_def items_opt_def)

lemma items_Nil [simp]: "items C decode enc max_size [] = []"
  by (simp add: items.simps [of _ _ _ _ "[]"] next_frame_def)

lemma items_frame:
  assumes "length z < 2 ^ 32" and "length z \<le> max_size"
  shows "items C decode enc max_size (f # u32_to_be_bytes (of_nat (length z)) @ z @ bs) =
    finish_message C decode enc max_size (f \<noteq> 0) z # items C decode enc max_size bs"
proof -
  have "next_frame C decode enc max_size ((f # u32_to_be_bytes (of_nat (length z))) @ z @ bs) =
      (Some (finish_message C decode enc max_size (f \<noteq> 0) z), Some bs)"
    using assms frame_len_written [of f "length z" "[]"]
    by (subst next_frame_prefix) (simp_all add: PREFIX_LEN_def)
  then show ?thesis by (simp add: items.simps [of C decode enc max_size "f # _"])
qed

text \<open>The messages that fit: the payload before and after compression is within the cap.\<close>

definition fits :: "codecs \<Rightarrow> 'a codec \<Rightarrow> encoding \<Rightarrow> nat \<Rightarrow> 'a \<Rightarrow> bytes \<Rightarrow> bool" where
  "fits C K enc max_size v frame \<longleftrightarrow>
     encode_frame C K v enc = Inr frame \<and>
     (\<exists>b. encode_msg K v = Inr b \<and> length b \<le> max_size) \<and>
     length frame \<le> PREFIX_LEN + max_size \<and> length frame < PREFIX_LEN + 2 ^ 32"

lemma items_fits:
  assumes "codecs_ok C" and "codec_ok K" and "max_size < 2 ^ 64 - 1" and "fits C K enc max_size v frame"
  shows "items C (decode_msg K) enc max_size (frame @ bs) = Inr v # items C (decode_msg K) enc max_size bs"
proof -
  from assms(4) obtain b z where b: "encode_msg K v = Inr b" "length b \<le> max_size"
    and z: "compress C enc b = Inr z"
    and f: "frame = (if enc = Identity then 0 else 1) # u32_to_be_bytes (of_nat (length z)) @ z"
    by (auto simp: fits_def encode_frame_Inr)
  from assms(4) f have "length z < 2 ^ 32" "length z \<le> max_size"
    by (auto simp: fits_def PREFIX_LEN_def)
  then have "items C (decode_msg K) enc max_size (frame @ bs) =
      finish_message C (decode_msg K) enc max_size (enc \<noteq> Identity) z # items C (decode_msg K) enc max_size bs"
    using items_frame [of z max_size C "decode_msg K" enc "if enc = Identity then 0 else 1" bs]
    by (auto simp: f)
  moreover have "finish_message C (decode_msg K) enc max_size (enc \<noteq> Identity) z = Inr v"
    using assms(1-3) b z decompress_compressed [OF assms(1) z b(2) assms(3)]
    by (auto simp: finish_message_def codec_ok_def)
  ultimately show ?thesis by simp
qed

lemma items_all_fit:
  assumes "codecs_ok C" and "codec_ok K" and "max_size < 2 ^ 64 - 1"
    and "list_all2 (fits C K enc max_size) vs frames"
  shows "items C (decode_msg K) enc max_size (concat frames) = map Inr vs"
  using assms(4) by induction (simp_all add: items_fits [OF assms(1-3)])

text \<open>A fresh stream over a source that delivers yields the items of its content.\<close>

lemma collect_new_stream:
  assumes "live_source poll_read content good delay" and "good r"
    and "length (items C decode enc max_size (content r)) + delay r < n"
  shows "collect n C poll_read
      (with_encoding (with_max_message_size (message_stream_new r decode) max_size) enc)
    = (items C decode enc max_size (content r), True)"
  using live_source.collect_items [OF assms(1), of
      "with_encoding (with_max_message_size (message_stream_new r decode) max_size) enc" _ C n] assms(2,3)
  by (simp add: with_encoding_def with_max_message_size_def message_stream_new_def items_of_stream)

section \<open>Properties\<close>

text \<open>
  C6: The reader implements the frame grammar under every chunking: on any reader with a
  definite content, in any reachable state, a poll that returns yields the item that the
  grammar gives for the bytes held plus the bytes to come and leaves exactly what the grammar
  leaves, a pending poll changes neither, and the only other outcome is the error for the
  reader's own failure, which ends the stream.
\<close>

theorem reader_refines_grammar:
  assumes "byte_source poll_read content good" and "state_wf max_size st" and "good r"
    and "poll_read_message C poll_read decode enc max_size st r = (p, st', r')"
  shows "state_wf max_size st' \<and> good r' \<and>
    (read_error p st' \<or>
     (case p of Pending \<Rightarrow> expected C decode enc max_size (remaining content st' r') =
                          expected C decode enc max_size (remaining content st r)
      | Ready x \<Rightarrow> (x, remaining content st' r') =
                   expected C decode enc max_size (remaining content st r)))"
  using byte_source.poll_read_message_refines [OF assms] assms(1)
    byte_source.poll_read_message_keep [OF assms(1,4,3)]
    async_read.poll_read_message_wf [OF byte_source.axioms(1) assms(2,4)]
  by blast

theorem reader_refines_grammar_witness:
  "poll_read_message prefix_codecs chunk_read (Inr :: bytes \<Rightarrow> bytes result) Identity 10 read_state_new
     [Some [0, 0, 0], None, Some [0, 1, 7]] =
     (Pending, ReadingPrefix [0, 0, 0, 0, 0] 3, [Some [0, 1, 7]]) \<and>
   expected prefix_codecs (Inr :: bytes \<Rightarrow> bytes result) Identity 10
     (remaining chunk_content (ReadingPrefix [0, 0, 0, 0, 0] 3) [Some [0, 1, 7]]) =
   expected prefix_codecs Inr Identity 10
     (remaining chunk_content read_state_new [Some [0, 0, 0], None, Some [0, 1, 7]])"
proof -
  have step: "poll_read_message prefix_codecs chunk_read (Inr :: bytes \<Rightarrow> bytes result) Identity 10 read_state_new
     [Some [0, 0, 0], None, Some [0, 1, 7]] =
     (Pending, ReadingPrefix [0, 0, 0, 0, 0] 3, [Some [0, 1, 7]])"
    by (simp add: read_state_new_def fill_loop.simps PREFIX_LEN_def overwrite_def numeral_2_eq_2)
  from reader_refines_grammar [OF chunks.byte_source_axioms state_wf_new _ step] step
  show ?thesis by (simp add: read_error_def)
qed

text \<open>
  C5: Every message that the peer frames arrives: over any source that keeps delivering, in
  whatever chunks and with whatever pending polls, a stream of well-framed messages within
  the cap is read back completely, in order, and then ends; the number of polls needed is the
  number of messages, the number of pending polls, and one.
\<close>

theorem framing_roundtrip:
  assumes "live_source poll_read content good delay" and "good r"
    and "codecs_ok C" and "codec_ok K" and "max_size < 2 ^ 64 - 1"
    and "list_all2 (fits C K enc max_size) vs frames" and "content r = concat frames"
    and "length vs + delay r < n"
  shows "collect n C poll_read
      (with_encoding (with_max_message_size (message_stream_new r (decode_msg K)) max_size) enc)
    = (map Inr vs, True)"
  using collect_new_stream [OF assms(1,2), of C "decode_msg K" enc max_size n] assms(7,8)
  by (simp add: items_all_fit [OF assms(3-6)])

theorem framing_roundtrip_witness:
  "collect 4 prefix_codecs chunk_read
     (with_encoding (with_max_message_size
        (message_stream_new [Some [1, 0, 0, 0, 2, 0x1F], None, Some [7, 1, 0, 0, 0, 1, 0x1F]] (decode_msg raw_codec)) 10) Gzip)
   = ([Inr [7], Inr []], True)"
proof -
  have "list_all2 (fits prefix_codecs raw_codec Gzip 10) [[7], []]
      [[1, 0, 0, 0, 2, 0x1F, 7], [1, 0, 0, 0, 1, 0x1F]]"
    by (simp add: fits_def encode_frame_Inr raw_codec_def prefix_codecs_def gzip_compress_def
        u32_to_be_bytes_def PREFIX_LEN_def)
  from framing_roundtrip [OF chunks.live_source_axioms _ codecs_ok_prefix codec_ok_raw _ this]
  show ?thesis by simp
qed

text \<open>
  An error in one message does not end the stream: when a complete frame within the cap is
  refused (compressed without a negotiated codec, corrupt, too big once decompressed, or not
  decodable), the error is its item, the reader is back at the start of a frame, and the
  messages behind it are still read. (The comment on \<open>poll_read_message\<close> announces the state
  \<open>Done\<close> for every error; that holds only for framing and transport errors.)
\<close>

lemma message_error_is_not_final:
  assumes "live_source poll_read content good delay" and "good r"
    and "content r = f # u32_to_be_bytes (of_nat (length z)) @ z @ bs"
    and "length z < 2 ^ 32" and "length z \<le> max_size"
    and "finish_message C decode enc max_size (f \<noteq> 0) z = Inl e"
    and "length (items C decode enc max_size bs) + 1 + delay r < n"
  shows "collect n C poll_read
      (with_encoding (with_max_message_size (message_stream_new r decode) max_size) enc)
    = (Inl e # items C decode enc max_size bs, True)"
  using collect_new_stream [OF assms(1,2), of C decode enc max_size n] assms(7)
  by (simp add: assms(3) items_frame [OF assms(4,5)] assms(6))

lemma message_error_is_not_final_witness:
  "collect 3 prefix_codecs cursor_read (message_stream_new [1, 0, 0, 0, 1, 9, 0, 0, 0, 0, 1, 7] (decode_msg raw_codec))
   = ([Inl (st_internal (lit ''received compressed message but no encoding negotiated'')), Inr [7]], True)"
proof -
  have bs: "[1, 0, 0, 0, 1, 9, 0, 0, 0, 0, 1, 7 :: u8] = 1 # u32_to_be_bytes (of_nat (length [9 :: u8])) @ [9] @ [0, 0, 0, 0, 1, 7]"
    by (simp add: u32_to_be_bytes_def)
  have rest: "items prefix_codecs (decode_msg raw_codec) Identity DEFAULT_MAX_MESSAGE_SIZE [0, 0, 0, 0, 1, 7] = [Inr [7]]"
    using items_frame [of "[7]" DEFAULT_MAX_MESSAGE_SIZE prefix_codecs "decode_msg raw_codec" Identity 0 "[]"]
    by (simp add: u32_to_be_bytes_def finish_message_def raw_codec_def DEFAULT_MAX_MESSAGE_SIZE_def)
  have stream: "message_stream_new r (decode_msg raw_codec) = with_encoding (with_max_message_size
      (message_stream_new r (decode_msg raw_codec)) DEFAULT_MAX_MESSAGE_SIZE) Identity" for r :: bytes
    by (simp add: message_stream_new_def with_encoding_def with_max_message_size_def)
  show ?thesis
    by (subst stream, subst message_error_is_not_final [OF cursor.live_source_axioms _ bs])
       (simp_all add: rest finish_message_def, simp_all add: DEFAULT_MAX_MESSAGE_SIZE_def)
qed

text \<open>
  C40: What a peer can make the reader allocate is bounded: over every reader that keeps the
  contract of \<open>AsyncRead\<close>, in every state it can reach, the payload buffer is at most
  \<open>max_message_size\<close> bytes; a frame that announces more is refused with
  \<open>ResourceExhausted\<close> after its five bytes, and the stream is over for good.
\<close>

theorem reader_allocation_bounded:
  assumes "async_read poll_read"
    and "state_wf max_size st"
    and "poll_read_message C poll_read decode enc max_size st r = (p, st', r')"
  shows "(\<forall>c payload k. st' = ReadingPayload c payload k \<longrightarrow> length payload \<le> max_size \<and> k \<le> length payload) \<and>
    (\<forall>b k b' r1. st = ReadingPrefix b k \<and> fill_loop poll_read b k r = (FillFull, b', PREFIX_LEN, r1) \<and>
       frame_len b' > max_size \<longrightarrow>
       st' = Done \<and> r' = r1 \<and> (\<exists>m. p = Ready (Some (Inl (st_resource_exhausted m))))) \<and>
    (st = Done \<longrightarrow> p = Ready None \<and> st' = Done \<and> r' = r)"
  using async_read.poll_read_message_wf [OF assms] assms(3)
  by (auto simp: Let_def)

theorem reader_allocation_bounded_witness:
  "poll_read_message prefix_codecs cursor_read (Inr :: bytes \<Rightarrow> bytes result) Identity 10 read_state_new [0, 0, 0, 0, 11] =
   (Ready (Some (Inl (st_resource_exhausted
      (lit ''received message of '' @ show_nat 11 @ lit '' bytes exceeds limit of '' @ show_nat 10)))), Done, []) \<and>
   poll_read_message prefix_codecs cursor_read (Inr :: bytes \<Rightarrow> bytes result) Identity 10 Done [] =
   (Ready None, Done, [])"
proof -
  have step: "poll_read_message prefix_codecs cursor_read (Inr :: bytes \<Rightarrow> bytes result) Identity 10 read_state_new [0, 0, 0, 0, 11] =
   (Ready (Some (Inl (st_resource_exhausted
      (lit ''received message of '' @ show_nat 11 @ lit '' bytes exceeds limit of '' @ show_nat 10)))), Done, [])"
    by (simp add: read_state_new_def fill_loop.simps PREFIX_LEN_def overwrite_def cursor_read_def
        frame_len_def u32_from_be_bytes_def Let_def)
  have "state_wf 10 Done" by simp
  from reader_allocation_bounded [OF cursor.async_read_axioms this, where C = prefix_codecs and r = "[]"
      and decode = "Inr :: bytes \<Rightarrow> bytes result" and enc = Identity] step
  show ?thesis by (metis prod_cases3)
qed

end
