(* ===== verification/Streams.thy ===== *)
theory Streams
  imports FrameReader
begin

text \<open>
  The interface of \<open>futures::Stream\<close> that the message reader provides and the response
  bodies consume: a poll function with the list of items it still yields. Every reader that
  delivers its bytes gives, through the message reader, a stream that delivers its items.
\<close>

locale item_source =
  fixes next_item :: "'s \<Rightarrow> ('a result) option poll \<times> 's"
    and todo :: "'s \<Rightarrow> ('a result) list" and sound :: "'s \<Rightarrow> bool" and wait :: "'s \<Rightarrow> nat"
  assumes item_keep: "sound s \<Longrightarrow> next_item s = (p, s') \<Longrightarrow> sound s'"
    and item_pending: "sound s \<Longrightarrow> next_item s = (Pending, s') \<Longrightarrow> todo s' = todo s \<and> wait s' < wait s"
    and item_end: "sound s \<Longrightarrow> next_item s = (Ready None, s') \<Longrightarrow> todo s = [] \<and> wait s' \<le> wait s"
    and item_next: "sound s \<Longrightarrow> next_item s = (Ready (Some x), s') \<Longrightarrow> todo s = x # todo s' \<and> wait s' \<le> wait s"

definition message_todo :: "codecs \<Rightarrow> ('r \<Rightarrow> bytes) \<Rightarrow> ('a, 'r) message_stream \<Rightarrow> ('a result) list" where
  "message_todo C content s =
     items_opt C (ms_decode s) (ms_encoding s) (ms_max_message_size s)
       (remaining content (ms_state s) (ms_reader s))"

definition message_sound :: "('r \<Rightarrow> bool) \<Rightarrow> ('a, 'r) message_stream \<Rightarrow> bool" where
  "message_sound good s \<longleftrightarrow> state_wf (ms_max_message_size s) (ms_state s) \<and> good (ms_reader s)"

sublocale live_source \<subseteq> messages:
  item_source "poll_next C poll_read" "message_todo C content" "message_sound good" "\<lambda>s. delay (ms_reader s)"
  for C
proof -
  have step: "message_sound good s' \<and>
      (p = Pending \<longrightarrow> message_todo C content s' = message_todo C content s \<and> delay (ms_reader s') < delay (ms_reader s)) \<and>
      (\<forall>x. p = Ready x \<longrightarrow> delay (ms_reader s') \<le> delay (ms_reader s) \<and>
        message_todo C content s = (case x of None \<Rightarrow> [] | Some i \<Rightarrow> i # message_todo C content s'))"
    if sound: "message_sound good s" and step: "poll_next C poll_read s = (p, s')" for s s' p
  proof -
    obtain st r where m: "poll_read_message C poll_read (ms_decode s) (ms_encoding s)
        (ms_max_message_size s) (ms_state s) (ms_reader s) = (p, st, r)"
      and s': "s' = s\<lparr>ms_state := st, ms_reader := r\<rparr>"
      using step by (auto simp: poll_next_def split: prod.splits)
    have wf: "state_wf (ms_max_message_size s) (ms_state s)" and g: "good (ms_reader s)"
      using sound by (auto simp: message_sound_def)
    note ref = poll_read_message_refines [OF wf g m] poll_read_message_delay [OF m g]
      poll_read_message_wf [OF wf m] poll_read_message_keep [OF m g]
    show ?thesis
    proof (cases p)
      case Pending
      with ref have "expected C (ms_decode s) (ms_encoding s) (ms_max_message_size s) (remaining content st r)
          = expected C (ms_decode s) (ms_encoding s) (ms_max_message_size s) (remaining content (ms_state s) (ms_reader s))"
        by auto
      then have "message_todo C content s' = message_todo C content s"
        unfolding message_todo_def s' by (simp, metis items_opt_expected prod.exhaust)
      with Pending ref show ?thesis by (simp add: message_sound_def s')
    next
      case (Ready x)
      with ref items_opt_expected [of C "ms_decode s" "ms_encoding s" "ms_max_message_size s"
          "remaining content (ms_state s) (ms_reader s)" x "remaining content st r"]
      show ?thesis by (cases x) (simp_all add: message_sound_def message_todo_def s')
    qed
  qed
  show "item_source (poll_next C poll_read) (message_todo C content) (message_sound good) (\<lambda>s. delay (ms_reader s))"
    by unfold_locales (use step in fastforce)+
qed

end
