(* ===== verification/ServerBody.thy ===== *)
theory ServerBody
  imports Streams
begin

text \<open>
  \<open>src/server/body.rs\<close>: the response bodies. \<open>OneShotBody\<close> is a buffered body with its
  trailers; \<open>StreamBody\<close> frames the items of the user's stream on demand and derives the
  status in its trailers from how the stream ended. The user's stream and the cancellation
  signal are poll functions on states of their own.

  Both bodies are shown to keep the \<open>AsyncRead\<close> contract, and to be sources with a definite
  content, so that what a client reads from them follows from the reader's theory.
\<close>

section \<open>OneShotBody\<close>

record 'h one_shot =
  os_bytes :: bytes
  os_pos :: nat
  os_trailers :: "'h option"

definition one_shot_new :: "bytes \<Rightarrow> 'h \<Rightarrow> 'h one_shot" where
  "one_shot_new bs trailers = \<lparr>os_bytes = bs, os_pos = 0, os_trailers = Some trailers\<rparr>"

definition one_shot_poll_read :: "('h one_shot) poll_read_fn" where
  "one_shot_poll_read s buf_len =
     (let remaining = drop (os_pos s) (os_bytes s);
          n = min (length remaining) buf_len in
      (Ready (Inr (take n remaining)), s\<lparr>os_pos := os_pos s + n\<rparr>))"

definition one_shot_trailers :: "'h one_shot \<Rightarrow> 'h option \<times> 'h one_shot" where
  "one_shot_trailers s = (os_trailers s, s\<lparr>os_trailers := None\<rparr>)"

section \<open>StreamBody\<close>

record ('s, 'a, 'h, 'c) stream_body =
  sb_stream :: 's
  sb_encode :: "'a \<Rightarrow> bytes result"
  sb_encoding :: encoding
  sb_base_trailers :: 'h
  sb_cancel :: "'c option"
  sb_pending :: bytes
  sb_pos :: nat
  sb_status :: "status option"
  sb_finished :: bool

type_synonym ('s, 'a) poll_next_fn = "'s \<Rightarrow> ('a result) option poll \<times> 's"
type_synonym 'c poll_cancel_fn = "'c \<Rightarrow> status poll \<times> 'c"

definition stream_body_new ::
  "'s \<Rightarrow> ('a \<Rightarrow> bytes result) \<Rightarrow> encoding \<Rightarrow> 'h \<Rightarrow> 'c option \<Rightarrow> ('s, 'a, 'h, 'c) stream_body" where
  "stream_body_new stream encode enc base_trailers cancel =
     \<lparr>sb_stream = stream, sb_encode = encode, sb_encoding = enc, sb_base_trailers = base_trailers,
      sb_cancel = cancel, sb_pending = [], sb_pos = 0, sb_status = None, sb_finished = False\<rparr>"

text \<open>The poll of the optional cancellation signal.\<close>

definition poll_cancel ::
  "'c poll_cancel_fn \<Rightarrow> ('s, 'a, 'h, 'c) stream_body \<Rightarrow> status option \<times> ('s, 'a, 'h, 'c) stream_body" where
  "poll_cancel cancel s =
     (case sb_cancel s of
        None \<Rightarrow> (None, s)
      | Some c \<Rightarrow>
          (case cancel c of
             (Ready status, c') \<Rightarrow> (Some status, s\<lparr>sb_cancel := Some c'\<rparr>)
           | (Pending, c') \<Rightarrow> (None, s\<lparr>sb_cancel := Some c'\<rparr>)))"

definition finish :: "status \<Rightarrow> ('s, 'a, 'h, 'c) stream_body \<Rightarrow> ('s, 'a, 'h, 'c) stream_body" where
  "finish status s = s\<lparr>sb_finished := True, sb_status := Some status\<rparr>"

text \<open>An item's frame: \<open>encode(&resp).and_then(|payload| encode_payload(..))\<close>.\<close>

definition frame_item :: "codecs \<Rightarrow> ('a \<Rightarrow> bytes result) \<Rightarrow> encoding \<Rightarrow> 'a \<Rightarrow> bytes result" where
  "frame_item C encode enc resp = and_then (encode resp) (\<lambda>payload. encode_payload C payload enc)"

lemma frame_item_not_Nil: "frame_item C encode enc resp = Inr frame \<Longrightarrow> frame \<noteq> []"
  by (auto simp: frame_item_def and_then_eq_Inr encode_payload_Inr)

function stream_body_poll_read ::
  "codecs \<Rightarrow> ('s, 'a) poll_next_fn \<Rightarrow> 'c poll_cancel_fn \<Rightarrow> (('s, 'a, 'h, 'c) stream_body) poll_read_fn" where
  "stream_body_poll_read C next_item cancel s buf_len =
     (if sb_pos s < length (sb_pending s) then
        (let remaining = drop (sb_pos s) (sb_pending s);
             n = min (length remaining) buf_len in
         (Ready (Inr (take n remaining)), s\<lparr>sb_pos := sb_pos s + n\<rparr>))
      else if sb_finished s then (Ready (Inr []), s)
      else
        (case poll_cancel cancel s of
           (Some status, s) \<Rightarrow> (Ready (Inr []), finish status s)
         | (None, s) \<Rightarrow>
             (case next_item (sb_stream s) of
                (Pending, st) \<Rightarrow> (Pending, s\<lparr>sb_stream := st\<rparr>)
              | (Ready None, st) \<Rightarrow>
                  (Ready (Inr []),
                   s\<lparr>sb_stream := st, sb_finished := True,
                     sb_status := (if sb_status s = None then Some status_ok else sb_status s)\<rparr>)
              | (Ready (Some (Inr resp)), st) \<Rightarrow>
                  (case frame_item C (sb_encode s) (sb_encoding s) resp of
                     Inr frame \<Rightarrow>
                       stream_body_poll_read C next_item cancel
                         (s\<lparr>sb_stream := st, sb_pending := frame, sb_pos := 0\<rparr>) buf_len
                   | Inl status \<Rightarrow> (Ready (Inr []), finish status (s\<lparr>sb_stream := st\<rparr>)))
              | (Ready (Some (Inl status)), st) \<Rightarrow>
                  (Ready (Inr []), finish status (s\<lparr>sb_stream := st\<rparr>)))))"
  by pat_completeness auto
termination
  by (relation "measure (\<lambda>(_, _, _, s, _). if sb_pos s < length (sb_pending s) then 0 else 1)")
     (auto dest: frame_item_not_Nil)

declare stream_body_poll_read.simps [simp del]

definition stream_body_trailers ::
  "'h headers_api \<Rightarrow> base64_api \<Rightarrow> ('s, 'a, 'h, 'c) stream_body \<Rightarrow> 'h option \<times> ('s, 'a, 'h, 'c) stream_body" where
  "stream_body_trailers H B s =
     (Some (status_write_into H B (case sb_status s of Some st \<Rightarrow> st | None \<Rightarrow> status_ok) (sb_base_trailers s)),
      s\<lparr>sb_base_trailers := h_new H, sb_status := None\<rparr>)"

section \<open>OneShotBody as a source\<close>

interpretation one_shot: live_source one_shot_poll_read "\<lambda>s. drop (os_pos s) (os_bytes s)" "\<lambda>_. True" "\<lambda>_. 0"
proof
  fix s s' :: "'h one_shot" and n bs
  assume "one_shot_poll_read s n = (Ready (Inr bs), s')"
  then have bs: "bs = take (min (length (drop (os_pos s) (os_bytes s))) n) (drop (os_pos s) (os_bytes s))"
    and s': "s' = s\<lparr>os_pos := os_pos s + min (length (drop (os_pos s) (os_bytes s))) n\<rparr>"
    by (auto simp: one_shot_poll_read_def Let_def)
  show "length bs \<le> n" by (simp add: bs)
  show "drop (os_pos s) (os_bytes s) = bs @ drop (os_pos s') (os_bytes s')"
    unfolding bs s' by (simp add: take_drop_read del: drop_drop)
next
  fix s s' :: "'h one_shot" and n
  assume "one_shot_poll_read s n = (Ready (Inr []), s')" and "0 < n"
  then show "drop (os_pos s) (os_bytes s) = []"
    by (auto simp: one_shot_poll_read_def Let_def)
qed (auto simp: one_shot_poll_read_def Let_def)

text \<open>The position stays within the buffer, so the slice \<open>bytes[pos..]\<close> never panics.\<close>

lemma one_shot_pos:
  "os_pos s \<le> length (os_bytes s) \<Longrightarrow> os_pos (snd (one_shot_poll_read s n)) \<le> length (os_bytes s)"
  by (auto simp: one_shot_poll_read_def Let_def)

section \<open>StreamBody: one step\<close>

text \<open>The part of the state that no read changes.\<close>

lemma poll_cancel_eq:
  "poll_cancel cancel s = (x, s') \<Longrightarrow> \<exists>c. s' = s\<lparr>sb_cancel := c\<rparr>"
  by (auto simp: poll_cancel_def split: option.splits prod.splits poll.splits)
     (metis stream_body.surjective stream_body.update_convs(5))

lemma read_pending:
  assumes "sb_pos s < length (sb_pending s)"
  shows "stream_body_poll_read C next_item cancel s n =
    (Ready (Inr (take n (drop (sb_pos s) (sb_pending s)))),
     s\<lparr>sb_pos := sb_pos s + min (length (sb_pending s) - sb_pos s) n\<rparr>)"
  using assms by (simp add: stream_body_poll_read.simps [of C next_item cancel s n] Let_def)
     (simp add: min_def)

lemma read_finished:
  "\<not> sb_pos s < length (sb_pending s) \<Longrightarrow> sb_finished s \<Longrightarrow>
   stream_body_poll_read C next_item cancel s n = (Ready (Inr []), s)"
  by (simp add: stream_body_poll_read.simps [of C next_item cancel s n])

lemma read_next:
  assumes "\<not> sb_pos s < length (sb_pending s)" and "\<not> sb_finished s" and "poll_cancel cancel s = (None, s1)"
  shows "stream_body_poll_read C next_item cancel s n =
    (case next_item (sb_stream s1) of
       (Pending, st) \<Rightarrow> (Pending, s1\<lparr>sb_stream := st\<rparr>)
     | (Ready None, st) \<Rightarrow>
         (Ready (Inr []),
          s1\<lparr>sb_stream := st, sb_finished := True,
            sb_status := (if sb_status s1 = None then Some status_ok else sb_status s1)\<rparr>)
     | (Ready (Some (Inr resp)), st) \<Rightarrow>
         (case frame_item C (sb_encode s1) (sb_encoding s1) resp of
            Inr frame \<Rightarrow>
              (Ready (Inr (take n frame)),
               s1\<lparr>sb_stream := st, sb_pending := frame, sb_pos := min (length frame) n\<rparr>)
          | Inl status \<Rightarrow> (Ready (Inr []), finish status (s1\<lparr>sb_stream := st\<rparr>)))
     | (Ready (Some (Inl status)), st) \<Rightarrow>
         (Ready (Inr []), finish status (s1\<lparr>sb_stream := st\<rparr>)))"
  using assms
  by (auto simp: stream_body_poll_read.simps [of C next_item cancel s n] read_pending
      dest: frame_item_not_Nil split: prod.splits poll.splits option.splits sum.splits)

lemma read_cancelled:
  assumes "\<not> sb_pos s < length (sb_pending s)" and "\<not> sb_finished s" and "poll_cancel cancel s = (Some status, s1)"
  shows "stream_body_poll_read C next_item cancel s n = (Ready (Inr []), finish status s1)"
  using assms by (simp add: stream_body_poll_read.simps [of C next_item cancel s n])

lemma read_within:
  assumes "stream_body_poll_read C next_item cancel s n = (Ready (Inr bs), s')"
  shows "length bs \<le> n"
proof -
  consider "sb_pos s < length (sb_pending s)"
    | "\<not> sb_pos s < length (sb_pending s)" "sb_finished s"
    | status s1 where "\<not> sb_pos s < length (sb_pending s)" "\<not> sb_finished s" "poll_cancel cancel s = (Some status, s1)"
    | s1 where "\<not> sb_pos s < length (sb_pending s)" "\<not> sb_finished s" "poll_cancel cancel s = (None, s1)"
    by (metis option.exhaust prod.exhaust)
  then show ?thesis
    by cases (use assms in \<open>auto simp: read_pending read_finished read_cancelled read_next
      split: prod.splits poll.splits option.splits sum.splits\<close>)
qed

section \<open>What a stream of items becomes\<close>

text \<open>
  The specification of the body: the frames of the items up to the first that is an error
  or cannot be encoded, and the status that the trailers then carry.
\<close>

fun frames_of :: "('a \<Rightarrow> bytes result) \<Rightarrow> ('a result) list \<Rightarrow> bytes" where
  "frames_of frame [] = []"
| "frames_of frame (Inl e # rest) = []"
| "frames_of frame (Inr v # rest) = (case frame v of Inl e \<Rightarrow> [] | Inr f \<Rightarrow> f @ frames_of frame rest)"

fun end_status :: "('a \<Rightarrow> bytes result) \<Rightarrow> ('a result) list \<Rightarrow> status" where
  "end_status frame [] = status_ok"
| "end_status frame (Inl e # rest) = e"
| "end_status frame (Inr v # rest) = (case frame v of Inl e \<Rightarrow> e | Inr f \<Rightarrow> end_status frame rest)"

abbreviation item_frame :: "codecs \<Rightarrow> ('s, 'a, 'h, 'c) stream_body \<Rightarrow> 'a \<Rightarrow> bytes result" where
  "item_frame C s \<equiv> frame_item C (sb_encode s) (sb_encoding s)"

definition body_content :: "codecs \<Rightarrow> ('s \<Rightarrow> ('a result) list) \<Rightarrow> ('s, 'a, 'h, 'c) stream_body \<Rightarrow> bytes" where
  "body_content C todo s = drop (sb_pos s) (sb_pending s) @
     (if sb_finished s then [] else frames_of (item_frame C s) (todo (sb_stream s)))"

definition body_status :: "codecs \<Rightarrow> ('s \<Rightarrow> ('a result) list) \<Rightarrow> ('s, 'a, 'h, 'c) stream_body \<Rightarrow> status option" where
  "body_status C todo s =
     (if sb_finished s then sb_status s else Some (end_status (item_frame C s) (todo (sb_stream s))))"

text \<open>A signal that stays pending on the states that \<open>calm\<close> describes.\<close>

definition stays_calm :: "'c poll_cancel_fn \<Rightarrow> ('c \<Rightarrow> bool) \<Rightarrow> bool" where
  "stays_calm cancel calm \<longleftrightarrow> (\<forall>c. calm c \<longrightarrow> (\<exists>c'. cancel c = (Pending, c') \<and> calm c'))"

definition body_sound ::
  "('s \<Rightarrow> bool) \<Rightarrow> ('c \<Rightarrow> bool) \<Rightarrow> ('s, 'a, 'h, 'c) stream_body \<Rightarrow> bool" where
  "body_sound sound calm s \<longleftrightarrow> sound (sb_stream s) \<and> (\<forall>c. sb_cancel s = Some c \<longrightarrow> calm c) \<and>
     (\<not> sb_finished s \<longrightarrow> sb_status s = None)"

lemma poll_cancel_calm:
  assumes "stays_calm cancel calm" and "body_sound sound calm s"
  shows "\<exists>c. poll_cancel cancel s = (None, s\<lparr>sb_cancel := c\<rparr>) \<and> (\<forall>d. c = Some d \<longrightarrow> calm d)"
proof (cases "sb_cancel s")
  case None
  then show ?thesis by (intro exI [of _ None]) (simp add: poll_cancel_def)
next
  case (Some c)
  with assms obtain c' where "cancel c = (Pending, c')" "calm c'"
    by (auto simp: stays_calm_def body_sound_def)
  with Some show ?thesis by (intro exI [of _ "Some c'"]) (simp add: poll_cancel_def)
qed

context item_source begin

lemma body_step:
  assumes calm: "stays_calm cancel calm" and s: "body_sound sound calm s"
    and r: "stream_body_poll_read C next_item cancel s n = (p, s')"
  shows "body_sound sound calm s' \<and> body_status C todo s' = body_status C todo s \<and>
    sb_base_trailers s' = sb_base_trailers s \<and>
    (case p of
       Pending \<Rightarrow> body_content C todo s' = body_content C todo s \<and> wait (sb_stream s') < wait (sb_stream s)
     | Ready (Inl e) \<Rightarrow> False
     | Ready (Inr bs) \<Rightarrow> body_content C todo s = bs @ body_content C todo s' \<and>
         wait (sb_stream s') \<le> wait (sb_stream s) \<and>
         (bs = [] \<longrightarrow> 0 < n \<longrightarrow> body_content C todo s = [] \<and> sb_finished s'))"
proof (cases "sb_pos s < length (sb_pending s)")
  case True
  define k where "k = min (length (sb_pending s) - sb_pos s) n"
  have bs: "take n (drop (sb_pos s) (sb_pending s)) = take k (drop (sb_pos s) (sb_pending s))"
    by (simp add: k_def min_def)
  from r read_pending [OF True, of C next_item cancel n]
  have "p = Ready (Inr (take k (drop (sb_pos s) (sb_pending s))))" and "s' = s\<lparr>sb_pos := sb_pos s + k\<rparr>"
    by (simp_all add: bs k_def)
  with s True take_drop_read [of k "sb_pos s" "sb_pending s"] show ?thesis
    by (auto simp: body_sound_def body_status_def body_content_def k_def simp flip: append_assoc)
next
  case unread: False
  show ?thesis
  proof (cases "sb_finished s")
    case True
    with unread r s show ?thesis
      by (auto simp: read_finished body_sound_def body_status_def body_content_def)
  next
    case f: False
    obtain c where c: "poll_cancel cancel s = (None, s\<lparr>sb_cancel := c\<rparr>)" "\<forall>d. c = Some d \<longrightarrow> calm d"
      using poll_cancel_calm [OF calm s] by blast
    obtain q st where n: "next_item (sb_stream s) = (q, st)" by (cases "next_item (sb_stream s)")
    have so: "sound (sb_stream s)" using s by (simp add: body_sound_def)
    note item = item_keep [OF so n] item_pending [OF so, of st] item_end [OF so, of st] item_next [OF so, of _ st]
    note r' = r [unfolded read_next [OF unread f c(1)]]
    note defs = body_sound_def body_status_def body_content_def finish_def
    have known: "\<forall>d. c = Some d \<longrightarrow> calm d" "sb_status s = None" "drop (sb_pos s) (sb_pending s) = []" "sound st"
      using c(2) s f unread item(1) by (auto simp: body_sound_def)
    consider "q = Pending" | "q = Ready None" | e where "q = Ready (Some (Inl e))"
      | v e where "q = Ready (Some (Inr v))" "item_frame C s v = Inl e"
      | v fr where "q = Ready (Some (Inr v))" "item_frame C s v = Inr fr"
      by (metis option.exhaust poll.exhaust sum.exhaust)
    then show ?thesis
    proof cases
      case 1
      with n item(2) have "todo st = todo (sb_stream s)" "wait st < wait (sb_stream s)" by simp_all
      moreover from 1 r' n have "p = Pending" "s' = s\<lparr>sb_cancel := c, sb_stream := st\<rparr>" by simp_all
      ultimately show ?thesis using known f by (simp add: defs)
    next
      case 2
      with n item(3,4) item_pending have "todo (sb_stream s) = []" "wait st \<le> wait (sb_stream s)" by simp_all
      moreover from 2 r' n known have "p = Ready (Inr [])"
        "s' = s\<lparr>sb_cancel := c, sb_stream := st, sb_finished := True, sb_status := Some status_ok\<rparr>"
        by simp_all
      ultimately show ?thesis using known f by (simp add: defs)
    next
      case (3 e)
      with n item(4) have "todo (sb_stream s) = Inl e # todo st" "wait st \<le> wait (sb_stream s)" by simp_all
      moreover from 3 r' n have "p = Ready (Inr [])" "s' = finish e (s\<lparr>sb_cancel := c, sb_stream := st\<rparr>)" by simp_all
      ultimately show ?thesis using known f by (simp add: defs)
    next
      case (4 v e)
      with n item(4) have "todo (sb_stream s) = Inr v # todo st" "wait st \<le> wait (sb_stream s)" by simp_all
      moreover from 4 r' n have "p = Ready (Inr [])" "s' = finish e (s\<lparr>sb_cancel := c, sb_stream := st\<rparr>)" by simp_all
      ultimately show ?thesis using known f 4(2) by (simp add: defs)
    next
      case (5 v fr)
      with n item(4) have "todo (sb_stream s) = Inr v # todo st" "wait st \<le> wait (sb_stream s)" by simp_all
      moreover from 5 r' n have "p = Ready (Inr (take n fr))"
        "s' = s\<lparr>sb_cancel := c, sb_stream := st, sb_pending := fr, sb_pos := min (length fr) n\<rparr>" by simp_all
      moreover have "take n fr @ drop (min (length fr) n) fr = fr" by (simp add: min_def)
      moreover have "fr \<noteq> []" by (rule frame_item_not_Nil [OF 5(2)])
      ultimately show ?thesis using known f 5(2) by (simp add: defs flip: append_assoc)
    qed
  qed
qed

text \<open>So the body is itself a source that delivers, with the specified content.\<close>

lemma stream_body_live:
  assumes "stays_calm cancel calm"
  shows "live_source (stream_body_poll_read C next_item cancel) (body_content C todo)
    (body_sound sound calm) (\<lambda>s. wait (sb_stream s))"
proof
  show "length bs \<le> n" if "stream_body_poll_read C next_item cancel r n = (Ready (Inr bs), r')" for r n bs r'
    using that by (rule read_within)
next
  show "wait (sb_stream r') \<le> wait (sb_stream r)"
    if "body_sound sound calm r" and "stream_body_poll_read C next_item cancel r n = (Ready x, r')" for r n x r'
    using body_step [OF assms that] by (cases x) auto
qed (use body_step [OF assms] in \<open>fastforce+\<close>)

end

lemma frames_of_fits:
  assumes "list_all2 (fits C K enc max_size) vs frames"
  shows "frames_of (frame_item C (encode_msg K) enc) (map Inr vs) = concat frames"
  using assms by induction (simp_all add: fits_def frame_item_def encode_frame_def)

section \<open>Cancellation cuts between frames\<close>

text \<open>
  The runs of a body whatever the stream and the signal do: the bytes that have been read, and
  the state they lead to.
\<close>

inductive body_run ::
  "codecs \<Rightarrow> ('s, 'a, 'h, 'c) stream_body \<Rightarrow> bytes \<Rightarrow> ('s, 'a, 'h, 'c) stream_body \<Rightarrow> bool"
  for C :: codecs and s0 :: "('s, 'a, 'h, 'c) stream_body" where
  run_start: "body_run C s0 [] s0"
| run_pending: "body_run C s0 out s \<Longrightarrow>
    stream_body_poll_read C next_item cancel s n = (Pending, s') \<Longrightarrow> body_run C s0 out s'"
| run_read: "body_run C s0 out s \<Longrightarrow>
    stream_body_poll_read C next_item cancel s n = (Ready (Inr bs), s') \<Longrightarrow> body_run C s0 (out @ bs) s'"

inductive_cases body_run_cases: "body_run C s0 out s"

definition whole_frames :: "codecs \<Rightarrow> encoding \<Rightarrow> bytes \<Rightarrow> bool" where
  "whole_frames C enc bs \<longleftrightarrow>
     (\<exists>frames. bs = concat frames \<and> (\<forall>f \<in> set frames. \<exists>payload. encode_payload C payload enc = Inr f))"

lemma whole_frames_Nil: "whole_frames C enc []"
  unfolding whole_frames_def by (rule exI [of _ "[]"]) simp

lemma whole_frames_append:
  "whole_frames C enc bs \<Longrightarrow> encode_payload C payload enc = Inr f \<Longrightarrow> whole_frames C enc (bs @ f)"
  unfolding whole_frames_def
  by (elim exE, rename_tac frames, rule_tac x = "frames @ [f]" in exI) auto

definition run_inv :: "codecs \<Rightarrow> encoding \<Rightarrow> bytes \<Rightarrow> ('s, 'a, 'h, 'c) stream_body \<Rightarrow> bool" where
  "run_inv C enc out s \<longleftrightarrow> sb_encoding s = enc \<and>
     whole_frames C enc (out @ drop (sb_pos s) (sb_pending s)) \<and>
     (sb_finished s \<longrightarrow> sb_pos s \<ge> length (sb_pending s) \<and> sb_status s \<noteq> None)"

lemma run_inv_step:
  assumes inv: "run_inv C enc out s"
    and r: "stream_body_poll_read C next_item cancel s n = (p, s')"
  shows "(p = Pending \<longrightarrow> run_inv C enc out s') \<and> (\<forall>bs. p = Ready (Inr bs) \<longrightarrow> run_inv C enc (out @ bs) s')"
proof (cases "sb_pos s < length (sb_pending s)")
  case True
  define k where "k = min (length (sb_pending s) - sb_pos s) n"
  have bs: "take n (drop (sb_pos s) (sb_pending s)) = take k (drop (sb_pos s) (sb_pending s))"
    by (simp add: k_def min_def)
  from r read_pending [OF True, of C next_item cancel n]
  have "p = Ready (Inr (take k (drop (sb_pos s) (sb_pending s))))" and "s' = s\<lparr>sb_pos := sb_pos s + k\<rparr>"
    by (simp_all add: bs k_def)
  with inv True take_drop_read [of k "sb_pos s" "sb_pending s"] show ?thesis
    by (auto simp: run_inv_def)
next
  case unread: False
  then have nothing: "drop (sb_pos s) (sb_pending s) = []" by simp
  show ?thesis
  proof (cases "sb_finished s")
    case True
    with unread r inv show ?thesis by (auto simp: read_finished)
  next
    case f: False
    obtain x s1 where c: "poll_cancel cancel s = (x, s1)" by (cases "poll_cancel cancel s")
    from poll_cancel_eq [OF c] obtain d where s1: "s1 = s\<lparr>sb_cancel := d\<rparr>" by blast
    show ?thesis
    proof (cases x)
      case (Some st)
      with c r inv unread s1 show ?thesis
        by (auto simp: read_cancelled [OF unread f] run_inv_def finish_def)
    next
      case None
      obtain q st where n: "next_item (sb_stream s) = (q, st)" by (cases "next_item (sb_stream s)")
      note r' = r [unfolded read_next [OF unread f c [unfolded None]]]
      show ?thesis
      proof (cases "\<exists>v fr. q = Ready (Some (Inr v)) \<and> item_frame C s v = Inr fr")
        case True
        then obtain v fr where q: "q = Ready (Some (Inr v))" "item_frame C s v = Inr fr" by blast
        then obtain payload where "encode_payload C payload (sb_encoding s) = Inr fr"
          by (auto simp: frame_item_def and_then_eq_Inr)
        then have "whole_frames C enc (out @ fr)"
          using inv unread by (intro whole_frames_append) (simp_all add: run_inv_def)
        moreover have "p = Ready (Inr (take n fr))"
          "s' = s\<lparr>sb_cancel := d, sb_stream := st, sb_pending := fr, sb_pos := min (length fr) n\<rparr>"
          using r' n q by (simp_all add: s1)
        moreover have "take n fr @ drop (min (length fr) n) fr = fr" by (simp add: min_def)
        ultimately show ?thesis using inv f by (simp add: run_inv_def)
      next
        case False
        consider "q = Pending" | "q = Ready None" | e where "q = Ready (Some (Inl e))"
          | v where "q = Ready (Some (Inr v))"
          by (metis option.exhaust poll.exhaust sum.exhaust)
        then show ?thesis
          using False r' n inv unread f
          by cases (auto simp: s1 run_inv_def finish_def split: sum.splits)
      qed
    qed
  qed
qed

lemma body_run_inv:
  assumes "body_run C (stream_body_new s encode enc tr c) out s'"
  shows "run_inv C enc out s'"
  using assms
proof induction
  case run_start
  then show ?case by (simp add: run_inv_def stream_body_new_def whole_frames_Nil)
qed (auto dest: run_inv_step)

text \<open>Reading with buffers of the given sizes: the bytes and the state after the last.\<close>

fun reads :: "'r poll_read_fn \<Rightarrow> nat list \<Rightarrow> 'r \<Rightarrow> bytes \<times> 'r" where
  "reads poll_read [] s = ([], s)"
| "reads poll_read (n # ns) s =
     (case poll_read s n of
        (Ready (Inr bs), s') \<Rightarrow> (case reads poll_read ns s' of (out, s2) \<Rightarrow> (bs @ out, s2))
      | (_, s') \<Rightarrow> reads poll_read ns s')"

context item_source begin

lemma body_reads:
  assumes "stays_calm cancel calm"
  shows "body_sound sound calm s \<Longrightarrow> reads (stream_body_poll_read C next_item cancel) ns s = (out, s') \<Longrightarrow>
    body_sound sound calm s' \<and> body_status C todo s' = body_status C todo s \<and>
    sb_base_trailers s' = sb_base_trailers s \<and> body_content C todo s = out @ body_content C todo s'"
proof (induction ns arbitrary: s out)
  case (Cons n ns)
  obtain p s1 where r: "stream_body_poll_read C next_item cancel s n = (p, s1)"
    by (cases "stream_body_poll_read C next_item cancel s n")
  with body_step [OF assms Cons.prems(1) r] Cons show ?case
    by (fastforce split: poll.splits sum.splits prod.splits)
qed auto

end

section \<open>A stream for examples: a list of items\<close>

fun list_next :: "('a result) list \<Rightarrow> ('a result) option poll \<times> ('a result) list" where
  "list_next [] = (Ready None, [])"
| "list_next (x # xs) = (Ready (Some x), xs)"

interpretation list_stream: item_source list_next "\<lambda>xs. xs" "\<lambda>_. True" "\<lambda>_. 0"
proof (unfold_locales, goal_cases)
  case (2 s s')
  then show ?case by (cases s) auto
next
  case (3 s s')
  then show ?case by (cases s) auto
next
  case (4 s x s')
  then show ?case by (cases s) auto
qed simp

definition never :: "unit poll_cancel_fn" where
  "never c = (Pending, c)"

lemma stays_calm_never: "stays_calm never (\<lambda>_. True)"
  by (simp add: stays_calm_def never_def)

section \<open>Properties\<close>

text \<open>
  From the server's handler to the client's code: the items of a response stream, framed
  on demand by \<open>StreamBody\<close> and read back by the client's \<open>MessageStream\<close> with any sequence
  of partial reads and pending polls, are exactly the items the handler produced, in order,
  and the stream then ends.
\<close>

lemma stream_response_roundtrip:
  assumes "item_source next_item todo sound wait" and "stays_calm cancel calm"
    and "codecs_ok C" and "codec_ok K" and "max_size < 2 ^ 64 - 1"
    and "list_all2 (fits C K enc max_size) vs frames" and "sound st" and "todo st = map Inr vs"
    and "\<forall>d. c = Some d \<longrightarrow> calm d" and "length vs + wait st < n"
  shows "collect n C (stream_body_poll_read C next_item cancel)
      (with_encoding (with_max_message_size
        (message_stream_new (stream_body_new st (encode_msg K) enc tr c) (decode_msg K)) max_size) enc)
    = (map Inr vs, True)"
proof -
  let ?s = "stream_body_new st (encode_msg K) enc tr c"
  have "body_content C todo ?s = concat frames"
    using assms(8) frames_of_fits [OF assms(6)] by (simp add: body_content_def stream_body_new_def)
  then have "items C (decode_msg K) enc max_size (body_content C todo ?s) = map Inr vs"
    using items_all_fit [OF assms(3-6)] by simp
  moreover have "body_sound sound calm ?s" using assms(7,9) by (simp add: body_sound_def stream_body_new_def)
  moreover have "wait (sb_stream ?s) = wait st" by (simp add: stream_body_new_def)
  ultimately show ?thesis
    using collect_new_stream [OF item_source.stream_body_live [OF assms(1,2), of C], of ?s C "decode_msg K" enc max_size n]
      assms(10) by simp
qed

lemma stream_response_roundtrip_witness:
  "collect 3 prefix_codecs (stream_body_poll_read prefix_codecs list_next never)
     (with_encoding (with_max_message_size
        (message_stream_new (stream_body_new [Inr [7], Inr []] (encode_msg raw_codec) Gzip () None) (decode_msg raw_codec))
        10) Gzip)
   = ([Inr [7], Inr []], True)"
proof -
  have "list_all2 (fits prefix_codecs raw_codec Gzip 10) [[7], []]
      [[1, 0, 0, 0, 2, 0x1F, 7], [1, 0, 0, 0, 1, 0x1F]]"
    by (simp add: fits_def encode_frame_Inr raw_codec_def prefix_codecs_def gzip_compress_def
        u32_to_be_bytes_def PREFIX_LEN_def)
  from stream_response_roundtrip [OF list_stream.item_source_axioms stays_calm_never codecs_ok_prefix codec_ok_raw _ this,
      where st = "[Inr [7], Inr []]" and c = None and tr = "()" and n = 3] show ?thesis by simp
qed

text \<open>
  How a response stream ends is what the trailers say: once a read into a non-empty buffer
  returns nothing, exactly the frames of the items before the first error have been sent, and
  the trailers are the handler's own with the status of that first error (an \<open>Err\<close> item, or a
  message that cannot be encoded or compressed), or \<open>Ok\<close> if there was none.
\<close>

lemma stream_end_status:
  assumes "item_source next_item todo sound wait" and "stays_calm cancel calm"
    and "sound st" and "\<forall>d. c = Some d \<longrightarrow> calm d"
    and "reads (stream_body_poll_read C next_item cancel) ns (stream_body_new st encode enc tr c) = (out, s1)"
    and "stream_body_poll_read C next_item cancel s1 n = (Ready (Inr []), s2)" and "0 < n"
  shows "out = frames_of (frame_item C encode enc) (todo st) \<and>
    fst (stream_body_trailers H B s2) =
      Some (status_write_into H B (end_status (frame_item C encode enc) (todo st)) tr)"
proof -
  let ?s = "stream_body_new st encode enc tr c"
  have sound: "body_sound sound calm ?s" using assms(3,4) by (simp add: body_sound_def stream_body_new_def)
  have start: "body_content C todo ?s = frames_of (frame_item C encode enc) (todo st)"
    "body_status C todo ?s = Some (end_status (frame_item C encode enc) (todo st))"
    "sb_base_trailers ?s = tr"
    by (simp_all add: body_content_def body_status_def stream_body_new_def)
  note r = item_source.body_reads [OF assms(1,2) sound assms(5)]
  from r have sound1: "body_sound sound calm s1" by blast
  note e = item_source.body_step [OF assms(1,2) sound1 assms(6)]
  from r e assms(7) start show ?thesis
    by (auto simp: stream_body_trailers_def body_status_def)
qed

lemma stream_end_status_witness:
  "fst (stream_body_trailers dalist_headers \<lparr>b64_encode = id, b64_decode = Some\<rparr>
     (snd (stream_body_poll_read prefix_codecs list_next never
        (stream_body_new [Inl (st_unavailable [])] (encode_msg raw_codec) Identity DAList.empty None) 9))) =
   Some (status_write_into dalist_headers \<lparr>b64_encode = id, b64_decode = Some\<rparr> (st_unavailable []) DAList.empty)"
proof -
  let ?s = "stream_body_new [Inl (st_unavailable [])] (encode_msg raw_codec) Identity
      (DAList.empty :: (str, str list) alist) (None :: unit option)"
  have "reads (stream_body_poll_read prefix_codecs list_next never) [] ?s = ([], ?s)" by simp
  moreover have step: "stream_body_poll_read prefix_codecs list_next never ?s 9 =
      (Ready (Inr []), finish (st_unavailable []) (?s\<lparr>sb_stream := []\<rparr>))"
    by (simp add: stream_body_poll_read.simps stream_body_new_def poll_cancel_def)
  ultimately show ?thesis
    using stream_end_status [OF list_stream.item_source_axioms stays_calm_never _ _ _ step,
        where H = dalist_headers and B = "\<lparr>b64_encode = id, b64_decode = Some\<rparr>" and ns = "[]"]
    by simp
qed

text \<open>
  C17: Cancellation never truncates a frame: whatever the user's stream and the cancellation
  signal do and however the body is read, the bytes read are at every moment whole frames
  followed by a beginning of one more whose rest is still pending; once the body is finished
  there is no rest, and a status for the trailers is set.
\<close>

theorem cancel_between_frames:
  assumes "body_run C (stream_body_new st encode enc tr c) out s"
  shows "whole_frames C enc (out @ drop (sb_pos s) (sb_pending s)) \<and>
    (sb_finished s \<longrightarrow> whole_frames C enc out \<and> sb_status s \<noteq> None)"
  using body_run_inv [OF assms] by (auto simp: run_inv_def)

theorem cancel_between_frames_witness:
  "whole_frames prefix_codecs Identity ([0, 0, 0] @ [0, 1, 7])"
proof -
  let ?s0 = "stream_body_new [Inr [7] :: bytes result] (encode_msg raw_codec) Identity () (None :: unit option)"
  let ?s1 = "?s0\<lparr>sb_stream := [], sb_pending := [0, 0, 0, 0, 1, 7], sb_pos := 3\<rparr>"
  have "stream_body_poll_read prefix_codecs list_next never ?s0 3 = (Ready (Inr [0, 0, 0]), ?s1)"
    by (simp add: stream_body_poll_read.simps stream_body_new_def poll_cancel_def frame_item_def
        encode_payload_eq raw_codec_def u32_to_be_bytes_def Let_def)
  then have "body_run prefix_codecs ?s0 ([] @ [0, 0, 0]) ?s1" by (rule run_read [OF run_start])
  from cancel_between_frames [OF this] show ?thesis by simp
qed

text \<open>
  A unary response arrives: a client that reads a \<open>OneShotBody\<close> holding one framed message
  gets that message and then the end of the stream, and the body hands out its trailers
  exactly once.
\<close>

lemma unary_response_roundtrip:
  assumes "codecs_ok C" and "codec_ok K" and "max_size < 2 ^ 64 - 1" and "fits C K enc max_size v frame"
  shows "collect 2 C one_shot_poll_read
      (with_encoding (with_max_message_size
        (message_stream_new (one_shot_new frame tr) (decode_msg K)) max_size) enc) = ([Inr v], True) \<and>
    fst (one_shot_trailers (one_shot_new frame tr)) = Some tr \<and>
    fst (one_shot_trailers (snd (one_shot_trailers (one_shot_new frame tr)))) = None"
proof -
  have "items C (decode_msg K) enc max_size (frame @ []) = [Inr v]"
    by (simp only: items_fits [OF assms] items_Nil)
  then show ?thesis
    using collect_new_stream [OF one_shot.live_source_axioms, where r = "one_shot_new frame tr" and C = C
        and decode = "decode_msg K" and enc = enc and max_size = max_size and n = 2]
    by (simp add: one_shot_new_def one_shot_trailers_def)
qed

lemma unary_response_roundtrip_witness:
  "collect 2 prefix_codecs one_shot_poll_read
      (with_encoding (with_max_message_size
        (message_stream_new (one_shot_new [1, 0, 0, 0, 2, 0x1F, 7] ()) (decode_msg raw_codec)) 10) Gzip)
   = ([Inr [7]], True)"
proof -
  have "fits prefix_codecs raw_codec Gzip 10 [7] [1, 0, 0, 0, 2, 0x1F, 7]"
    by (simp add: fits_def encode_frame_Inr raw_codec_def prefix_codecs_def gzip_compress_def
        u32_to_be_bytes_def PREFIX_LEN_def)
  from unary_response_roundtrip [OF codecs_ok_prefix codec_ok_raw _ this, of "()"] show ?thesis by simp
qed

end
