(* ===== verification/Timeout.thy ===== *)
theory Timeout
  imports Encoding
begin

text \<open>
  \<open>src/timeout.rs\<close>: the \<open>grpc-timeout\<close> header. A \<open>std::time::Duration\<close> is its seconds
  and its nanoseconds below one second. The \<open>u128\<close> arithmetic of the code is done on
  natural numbers: the largest duration is below \<open>2 ^ 94\<close> nanoseconds.
\<close>

section \<open>Durations\<close>

record duration =
  d_secs :: u64
  d_nanos :: u32

definition duration_wf :: "duration \<Rightarrow> bool" where
  "duration_wf d \<longleftrightarrow> unat (d_nanos d) < 10 ^ 9"

definition as_nanos :: "duration \<Rightarrow> nat" where
  "as_nanos d = unat (d_secs d) * 10 ^ 9 + unat (d_nanos d)"

text \<open>
  \<open>Duration::new\<close> carries excess nanoseconds into the seconds; the caller's are below
  \<open>10 ^ 9\<close>.
\<close>

definition duration_of :: "nat \<Rightarrow> duration" where
  "duration_of n = \<lparr>d_secs = of_nat (n div 10 ^ 9), d_nanos = of_nat (n mod 10 ^ 9)\<rparr>"

section \<open>The codec\<close>

definition MAX_VALUE :: nat where
  "MAX_VALUE = 99999999"

definition UNITS :: "(nat \<times> u8) list" where
  "UNITS =
    [(1, 0x6E), (1000, 0x75), (1000000, 0x6D), (1000000000, 0x53),
     (60 * 1000000000, 0x4D), (3600 * 1000000000, 0x48)]"

definition div_ceil :: "nat \<Rightarrow> nat \<Rightarrow> nat" where
  "div_ceil a b = a div b + (if a mod b > 0 then 1 else 0)"

definition format_grpc_timeout :: "duration \<Rightarrow> str" where
  "format_grpc_timeout d =
     (case find (\<lambda>(unit_nanos, suffix). div_ceil (as_nanos d) unit_nanos \<le> MAX_VALUE) UNITS of
        Some (unit_nanos, suffix) \<Rightarrow> show_nat (div_ceil (as_nanos d) unit_nanos) @ [suffix]
      | None \<Rightarrow> show_nat MAX_VALUE @ [0x48])"

definition unit_of_suffix :: "u8 \<Rightarrow> nat option" where
  "unit_of_suffix suffix =
     (if suffix = 0x6E then Some 1
      else if suffix = 0x75 then Some 1000
      else if suffix = 0x6D then Some 1000000
      else if suffix = 0x53 then Some 1000000000
      else if suffix = 0x4D then Some (60 * 1000000000)
      else if suffix = 0x48 then Some (3600 * 1000000000)
      else None)"

definition checked_mul_u128 :: "nat \<Rightarrow> nat \<Rightarrow> nat option" where
  "checked_mul_u128 a b = (if a * b < 2 ^ 128 then Some (a * b) else None)"

definition parse_grpc_timeout :: "str \<Rightarrow> duration option" where
  "parse_grpc_timeout s =
     (if s = [] then None
      else let suffix = last s; digits = butlast s in
        if digits = [] \<or> \<not> list_all is_ascii_digit digits then None
        else Option.bind (from_utf8 digits) (\<lambda>digits.
          Option.bind (parse_unsigned (2 ^ 64) digits) (\<lambda>value.
          Option.bind (unit_of_suffix suffix) (\<lambda>unit_nanos.
          Option.bind (checked_mul_u128 value unit_nanos) (\<lambda>total_nanos.
            if total_nanos div 1000000000 < 2 ^ 64
            then Some \<lparr>d_secs = of_nat (total_nanos div 1000000000),
                       d_nanos = of_nat (total_nanos mod 1000000000)\<rparr>
            else None)))))"

section \<open>Lemmas\<close>

lemma duration_of_wf [simp]: "duration_wf (duration_of n)"
  by (simp add: duration_wf_def duration_of_def unat_of_nat)

lemma as_nanos_of [simp]: "n < 2 ^ 64 * 10 ^ 9 \<Longrightarrow> as_nanos (duration_of n) = n"
proof -
  assume "n < 2 ^ 64 * 10 ^ 9"
  then have "n div 10 ^ 9 < 2 ^ 64" by (simp add: less_mult_imp_div_less)
  moreover have "n mod 10 ^ 9 < 2 ^ 32" by (rule less_le_trans [of _ "10 ^ 9"]) simp_all
  ultimately show ?thesis
    by (simp add: as_nanos_def duration_of_def unat_of_nat)
qed

lemma duration_of_nanos [simp]: "duration_wf d \<Longrightarrow> duration_of (as_nanos d) = d"
  by (simp add: duration_of_def as_nanos_def duration_wf_def)

lemma as_nanos_bound: "duration_wf d \<Longrightarrow> as_nanos d < 2 ^ 64 * 10 ^ 9"
proof -
  assume "duration_wf d"
  moreover have "unat (d_secs d) < 2 ^ LENGTH(64)" by (rule unsigned_less)
  ultimately show ?thesis by (simp add: as_nanos_def duration_wf_def)
qed

lemma digits_utf8: "list_all is_ascii_digit s \<Longrightarrow> from_utf8 s = Some s"
proof -
  assume "list_all is_ascii_digit s"
  then have "utf8_valid s"
    by (intro utf8_valid_ascii)
       (auto simp: list_all_iff is_ascii_digit_def word_le_nat_alt word_less_nat_alt)
  then show ?thesis by (simp add: from_utf8_def)
qed

lemma unit_bound: "unit_of_suffix c = Some u \<Longrightarrow> u \<in> {1 .. 3600 * 10 ^ 9}"
  by (auto simp: unit_of_suffix_def split: if_splits)

text \<open>What the parser accepts, with the checks that cannot fail removed.\<close>

lemma parse_grpc_timeout_eq:
  "parse_grpc_timeout s = Some d \<longleftrightarrow>
     (\<exists>digits c u. s = digits @ [c] \<and> digits \<noteq> [] \<and> list_all is_ascii_digit digits \<and>
        unit_of_suffix c = Some u \<and> digits_value digits < 2 ^ 64 \<and>
        digits_value digits * u < 2 ^ 64 * 10 ^ 9 \<and> d = duration_of (digits_value digits * u))"
proof -
  have mul: "checked_mul_u128 v u = Some (v * u)" if "v < 2 ^ 64" and "unit_of_suffix c = Some u" for v u c
  proof -
    have "v * u \<le> 2 ^ 64 * (3600 * 10 ^ 9)"
      using that unit_bound [of c u] by (intro mult_mono) auto
    then show ?thesis by (simp add: checked_mul_u128_def)
  qed
  have secs: "n div 1000000000 < 2 ^ 64 \<longleftrightarrow> n < 2 ^ 64 * 10 ^ 9" for n :: nat
    by (simp add: div_less_iff_less_mult)
  show ?thesis
  proof (cases s rule: rev_cases)
    case Nil
    then show ?thesis by (simp add: parse_grpc_timeout_def)
  next
    case (snoc digits c)
    show ?thesis
    proof (cases "digits \<noteq> [] \<and> list_all is_ascii_digit digits")
      case True
      then show ?thesis
        unfolding snoc parse_grpc_timeout_def
        using mul [of "digits_value digits" c]
        by (cases "unit_of_suffix c")
          (auto simp: digits_utf8 parse_unsigned_digits secs duration_of_def Let_def
            simp del: mult_numeral_left split: if_splits)
    next
      case False
      then show ?thesis by (auto simp: snoc parse_grpc_timeout_def)
    qed
  qed
qed

lemma div_ceil_bounds:
  assumes "0 < u"
  shows "n \<le> div_ceil n u * u" and "div_ceil n u * u < n + u"
proof -
  define q r where "q = n div u" and "r = n mod u"
  have e: "n = q * u + r" and m: "r < u" using assms by (simp_all add: q_def r_def)
  have d: "div_ceil n u * u = q * u + (if 0 < r then u else 0)"
    by (simp add: div_ceil_def q_def r_def)
  show "n \<le> div_ceil n u * u" unfolding d using e m by (cases "0 < r") simp_all
  show "div_ceil n u * u < n + u" unfolding d using e m assms by (cases "0 < r") simp_all
qed

lemma div_ceil_exact: "0 < u \<Longrightarrow> u dvd n \<Longrightarrow> div_ceil n u * u = n"
  by (simp add: div_ceil_def mod_eq_0_iff_dvd)

lemma UNITS_suffix: "(u, c) \<in> set UNITS \<Longrightarrow> unit_of_suffix c = Some u \<and> 0 < u \<and> u \<le> 3600 * 10 ^ 9"
  by (auto simp: UNITS_def unit_of_suffix_def)

text \<open>The unit that the formatter picks, and what it writes.\<close>

definition chosen_unit :: "duration \<Rightarrow> (nat \<times> u8) option" where
  "chosen_unit d = find (\<lambda>(u, c). div_ceil (as_nanos d) u \<le> MAX_VALUE) UNITS"

lemma chosen_unit_SomeD:
  "chosen_unit d = Some (u, c) \<Longrightarrow>
   unit_of_suffix c = Some u \<and> 0 < u \<and> u \<le> 3600 * 10 ^ 9 \<and> div_ceil (as_nanos d) u \<le> MAX_VALUE \<and>
   format_grpc_timeout d = show_nat (div_ceil (as_nanos d) u) @ [c]"
  using UNITS_suffix [of u c] find_SomeD [of _ UNITS "(u, c)"]
  by (fastforce simp: chosen_unit_def format_grpc_timeout_def)

lemma chosen_unit_None:
  "chosen_unit d = None \<longleftrightarrow> MAX_VALUE * (3600 * 10 ^ 9) < as_nanos d"
proof -
  have big: "div_ceil n u \<le> MAX_VALUE \<longleftrightarrow> n \<le> MAX_VALUE * u" if "0 < u" for n u
  proof
    assume "div_ceil n u \<le> MAX_VALUE"
    then have "div_ceil n u * u \<le> MAX_VALUE * u" by simp
    with div_ceil_bounds(1) [OF that, of n] show "n \<le> MAX_VALUE * u" by linarith
  next
    assume "n \<le> MAX_VALUE * u"
    with div_ceil_bounds(2) [OF that, of n] have "div_ceil n u * u < Suc MAX_VALUE * u" by simp
    then have "div_ceil n u < Suc MAX_VALUE" by (simp only: mult_less_cancel2)
    then show "div_ceil n u \<le> MAX_VALUE" by simp
  qed
  have "chosen_unit d = None \<longleftrightarrow> (\<forall>(u, c) \<in> set UNITS. \<not> div_ceil (as_nanos d) u \<le> MAX_VALUE)"
    by (auto simp: chosen_unit_def find_None_iff)
  also have "\<dots> \<longleftrightarrow> (\<forall>(u, c) \<in> set UNITS. MAX_VALUE * u < as_nanos d)"
  proof (rule ball_cong [OF refl], clarify)
    fix u c assume "(u, c) \<in> set UNITS"
    with UNITS_suffix [of u c] have "0 < u" by simp
    then show "(\<not> div_ceil (as_nanos d) u \<le> MAX_VALUE) = (MAX_VALUE * u < as_nanos d)"
      by (simp add: big not_le)
  qed
  also have "\<dots> \<longleftrightarrow> MAX_VALUE * (3600 * 10 ^ 9) < as_nanos d"
    by (auto simp: UNITS_def MAX_VALUE_def)
  finally show ?thesis .
qed

lemma format_saturates:
  "chosen_unit d = None \<Longrightarrow> format_grpc_timeout d = show_nat MAX_VALUE @ [0x48]"
  by (simp add: chosen_unit_def format_grpc_timeout_def)

lemma parse_shown:
  assumes "unit_of_suffix c = Some u" and "v \<le> MAX_VALUE"
  shows "parse_grpc_timeout (show_nat v @ [c]) = Some (duration_of (v * u))"
    and "v * u < 2 ^ 64 * 10 ^ 9"
proof -
  have "v * u \<le> MAX_VALUE * (3600 * 10 ^ 9)"
    using assms unit_bound [of c u] by (intro mult_mono) auto
  then show b: "v * u < 2 ^ 64 * 10 ^ 9" by (simp add: MAX_VALUE_def)
  have "v < 2 ^ 64" using assms(2) by (simp add: MAX_VALUE_def)
  with b show "parse_grpc_timeout (show_nat v @ [c]) = Some (duration_of (v * u))"
    unfolding parse_grpc_timeout_eq using assms(1) show_nat_digits [of v] by auto
qed

lemma show_nat_len8: "v \<le> MAX_VALUE \<Longrightarrow> length (show_nat v) \<le> 8"
  by (rule length_show_nat) (simp_all add: MAX_VALUE_def)

lemma format_rounds_up:
  assumes "as_nanos d \<le> MAX_VALUE * (3600 * 10 ^ 9)"
  shows "\<exists>u c d'. (u, c) \<in> set UNITS \<and> format_grpc_timeout d = show_nat (div_ceil (as_nanos d) u) @ [c] \<and>
    parse_grpc_timeout (format_grpc_timeout d) = Some d' \<and> duration_wf d' \<and>
    as_nanos d \<le> as_nanos d' \<and> as_nanos d' < as_nanos d + u \<and>
    length (format_grpc_timeout d) \<le> 9 \<and>
    (\<forall>(w, _) \<in> set UNITS. w < u \<longrightarrow> MAX_VALUE < div_ceil (as_nanos d) w)"
proof -
  from assms chosen_unit_None [of d] obtain u c where uc: "chosen_unit d = Some (u, c)"
    by (cases "chosen_unit d") (auto simp: not_less)
  note ch = chosen_unit_SomeD [OF uc]
  define v where "v = div_ceil (as_nanos d) u"
  have v: "v \<le> MAX_VALUE" "format_grpc_timeout d = show_nat v @ [c]" using ch by (simp_all add: v_def)
  have b: "as_nanos d \<le> v * u" "v * u < as_nanos d + u"
    using div_ceil_bounds [of u "as_nanos d"] ch by (simp_all add: v_def)
  have small: "\<forall>(w, _) \<in> set UNITS. w < u \<longrightarrow> MAX_VALUE < div_ceil (as_nanos d) w" and mem: "(u, c) \<in> set UNITS"
    using uc unfolding chosen_unit_def UNITS_def by (auto split: if_splits)
  show ?thesis
    using mem small b v show_nat_len8 [OF v(1)] parse_shown(1) [OF _ v(1), of c u] parse_shown(2) [OF _ v(1), of c u] ch
    by (intro exI [of _ u] exI [of _ c] exI [of _ "duration_of (v * u)"]) (auto simp: v_def)
qed

lemma format_utf8: "utf8_valid (format_grpc_timeout d)"
proof -
  have digits: "\<forall>b \<in> set (show_nat n). b < 0x80" for n
    using show_nat_printable [of n] by (auto simp: word_le_nat_alt word_less_nat_alt)
  have ascii: "(u, c) \<in> set UNITS \<Longrightarrow> c < 0x80" for u c by (auto simp: UNITS_def)
  show ?thesis
  proof (cases "chosen_unit d")
    case None
    with digits [of MAX_VALUE] show ?thesis by (auto simp: format_saturates intro!: utf8_valid_ascii)
  next
    case (Some uc)
    then obtain u c where "chosen_unit d = Some (u, c)" by (cases uc) auto
    with digits chosen_unit_SomeD [of d u c] ascii [of u c] find_SomeD [of _ UNITS "(u, c)"] show ?thesis
      by (intro utf8_valid_ascii) (fastforce simp: chosen_unit_def)
  qed
qed

text \<open>Above the largest duration the header can carry.\<close>

lemma format_saturated:
  assumes "duration_wf d" and "MAX_VALUE * (3600 * 10 ^ 9) < as_nanos d"
  shows "\<exists>d'. parse_grpc_timeout (format_grpc_timeout d) = Some d' \<and>
    as_nanos d' = MAX_VALUE * (3600 * 10 ^ 9) \<and> as_nanos d' < as_nanos d"
proof -
  have "format_grpc_timeout d = show_nat MAX_VALUE @ [0x48]"
    using assms(2) by (simp add: format_saturates chosen_unit_None)
  with assms(2) parse_shown(1) [of "0x48" "3600 * 10 ^ 9" MAX_VALUE] parse_shown(2) [of "0x48" "3600 * 10 ^ 9" MAX_VALUE]
  show ?thesis
    by (simp add: unit_of_suffix_def)
qed

section \<open>Durations that travel exactly\<close>

definition representable :: "duration \<Rightarrow> bool" where
  "representable d \<longleftrightarrow> duration_wf d \<and>
     (case chosen_unit d of Some (u, c) \<Rightarrow> u dvd as_nanos d | None \<Rightarrow> False)"

interpretation timeout_token: wire_token format_grpc_timeout parse_grpc_timeout representable
proof
  fix d assume r: "representable d"
  then obtain u c where uc: "chosen_unit d = Some (u, c)" and dvd: "u dvd as_nanos d" and wf: "duration_wf d"
    by (auto simp: representable_def split: option.splits)
  note ch = chosen_unit_SomeD [OF uc]
  with parse_shown(1) [of c u] have "parse_grpc_timeout (format_grpc_timeout d)
      = Some (duration_of (div_ceil (as_nanos d) u * u))" by simp
  with ch dvd wf show "parse_grpc_timeout (format_grpc_timeout d) = Some d"
    by (simp add: div_ceil_exact)
  show "utf8_valid (format_grpc_timeout d)" by (rule format_utf8)
qed

section \<open>Properties\<close>

text \<open>
  C38: A deadline is never made tighter on its way, up to the largest one the header can
  carry: formatting any \<open>Duration\<close> of at most 99999999 hours and parsing the result gives a
  duration that is at least as long and longer by less than the unit chosen, with at most
  eight digits; the unit is the smallest for which eight digits are enough. A longer duration
  is silently advertised as 99999999 hours, which is a tighter deadline than the one asked for
  (the module's comment promises that this never happens).
\<close>

theorem timeout_rounds_up:
  assumes "duration_wf d"
  shows "if as_nanos d \<le> MAX_VALUE * (3600 * 10 ^ 9)
    then \<exists>u c d'. (u, c) \<in> set UNITS \<and> format_grpc_timeout d = show_nat (div_ceil (as_nanos d) u) @ [c] \<and>
      parse_grpc_timeout (format_grpc_timeout d) = Some d' \<and> duration_wf d' \<and>
      as_nanos d \<le> as_nanos d' \<and> as_nanos d' < as_nanos d + u \<and>
      length (format_grpc_timeout d) \<le> 9 \<and>
      (\<forall>(w, _) \<in> set UNITS. w < u \<longrightarrow> MAX_VALUE < div_ceil (as_nanos d) w)
    else \<exists>d'. parse_grpc_timeout (format_grpc_timeout d) = Some d' \<and>
      as_nanos d' = MAX_VALUE * (3600 * 10 ^ 9) \<and> as_nanos d' < as_nanos d"
  using format_rounds_up [of d] format_saturated [OF assms] by (cases "as_nanos d \<le> MAX_VALUE * (3600 * 10 ^ 9)") simp_all

theorem timeout_rounds_up_witness:
  "\<exists>d'. parse_grpc_timeout (format_grpc_timeout \<lparr>d_secs = 1, d_nanos = 1\<rparr>) = Some d' \<and>
    as_nanos \<lparr>d_secs = 1, d_nanos = 1\<rparr> \<le> as_nanos d'"
proof -
  have "duration_wf \<lparr>d_secs = 1, d_nanos = 1\<rparr>" "as_nanos \<lparr>d_secs = 1, d_nanos = 1\<rparr> \<le> MAX_VALUE * (3600 * 10 ^ 9)"
    by (simp_all add: duration_wf_def as_nanos_def MAX_VALUE_def)
  from timeout_rounds_up [OF this(1)] this(2) show ?thesis by (simp only: if_True) blast
qed

text \<open>
  The parser's language: a non-empty run of ASCII digits whose value fits in 64 bits and
  one of the six units, with the exact product of the two as the result as long as its
  seconds fit in 64 bits; everything else is \<open>None\<close>. The number of digits is not limited to
  eight, as the module's comment says it is.
\<close>

lemma timeout_parse_exact:
  "(parse_grpc_timeout s = Some d \<longleftrightarrow>
     (\<exists>digits c u. s = digits @ [c] \<and> digits \<noteq> [] \<and> list_all is_ascii_digit digits \<and>
        unit_of_suffix c = Some u \<and> digits_value digits < 2 ^ 64 \<and>
        duration_wf d \<and> as_nanos d = digits_value digits * u)) \<and>
   parse_grpc_timeout (replicate k 0x30 @ show_nat (unat n) @ [0x53]) = Some \<lparr>d_secs = n, d_nanos = 0\<rparr>"
proof
  show "parse_grpc_timeout s = Some d \<longleftrightarrow>
     (\<exists>digits c u. s = digits @ [c] \<and> digits \<noteq> [] \<and> list_all is_ascii_digit digits \<and>
        unit_of_suffix c = Some u \<and> digits_value digits < 2 ^ 64 \<and>
        duration_wf d \<and> as_nanos d = digits_value digits * u)"
    unfolding parse_grpc_timeout_eq using as_nanos_of duration_of_wf as_nanos_bound duration_of_nanos
    by (metis (no_types, lifting))
  have zeros: "digits_value (replicate k 0x30 @ ds) = digits_value ds" for ds
    by (induction k) (simp_all add: digits_value_def digit_value_def)
  have n: "unat n < 2 ^ LENGTH(64)" by (rule unsigned_less)
  show "parse_grpc_timeout (replicate k 0x30 @ show_nat (unat n) @ [0x53]) = Some \<lparr>d_secs = n, d_nanos = 0\<rparr>"
    unfolding parse_grpc_timeout_eq
    using n show_nat_digits [of "unat n"]
    by (intro exI [where x = "replicate k 0x30 @ show_nat (unat n)"] exI [where x = "0x53"] exI [where x = "10 ^ 9"])
      (auto simp: zeros unit_of_suffix_def duration_of_def list_all_iff is_ascii_digit_def)
qed

end
