(* ===== verification/Cancellation.thy ===== *)
theory Cancellation
  imports Timeout
begin

text \<open>
  Futures, and the \<open>Cancellation\<close> of \<open>src/server/dispatch.rs\<close>, which races a request's
  future against the shutdown of the connection and its \<open>grpc-timeout\<close>.

  A future is its state and a poll function; what a poll sees of the outside is an
  observation: whether the connection is shutting down, and the monotonic clock in
  nanoseconds. The combinators of \<open>futures_lite\<close> and \<open>swansong\<close> and the runtime's timers are
  parameters with their documented behaviour (\<open>select_ok\<close>, \<open>delay_ok\<close>). A panic is \<open>None\<close>.
\<close>

section \<open>Futures\<close>

record obs =
  ob_shutdown :: bool
  ob_now :: nat

type_synonym ('s, 'a) fut = "obs \<Rightarrow> 's \<Rightarrow> 'a poll \<times> 's"

text \<open>Awaiting: the polls see one observation each; \<open>None\<close> when they have run out.\<close>

fun drive :: "('s, 'a) fut \<Rightarrow> obs list \<Rightarrow> 's \<Rightarrow> ('a \<times> 's) option" where
  "drive f [] s = None"
| "drive f (o1 # os) s = (case f o1 s of (Ready x, s') \<Rightarrow> Some (x, s') | (Pending, s') \<Rightarrow> drive f os s')"

record ('s, 'a) select_api =
  fl_or :: "('s, 'a) fut \<Rightarrow> ('s, 'a) fut \<Rightarrow> ('s, 'a) fut"
  sw_interrupt :: "('s, 'a) fut \<Rightarrow> ('s, 'a option) fut"

text \<open>
  \<open>futures_lite::future::or\<close> polls its first argument, then its second.
  \<open>Swansong::interrupt\<close> passes the future through until the shutdown; then it resolves at
  once, to \<open>None\<close> unless the future itself is ready in that poll.
\<close>

definition select_ok :: "('s, 'a) select_api \<Rightarrow> bool" where
  "select_ok S \<longleftrightarrow>
     (\<forall>f g o1 s. fl_or S f g o1 s =
        (case f o1 s of (Ready x, s') \<Rightarrow> (Ready x, s') | (Pending, s') \<Rightarrow> g o1 s')) \<and>
     (\<forall>f o1 s. \<not> ob_shutdown o1 \<longrightarrow> sw_interrupt S f o1 s =
        (case f o1 s of (Ready x, s') \<Rightarrow> (Ready (Some x), s') | (Pending, s') \<Rightarrow> (Pending, s'))) \<and>
     (\<forall>f o1 s. ob_shutdown o1 \<longrightarrow>
        sw_interrupt S f o1 s = (Ready None, s) \<or>
        sw_interrupt S f o1 s =
          (case f o1 s of (Ready x, s') \<Rightarrow> (Ready (Some x), s') | (Pending, s') \<Rightarrow> (Ready None, s')))"

text \<open>
  The runtime's timer, started at one instant for a duration, as polled at a later one: it
  does not fire early.
\<close>

type_synonym delay_fn = "nat \<Rightarrow> nat \<Rightarrow> nat \<Rightarrow> bool"

definition delay_ok :: "delay_fn \<Rightarrow> bool" where
  "delay_ok D \<longleftrightarrow> (\<forall>start remaining now. D start remaining now \<longrightarrow> start + remaining \<le> now)"

text \<open>
  \<open>Instant + Duration\<close> panics beyond the platform's last instant \<open>lim\<close>;
  \<open>Instant::checked_duration_since\<close>.
\<close>

definition instant_add :: "nat \<Rightarrow> nat \<Rightarrow> duration \<Rightarrow> nat option" where
  "instant_add lim now d = (if now + as_nanos d \<le> lim then Some (now + as_nanos d) else None)"

definition checked_duration_since :: "nat \<Rightarrow> nat \<Rightarrow> nat option" where
  "checked_duration_since later earlier = (if earlier \<le> later then Some (later - earlier) else None)"

section \<open>Cancellation\<close>

text \<open>The connection's \<open>Swansong\<close> is the observations; the deadline is its instant.\<close>

record cancellation =
  c_deadline :: "nat option"

text \<open>\<open>dbg\<close> is the \<open>Debug\<close> formatting of strings; \<open>has_runtime\<close>: shared state has a \<open>Runtime\<close>.\<close>

definition cancellation_from_conn ::
  "'h headers_api \<Rightarrow> (str \<Rightarrow> str) \<Rightarrow> nat \<Rightarrow> 'h \<Rightarrow> bool \<Rightarrow> nat \<Rightarrow> cancellation result option" where
  "cancellation_from_conn H dbg lim request_headers has_runtime now =
     (case h_get_str H request_headers (lit ''grpc-timeout'') of
        None \<Rightarrow> Some (Inr \<lparr>c_deadline = None\<rparr>)
      | Some header \<Rightarrow>
          (case parse_grpc_timeout header of
             None \<Rightarrow> Some (Inl (st_invalid_argument (lit ''malformed grpc-timeout '' @ dbg header)))
           | Some duration \<Rightarrow>
               if \<not> has_runtime then None
               else (case instant_add lim now duration of
                       None \<Rightarrow> None
                     | Some instant \<Rightarrow> Some (Inr \<lparr>c_deadline = Some instant\<rparr>))))"

definition for_upgrade :: "bool \<Rightarrow> nat option \<Rightarrow> cancellation option" where
  "for_upgrade has_runtime deadline =
     (case deadline of
        None \<Rightarrow> Some \<lparr>c_deadline = None\<rparr>
      | Some instant \<Rightarrow> if has_runtime then Some \<lparr>c_deadline = Some instant\<rparr> else None)"

text \<open>
  The suspended state of a timer: not yet polled, or waiting since \<open>start\<close> for
  \<open>remaining\<close>.
\<close>

datatype timer = Unstarted | Waiting nat nat

definition st_shutting_down :: status where
  "st_shutting_down = st_cancelled (lit ''connection shutting down'')"

definition st_elapsed :: status where
  "st_elapsed = st_deadline_exceeded (lit ''deadline elapsed'')"

text \<open>\<open>Cancellation::signal\<close>: the two branches, and the boxed future.\<close>

definition signal_shutdown :: "(timer, unit) select_api \<Rightarrow> (timer, status) fut" where
  "signal_shutdown I o1 t =
     (case sw_interrupt I (\<lambda>_ t. (Pending, t)) o1 t of
        (Pending, t') \<Rightarrow> (Pending, t') | (Ready _, t') \<Rightarrow> (Ready st_shutting_down, t'))"

fun signal_timer :: "delay_fn \<Rightarrow> nat \<Rightarrow> (timer, status) fut" where
  "signal_timer D instant o1 Unstarted =
     (case checked_duration_since instant (ob_now o1) of
        None \<Rightarrow> (Ready st_elapsed, Unstarted)
      | Some remaining \<Rightarrow>
          if D (ob_now o1) remaining (ob_now o1) then (Ready st_elapsed, Waiting (ob_now o1) remaining)
          else (Pending, Waiting (ob_now o1) remaining))"
| "signal_timer D instant o1 (Waiting start remaining) =
     (if D start remaining (ob_now o1) then (Ready st_elapsed, Waiting start remaining)
      else (Pending, Waiting start remaining))"

definition signal ::
  "delay_fn \<Rightarrow> (timer, unit) select_api \<Rightarrow> (timer, status) select_api \<Rightarrow> cancellation \<Rightarrow> (timer, status) fut" where
  "signal D I S c =
     (case c_deadline c of
        None \<Rightarrow> signal_shutdown I
      | Some instant \<Rightarrow> fl_or S (signal_shutdown I) (signal_timer D instant))"

text \<open>\<open>Cancellation::race\<close>: the state is the timer and the state of the raced future.\<close>

definition interruptible ::
  "('s, 'a result) select_api \<Rightarrow> ('s, 'a result) fut \<Rightarrow> ('s, 'a result) fut" where
  "interruptible S fut o1 s =
     (case sw_interrupt S fut o1 s of
        (Pending, s') \<Rightarrow> (Pending, s')
      | (Ready (Some result), s') \<Rightarrow> (Ready result, s')
      | (Ready None, s') \<Rightarrow> (Ready (Inl st_shutting_down), s'))"

definition race_timer :: "delay_fn \<Rightarrow> nat \<Rightarrow> nat \<Rightarrow> ('s, 'a result) fut" where
  "race_timer D start remaining o1 s =
     (if D start remaining (ob_now o1) then (Ready (Inl st_elapsed), s) else (Pending, s))"

definition race ::
  "delay_fn \<Rightarrow> ('s, 'a result) select_api \<Rightarrow> cancellation \<Rightarrow> ('s, 'a result) fut
   \<Rightarrow> (timer \<times> 's, 'a result) fut" where
  "race D S c fut o1 ts =
     (case ts of (t, s) \<Rightarrow>
       (case c_deadline c of
          None \<Rightarrow> map_prod id (Pair t) (interruptible S fut o1 s)
        | Some instant \<Rightarrow>
            (case t of
               Unstarted \<Rightarrow>
                 (case checked_duration_since instant (ob_now o1) of
                    None \<Rightarrow> (Ready (Inl st_elapsed), (t, s))
                  | Some remaining \<Rightarrow>
                      map_prod id (Pair (Waiting (ob_now o1) remaining))
                        (fl_or S (interruptible S fut) (race_timer D (ob_now o1) remaining) o1 s))
             | Waiting start remaining \<Rightarrow>
                 map_prod id (Pair t)
                   (fl_or S (interruptible S fut) (race_timer D start remaining) o1 s))))"

section \<open>Lemmas\<close>

lemma select_or:
  "select_ok S \<Longrightarrow> fl_or S f g o1 s =
     (case f o1 s of (Ready x, s') \<Rightarrow> (Ready x, s') | (Pending, s') \<Rightarrow> g o1 s')"
  by (simp add: select_ok_def)

lemma interruptible_running:
  "select_ok S \<Longrightarrow> \<not> ob_shutdown o1 \<Longrightarrow> interruptible S fut o1 s = fut o1 s"
  by (auto simp: interruptible_def select_ok_def split: prod.splits poll.splits)

lemma interruptible_shutdown:
  "select_ok S \<Longrightarrow> ob_shutdown o1 \<Longrightarrow>
   interruptible S fut o1 s = (Ready (Inl st_shutting_down), s) \<or>
   interruptible S fut o1 s =
     (case fut o1 s of (Ready x, s') \<Rightarrow> (Ready x, s') | (Pending, s') \<Rightarrow> (Ready (Inl st_shutting_down), s'))"
proof -
  assume "select_ok S" and "ob_shutdown o1"
  then have "sw_interrupt S fut o1 s = (Ready None, s) \<or>
      sw_interrupt S fut o1 s =
        (case fut o1 s of (Ready x, s') \<Rightarrow> (Ready (Some x), s') | (Pending, s') \<Rightarrow> (Ready None, s'))"
    unfolding select_ok_def by blast
  then show ?thesis
  proof
    assume "sw_interrupt S fut o1 s = (Ready None, s)"
    then show ?thesis by (simp add: interruptible_def)
  next
    assume "sw_interrupt S fut o1 s =
        (case fut o1 s of (Ready x, s') \<Rightarrow> (Ready (Some x), s') | (Pending, s') \<Rightarrow> (Ready None, s'))"
    then show ?thesis by (auto simp: interruptible_def split: prod.splits poll.splits)
  qed
qed

lemma interrupt_never:
  assumes "select_ok I"
  shows "sw_interrupt I (\<lambda>_ t. (Pending, t)) o1 t = (if ob_shutdown o1 then (Ready None, t) else (Pending, t))"
proof (cases "ob_shutdown o1")
  case True
  with assms have "sw_interrupt I (\<lambda>_ t. (Pending, t)) o1 t = (Ready None, t) \<or>
      sw_interrupt I (\<lambda>_ t. (Pending, t)) o1 t =
        (case (Pending, t) of (Ready x, s') \<Rightarrow> (Ready (Some x), s') | (Pending, s') \<Rightarrow> (Ready None, s'))"
    unfolding select_ok_def by blast
  with True show ?thesis by auto
next
  case False
  with assms show ?thesis by (simp add: select_ok_def)
qed

text \<open>The timer's state agrees with the deadline.\<close>

definition timer_ok :: "cancellation \<Rightarrow> timer \<Rightarrow> bool" where
  "timer_ok c t \<longleftrightarrow>
     (case t of Unstarted \<Rightarrow> True | Waiting start remaining \<Rightarrow> c_deadline c = Some (start + remaining))"

lemma timer_ok_Unstarted [simp, wf_intros]: "timer_ok c Unstarted"
  by (simp add: timer_ok_def)

lemma race_timer_ok:
  "timer_ok c t \<Longrightarrow> race D S c fut o1 (t, s) = (p, (t', s')) \<Longrightarrow> timer_ok c t'"
  by (auto simp: race_def timer_ok_def checked_duration_since_def map_prod_def
      split: option.splits timer.splits prod.splits if_splits)

text \<open>What one poll of the race can be.\<close>

lemma race_poll:
  assumes S: "select_ok S" and D: "delay_ok D" and t: "timer_ok c t"
    and r: "race D S c fut o1 (t, s) = (p, (t', s'))"
  shows "(p \<noteq> Pending \<and> fut o1 s = (p, s')) \<or>
    (p = Ready (Inl st_shutting_down) \<and> ob_shutdown o1) \<or>
    (p = Ready (Inl st_elapsed) \<and> (\<exists>i. c_deadline c = Some i \<and> i \<le> ob_now o1)) \<or>
    (p = Pending \<and> fut o1 s = (Pending, s') \<and> \<not> ob_shutdown o1)"
proof -
  have i: "interruptible S fut o1 s = (q, s1) \<Longrightarrow>
      (q \<noteq> Pending \<and> fut o1 s = (q, s1)) \<or>
      (q = Ready (Inl st_shutting_down) \<and> ob_shutdown o1) \<or>
      (q = Pending \<and> fut o1 s = (Pending, s1) \<and> \<not> ob_shutdown o1)" for q s1
    using interruptible_running [OF S, of o1 fut s] interruptible_shutdown [OF S, of o1 fut s]
    by (cases "ob_shutdown o1") (auto split: prod.splits poll.splits)
  have w: "map_prod id (Pair u) (fl_or S (interruptible S fut) (race_timer D a b) o1 s) = (p, (t', s')) \<Longrightarrow>
      c_deadline c = Some (a + b) \<Longrightarrow> ?thesis" for u a b
    using i D by (auto simp: select_or [OF S] race_timer_def delay_ok_def split: prod.splits poll.splits if_splits)
  show ?thesis
  proof (cases "c_deadline c")
    case None
    with r have "interruptible S fut o1 s = (p, s')" by (auto simp: race_def map_prod_def split: prod.splits)
    from i [OF this] show ?thesis by auto
  next
    case (Some d)
    show ?thesis
    proof (cases t)
      case Unstarted
      show ?thesis
      proof (cases "ob_now o1 \<le> d")
        case True
        with Some r Unstarted have
          "map_prod id (Pair (Waiting (ob_now o1) (d - ob_now o1)))
            (fl_or S (interruptible S fut) (race_timer D (ob_now o1) (d - ob_now o1)) o1 s) = (p, (t', s'))"
          by (simp add: race_def checked_duration_since_def)
        from w [OF this] Some True show ?thesis by simp
      next
        case False
        with Some r Unstarted show ?thesis
          by (auto simp: race_def checked_duration_since_def)
      qed
    next
      case (Waiting a b)
      with Some r t w show ?thesis by (auto simp: race_def timer_ok_def)
    qed
  qed
qed

text \<open>The whole race, driven by a sequence of polls.\<close>

lemma drive_race_outcome:
  assumes S: "select_ok S" and D: "delay_ok D"
  shows "timer_ok c t \<Longrightarrow> drive (race D S c fut) os (t, s) = Some (x, (t', s')) \<Longrightarrow>
    drive fut os s = Some (x, s') \<or>
    (x = Inl st_shutting_down \<and> (\<exists>o1 \<in> set os. ob_shutdown o1)) \<or>
    (x = Inl st_elapsed \<and> (\<exists>o1 \<in> set os. \<exists>i. c_deadline c = Some i \<and> i \<le> ob_now o1))"
proof (induction os arbitrary: t s)
  case (Cons o1 os)
  obtain p t1 s1 where r: "race D S c fut o1 (t, s) = (p, (t1, s1))" by (metis prod_cases3)
  note one = race_poll [OF S D Cons.prems(1) r]
  show ?case
  proof (cases p)
    case Pending
    with one have f: "fut o1 s = (Pending, s1)" by auto
    from Pending r Cons.prems(2) have "drive (race D S c fut) os (t1, s1) = Some (x, (t', s'))" by simp
    from Cons.IH [OF race_timer_ok [OF Cons.prems(1) r] this] f show ?thesis by auto
  next
    case (Ready y)
    with r Cons.prems(2) have "y = x" "s1 = s'" by auto
    with one Ready show ?thesis by auto
  qed
qed simp

text \<open>Whatever decides the race, the raced future's state is as a poll of the future left it.\<close>

lemma race_state:
  assumes "select_ok S" and "race D S c fut o1 (t, s) = (p, (t', s'))"
  shows "s' = s \<or> s' = snd (fut o1 s)"
proof -
  have i: "interruptible S fut o1 s = (q, u) \<Longrightarrow> u = s \<or> u = snd (fut o1 s)" for q u
    using interruptible_running [OF assms(1), of o1 fut s] interruptible_shutdown [OF assms(1), of o1 fut s]
    by (cases "ob_shutdown o1") (auto split: prod.splits poll.splits)
  then have w: "fl_or S (interruptible S fut) (race_timer D a b) o1 s = (q, u) \<Longrightarrow> u = s \<or> u = snd (fut o1 s)" for a b q u
    by (auto simp: select_or [OF assms(1)] race_timer_def split: prod.splits poll.splits if_splits)
  show ?thesis
    using assms(2) i w
    by (auto simp: race_def map_prod_def split: option.splits timer.splits prod.splits)
qed

lemma drive_race_keeps:
  assumes "select_ok S" and "\<And>o1 s. P s \<Longrightarrow> P (snd (fut o1 s))"
  shows "P s \<Longrightarrow> drive (race D S c fut) os (t, s) = Some (x, (t', s')) \<Longrightarrow> P s'"
proof (induction os arbitrary: t s)
  case (Cons o1 os)
  obtain p t1 s1 where r: "race D S c fut o1 (t, s) = (p, (t1, s1))" by (metis prod_cases3)
  from race_state [OF assms(1) r] assms(2) Cons.prems(1) have "P s1" by blast
  with Cons r show ?case by (cases p) auto
qed simp

text \<open>While nothing interferes, the race is the future itself.\<close>

definition undisturbed :: "cancellation \<Rightarrow> obs \<Rightarrow> bool" where
  "undisturbed c o1 \<longleftrightarrow> \<not> ob_shutdown o1 \<and> (\<forall>i. c_deadline c = Some i \<longrightarrow> ob_now o1 < i)"

lemma race_undisturbed:
  assumes "select_ok S" and "delay_ok D" and "timer_ok c t" and "undisturbed c o1"
  shows "\<exists>t'. race D S c fut o1 (t, s) = map_prod id (Pair t') (fut o1 s) \<and> timer_ok c t'"
proof -
  obtain p t' s' where r: "race D S c fut o1 (t, s) = (p, (t', s'))" by (metis prod_cases3)
  from race_poll [OF assms(1-3) r] assms(4) have "fut o1 s = (p, s')"
    by (auto simp: undisturbed_def)
  with r race_timer_ok [OF assms(3) r] show ?thesis by auto
qed

lemma drive_race_undisturbed:
  assumes "select_ok S" and "delay_ok D"
  shows "timer_ok c t \<Longrightarrow> \<forall>o1 \<in> set os. undisturbed c o1 \<Longrightarrow>
    map_option (map_prod id snd) (drive (race D S c fut) os (t, s)) = drive fut os s"
proof (induction os arbitrary: t s)
  case (Cons o1 os)
  then obtain t' where t': "race D S c fut o1 (t, s) = map_prod id (Pair t') (fut o1 s)" "timer_ok c t'"
    using race_undisturbed [OF assms, of c t o1 fut s] by auto
  with Cons show ?case by (auto split: prod.splits poll.splits)
qed simp

text \<open>A poll that sees the shutdown, or its timer fired, resolves the race.\<close>

lemma race_shutdown_ready:
  assumes "select_ok S" and "delay_ok D" and "timer_ok c t" and "ob_shutdown o1"
  shows "fst (race D S c fut o1 (t, s)) \<noteq> Pending"
proof -
  obtain p t' s' where r: "race D S c fut o1 (t, s) = (p, (t', s'))" by (metis prod_cases3)
  from race_poll [OF assms(1-3) r] assms(4) r show ?thesis by auto
qed

lemma race_deadline_ready:
  assumes "select_ok S" and "timer_ok c t" and "c_deadline c = Some i"
    and fires: "\<forall>start remaining. start + remaining = i \<longrightarrow> D start remaining (ob_now o1)"
  shows "fst (race D S c fut o1 (t, s)) \<noteq> Pending"
proof -
  have w: "fst (fl_or S (interruptible S fut) (race_timer D a b) o1 s) \<noteq> Pending" if "a + b = i" for a b
    using that fires by (auto simp: select_or [OF assms(1)] race_timer_def split: prod.splits poll.splits)
  show ?thesis
    using assms(2,3) w
    by (cases t) (auto simp: race_def timer_ok_def checked_duration_since_def split: option.splits)
qed

lemma drive_race_resolves:
  assumes "select_ok S" and "delay_ok D"
    and "o1 \<in> set os"
    and "ob_shutdown o1 \<or> (\<exists>i. c_deadline c = Some i \<and>
      (\<forall>start remaining. start + remaining = i \<longrightarrow> D start remaining (ob_now o1)))"
  shows "timer_ok c t \<Longrightarrow> drive (race D S c fut) os (t, s) \<noteq> None"
  using assms(3)
proof (induction os arbitrary: t s)
  case (Cons o2 os)
  obtain p t1 s1 where r: "race D S c fut o2 (t, s) = (p, (t1, s1))" by (metis prod_cases3)
  show ?case
  proof (cases "o1 = o2")
    case True
    with r race_shutdown_ready [OF assms(1,2) Cons.prems(1), of o2 fut s]
      race_deadline_ready [OF assms(1) Cons.prems(1), of _ D o2 fut s] assms(4)
    have "p \<noteq> Pending" by fastforce
    with r show ?thesis by (cases p) auto
  next
    case False
    with Cons r race_timer_ok [OF Cons.prems(1) r] show ?thesis by (cases p) auto
  qed
qed simp

section \<open>The instance used in examples\<close>

definition simple_select :: "('s, 'a) select_api" where
  "simple_select = \<lparr>
     fl_or = (\<lambda>f g o1 s. case f o1 s of (Ready x, s') \<Rightarrow> (Ready x, s') | (Pending, s') \<Rightarrow> g o1 s'),
     sw_interrupt = (\<lambda>f o1 s. if ob_shutdown o1 then (Ready None, s)
       else (case f o1 s of (Ready x, s') \<Rightarrow> (Ready (Some x), s') | (Pending, s') \<Rightarrow> (Pending, s')))\<rparr>"

definition exact_delay :: delay_fn where
  "exact_delay start remaining now \<longleftrightarrow> start + remaining \<le> now"

lemma select_ok_simple: "select_ok simple_select"
  by (auto simp: select_ok_def simple_select_def)

lemma delay_ok_exact: "delay_ok exact_delay"
  by (simp add: delay_ok_def exact_delay_def)

text \<open>A future that is ready at its third poll.\<close>

definition third_poll :: "(nat, nat result) fut" where
  "third_poll o1 n = (if n < 2 then (Pending, Suc n) else (Ready (Inr n), n))"

section \<open>Properties\<close>

text \<open>
  C11: Racing a request against its cancellation adds only cancellation: whatever the sequence
  of polls sees, the race ends either with exactly the result (and state) that the request's
  own future has under the same polls, or with \<open>Cancelled\<close> although a poll saw the shutdown,
  or with \<open>DeadlineExceeded\<close> although the clock had reached the deadline. Neither status is
  made up early.
\<close>

theorem race_transparent:
  assumes "select_ok S" and "delay_ok D"
  shows "(\<forall>x t' s'. drive (race D S c fut) os (Unstarted, s) = Some (x, (t', s')) \<longrightarrow>
      drive fut os s = Some (x, s') \<or>
      (x = Inl st_shutting_down \<and> (\<exists>o1 \<in> set os. ob_shutdown o1)) \<or>
      (x = Inl st_elapsed \<and> (\<exists>o1 \<in> set os. \<exists>i. c_deadline c = Some i \<and> i \<le> ob_now o1))) \<and>
    ((\<forall>o1 \<in> set os. undisturbed c o1) \<longrightarrow>
      map_option (map_prod id snd) (drive (race D S c fut) os (Unstarted, s)) = drive fut os s)"
  using drive_race_outcome [OF assms timer_ok_Unstarted] drive_race_undisturbed [OF assms timer_ok_Unstarted]
  by blast

theorem race_transparent_witness:
  "map_option (map_prod id snd)
     (drive (race exact_delay simple_select \<lparr>c_deadline = Some 5\<rparr> third_poll)
       [\<lparr>ob_shutdown = False, ob_now = 1\<rparr>, \<lparr>ob_shutdown = False, ob_now = 2\<rparr>, \<lparr>ob_shutdown = False, ob_now = 4\<rparr>]
       (Unstarted, 0)) = Some (Inr (Suc (Suc 0)), Suc (Suc 0))"
  using race_transparent [OF select_ok_simple delay_ok_exact, of "\<lparr>c_deadline = Some 5\<rparr>" third_poll
    "[\<lparr>ob_shutdown = False, ob_now = 1\<rparr>, \<lparr>ob_shutdown = False, ob_now = 2\<rparr>, \<lparr>ob_shutdown = False, ob_now = 4\<rparr>]" 0]
  by (simp add: undisturbed_def third_poll_def)

text \<open>
  C16: A cancelled request is not left hanging: as soon as one poll sees the shutdown of the
  connection, or comes when the timer for the deadline has fired, the race has a result,
  even if the handler never finishes; and if the deadline has passed before the first poll,
  the handler's future is not polled at all.
\<close>

theorem race_prompt:
  assumes "select_ok S" and "delay_ok D" and "o1 \<in> set os"
  shows "(ob_shutdown o1 \<or> (\<exists>i. c_deadline c = Some i \<and>
      (\<forall>start remaining. start + remaining = i \<longrightarrow> D start remaining (ob_now o1))) \<longrightarrow>
    drive (race D S c fut) os (Unstarted, s) \<noteq> None) \<and>
   (\<forall>i. c_deadline c = Some i \<and> i < ob_now (hd os) \<longrightarrow>
    drive (race D S c fut) os (Unstarted, s) = Some (Inl st_elapsed, (Unstarted, s)))"
proof
  show "ob_shutdown o1 \<or> (\<exists>i. c_deadline c = Some i \<and>
      (\<forall>start remaining. start + remaining = i \<longrightarrow> D start remaining (ob_now o1))) \<longrightarrow>
    drive (race D S c fut) os (Unstarted, s) \<noteq> None"
    using drive_race_resolves [OF assms] by simp
  show "\<forall>i. c_deadline c = Some i \<and> i < ob_now (hd os) \<longrightarrow>
    drive (race D S c fut) os (Unstarted, s) = Some (Inl st_elapsed, (Unstarted, s))"
    using assms(3) by (cases os) (auto simp: race_def checked_duration_since_def)
qed

theorem race_prompt_witness:
  "drive (race exact_delay simple_select \<lparr>c_deadline = Some 5\<rparr> (\<lambda>_ s. (Pending :: nat result poll, s :: nat)))
     [\<lparr>ob_shutdown = False, ob_now = 1\<rparr>, \<lparr>ob_shutdown = False, ob_now = 7\<rparr>] (Unstarted, 0) \<noteq> None"
  using race_prompt [OF select_ok_simple delay_ok_exact,
      of "\<lparr>ob_shutdown = False, ob_now = 7\<rparr>"
         "[\<lparr>ob_shutdown = False, ob_now = 1\<rparr>, \<lparr>ob_shutdown = False, ob_now = 7\<rparr>]"
         "\<lparr>c_deadline = Some 5\<rparr>" "\<lambda>_ s. (Pending :: nat result poll, s)" 0]
  by (simp add: exact_delay_def)

text \<open>
  A client can crash the request task: a \<open>grpc-timeout\<close> that the parser accepts but that
  ends beyond the last instant of the platform panics in \<open>Instant::now() + duration\<close>; the
  header value \<open>18446744073709551615S\<close> does so on every platform whose instants end below
  \<open>2 ^ 64\<close> seconds after now. Without the header, with a malformed one, or with one that ends
  in time, there is no panic when the runtime is in the shared state.
\<close>

lemma timeout_overflow_panics:
  assumes "h_get_str H h (lit ''grpc-timeout'') = Some v"
  shows "(cancellation_from_conn H dbg lim h True now = None \<longleftrightarrow>
      (\<exists>d. parse_grpc_timeout v = Some d \<and> lim < now + as_nanos d)) \<and>
    (v = show_nat (2 ^ 64 - 1) @ [0x53] \<and> lim < now + (2 ^ 64 - 1) * 10 ^ 9 \<longrightarrow>
      cancellation_from_conn H dbg lim h True now = None)"
proof -
  have panic: "cancellation_from_conn H dbg lim h True now = None \<longleftrightarrow>
      (\<exists>d. parse_grpc_timeout v = Some d \<and> lim < now + as_nanos d)"
    using assms by (auto simp: cancellation_from_conn_def instant_add_def split: option.splits)
  have "parse_grpc_timeout (show_nat (2 ^ 64 - 1) @ [0x53]) = Some (duration_of ((2 ^ 64 - 1) * 10 ^ 9))"
    unfolding parse_grpc_timeout_eq
    by (intro exI [where x = "show_nat (2 ^ 64 - 1)"] exI [where x = "0x53"] exI [where x = "10 ^ 9"])
      (simp add: unit_of_suffix_def show_nat_digits)
  moreover have "as_nanos (duration_of ((2 ^ 64 - 1) * 10 ^ 9)) = (2 ^ 64 - 1) * 10 ^ 9"
    by (rule as_nanos_of) simp
  ultimately show ?thesis using panic by auto
qed

lemma timeout_overflow_panics_witness:
  "cancellation_from_conn dalist_headers id (2 ^ 63 * 10 ^ 9)
     (h_insert dalist_headers DAList.empty (lit ''grpc-timeout'') (show_nat (2 ^ 64 - 1) @ [0x53])) True 0 = None"
proof -
  have "utf8_valid (show_nat (2 ^ 64 - 1) @ [0x53])"
    by (rule utf8_valid_ascii)
       (use show_nat_printable [of "2 ^ 64 - 1"] in \<open>auto simp: word_le_nat_alt word_less_nat_alt\<close>)
  from timeout_overflow_panics [OF h_get_str_inserted [OF headers_ok_dalist this]]
  show ?thesis by simp
qed

end
