(* ===== verification/ContentType.thy ===== *)
theory ContentType
  imports Status
begin

text \<open>
  \<open>src/content_type.rs\<close>: the checks on a request's \<open>content-type\<close> and \<open>te\<close> headers. (The
  file \<open>src/server/content_type.rs\<close> holds the same functions and is not part of the crate's
  module tree.)
\<close>

section \<open>Definitions\<close>

definition parse_grpc_content_type :: "str \<Rightarrow> str option" where
  "parse_grpc_content_type value =
     (let value = trim value;
          media_type = trim (hd (split_on 0x3B value));
          prefix = lit ''application/grpc'' in
      case get_to media_type (length prefix) of
        None \<Rightarrow> None
      | Some p \<Rightarrow>
          if \<not> eq_ignore_ascii_case p prefix then None
          else (let rest = drop (length prefix) media_type in
            if rest = [] then Some (lit ''proto'')
            else if hd rest = 0x2B then Some (drop 1 rest)
            else None))"

definition has_te_trailers :: "'h headers_api \<Rightarrow> 'h \<Rightarrow> bool" where
  "has_te_trailers H headers =
     (case h_get_values H headers (lit ''te'') of
        None \<Rightarrow> False
      | Some values \<Rightarrow>
          list_ex (\<lambda>tok. eq_ignore_ascii_case (trim tok) (lit ''trailers''))
            (concat (map (split_on 0x2C) (List.map_filter (h_as_str H) values))))"

section \<open>Lemmas\<close>

definition te_token :: "str \<Rightarrow> bool" where
  "te_token v \<longleftrightarrow> (\<exists>tok \<in> set (split_on 0x2C v). eq_ignore_ascii_case (trim tok) (lit ''trailers''))"

lemma has_te_trailers_iff:
  "has_te_trailers H h \<longleftrightarrow> (\<exists>v \<in> set (header_values H h (lit ''te'')). \<exists>s. h_as_str H v = Some s \<and> te_token s)"
  by (force simp: has_te_trailers_def header_values_def list_ex_iff te_token_def List.map_filter_def
      split: option.splits)

lemma length_eq_ignore: "eq_ignore_ascii_case p q \<Longrightarrow> length p = length q"
  by (metis eq_ignore_ascii_case_def length_to_ascii_lowercase)

lemma length_grpc_prefix [simp]: "length (lit ''application/grpc'') = 16"
  by (simp add: lit_def)

lemma parse_grpc_content_type_iff:
  "parse_grpc_content_type value = Some suffix \<longleftrightarrow>
    (\<exists>prefix rest. trim (hd (split_on 0x3B (trim value))) = prefix @ rest \<and>
       eq_ignore_ascii_case prefix (lit ''application/grpc'') \<and>
       (rest = [] \<and> suffix = lit ''proto'' \<or> rest = 0x2B # suffix))"
proof -
  define m where "m = trim (hd (split_on 0x3B (trim value)))"
  have "parse_grpc_content_type value = Some suffix \<longleftrightarrow>
    16 \<le> length m \<and> is_char_boundary m 16 \<and> eq_ignore_ascii_case (take 16 m) (lit ''application/grpc'') \<and>
    (drop 16 m = [] \<and> suffix = lit ''proto'' \<or> drop 16 m = 0x2B # suffix)"
    by (cases "drop 16 m")
       (auto simp: parse_grpc_content_type_def Let_def m_def [symmetric] get_to_def)
  also have "\<dots> \<longleftrightarrow> (\<exists>prefix rest. m = prefix @ rest \<and>
       eq_ignore_ascii_case prefix (lit ''application/grpc'') \<and>
       (rest = [] \<and> suffix = lit ''proto'' \<or> rest = 0x2B # suffix))" (is "?l \<longleftrightarrow> ?r")
  proof
    assume ?l
    then show ?r by (metis append_take_drop_id)
  next
    assume ?r
    then obtain prefix rest where m: "m = prefix @ rest" and e: "eq_ignore_ascii_case prefix (lit ''application/grpc'')"
      and r: "rest = [] \<and> suffix = lit ''proto'' \<or> rest = 0x2B # suffix" by blast
    from length_eq_ignore [OF e] have "length prefix = 16" by simp
    with m e r show ?l
      by (auto simp: is_char_boundary_def safe_get_nth nth_append is_continuation_def)
  qed
  finally show ?thesis by (simp add: m_def)
qed

text \<open>The content type that both sides of the crate write is read back by both.\<close>

definition plain_suffix :: "str \<Rightarrow> bool" where
  "plain_suffix s \<longleftrightarrow> (\<forall>b \<in> set s. 0x20 < b \<and> b \<le> 0x7E \<and> b \<noteq> 0x3B)"

lemma parse_written_content_type:
  assumes "plain_suffix suffix"
  shows "parse_grpc_content_type (lit ''application/grpc+'' @ suffix) = Some suffix"
    and "parse_grpc_content_type (lit ''application/grpc'') = Some (lit ''proto'')"
proof -
  have all: "\<forall>b \<in> set (lit ''application/grpc+'' @ s). 0x20 < b \<and> b \<le> 0x7E \<and> b \<noteq> 0x3B" if "plain_suffix s" for s
    using that by (auto simp: plain_suffix_def lit_def)
  have trim: "trim (hd (split_on 0x3B (trim v))) = v" if "\<forall>b \<in> set v. 0x20 < b \<and> b \<le> 0x7E \<and> b \<noteq> 0x3B" for v
  proof -
    from that have "trim v = v" by (intro trim_id) auto
    with that show ?thesis by (subst split_on_no_sep) auto
  qed
  have "lit ''application/grpc+'' @ suffix = lit ''application/grpc'' @ 0x2B # suffix" by (simp add: lit_def)
  with trim [OF all [OF assms]] show "parse_grpc_content_type (lit ''application/grpc+'' @ suffix) = Some suffix"
    unfolding parse_grpc_content_type_iff
    by (intro exI [of _ "lit ''application/grpc''"] exI [of _ "0x2B # suffix"]) simp
  have "trim (hd (split_on 0x3B (trim (lit ''application/grpc'')))) = lit ''application/grpc''"
    by (rule trim) (simp add: lit_def)
  then show "parse_grpc_content_type (lit ''application/grpc'') = Some (lit ''proto'')"
    unfolding parse_grpc_content_type_iff
    by (intro exI [of _ "lit ''application/grpc''"] exI [of _ "[]"]) simp
qed

lemma te_trailers_written: "headers_ok H \<Longrightarrow> h_get_values H h (lit ''te'') = Some [lit ''trailers''] \<Longrightarrow> has_te_trailers H h"
proof -
  assume H: "headers_ok H" and v: "h_get_values H h (lit ''te'') = Some [lit ''trailers'']"
  have "trim (lit ''trailers'') = lit ''trailers''" by (rule trim_id) (simp add: lit_def)
  moreover have "split_on 0x2C (lit ''trailers'') = [lit ''trailers'']" by (rule split_on_no_sep) (simp add: lit_def)
  ultimately have "te_token (lit ''trailers'')" by (simp add: te_token_def)
  moreover have "utf8_valid (lit ''trailers'')" by (simp add: utf8_valid_ascii lit_def)
  ultimately show ?thesis using H v by (simp add: has_te_trailers_iff header_values_def)
qed

section \<open>Properties\<close>

text \<open>
  The content types that are taken for gRPC: after trimming and cutting at the first
  semicolon, the text \<open>application/grpc\<close> in any case, alone (then the codec is \<open>proto\<close>) or
  followed by a plus sign and the codec's name; nothing else, whatever bytes the header
  holds, and never a panic on a character boundary.
\<close>

lemma content_type_language:
  "parse_grpc_content_type value = Some suffix \<longleftrightarrow>
    (\<exists>prefix rest. trim (hd (split_on 0x3B (trim value))) = prefix @ rest \<and>
       eq_ignore_ascii_case prefix (lit ''application/grpc'') \<and>
       (rest = [] \<and> suffix = lit ''proto'' \<or> rest = 0x2B # suffix))"
  by (rule parse_grpc_content_type_iff)

text \<open>
  The \<open>te\<close> check looks at every value of the header and at every comma-separated token:
  adding a value to a header map makes the check succeed exactly if it succeeded before or
  the new value is text with the token \<open>trailers\<close> in any case; other headers do not matter.
\<close>

lemma te_any_value:
  assumes "headers_ok H"
  shows "has_te_trailers H (h_append H h k v) \<longleftrightarrow>
    has_te_trailers H h \<or> (eq_ignore_ascii_case k (lit ''te'') \<and> utf8_valid v \<and> te_token v)"
proof -
  have "(\<exists>s. h_as_str H v = Some s \<and> te_token s) \<longleftrightarrow> utf8_valid v \<and> te_token v"
    using assms h_as_str_SomeD [OF assms, of v] by auto
  then show ?thesis
    by (auto simp: has_te_trailers_iff header_values_append [OF assms])
qed

lemma te_any_value_witness:
  "has_te_trailers dalist_headers (h_append dalist_headers DAList.empty (lit ''te'') (lit ''gzip,trailers''))"
proof -
  have "trim (lit ''trailers'') = lit ''trailers''" by (rule trim_id) (simp add: lit_def)
  then have "te_token (lit ''gzip,trailers'')"
    by (simp add: te_token_def) (simp add: lit_def)
  then show ?thesis
    using te_any_value [OF headers_ok_dalist, of DAList.empty "lit ''te''" "lit ''gzip,trailers''"]
    by (simp add: utf8_valid_ascii lit_def)
qed

end
