(* ===== verification/ServerConn.thy ===== *)
theory ServerConn
  imports ServerBody Cancellation ContentType
begin

text \<open>
  The server's view of one call: the request stream of \<open>src/server/streaming.rs\<close>, the control
  surface \<open>GrpcServerConn\<close> of \<open>src/server/grpc_conn.rs\<close>, and, of \<open>src/server/dispatch.rs\<close>, the
  preflight, the negotiation of encodings, the reading of exactly one request and the
  responses.

  \<open>trillium::Conn\<close> is not part of the repository. The model keeps of it what the crate reads
  (the request's headers and body, whether a runtime is in the shared state) and the list of
  the builder calls that the crate makes on it, in order.
\<close>

section \<open>The environment\<close>

text \<open>
  The libraries and the build that the server's functions depend on: the header map, base64,
  the features, the codec libraries, the \<open>Debug\<close> formatting of strings and the last instant
  of the platform's clock.
\<close>

record 'h env =
  e_headers :: "'h headers_api"
  e_base64 :: base64_api
  e_features :: features
  e_codecs :: codecs
  e_debug :: "str \<Rightarrow> str"
  e_last_instant :: nat

definition env_ok :: "'h env \<Rightarrow> bool" where
  "env_ok E \<longleftrightarrow> headers_ok (e_headers E) \<and> base64_ok (e_base64 E) \<and> codecs_ok (e_codecs E)"

section \<open>Conn\<close>

datatype ('s, 'a, 'h) response_body =
    OneShot "'h one_shot"
  | Streaming "('s, 'a, 'h, cancellation \<times> timer) stream_body"

datatype ('h, 'b, 'u) conn_op =
    WithStatus nat
  | WithResponseHeader str str
  | ResponseHeadersMut "'h \<Rightarrow> 'h"
  | WithBody 'b
  | WithState 'u
  | Upgrade
  | Halt

record ('h, 'r, 'b, 'u) conn =
  cn_request_headers :: 'h
  cn_request_body :: 'r
  cn_has_runtime :: bool
  cn_ops :: "('h, 'b, 'u) conn_op list"

definition conn_do :: "('h, 'b, 'u) conn_op \<Rightarrow> ('h, 'r, 'b, 'u) conn \<Rightarrow> ('h, 'r, 'b, 'u) conn" where
  "conn_do op1 conn = conn\<lparr>cn_ops := cn_ops conn @ [op1]\<rparr>"

section \<open>RequestStream\<close>

record ('a, 'r) request_stream =
  rs_reader :: 'r
  rs_state :: read_state
  rs_decode :: "bytes \<Rightarrow> 'a result"
  rs_encoding :: encoding
  rs_max_message_size :: nat

definition request_stream_new :: "'r \<Rightarrow> (bytes \<Rightarrow> 'a result) \<Rightarrow> encoding \<Rightarrow> ('a, 'r) request_stream" where
  "request_stream_new reader decode enc =
     \<lparr>rs_reader = reader, rs_state = read_state_new, rs_decode = decode, rs_encoding = enc,
      rs_max_message_size = DEFAULT_MAX_MESSAGE_SIZE\<rparr>"

definition poll_message ::
  "codecs \<Rightarrow> 'r poll_read_fn \<Rightarrow> ('a, 'r) request_stream \<Rightarrow> ('a result) option poll \<times> ('a, 'r) request_stream" where
  "poll_message C poll_read s =
     (case poll_read_message C poll_read (rs_decode s) (rs_encoding s) (rs_max_message_size s)
             (rs_state s) (rs_reader s) of
        (p, st, reader) \<Rightarrow> (p, s\<lparr>rs_state := st, rs_reader := reader\<rparr>))"

text \<open>One poll of the future of \<open>RequestStream::recv\<close>.\<close>

definition request_recv ::
  "codecs \<Rightarrow> 'r poll_read_fn \<Rightarrow> ('a, 'r) request_stream \<Rightarrow> (status + 'a option) poll \<times> ('a, 'r) request_stream" where
  "request_recv C poll_read s =
     (case poll_message C poll_read s of
        (Ready (Some (Inr t)), s') \<Rightarrow> (Ready (Inr (Some t)), s')
      | (Ready (Some (Inl e)), s') \<Rightarrow> (Ready (Inl e), s')
      | (Ready None, s') \<Rightarrow> (Ready (Inr None), s')
      | (Pending, s') \<Rightarrow> (Pending, s'))"

section \<open>GrpcServerConn\<close>

record ('h, 'r, 'b, 'u) grpc_conn =
  gc_conn :: "('h, 'r, 'b, 'u) conn"
  gc_response_trailers :: 'h
  gc_request_encoding :: encoding
  gc_deadline :: "nat option"

text \<open>The clock is read again; the addition can panic here too.\<close>

definition grpc_server_conn_new ::
  "'h env \<Rightarrow> ('h, 'r, 'b, 'u) conn \<Rightarrow> encoding \<Rightarrow> nat \<Rightarrow> ('h, 'r, 'b, 'u) grpc_conn option" where
  "grpc_server_conn_new E conn request_encoding now =
     (let mk = (\<lambda>deadline. \<lparr>gc_conn = conn, gc_response_trailers = h_new (e_headers E),
            gc_request_encoding = request_encoding, gc_deadline = deadline\<rparr>) in
      case Option.bind (h_get_str (e_headers E) (cn_request_headers conn) (lit ''grpc-timeout''))
             parse_grpc_timeout of
        None \<Rightarrow> Some (mk None)
      | Some d \<Rightarrow> map_option (\<lambda>i. mk (Some i)) (instant_add (e_last_instant E) now d))"

definition received_headers :: "('h, 'r, 'b, 'u) grpc_conn \<Rightarrow> 'h" where
  "received_headers g = cn_request_headers (gc_conn g)"

definition response_headers_mut :: "('h \<Rightarrow> 'h) \<Rightarrow> ('h, 'r, 'b, 'u) grpc_conn \<Rightarrow> ('h, 'r, 'b, 'u) grpc_conn" where
  "response_headers_mut f g = g\<lparr>gc_conn := conn_do (ResponseHeadersMut f) (gc_conn g)\<rparr>"

definition response_trailers_mut :: "('h \<Rightarrow> 'h) \<Rightarrow> ('h, 'r, 'b, 'u) grpc_conn \<Rightarrow> ('h, 'r, 'b, 'u) grpc_conn" where
  "response_trailers_mut f g = g\<lparr>gc_response_trailers := f (gc_response_trailers g)\<rparr>"

text \<open>
  \<open>requests\<close> borrows the connection's body as the reader of the stream: \<open>give_back\<close> is the end
  of the borrow.
\<close>

definition requests :: "'q codec \<Rightarrow> ('h, 'r, 'b, 'u) grpc_conn \<Rightarrow> ('q, 'r) request_stream" where
  "requests K g = request_stream_new (cn_request_body (gc_conn g)) (decode_msg K) (gc_request_encoding g)"

definition give_back :: "('q, 'r) request_stream \<Rightarrow> ('h, 'r, 'b, 'u) grpc_conn \<Rightarrow> ('h, 'r, 'b, 'u) grpc_conn" where
  "give_back s g = g\<lparr>gc_conn := (gc_conn g)\<lparr>cn_request_body := rs_reader s\<rparr>\<rparr>"

definition into_parts :: "('h, 'r, 'b, 'u) grpc_conn \<Rightarrow> ('h, 'r, 'b, 'u) conn \<times> 'h" where
  "into_parts g = (gc_conn g, gc_response_trailers g)"

section \<open>Reading exactly one request\<close>

text \<open>The suspended states of \<open>read_one\<close>: in the first \<open>recv\<close>, or in the second.\<close>

datatype ('q, 'r) read_one_state = RFirst "('q, 'r) request_stream" | RSecond 'q "('q, 'r) request_stream"

definition st_no_request :: status where
  "st_no_request = st_unimplemented
     (lit ''expected exactly one request message, but the request stream was empty'')"

definition st_more_requests :: status where
  "st_more_requests = st_unimplemented
     (lit ''expected exactly one request message, but the request stream had more than one'')"

function read_one ::
  "codecs \<Rightarrow> 'r poll_read_fn \<Rightarrow> ('q, 'r) read_one_state \<Rightarrow> 'q result poll \<times> ('q, 'r) read_one_state" where
  "read_one C poll_read (RFirst s) =
     (case request_recv C poll_read s of
        (Pending, s') \<Rightarrow> (Pending, RFirst s')
      | (Ready (Inl e), s') \<Rightarrow> (Ready (Inl e), RFirst s')
      | (Ready (Inr None), s') \<Rightarrow> (Ready (Inl st_no_request), RFirst s')
      | (Ready (Inr (Some req)), s') \<Rightarrow> read_one C poll_read (RSecond req s'))"
| "read_one C poll_read (RSecond req s) =
     (case request_recv C poll_read s of
        (Pending, s') \<Rightarrow> (Pending, RSecond req s')
      | (Ready (Inl e), s') \<Rightarrow> (Ready (Inl e), RSecond req s')
      | (Ready (Inr (Some _)), s') \<Rightarrow> (Ready (Inl st_more_requests), RSecond req s')
      | (Ready (Inr None), s') \<Rightarrow> (Ready (Inr req), RSecond req s'))"
  by pat_completeness auto
termination
  by (relation "measure (\<lambda>(_, _, s). case s of RFirst _ \<Rightarrow> 1 | RSecond _ _ \<Rightarrow> 0)") auto

fun read_one_stream :: "('q, 'r) read_one_state \<Rightarrow> ('q, 'r) request_stream" where
  "read_one_stream (RFirst s) = s"
| "read_one_stream (RSecond req s) = s"

section \<open>Encodings\<close>

definition extract_request_encoding :: "'h env \<Rightarrow> 'h \<Rightarrow> encoding result" where
  "extract_request_encoding E request_headers =
     (case h_get_str (e_headers E) request_headers (lit ''grpc-encoding'') of
        None \<Rightarrow> Inr Identity
      | Some s \<Rightarrow>
          (case from_grpc_encoding (e_features E) s of
             Some e \<Rightarrow> Inr e
           | None \<Rightarrow> Inl (st_unimplemented
               (lit ''unsupported grpc-encoding '' @ e_debug E s @ lit ''; accepted: ''
                  @ accepted_encodings (e_features E)))))"

definition negotiate_response_encoding :: "'h env \<Rightarrow> 'h \<Rightarrow> encoding" where
  "negotiate_response_encoding E request_headers =
     (case h_get_str (e_headers E) request_headers (lit ''grpc-accept-encoding'') of
        None \<Rightarrow> Identity
      | Some accepted \<Rightarrow>
          (let accepted = map trim (split_on 0x2C accepted) in
           case find (\<lambda>e. as_grpc_encoding e \<in> set accepted)
                  (filter (\<lambda>e. e \<noteq> Identity) (all_encodings (e_features E))) of
             Some e \<Rightarrow> e | None \<Rightarrow> Identity))"

section \<open>Preflight\<close>

text \<open>\<open>Err(conn)\<close> is \<open>Inl\<close>.\<close>

definition prepare_grpc_conn ::
  "'h env \<Rightarrow> ('h, 'r, 'b, 'u) conn \<Rightarrow> str \<Rightarrow> ('h, 'r, 'b, 'u) conn + ('h, 'r, 'b, 'u) conn" where
  "prepare_grpc_conn E conn codec_suffix =
     (let codec_matches =
            (case Option.bind (h_get_str (e_headers E) (cn_request_headers conn) (lit ''content-type''))
                    parse_grpc_content_type of
               Some suffix \<Rightarrow> suffix = codec_suffix | None \<Rightarrow> False) in
      if \<not> codec_matches then Inl (conn_do Halt (conn_do (WithStatus 415) conn))
      else if \<not> has_te_trailers (e_headers E) (cn_request_headers conn) then
        Inl (conn_do Halt (conn_do (WithStatus 400) conn))
      else
        (let content_type = lit ''application/grpc+'' @ codec_suffix;
             response_encoding = negotiate_response_encoding E (cn_request_headers conn);
             conn = conn_do (WithStatus 200)
               (conn_do (WithResponseHeader (lit ''grpc-accept-encoding'') (accepted_encodings (e_features E)))
                 (conn_do (WithResponseHeader (lit ''content-type'') content_type) conn)) in
         Inr (if response_encoding = Identity then conn
              else conn_do (WithResponseHeader (lit ''grpc-encoding'') (as_grpc_encoding response_encoding)) conn)))"

section \<open>Responses\<close>

definition respond :: "('h, 'r, 'b, 'u) conn \<Rightarrow> 'b \<Rightarrow> ('h, 'r, 'b, 'u) conn" where
  "respond conn body = conn_do Halt (conn_do (WithBody body) conn)"

definition error_response_with_trailers ::
  "'h env \<Rightarrow> ('h, 'r, ('s, 'a, 'h) response_body, 'u) conn \<Rightarrow> status \<Rightarrow> 'h
   \<Rightarrow> ('h, 'r, ('s, 'a, 'h) response_body, 'u) conn" where
  "error_response_with_trailers E conn status trailers =
     respond conn (OneShot (one_shot_new [] (status_write_into (e_headers E) (e_base64 E) status trailers)))"

definition error_response ::
  "'h env \<Rightarrow> ('h, 'r, ('s, 'a, 'h) response_body, 'u) conn \<Rightarrow> status
   \<Rightarrow> ('h, 'r, ('s, 'a, 'h) response_body, 'u) conn" where
  "error_response E conn status = error_response_with_trailers E conn status (h_new (e_headers E))"

definition finish_unary ::
  "'h env \<Rightarrow> 'p codec \<Rightarrow> ('h, 'r, ('s, 'a, 'h) response_body, 'u) conn \<Rightarrow> 'p result \<Rightarrow> encoding \<Rightarrow> 'h
   \<Rightarrow> ('h, 'r, ('s, 'a, 'h) response_body, 'u) conn" where
  "finish_unary E K conn res response_encoding trailers =
     (case res of
        Inr resp \<Rightarrow>
          (case encode_frame (e_codecs E) K resp response_encoding of
             Inr frame \<Rightarrow>
               respond conn (OneShot (one_shot_new frame
                 (status_write_into (e_headers E) (e_base64 E) status_ok trailers)))
           | Inl status \<Rightarrow> error_response_with_trailers E conn status trailers)
      | Inl status \<Rightarrow> error_response_with_trailers E conn status trailers)"

section \<open>Lemmas\<close>

text \<open>A request stream is a message stream in other clothes.\<close>

definition ms_of :: "('a, 'r) request_stream \<Rightarrow> ('a, 'r) message_stream" where
  "ms_of s = \<lparr>ms_reader = rs_reader s, ms_state = rs_state s, ms_max_message_size = rs_max_message_size s,
              ms_encoding = rs_encoding s, ms_decode = rs_decode s\<rparr>"

lemma poll_next_ms_of: "poll_next C poll_read (ms_of s) = map_prod id ms_of (poll_message C poll_read s)"
  by (simp add: poll_next_def poll_message_def ms_of_def split: prod.split)

context live_source begin

lemma request_recv_step:
  assumes "message_sound good (ms_of s)" and r: "request_recv C poll_read s = (p, s')"
  shows "message_sound good (ms_of s') \<and>
    (case p of
       Pending \<Rightarrow> message_todo C content (ms_of s') = message_todo C content (ms_of s) \<and>
         delay (rs_reader s') < delay (rs_reader s)
     | Ready (Inl e) \<Rightarrow> message_todo C content (ms_of s) = Inl e # message_todo C content (ms_of s')
     | Ready (Inr None) \<Rightarrow> message_todo C content (ms_of s) = []
     | Ready (Inr (Some q)) \<Rightarrow> message_todo C content (ms_of s) = Inr q # message_todo C content (ms_of s') \<and>
         delay (rs_reader s') \<le> delay (rs_reader s))"
proof -
  obtain q s1 where q: "poll_message C poll_read s = (q, s1)" by (cases "poll_message C poll_read s")
  then have n: "poll_next C poll_read (ms_of s) = (q, ms_of s1)" by (simp add: poll_next_ms_of)
  have d: "ms_reader (ms_of t) = rs_reader t" for t :: "('a, 'r) request_stream" by (simp add: ms_of_def)
  have keep: "message_sound good (ms_of s1)" by (rule messages.item_keep [OF assms(1) n])
  consider "q = Pending" | "q = Ready None" | e where "q = Ready (Some (Inl e))"
    | v where "q = Ready (Some (Inr v))"
    by (metis option.exhaust poll.exhaust sum.exhaust)
  then show ?thesis
  proof cases
    case 1
    with r q have "p = Pending" "s' = s1" by (simp_all add: request_recv_def)
    with keep messages.item_pending [OF assms(1) n [unfolded 1]] show ?thesis by (simp add: d)
  next
    case 2
    with r q have "p = Ready (Inr None)" "s' = s1" by (simp_all add: request_recv_def)
    with keep messages.item_end [OF assms(1) n [unfolded 2]] show ?thesis by simp
  next
    case (3 e)
    with r q have "p = Ready (Inl e)" "s' = s1" by (simp_all add: request_recv_def)
    with keep messages.item_next [OF assms(1) n [unfolded 3]] show ?thesis by simp
  next
    case (4 v)
    with r q have "p = Ready (Inr (Some v))" "s' = s1" by (simp_all add: request_recv_def)
    with keep messages.item_next [OF assms(1) n [unfolded 4]] show ?thesis by (simp add: d)
  qed
qed

end

text \<open>What the request's items mean for a method that takes exactly one request.\<close>

fun one_request :: "('q result) list \<Rightarrow> 'q result" where
  "one_request [] = Inl st_no_request"
| "one_request (Inl e # rest) = Inl e"
| "one_request [Inr q] = Inr q"
| "one_request (Inr q # Inl e # rest) = Inl e"
| "one_request (Inr q # Inr q' # rest) = Inl st_more_requests"

context live_source begin

lemma read_second:
  assumes "message_sound good (ms_of s)" and "delay (rs_reader s) < length os"
  shows "map_option fst (drive (\<lambda>_. read_one C poll_read) os (RSecond q s)) =
    Some (one_request (Inr q # message_todo C content (ms_of s)))"
  using assms
proof (induction os arbitrary: s)
  case (Cons o1 os)
  obtain p s1 where r: "request_recv C poll_read s = (p, s1)" by (cases "request_recv C poll_read s")
  note step = request_recv_step [OF Cons.prems(1) r]
  consider "p = Pending" | "p = Ready (Inr None)" | e where "p = Ready (Inl e)"
    | v where "p = Ready (Inr (Some v))"
    by (metis option.exhaust poll.exhaust sum.exhaust)
  then show ?case
    using step r Cons.prems Cons.IH [of s1] by cases auto
qed simp

lemma read_first:
  assumes "message_sound good (ms_of s)" and "delay (rs_reader s) < length os"
  shows "map_option fst (drive (\<lambda>_. read_one C poll_read) os (RFirst s)) =
    Some (one_request (message_todo C content (ms_of s)))"
  using assms
proof (induction os arbitrary: s)
  case (Cons o1 os)
  obtain p s1 where r: "request_recv C poll_read s = (p, s1)" by (cases "request_recv C poll_read s")
  note step = request_recv_step [OF Cons.prems(1) r]
  consider "p = Pending" | "p = Ready (Inr None)" | e where "p = Ready (Inl e)"
    | v where "p = Ready (Inr (Some v))"
    by (metis option.exhaust poll.exhaust sum.exhaust)
  then show ?case
  proof cases
    case (4 v)
    then have "drive (\<lambda>_. read_one C poll_read) (o1 # os) (RFirst s) =
        drive (\<lambda>_. read_one C poll_read) (o1 # os) (RSecond v s1)" using r by simp
    moreover have "map_option fst (drive (\<lambda>_. read_one C poll_read) (o1 # os) (RSecond v s1)) =
        Some (one_request (Inr v # message_todo C content (ms_of s1)))"
      using 4 step Cons.prems(2) by (intro read_second) auto
    ultimately show ?thesis using 4 step by simp
  qed (use step r Cons.prems Cons.IH [of s1] in auto)
qed simp

end

lemma negotiate_find:
  "negotiate_response_encoding E h = e \<Longrightarrow> e \<noteq> Identity \<Longrightarrow>
   enabled (e_features E) e \<and> (\<exists>v. h_get_str (e_headers E) h (lit ''grpc-accept-encoding'') = Some v \<and>
     as_grpc_encoding e \<in> trim ` set (split_on 0x2C v))"
  using set_all_encodings [of "e_features E"]
  by (auto simp: negotiate_response_encoding_def Let_def split: option.splits dest!: find_SomeD)

section \<open>Properties\<close>

text \<open>
  A unary or server-streaming method runs on exactly one request: over any request body
  that delivers its bytes, reading ends within one poll more than the body has pending polls,
  with the request when the body holds exactly one message, with \<open>Unimplemented\<close> when it holds
  none or a second one, and otherwise with the error of the first message that has one.
\<close>

lemma exactly_one_request:
  assumes "live_source poll_read content good delay" and "good r" and "delay r < length os"
  shows "map_option fst (drive (\<lambda>_. read_one C poll_read) os (RFirst (request_stream_new r decode enc))) =
    Some (one_request (items C decode enc DEFAULT_MAX_MESSAGE_SIZE (content r)))"
  using live_source.read_first [OF assms(1), of "request_stream_new r decode enc" os C] assms(2,3)
  by (simp add: message_sound_def message_todo_def ms_of_def request_stream_new_def items_of_stream)

lemma exactly_one_request_witness:
  "map_option fst (drive (\<lambda>_. read_one prefix_codecs chunk_read)
     [\<lparr>ob_shutdown = False, ob_now = 0\<rparr>, \<lparr>ob_shutdown = False, ob_now = 1\<rparr>]
     (RFirst (request_stream_new [Some [0, 0, 0], None, Some [0, 0, 0, 0, 0, 0, 0]] (decode_msg raw_codec) Identity)))
   = Some (Inl st_more_requests)"
proof -
  have i: "items prefix_codecs (decode_msg raw_codec) Identity DEFAULT_MAX_MESSAGE_SIZE (0 # 0 # 0 # 0 # 0 # bs) =
      Inr [] # items prefix_codecs (decode_msg raw_codec) Identity DEFAULT_MAX_MESSAGE_SIZE bs" for bs
    using items_frame [of "[]" DEFAULT_MAX_MESSAGE_SIZE prefix_codecs "decode_msg raw_codec" Identity 0 bs]
    by (simp add: u32_to_be_bytes_def finish_message_def raw_codec_def)
  show ?thesis
    by (subst exactly_one_request [OF chunks.live_source_axioms]) (simp_all add: i)
qed

text \<open>
  The response is compressed only as the client said it can read: the negotiated codec is
  the identity, or one of the build whose token is among the trimmed, comma-separated tokens
  of the client's \<open>grpc-accept-encoding\<close>; and the first such codec in build order is taken.
\<close>

lemma negotiated_encoding:
  "(let e = negotiate_response_encoding E h;
        accepts = (\<lambda>d. \<exists>v. h_get_str (e_headers E) h (lit ''grpc-accept-encoding'') = Some v \<and>
          as_grpc_encoding d \<in> trim ` set (split_on 0x2C v)) in
    enabled (e_features E) e \<and> (e \<noteq> Identity \<longrightarrow> accepts e) \<and>
    (e = Identity \<longrightarrow> (\<forall>d. enabled (e_features E) d \<and> d \<noteq> Identity \<longrightarrow> \<not> accepts d)) \<and>
    (e = Deflate \<longrightarrow> f_gzip (e_features E) \<longrightarrow> \<not> accepts Gzip))"
proof -
  let ?e = "negotiate_response_encoding E h"
  let ?accepts = "\<lambda>d. \<exists>v. h_get_str (e_headers E) h (lit ''grpc-accept-encoding'') = Some v \<and>
          as_grpc_encoding d \<in> trim ` set (split_on 0x2C v)"
  have a: "enabled (e_features E) ?e \<and> (?e \<noteq> Identity \<longrightarrow> ?accepts ?e)"
    using negotiate_find [OF refl, of E h] by (cases "?e = Identity") auto
  have b: "?e = Identity \<longrightarrow> (\<forall>d. enabled (e_features E) d \<and> d \<noteq> Identity \<longrightarrow> \<not> ?accepts d)"
    using set_all_encodings [of "e_features E"]
    by (auto simp: negotiate_response_encoding_def Let_def find_None_iff split: option.splits dest!: find_SomeD)
  have c: "?e = Deflate \<longrightarrow> f_gzip (e_features E) \<longrightarrow> \<not> ?accepts Gzip"
    by (auto simp: negotiate_response_encoding_def Let_def all_encodings_def split: option.splits if_splits)
  from a b c show ?thesis by (simp add: Let_def)
qed

lemma negotiated_encoding_witness:
  "enabled \<lparr>f_gzip = True, f_deflate = True, f_zstd = True\<rparr> (negotiate_response_encoding
     \<lparr>e_headers = dalist_headers, e_base64 = \<lparr>b64_encode = id, b64_decode = Some\<rparr>,
      e_features = \<lparr>f_gzip = True, f_deflate = True, f_zstd = True\<rparr>, e_codecs = prefix_codecs,
      e_debug = id, e_last_instant = 0\<rparr> DAList.empty)"
  using negotiated_encoding [of "\<lparr>e_headers = dalist_headers, e_base64 = \<lparr>b64_encode = id, b64_decode = Some\<rparr>,
      e_features = \<lparr>f_gzip = True, f_deflate = True, f_zstd = True\<rparr>, e_codecs = prefix_codecs,
      e_debug = id, e_last_instant = 0\<rparr>" DAList.empty]
  by (simp add: Let_def)

text \<open>
  The preflight answers before any gRPC code runs: 415 when the content type does not name
  the service's codec, else 400 when \<open>te: trailers\<close> is missing, both without a body and
  halted; otherwise the call goes on with status 200, the content type of the codec, the list
  of accepted encodings, and the \<open>grpc-encoding\<close> header exactly when the responses will be
  compressed, with the token of the codec they will be compressed with.
\<close>

lemma preflight:
  "prepare_grpc_conn E conn suffix =
    (if Option.bind (h_get_str (e_headers E) (cn_request_headers conn) (lit ''content-type''))
          parse_grpc_content_type \<noteq> Some suffix
     then Inl (conn\<lparr>cn_ops := cn_ops conn @ [WithStatus 415, Halt]\<rparr>)
     else if \<not> has_te_trailers (e_headers E) (cn_request_headers conn)
     then Inl (conn\<lparr>cn_ops := cn_ops conn @ [WithStatus 400, Halt]\<rparr>)
     else Inr (conn\<lparr>cn_ops := cn_ops conn @
       [WithResponseHeader (lit ''content-type'') (lit ''application/grpc+'' @ suffix),
        WithResponseHeader (lit ''grpc-accept-encoding'') (accepted_encodings (e_features E)), WithStatus 200] @
       (let e = negotiate_response_encoding E (cn_request_headers conn) in
        if e = Identity then [] else [WithResponseHeader (lit ''grpc-encoding'') (as_grpc_encoding e)])\<rparr>))"
  by (auto simp: prepare_grpc_conn_def conn_do_def Let_def split: option.splits)

end
