(* ===== verification/Bidi.thy ===== *)
theory Bidi
  imports ServerConn
begin

text \<open>
  The \<open>Channel\<close> of \<open>src/server/streaming.rs\<close> and the upgrade phase of a bidirectional call,
  \<open>src/server/bidi.rs\<close>: the responder's loop raced against the cancellation, then the status
  written to the trailers. The upgraded transport is a parameter: its \<open>poll_read\<close>, its
  \<open>write_all\<close> (resolved: the result and the transport afterwards), and whether its shared
  state has a runtime. The responder is a poll function over the channel and a state of its own.
\<close>

section \<open>Writing\<close>

type_synonym 'w write_fn = "'w \<Rightarrow> bytes \<Rightarrow> (str + unit) \<times> 'w"

text \<open>A transport that keeps what is written, in order.\<close>

locale byte_sink =
  fixes write_all :: "'w write_fn" and written :: "'w \<Rightarrow> bytes"
  assumes write_ok: "write_all w bs = (Inr (), w') \<Longrightarrow> written w' = written w @ bs"

section \<open>Channel\<close>

record ('w, 'h, 'q, 'p) channel =
  ch_upgrade :: 'w
  ch_response_trailers :: 'h
  ch_state :: read_state
  ch_decode :: "bytes \<Rightarrow> 'q result"
  ch_encode :: "'p \<Rightarrow> bytes result"
  ch_inbound_encoding :: encoding
  ch_outbound_encoding :: encoding
  ch_max_message_size :: nat

definition channel_new ::
  "'w \<Rightarrow> 'h \<Rightarrow> (bytes \<Rightarrow> 'q result) \<Rightarrow> ('p \<Rightarrow> bytes result) \<Rightarrow> encoding \<Rightarrow> encoding \<Rightarrow> ('w, 'h, 'q, 'p) channel" where
  "channel_new upgrade response_trailers decode encode inbound outbound =
     \<lparr>ch_upgrade = upgrade, ch_response_trailers = response_trailers, ch_state = read_state_new,
      ch_decode = decode, ch_encode = encode, ch_inbound_encoding = inbound,
      ch_outbound_encoding = outbound, ch_max_message_size = DEFAULT_MAX_MESSAGE_SIZE\<rparr>"

definition channel_trailers_mut :: "('h \<Rightarrow> 'h) \<Rightarrow> ('w, 'h, 'q, 'p) channel \<Rightarrow> ('w, 'h, 'q, 'p) channel" where
  "channel_trailers_mut f ch = ch\<lparr>ch_response_trailers := f (ch_response_trailers ch)\<rparr>"

definition channel_recv ::
  "codecs \<Rightarrow> 'w poll_read_fn \<Rightarrow> ('w, 'h, 'q, 'p) channel \<Rightarrow> ('q result) option poll \<times> ('w, 'h, 'q, 'p) channel" where
  "channel_recv C poll_read ch =
     (case poll_read_message C poll_read (ch_decode ch) (ch_inbound_encoding ch) (ch_max_message_size ch)
             (ch_state ch) (ch_upgrade ch) of
        (p, st, upgrade) \<Rightarrow> (p, ch\<lparr>ch_state := st, ch_upgrade := upgrade\<rparr>))"

definition channel_send ::
  "codecs \<Rightarrow> 'w write_fn \<Rightarrow> ('w, 'h, 'q, 'p) channel \<Rightarrow> 'p \<Rightarrow> unit result \<times> ('w, 'h, 'q, 'p) channel" where
  "channel_send C write_all ch value =
     (case and_then (ch_encode ch value) (\<lambda>payload. encode_payload C payload (ch_outbound_encoding ch)) of
        Inl e \<Rightarrow> (Inl e, ch)
      | Inr frame \<Rightarrow>
          (case write_all (ch_upgrade ch) frame of
             (Inl e, w) \<Rightarrow> (Inl (st_unavailable (lit ''write error: '' @ e)), ch\<lparr>ch_upgrade := w\<rparr>)
           | (Inr u, w) \<Rightarrow> (Inr (), ch\<lparr>ch_upgrade := w\<rparr>)))"

section \<open>The upgrade\<close>

text \<open>\<open>BidiState\<close>; the responder is the initial state of its future.\<close>

record ('f, 'h, 'q, 'p) bidi_state =
  bs_responder :: 'f
  bs_base_trailers :: 'h
  bs_decode :: "bytes \<Rightarrow> 'q result"
  bs_encode :: "'p \<Rightarrow> bytes result"
  bs_request_encoding :: encoding
  bs_response_encoding :: encoding
  bs_deadline :: "nat option"

definition bidi_upgrade_new ::
  "'f \<Rightarrow> 'h \<Rightarrow> (bytes \<Rightarrow> 'q result) \<Rightarrow> ('p \<Rightarrow> bytes result) \<Rightarrow> encoding \<Rightarrow> encoding \<Rightarrow> nat option
   \<Rightarrow> ('f, 'h, 'q, 'p) bidi_state" where
  "bidi_upgrade_new responder base_trailers decode encode request_encoding response_encoding deadline =
     \<lparr>bs_responder = responder, bs_base_trailers = base_trailers, bs_decode = decode, bs_encode = encode,
      bs_request_encoding = request_encoding, bs_response_encoding = response_encoding,
      bs_deadline = deadline\<rparr>"

datatype 'c outcome = Panicked | Suspended | Finished 'c

type_synonym ('w, 'h, 'q, 'p, 'f) responder_poll = "(('w, 'h, 'q, 'p) channel \<times> 'f, unit result) fut"

text \<open>
  \<open>BidiDriver::drive\<close>: the transport and the trailers that are sent at the end. A failure of
  \<open>send_trailers\<close> is only logged.
\<close>

definition bidi_drive ::
  "'h env \<Rightarrow> delay_fn \<Rightarrow> (('w, 'h, 'q, 'p) channel \<times> 'f, unit result) select_api \<Rightarrow> bool
   \<Rightarrow> ('w, 'h, 'q, 'p, 'f) responder_poll \<Rightarrow> ('f, 'h, 'q, 'p) bidi_state \<Rightarrow> obs list \<Rightarrow> 'w \<Rightarrow> ('w \<times> 'h) outcome" where
  "bidi_drive E D S has_runtime responder bs os upgrade =
     (case for_upgrade has_runtime (bs_deadline bs) of
        None \<Rightarrow> Panicked
      | Some cancellation \<Rightarrow>
          (let ch = channel_new upgrade (bs_base_trailers bs) (bs_decode bs) (bs_encode bs)
                      (bs_request_encoding bs) (bs_response_encoding bs) in
           case drive (race D S cancellation responder) os (Unstarted, (ch, bs_responder bs)) of
             None \<Rightarrow> Suspended
           | Some (res, (t, (ch', f'))) \<Rightarrow>
               (let base_trailers =
                      (case res of
                         Inr u \<Rightarrow> status_write_into (e_headers E) (e_base64 E) status_ok (ch_response_trailers ch')
                       | Inl status \<Rightarrow> status_write_into (e_headers E) (e_base64 E) status (ch_response_trailers ch')) in
                Finished (ch_upgrade ch', base_trailers))))"

text \<open>\<open>has_bidi_upgrade\<close> and \<open>drive_bidi_upgrade\<close>: the state's entry, which is taken.\<close>

definition has_bidi_upgrade :: "(('f, 'h, 'q, 'p) bidi_state) option \<Rightarrow> bool" where
  "has_bidi_upgrade state \<longleftrightarrow> state \<noteq> None"

definition drive_bidi_upgrade ::
  "'h env \<Rightarrow> delay_fn \<Rightarrow> (('w, 'h, 'q, 'p) channel \<times> 'f, unit result) select_api \<Rightarrow> bool
   \<Rightarrow> ('w, 'h, 'q, 'p, 'f) responder_poll \<Rightarrow> (('f, 'h, 'q, 'p) bidi_state) option \<Rightarrow> obs list \<Rightarrow> 'w
   \<Rightarrow> ('w \<times> 'h option) outcome" where
  "drive_bidi_upgrade E D S has_runtime responder state os upgrade =
     (case state of
        None \<Rightarrow> Finished (upgrade, None)
      | Some bs \<Rightarrow>
          (case bidi_drive E D S has_runtime responder bs os upgrade of
             Panicked \<Rightarrow> Panicked | Suspended \<Rightarrow> Suspended
           | Finished (w, tr) \<Rightarrow> Finished (w, Some tr)))"

section \<open>Lemmas\<close>

lemma channel_send_Inr:
  "channel_send C write_all ch v = (Inr (), ch') \<longleftrightarrow>
     (\<exists>frame w. and_then (ch_encode ch v) (\<lambda>payload. encode_payload C payload (ch_outbound_encoding ch)) = Inr frame \<and>
        write_all (ch_upgrade ch) frame = (Inr (), w) \<and> ch' = ch\<lparr>ch_upgrade := w\<rparr>)"
  by (auto simp: channel_send_def split: sum.splits prod.splits)

text \<open>Sending a list of values, stopping at the first failure.\<close>

fun send_all ::
  "codecs \<Rightarrow> 'w write_fn \<Rightarrow> ('w, 'h, 'q, 'p) channel \<Rightarrow> 'p list \<Rightarrow> unit result \<times> ('w, 'h, 'q, 'p) channel" where
  "send_all C write_all ch [] = (Inr (), ch)"
| "send_all C write_all ch (v # vs) =
     (case channel_send C write_all ch v of
        (Inl e, ch') \<Rightarrow> (Inl e, ch') | (Inr u, ch') \<Rightarrow> send_all C write_all ch' vs)"

context byte_sink begin

lemma send_all_frames:
  assumes "list_all2 (\<lambda>v f. encode_frame C K v enc = Inr f) vs frames"
    and "ch_encode ch = encode_msg K" and "ch_outbound_encoding ch = enc"
    and "send_all C write_all ch vs = (Inr (), ch')"
  shows "written (ch_upgrade ch') = written (ch_upgrade ch) @ concat frames"
  using assms
proof (induction arbitrary: ch rule: list_all2_induct)
  case (Cons v vs f fs)
  then obtain w where w: "write_all (ch_upgrade ch) f = (Inr (), w)"
    and next': "send_all C write_all (ch\<lparr>ch_upgrade := w\<rparr>) vs = (Inr (), ch')"
    by (auto simp: channel_send_def encode_frame_def split: sum.splits prod.splits)
  with write_ok [OF w] Cons.IH [of "ch\<lparr>ch_upgrade := w\<rparr>"] Cons.prems show ?case by simp
qed simp

end

text \<open>A transport in memory, for examples: what is written can be read.\<close>

definition vec_write :: "bytes write_fn" where
  "vec_write w bs = (Inr (), w @ bs)"

interpretation vec: byte_sink vec_write "\<lambda>w. w"
  by unfold_locales (simp add: vec_write_def)

text \<open>The status code that a result puts into the trailers.\<close>

definition result_code :: "'a result \<Rightarrow> code" where
  "result_code r = (case r of Inr _ \<Rightarrow> Ok | Inl s \<Rightarrow> st_code s)"

text \<open>The statuses a future ends with have well-formed metadata, as every \<open>Metadata\<close> has.\<close>

definition errors_wf :: "('s, 'a result) fut \<Rightarrow> bool" where
  "errors_wf fut \<longleftrightarrow> (\<forall>o1 s e s'. fut o1 s = (Ready (Inl e), s') \<longrightarrow> metadata_wf (st_metadata e))"

lemma errors_wf_drive: "errors_wf fut \<Longrightarrow> drive fut os s = Some (Inl e, s') \<Longrightarrow> metadata_wf (st_metadata e)"
  by (induction os arbitrary: s) (auto split: prod.splits poll.splits, unfold errors_wf_def, blast)

lemma race_errors_wf:
  assumes "select_ok S" and "delay_ok D" and "errors_wf fut"
    and "drive (race D S c fut) os (Unstarted, s) = Some (Inl e, ts)"
  shows "metadata_wf (st_metadata e)"
proof -
  obtain t s' where "ts = (t, s')" by (cases ts)
  with drive_race_outcome [OF assms(1,2) timer_ok_Unstarted] assms(4) errors_wf_drive [OF assms(3)]
  show ?thesis by (fastforce simp: st_shutting_down_def st_elapsed_def metadata_wf_new)
qed

lemma status_ok_wf [simp]: "metadata_wf (st_metadata status_ok)" "st_code status_ok = Ok" "st_message status_ok = []"
  by (simp_all add: status_ok_def metadata_wf_new)

section \<open>Properties\<close>

text \<open>
  C18: A bidirectional call always ends with its status in the trailers: when the upgrade phase
  finishes, the trailers sent carry \<open>grpc-status\<close> 0 if the responder's loop returned \<open>Ok\<close>, and
  the code of the error otherwise; that result is the responder's own under the same polls, or
  \<open>Cancelled\<close> or \<open>DeadlineExceeded\<close> with its cause, and the trailing metadata is what the
  responder left.
\<close>

theorem bidi_outcome:
  assumes "env_ok E" and "select_ok S" and "delay_ok D" and "errors_wf responder"
    and "bidi_drive E D S has_runtime responder bs os upgrade = Finished (w, tr)"
  shows "\<exists>res ch' f'. ch_upgrade ch' = w \<and>
    h_get_str (e_headers E) tr (lit ''grpc-status'') = Some (show_code (result_code res)) \<and>
    (drive responder os (channel_new upgrade (bs_base_trailers bs) (bs_decode bs) (bs_encode bs)
        (bs_request_encoding bs) (bs_response_encoding bs), bs_responder bs) = Some (res, (ch', f')) \<or>
     (res = Inl st_shutting_down \<and> (\<exists>o1 \<in> set os. ob_shutdown o1)) \<or>
     (res = Inl st_elapsed \<and> (\<exists>o1 \<in> set os. \<exists>i. bs_deadline bs = Some i \<and> i \<le> ob_now o1))) \<and>
    tr = status_write_into (e_headers E) (e_base64 E)
      (case res of Inr u \<Rightarrow> status_ok | Inl status \<Rightarrow> status) (ch_response_trailers ch')"
proof -
  let ?ch = "channel_new upgrade (bs_base_trailers bs) (bs_decode bs) (bs_encode bs)
        (bs_request_encoding bs) (bs_response_encoding bs)"
  obtain c where c: "for_upgrade has_runtime (bs_deadline bs) = Some c"
    using assms(5) by (auto simp: bidi_drive_def split: option.splits)
  then have dl: "c_deadline c = bs_deadline bs"
    by (auto simp: for_upgrade_def split: option.splits if_splits)
  from assms(5) c obtain res t ch' f' where
    d: "drive (race D S c responder) os (Unstarted, (?ch, bs_responder bs)) = Some (res, (t, (ch', f')))"
    and w: "w = ch_upgrade ch'"
    and tr: "tr = status_write_into (e_headers E) (e_base64 E)
      (case res of Inr u \<Rightarrow> status_ok | Inl status \<Rightarrow> status) (ch_response_trailers ch')"
    by (auto simp: bidi_drive_def Let_def split: option.splits prod.splits sum.splits)
  define st where "st = (case res of Inr u \<Rightarrow> status_ok | Inl status \<Rightarrow> status)"
  have st: "st_code st = result_code res" "metadata_wf (st_metadata st)"
    using race_errors_wf [OF assms(2-4)] d
    by (auto simp: st_def result_code_def metadata_wf_new split: sum.splits)
  have "h_get_str (e_headers E) tr (lit ''grpc-status'') = Some (show_code (result_code res))"
    using assms(1) st write_into_strs(1) [of "e_headers E" st] by (simp add: tr st_def env_ok_def)
  moreover note tr
  moreover note drive_race_outcome [OF assms(2,3) timer_ok_Unstarted d, unfolded dl]
  ultimately show ?thesis unfolding w by blast
qed

definition example_env :: "(str, str list) alist env" where
  "example_env =
     \<lparr>e_headers = dalist_headers, e_base64 = \<lparr>b64_encode = id, b64_decode = Some\<rparr>,
      e_features = \<lparr>f_gzip = True, f_deflate = True, f_zstd = True\<rparr>, e_codecs = prefix_codecs,
      e_debug = id, e_last_instant = 2 ^ 63 * 10 ^ 9\<rparr>"

lemma env_ok_example: "env_ok example_env"
  by (simp add: env_ok_def example_env_def headers_ok_dalist codecs_ok_prefix base64_ok_def)

definition example_bidi :: "(unit, (str, str list) alist, bytes, bytes) bidi_state" where
  "example_bidi =
     bidi_upgrade_new () DAList.empty (decode_msg raw_codec) (encode_msg raw_codec) Identity Identity None"

definition refuse :: "('s, unit result) fut" where
  "refuse o1 s = (Ready (Inl (status_new NotFound [])), s)"

lemma errors_wf_refuse: "errors_wf refuse"
  by (simp add: errors_wf_def refuse_def metadata_wf_new)

theorem bidi_outcome_witness:
  "\<exists>tr. bidi_drive example_env exact_delay simple_select False refuse example_bidi
     [\<lparr>ob_shutdown = False, ob_now = 0\<rparr>] [] = Finished ([] :: bytes, tr) \<and>
   h_get_str (e_headers example_env) tr (lit ''grpc-status'') = Some (show_code NotFound)"
proof -
  have dl: "bs_deadline example_bidi = None" by (simp add: example_bidi_def bidi_upgrade_new_def)
  obtain tr where run: "bidi_drive example_env exact_delay simple_select False refuse example_bidi
      [\<lparr>ob_shutdown = False, ob_now = 0\<rparr>] [] = Finished ([] :: bytes, tr)"
    by (simp add: bidi_drive_def for_upgrade_def dl race_def interruptible_def refuse_def
        simple_select_def Let_def channel_new_def)
  from bidi_outcome [OF env_ok_example select_ok_simple delay_ok_exact errors_wf_refuse run]
  have "h_get_str (e_headers example_env) tr (lit ''grpc-status'') = Some (show_code NotFound)"
    by (auto simp: dl refuse_def result_code_def)
  with run show ?thesis by blast
qed

text \<open>
  What the responder sends over its channel is what the client receives: if every
  \<open>send\<close> returned \<open>Ok\<close> on a transport that keeps what is written, then a reader over those
  bytes yields exactly the values sent, in order, and nothing else.
\<close>

lemma channel_roundtrip:
  assumes "byte_sink write_all written" and "codecs_ok C" and "codec_ok K" and "max_size < 2 ^ 64 - 1"
    and "list_all2 (fits C K enc max_size) vs frames" and "written upgrade = []"
    and "send_all C write_all (channel_new upgrade tr decode (encode_msg K) inbound enc) vs = (Inr (), ch)"
    and "live_source poll_read content good delay" and "good r" and "content r = written (ch_upgrade ch)"
    and "length vs + delay r < n"
  shows "collect n C poll_read
      (with_encoding (with_max_message_size (message_stream_new r (decode_msg K)) max_size) enc)
    = (map Inr vs, True)"
proof -
  have enc: "list_all2 (\<lambda>v f. encode_frame C K v enc = Inr f) vs frames"
    using assms(5) by (rule list_all2_mono) (simp add: fits_def)
  have "content r = concat frames"
    using byte_sink.send_all_frames [OF assms(1) enc _ _ assms(7)] assms(6,10)
    by (simp add: channel_new_def)
  then show ?thesis
    using collect_new_stream [OF assms(8,9), of C "decode_msg K" enc max_size n] assms(11)
    by (simp add: items_all_fit [OF assms(2-5)])
qed

lemma channel_roundtrip_witness:
  "collect 3 prefix_codecs cursor_read
     (with_encoding (with_max_message_size
       (message_stream_new [1, 0, 0, 0, 2, 0x1F, 7, 1, 0, 0, 0, 1, 0x1F] (decode_msg raw_codec)) 10) Gzip)
   = ([Inr [7], Inr []], True)"
proof -
  have f: "list_all2 (fits prefix_codecs raw_codec Gzip 10) [[7], []]
      [[1, 0, 0, 0, 2, 0x1F, 7], [1, 0, 0, 0, 1, 0x1F]]"
    by (simp add: fits_def encode_frame_Inr raw_codec_def prefix_codecs_def gzip_compress_def
        u32_to_be_bytes_def PREFIX_LEN_def)
  let ?ch = "channel_new [] () (decode_msg raw_codec) (encode_msg raw_codec) Identity Gzip"
  have s: "send_all prefix_codecs vec_write ?ch [[7], []] =
      (Inr (), ?ch\<lparr>ch_upgrade := [1, 0, 0, 0, 2, 0x1F, 7, 1, 0, 0, 0, 1, 0x1F]\<rparr>)"
    by (simp add: channel_send_def channel_new_def raw_codec_def encode_payload_eq prefix_codecs_def
        gzip_compress_def u32_to_be_bytes_def vec_write_def)
  show ?thesis
    using channel_roundtrip [OF vec.byte_sink_axioms codecs_ok_prefix codec_ok_raw _ f _ s
        cursor.live_source_axioms, where r = "[1, 0, 0, 0, 2, 0x1F, 7, 1, 0, 0, 0, 1, 0x1F]" and n = 3]
    by simp
qed

end
