(* ===== verification/ClientConn.thy ===== *)
theory ClientConn
  imports Bidi
begin

text \<open>
  \<open>src/client/conn.rs\<close>: the client's engine, one owned value per call. Its transport is the
  \<open>trillium_client\<close> crate, which is not part of the repository: the record \<open>net\<close> holds the
  operations the engine calls, as futures or functions on the states of a request in flight,
  of a response connection and of an upgraded one.

  An operation that awaits is a function of the observations its polls see. Its outcome is a
  panic, a future that is still suspended when the polls have run out, or a result; with it
  come the engine as it stands then (which is the engine the caller is left with when it drops
  a suspended future) and the observations that are left. The list starts with the poll that
  enters the operation; an operation that is resumed goes on in the poll that resumed it. The
  observation \<open>ob_shutdown\<close> is here that the channel of the \<open>CancelHandle\<close> is closed.
\<close>

section \<open>Awaiting\<close>

type_synonym ('s, 'a) async = "obs list \<Rightarrow> 's \<Rightarrow> 'a outcome \<times> 's \<times> obs list"

fun await_fut :: "('s, 'a) fut \<Rightarrow> ('s, 'a) async" where
  "await_fut f [] s = (Suspended, s, [])"
| "await_fut f (o1 # os) s =
     (case f o1 s of (Ready x, s') \<Rightarrow> (Finished x, s', o1 # os) | (Pending, s') \<Rightarrow> await_fut f os s')"

text \<open>The \<open>?\<close> operator between two awaits.\<close>

definition async_try :: "('s, 'a result) async \<Rightarrow> ('s, 'b result) async \<Rightarrow> ('s, 'b result) async" where
  "async_try m k os s =
     (case m os s of
        (Panicked, s', os') \<Rightarrow> (Panicked, s', os')
      | (Suspended, s', os') \<Rightarrow> (Suspended, s', os')
      | (Finished (Inl e), s', os') \<Rightarrow> (Finished (Inl e), s', os')
      | (Finished (Inr _), s', os') \<Rightarrow> k os' s')"

text \<open>\<open>Instant::now()\<close> in the poll that is running.\<close>

fun clock :: "obs list \<Rightarrow> nat" where
  "clock [] = 0"
| "clock (o1 # os) = ob_now o1"

section \<open>Data\<close>

record pending_call =
  pd_path :: str
  pd_content_type :: str
  pd_request_metadata :: metadata
  pd_body :: bytes
  pd_send_closed :: bool

record ('r, 'h) live =
  lv_reader :: 'r
  lv_response_headers :: 'h
  lv_read_state :: read_state
  lv_response_encoding :: encoding
  lv_head_status :: "(unit result) option"

datatype ('r, 'w, 'h) inner =
    Inner_Pending pending_call
  | Inner_Reading "('r, 'h) live"
  | Inner_Duplex "('w, 'h) live"
  | Inner_Done 'h 'h
  | Inner_Failed status

record ('r, 'w, 'h, 'q, 'p) client_conn =
  gcc_inner :: "('r, 'w, 'h) inner"
  gcc_decode :: "bytes \<Rightarrow> 'p result"
  gcc_encode :: "'q \<Rightarrow> bytes result"
  gcc_outbound_encoding :: encoding
  gcc_max_message_size :: nat
  gcc_full_duplex :: bool
  gcc_deadline :: "nat option"
  gcc_init_error :: "status option"

section \<open>The transport\<close>

text \<open>A request that has been built, and a response whose head has arrived.\<close>

datatype http_version = Http2

record 'h request =
  rq_path :: str
  rq_http_version :: http_version
  rq_headers :: 'h
  rq_body :: bytes

record ('r, 'h) response =
  rp_status :: "nat option"
  rp_headers :: 'h
  rp_reader :: 'r

type_synonym ('s, 'a) or_fn = "('s, 'a) fut \<Rightarrow> ('s, 'a) fut \<Rightarrow> ('s, 'a) fut"

text \<open>
  What the engine uses of the client, and of \<open>futures_lite::future::or\<close> at its three types:
  \<open>n_post\<close> is the headers of \<open>client.post(path)\<close>, \<open>n_send\<close> and \<open>n_upgrade\<close> the futures of
  awaiting a request and its upgrade, \<open>n_poll\<close> their poll function.
\<close>

record ('r, 'w, 'h, 'x, 'p) net =
  n_env :: "'h env"
  n_delay :: delay_fn
  n_default_headers :: 'h
  n_post :: "str \<Rightarrow> 'h"
  n_send :: "'h request \<Rightarrow> 'x"
  n_upgrade :: "'h request \<Rightarrow> 'x"
  n_poll :: "('x, str + ('r, 'h) response) fut"
  n_response_body :: "'r poll_read_fn"
  n_response_trailers :: "'r \<Rightarrow> 'h option"
  n_into_upgrade :: "'r \<Rightarrow> 'w"
  n_upgrade_read :: "'w poll_read_fn"
  n_received_trailers :: "'w \<Rightarrow> 'h option"
  n_write_all :: "bytes \<Rightarrow> ('w, str + unit) fut"
  n_close :: "('w, str + unit) fut"
  n_or_send :: "('x, ('r, 'h) response result) or_fn"
  n_or_write :: "('w, unit result) or_fn"
  n_or_read :: "(('r, 'w, 'h) inner, ('p result) option result) or_fn"

definition or_ok :: "('s, 'a) or_fn \<Rightarrow> bool" where
  "or_ok f_or \<longleftrightarrow>
     (\<forall>f g o1 s. f_or f g o1 s = (case f o1 s of (Ready x, s') \<Rightarrow> (Ready x, s') | (Pending, s') \<Rightarrow> g o1 s'))"

definition net_ok :: "('r, 'w, 'h, 'x, 'p) net \<Rightarrow> bool" where
  "net_ok N \<longleftrightarrow> env_ok (n_env N) \<and> delay_ok (n_delay N) \<and>
     or_ok (n_or_send N) \<and> or_ok (n_or_write N) \<and> or_ok (n_or_read N) \<and>
     (\<forall>path k. h_get_values (e_headers (n_env N)) (n_post N path) k =
        h_get_values (e_headers (n_env N)) (n_default_headers N) k)"

section \<open>Opening a call\<close>

definition client_open ::
  "('r, 'w, 'h, 'x, 'p) net \<Rightarrow> nat \<Rightarrow> str \<Rightarrow> str \<Rightarrow> metadata \<Rightarrow> duration option \<Rightarrow> ('q \<Rightarrow> bytes result)
   \<Rightarrow> (bytes \<Rightarrow> 'p result) \<Rightarrow> encoding \<Rightarrow> bool \<Rightarrow> (('r, 'w, 'h, 'q, 'p) client_conn) option" where
  "client_open N now path content_type request_metadata timeout encode decode outbound_encoding full_duplex =
     (let mk = (\<lambda>deadline.
        \<lparr>gcc_inner = Inner_Pending \<lparr>pd_path = path, pd_content_type = content_type,
           pd_request_metadata = request_metadata, pd_body = [], pd_send_closed = False\<rparr>,
         gcc_decode = decode, gcc_encode = encode, gcc_outbound_encoding = outbound_encoding,
         gcc_max_message_size = DEFAULT_MAX_MESSAGE_SIZE, gcc_full_duplex = full_duplex,
         gcc_deadline = deadline, gcc_init_error = None\<rparr>) in
      case timeout of
        None \<Rightarrow> Some (mk None)
      | Some d \<Rightarrow> map_option (\<lambda>i. mk (Some i)) (instant_add (e_last_instant (n_env N)) now d))"

definition decode_response :: "'p codec \<Rightarrow> bytes \<Rightarrow> 'p result" where
  "decode_response K bs =
     (case decode_msg K bs of Inl status \<Rightarrow> Inl (status_new Internal (st_message status)) | Inr x \<Rightarrow> Inr x)"

definition client_new ::
  "('r, 'w, 'h, 'x, 'p) net \<Rightarrow> nat \<Rightarrow> 'q codec \<Rightarrow> 'p codec \<Rightarrow> str \<Rightarrow> metadata \<Rightarrow> duration option \<Rightarrow> bool
   \<Rightarrow> (('r, 'w, 'h, 'q, 'p) client_conn) option" where
  "client_new N now Kq Kp path md timeout full_duplex =
     (let content_type = lit ''application/grpc+'' @ content_type_suffix Kq;
          outbound_encoding =
            (case Option.bind (h_get_str (e_headers (n_env N)) (n_default_headers N) (lit ''grpc-encoding''))
                    (from_grpc_encoding (e_features (n_env N))) of Some e \<Rightarrow> e | None \<Rightarrow> Identity) in
      client_open N now path content_type md timeout (encode_msg Kq) (decode_response Kp)
        outbound_encoding full_duplex)"

text \<open>\<open>Option::get_or_insert\<close> on the deferred error.\<close>

definition defer_error :: "status \<Rightarrow> ('r, 'w, 'h, 'q, 'p) client_conn \<Rightarrow> ('r, 'w, 'h, 'q, 'p) client_conn" where
  "defer_error status c = (case gcc_init_error c of None \<Rightarrow> c\<lparr>gcc_init_error := Some status\<rparr> | Some _ \<Rightarrow> c)"

definition invalid_metadata :: "'h env \<Rightarrow> metadata_error \<Rightarrow> status" where
  "invalid_metadata E e = st_invalid_argument (lit ''invalid metadata: '' @ metadata_error_display (e_debug E) e)"

definition add_ascii_metadata ::
  "('r, 'w, 'h, 'x, 'p) net \<Rightarrow> str \<Rightarrow> str \<Rightarrow> ('r, 'w, 'h, 'q, 'p) client_conn \<Rightarrow> ('r, 'w, 'h, 'q, 'p) client_conn" where
  "add_ascii_metadata N key value c =
     (case gcc_inner c of
        Inner_Pending pending \<Rightarrow>
          (case insert_ascii (pd_request_metadata pending) key value of
             Inr md \<Rightarrow> c\<lparr>gcc_inner := Inner_Pending (pending\<lparr>pd_request_metadata := md\<rparr>)\<rparr>
           | Inl e \<Rightarrow> defer_error (invalid_metadata (n_env N) e) c)
      | _ \<Rightarrow> c)"

definition add_binary_metadata ::
  "('r, 'w, 'h, 'x, 'p) net \<Rightarrow> str \<Rightarrow> bytes \<Rightarrow> ('r, 'w, 'h, 'q, 'p) client_conn \<Rightarrow> ('r, 'w, 'h, 'q, 'p) client_conn" where
  "add_binary_metadata N key value c =
     (case gcc_inner c of
        Inner_Pending pending \<Rightarrow>
          (case insert_binary (pd_request_metadata pending) key value of
             Inr md \<Rightarrow> c\<lparr>gcc_inner := Inner_Pending (pending\<lparr>pd_request_metadata := md\<rparr>)\<rparr>
           | Inl e \<Rightarrow> defer_error (invalid_metadata (n_env N) e) c)
      | _ \<Rightarrow> c)"

definition set_deadline_from_now ::
  "('r, 'w, 'h, 'x, 'p) net \<Rightarrow> nat \<Rightarrow> duration \<Rightarrow> ('r, 'w, 'h, 'q, 'p) client_conn
   \<Rightarrow> (('r, 'w, 'h, 'q, 'p) client_conn) option" where
  "set_deadline_from_now N now timeout c =
     map_option (\<lambda>i. c\<lparr>gcc_deadline := Some i\<rparr>) (instant_add (e_last_instant (n_env N)) now timeout)"

text \<open>\<open>(self.encode)(&message).and_then(|payload| encode_payload(..))\<close>.\<close>

definition request_frame :: "('r, 'w, 'h, 'x, 'p) net \<Rightarrow> ('r, 'w, 'h, 'q, 'p) client_conn \<Rightarrow> 'q \<Rightarrow> bytes result" where
  "request_frame N c message =
     and_then (gcc_encode c message) (\<lambda>payload. encode_payload (e_codecs (n_env N)) payload (gcc_outbound_encoding c))"

definition buffer_request ::
  "('r, 'w, 'h, 'x, 'p) net \<Rightarrow> 'q \<Rightarrow> ('r, 'w, 'h, 'q, 'p) client_conn \<Rightarrow> ('r, 'w, 'h, 'q, 'p) client_conn" where
  "buffer_request N message c =
     (case request_frame N c message of
        Inr frame \<Rightarrow>
          (case gcc_inner c of
             Inner_Pending pending \<Rightarrow> c\<lparr>gcc_inner := Inner_Pending (pending\<lparr>pd_body := pd_body pending @ frame\<rparr>)\<rparr>
           | _ \<Rightarrow> c)
      | Inl status \<Rightarrow> defer_error status c)"

section \<open>What the caller can read\<close>

definition client_headers :: "('r, 'w, 'h, 'q, 'p) client_conn \<Rightarrow> 'h option" where
  "client_headers c =
     (case gcc_inner c of
        Inner_Reading live \<Rightarrow> Some (lv_response_headers live)
      | Inner_Duplex live \<Rightarrow> Some (lv_response_headers live)
      | Inner_Done response_headers _ \<Rightarrow> Some response_headers
      | _ \<Rightarrow> None)"

definition client_trailers :: "('r, 'w, 'h, 'q, 'p) client_conn \<Rightarrow> 'h option" where
  "client_trailers c = (case gcc_inner c of Inner_Done _ trailers \<Rightarrow> Some trailers | _ \<Rightarrow> None)"

section \<open>Racing the deadline and the cancellation\<close>

definition st_call_cancelled :: status where
  "st_call_cancelled = st_cancelled (lit ''call cancelled'')"

definition cancel_fut :: "('s, 'a result) fut" where
  "cancel_fut o1 s = (if ob_shutdown o1 then (Ready (Inl st_call_cancelled), s) else (Pending, s))"

text \<open>The cancellation and the timer come first: \<open>or\<close> is left-biased.\<close>

definition client_race ::
  "delay_fn \<Rightarrow> ('s, 'a result) or_fn \<Rightarrow> nat option \<Rightarrow> ('s, 'a result) fut \<Rightarrow> (timer \<times> 's, 'a result) fut" where
  "client_race D f_or deadline fut o1 ts =
     (case ts of (t, s) \<Rightarrow>
       (case deadline of
          None \<Rightarrow> map_prod id (Pair t) (f_or cancel_fut fut o1 s)
        | Some instant \<Rightarrow>
            (case t of
               Unstarted \<Rightarrow>
                 (case checked_duration_since instant (ob_now o1) of
                    None \<Rightarrow> (Ready (Inl st_elapsed), (t, s))
                  | Some left \<Rightarrow>
                      map_prod id (Pair (Waiting (ob_now o1) left))
                        (f_or (f_or cancel_fut (race_timer D (ob_now o1) left)) fut o1 s))
             | Waiting start left \<Rightarrow>
                 map_prod id (Pair t) (f_or (f_or cancel_fut (race_timer D start left)) fut o1 s))))"

text \<open>A future whose output's error is mapped, \<open>.map_err(f)\<close>.\<close>

definition fut_map_err :: "('e \<Rightarrow> status) \<Rightarrow> ('s, 'e + 'a) fut \<Rightarrow> ('s, 'a result) fut" where
  "fut_map_err f fut o1 s = (case fut o1 s of (p, s') \<Rightarrow> (map_poll (map_sum f id) p, s'))"

section \<open>The head of the response\<close>

definition http_to_grpc_status :: "nat \<Rightarrow> status" where
  "http_to_grpc_status http =
     status_new
       (if http = 400 then Internal
        else if http = 401 then Unauthenticated
        else if http = 403 then PermissionDenied
        else if http = 404 then Unimplemented
        else if http = 429 \<or> http = 502 \<or> http = 503 \<or> http = 504 then Unavailable
        else Unknown)
       (lit ''HTTP '' @ show_nat http)"

definition transport_error :: "str \<Rightarrow> status" where
  "transport_error e = st_unavailable (lit ''transport error: '' @ e)"

text \<open>The \<open>Debug\<close> formatting of an \<open>Option<&str>\<close>.\<close>

definition debug_option :: "(str \<Rightarrow> str) \<Rightarrow> str option \<Rightarrow> str" where
  "debug_option dbg v = (case v of None \<Rightarrow> lit ''None'' | Some s \<Rightarrow> lit ''Some('' @ dbg s @ lit '')'')"

record 'h head =
  hd_response_headers :: 'h
  hd_response_encoding :: encoding
  hd_head_status :: "(unit result) option"

definition process_head :: "'h env \<Rightarrow> ('r, 'h) response \<Rightarrow> 'h head result" where
  "process_head E conn =
     (let http_status = rp_status conn in
      if http_status \<noteq> Some 200 then
        Inl (http_to_grpc_status (case http_status of Some s \<Rightarrow> s | None \<Rightarrow> 0))
      else
        (let ct = h_get_str (e_headers E) (rp_headers conn) (lit ''content-type'') in
         if Option.bind ct parse_grpc_content_type = None then
           Inl (st_unknown (lit ''unexpected response content-type: '' @ debug_option (e_debug E) ct))
         else
           and_then
             (case h_get_str (e_headers E) (rp_headers conn) (lit ''grpc-encoding'') of
                None \<Rightarrow> Inr Identity
              | Some s \<Rightarrow>
                  (case from_grpc_encoding (e_features E) s of
                     Some e \<Rightarrow> Inr e
                   | None \<Rightarrow> Inl (st_internal (lit ''unsupported grpc-encoding '' @ e_debug E s))))
             (\<lambda>response_encoding.
               Inr \<lparr>hd_response_headers = rp_headers conn, hd_response_encoding = response_encoding,
                    hd_head_status =
                      (if h_get_str (e_headers E) (rp_headers conn) (lit ''grpc-status'') \<noteq> None
                       then Some (from_trailers (e_headers E) (e_base64 E) (rp_headers conn)) else None)\<rparr>)))"

section \<open>Firing the request\<close>

definition take_body :: "('r, 'w, 'h, 'q, 'p) client_conn \<Rightarrow> bytes \<times> ('r, 'w, 'h, 'q, 'p) client_conn" where
  "take_body c =
     (case gcc_inner c of
        Inner_Pending pending \<Rightarrow> (pd_body pending, c\<lparr>gcc_inner := Inner_Pending (pending\<lparr>pd_body := []\<rparr>)\<rparr>)
      | _ \<Rightarrow> ([], c))"

text \<open>\<open>now\<close> is read for the deadline; \<open>None\<close> is the \<open>unreachable!()\<close> arm.\<close>

definition build_request ::
  "('r, 'w, 'h, 'x, 'p) net \<Rightarrow> nat \<Rightarrow> ('r, 'w, 'h, 'q, 'p) client_conn \<Rightarrow> bytes \<Rightarrow> 'h request option" where
  "build_request N now c body =
     (let H = e_headers (n_env N) in
      case gcc_inner c of
        Inner_Pending pending \<Rightarrow>
          (let h = n_post N (pd_path pending);
               h = h_insert H h (lit ''content-type'') (pd_content_type pending);
               h = h_insert H h (lit ''te'') (lit ''trailers'');
               h = h_insert H h (lit ''grpc-accept-encoding'') (accepted_encodings (e_features (n_env N)));
               h = (if gcc_outbound_encoding c \<noteq> Identity
                    then h_insert H h (lit ''grpc-encoding'') (as_grpc_encoding (gcc_outbound_encoding c)) else h);
               h = (case gcc_deadline c of
                      None \<Rightarrow> h
                    | Some deadline \<Rightarrow>
                        h_insert H h (lit ''grpc-timeout'') (format_grpc_timeout (duration_of (deadline - now))));
               h = metadata_write_into H (e_base64 (n_env N)) (pd_request_metadata pending) h in
           Some \<lparr>rq_path = pd_path pending, rq_http_version = Http2, rq_headers = h, rq_body = body\<rparr>)
      | _ \<Rightarrow> None)"

definition client_fail ::
  "status \<Rightarrow> ('r, 'w, 'h, 'q, 'p) client_conn \<Rightarrow> obs list
   \<Rightarrow> (unit result) outcome \<times> ('r, 'w, 'h, 'q, 'p) client_conn \<times> obs list" where
  "client_fail status c os = (Finished (Inl status), c\<lparr>gcc_inner := Inner_Failed status\<rparr>, os)"

text \<open>
  \<open>materialize_reading\<close> and \<open>materialize_duplex\<close> are the same up to the future they await and
  the state they end in.
\<close>

definition materialize ::
  "('r, 'w, 'h, 'x, 'p) net \<Rightarrow> ('h request \<Rightarrow> 'x) \<Rightarrow> ('h head \<Rightarrow> 'r \<Rightarrow> ('r, 'w, 'h) inner)
   \<Rightarrow> (('r, 'w, 'h, 'q, 'p) client_conn, unit result) async" where
  "materialize N fire enter os c =
     (case gcc_init_error c of
        Some status \<Rightarrow> client_fail status (c\<lparr>gcc_init_error := None\<rparr>) os
      | None \<Rightarrow>
          (case take_body c of
             (body, c) \<Rightarrow>
               (case build_request N (clock os) c body of
                  None \<Rightarrow> (Panicked, c, os)
                | Some request \<Rightarrow>
                    (case await_fut (client_race (n_delay N) (n_or_send N) (gcc_deadline c)
                            (fut_map_err transport_error (n_poll N))) os (Unstarted, fire request) of
                       (Panicked, _, os) \<Rightarrow> (Panicked, c, os)
                     | (Suspended, _, os) \<Rightarrow> (Suspended, c, os)
                     | (Finished (Inl status), _, os) \<Rightarrow> client_fail status c os
                     | (Finished (Inr conn), _, os) \<Rightarrow>
                         (case process_head (n_env N) conn of
                            Inr head \<Rightarrow> (Finished (Inr ()), c\<lparr>gcc_inner := enter head (rp_reader conn)\<rparr>, os)
                          | Inl status \<Rightarrow> client_fail status c os)))))"

definition live_from :: "'h head \<Rightarrow> 'r \<Rightarrow> ('r, 'h) live" where
  "live_from head reader =
     \<lparr>lv_reader = reader, lv_response_headers = hd_response_headers head, lv_read_state = read_state_new,
      lv_response_encoding = hd_response_encoding head, lv_head_status = hd_head_status head\<rparr>"

definition materialize_reading ::
  "('r, 'w, 'h, 'x, 'p) net \<Rightarrow> (('r, 'w, 'h, 'q, 'p) client_conn, unit result) async" where
  "materialize_reading N = materialize N (n_send N) (\<lambda>head conn. Inner_Reading (live_from head conn))"

definition materialize_duplex ::
  "('r, 'w, 'h, 'x, 'p) net \<Rightarrow> (('r, 'w, 'h, 'q, 'p) client_conn, unit result) async" where
  "materialize_duplex N =
     materialize N (n_upgrade N) (\<lambda>head conn. Inner_Duplex (live_from head (n_into_upgrade N conn)))"

definition open_head ::
  "('r, 'w, 'h, 'x, 'p) net \<Rightarrow> (('r, 'w, 'h, 'q, 'p) client_conn, unit result) async" where
  "open_head N os c =
     (case gcc_inner c of
        Inner_Pending _ \<Rightarrow> if gcc_full_duplex c then materialize_duplex N os c else materialize_reading N os c
      | _ \<Rightarrow> (Finished (Inr ()), c, os))"

section \<open>Sending\<close>

text \<open>Awaiting a future on the reader of an upgraded call.\<close>

definition on_duplex ::
  "('w, 'h) live \<Rightarrow> 'a outcome \<times> 'w \<times> obs list \<Rightarrow> ('r, 'w, 'h, 'q, 'p) client_conn
   \<Rightarrow> 'a outcome \<times> ('r, 'w, 'h, 'q, 'p) client_conn \<times> obs list" where
  "on_duplex live r c =
     (case r of (x, w, os) \<Rightarrow> (x, c\<lparr>gcc_inner := Inner_Duplex (live\<lparr>lv_reader := w\<rparr>)\<rparr>, os))"

definition client_send ::
  "('r, 'w, 'h, 'x, 'p) net \<Rightarrow> 'q \<Rightarrow> (('r, 'w, 'h, 'q, 'p) client_conn, unit result) async" where
  "client_send N message os c =
     (case request_frame N c message of
        Inl e \<Rightarrow> (Finished (Inl e), c, os)
      | Inr frame \<Rightarrow>
          (case gcc_inner c of
             Inner_Pending pending \<Rightarrow>
               (if pd_send_closed pending then (Finished (Inl (st_internal (lit ''send after close_send''))), c, os)
                else (Finished (Inr ()),
                      c\<lparr>gcc_inner := Inner_Pending (pending\<lparr>pd_body := pd_body pending @ frame\<rparr>)\<rparr>, os))
           | Inner_Duplex live \<Rightarrow>
               (case await_fut (client_race (n_delay N) (n_or_write N) (gcc_deadline c)
                       (fut_map_err (\<lambda>e. st_unavailable (lit ''write error: '' @ e)) (n_write_all N frame)))
                       os (Unstarted, lv_reader live) of
                  (x, (t, w), os) \<Rightarrow> on_duplex live (x, w, os) c)
           | _ \<Rightarrow> (Finished (Inl (st_internal (lit ''send after response started''))), c, os)))"

text \<open>Closing the write half of an upgraded call.\<close>

definition close_live ::
  "('r, 'w, 'h, 'x, 'p) net \<Rightarrow> (('r, 'w, 'h, 'q, 'p) client_conn, unit result) async" where
  "close_live N os c =
     (case gcc_inner c of
        Inner_Duplex live \<Rightarrow>
          on_duplex live (await_fut (fut_map_err (\<lambda>e. st_unavailable (lit ''close error: '' @ e)) (n_close N))
            os (lv_reader live)) c
      | _ \<Rightarrow> (Finished (Inr ()), c, os))"

definition close_send ::
  "('r, 'w, 'h, 'x, 'p) net \<Rightarrow> (('r, 'w, 'h, 'q, 'p) client_conn, unit result) async" where
  "close_send N os c =
     (case gcc_inner c of
        Inner_Pending pending \<Rightarrow>
          (let c = c\<lparr>gcc_inner := Inner_Pending (pending\<lparr>pd_send_closed := True\<rparr>)\<rparr> in
           if gcc_full_duplex c then async_try (materialize_duplex N) (close_live N) os c
           else materialize_reading N os c)
      | _ \<Rightarrow> close_live N os c)"

section \<open>Receiving\<close>

definition read_live ::
  "codecs \<Rightarrow> 'r poll_read_fn \<Rightarrow> (bytes \<Rightarrow> 'p result) \<Rightarrow> nat \<Rightarrow> ('r, 'h) live \<Rightarrow> ('p result) option poll \<times> ('r, 'h) live" where
  "read_live C poll_read decode max_size live =
     (case poll_read_message C poll_read decode (lv_response_encoding live) max_size (lv_read_state live) (lv_reader live) of
        (p, st, reader) \<Rightarrow> (p, live\<lparr>lv_read_state := st, lv_reader := reader\<rparr>))"

text \<open>The \<open>poll_fn\<close> of \<open>read_one\<close>, whose output is wrapped in \<open>Ok\<close>.\<close>

definition read_poll ::
  "('r, 'w, 'h, 'x, 'p) net \<Rightarrow> (bytes \<Rightarrow> 'p result) \<Rightarrow> nat \<Rightarrow> (('r, 'w, 'h) inner, ('p result) option result) fut" where
  "read_poll N decode max_size o1 inner =
     (case inner of
        Inner_Reading live \<Rightarrow>
          (case read_live (e_codecs (n_env N)) (n_response_body N) decode max_size live of
             (p, live) \<Rightarrow> (map_poll Inr p, Inner_Reading live))
      | Inner_Duplex live \<Rightarrow>
          (case read_live (e_codecs (n_env N)) (n_upgrade_read N) decode max_size live of
             (p, live) \<Rightarrow> (map_poll Inr p, Inner_Duplex live))
      | _ \<Rightarrow> (Ready (Inr None), inner))"

text \<open>\<open>is_trailers_only\<close> and \<open>finish_from_trailers\<close> only touch \<open>self.inner\<close>.\<close>

definition is_trailers_only :: "('r, 'w, 'h) inner \<Rightarrow> bool" where
  "is_trailers_only inner \<longleftrightarrow>
     (case inner of
        Inner_Reading live \<Rightarrow> lv_head_status live \<noteq> None
      | Inner_Duplex live \<Rightarrow> lv_head_status live \<noteq> None
      | _ \<Rightarrow> False)"

definition finish_from_trailers ::
  "('r, 'w, 'h, 'x, 'p) net \<Rightarrow> ('r, 'w, 'h) inner \<Rightarrow> unit result \<times> ('r, 'w, 'h) inner" where
  "finish_from_trailers N inner =
     (let H = e_headers (n_env N); B = e_base64 (n_env N);
          or_default = (\<lambda>tr. case tr of Some t \<Rightarrow> t | None \<Rightarrow> h_new H) in
      case (case inner of
              Inner_Reading live \<Rightarrow>
                (lv_response_headers live, lv_head_status live, or_default (n_response_trailers N (lv_reader live)))
            | Inner_Duplex live \<Rightarrow>
                (lv_response_headers live, lv_head_status live, or_default (n_received_trailers N (lv_reader live)))
            | _ \<Rightarrow> (h_new H, None, h_new H)) of
        (response_headers, head_status, trailers) \<Rightarrow>
          (case (if h_get_str H trailers (lit ''grpc-status'') \<noteq> None then (from_trailers H B trailers, trailers)
                 else (case head_status of
                         Some st \<Rightarrow> (st, response_headers)
                       | None \<Rightarrow> (from_trailers H B trailers, trailers))) of
             (status, trailers) \<Rightarrow> (status, Inner_Done response_headers trailers)))"

definition client_read_one ::
  "('r, 'w, 'h, 'x, 'p) net \<Rightarrow> (('r, 'w, 'h, 'q, 'p) client_conn, 'p option result) async" where
  "client_read_one N os c =
     (case await_fut (client_race (n_delay N) (n_or_read N) (gcc_deadline c)
             (read_poll N (gcc_decode c) (gcc_max_message_size c))) os (Unstarted, gcc_inner c) of
        (x, (t, inner), os) \<Rightarrow>
          (case x of
             Panicked \<Rightarrow> (Panicked, c\<lparr>gcc_inner := inner\<rparr>, os)
           | Suspended \<Rightarrow> (Suspended, c\<lparr>gcc_inner := inner\<rparr>, os)
           | Finished (Inr (Some (Inr msg))) \<Rightarrow>
               (if is_trailers_only inner then
                  (Finished (Inl (st_internal
                     (lit ''trailers-only response (grpc-status in headers) carried a message body''))),
                   c\<lparr>gcc_inner := snd (finish_from_trailers N inner)\<rparr>, os)
                else (Finished (Inr (Some msg)), c\<lparr>gcc_inner := inner\<rparr>, os))
           | Finished (Inr (Some (Inl status))) \<Rightarrow>
               (Finished (Inl status), c\<lparr>gcc_inner := snd (finish_from_trailers N inner)\<rparr>, os)
           | Finished (Inr None) \<Rightarrow>
               (case finish_from_trailers N inner of
                  (r, inner) \<Rightarrow> (Finished (map_sum id (\<lambda>_. None) r), c\<lparr>gcc_inner := inner\<rparr>, os))
           | Finished (Inl status) \<Rightarrow> (Finished (Inl status), c\<lparr>gcc_inner := inner\<rparr>, os)))"

text \<open>The part of \<open>recv\<close> after the request has fired.\<close>

definition recv_live ::
  "('r, 'w, 'h, 'x, 'p) net \<Rightarrow> (('r, 'w, 'h, 'q, 'p) client_conn, 'p option result) async" where
  "recv_live N os c =
     (case gcc_inner c of
        Inner_Reading _ \<Rightarrow> client_read_one N os c
      | Inner_Duplex _ \<Rightarrow> client_read_one N os c
      | Inner_Done _ _ \<Rightarrow> (Finished (Inr None), c, os)
      | Inner_Failed status \<Rightarrow>
          (Finished (Inl status),
           c\<lparr>gcc_inner := Inner_Done (h_new (e_headers (n_env N))) (h_new (e_headers (n_env N)))\<rparr>, os)
      | Inner_Pending _ \<Rightarrow> (Panicked, c, os))"

definition client_recv ::
  "('r, 'w, 'h, 'x, 'p) net \<Rightarrow> (('r, 'w, 'h, 'q, 'p) client_conn, 'p option result) async" where
  "client_recv N os c =
     (case gcc_inner c of
        Inner_Pending _ \<Rightarrow>
          async_try (if gcc_full_duplex c then materialize_duplex N else materialize_reading N) (recv_live N) os c
      | _ \<Rightarrow> recv_live N os c)"

end
