(* ===== verification/ClientCalls.thy ===== *)
theory ClientCalls
  imports ClientConn
begin

text \<open>
  The properties of the client's engine: what its race against the deadline and the caller's
  cancellation can do, the life of a call (no operation panics, and none leads back), how
  the end of a response is judged, and how a response is delivered message by message.
\<close>

section \<open>Lemmas: futures\<close>

lemma await_not_panicked [simp]: "await_fut f os s \<noteq> (Panicked, s', os')"
  by (induction os arbitrary: s) (auto split: prod.splits poll.splits)

text \<open>Awaiting is driving; a future that is suspended has left no polls.\<close>

lemma await_drive: "await_fut f os s = (Finished x, s', os') \<Longrightarrow> drive f os s = Some (x, s')"
  by (induction os arbitrary: s) (auto split: prod.splits poll.splits)

lemma await_rest:
  "await_fut f os s = (r, s', os') \<Longrightarrow> set os' \<subseteq> set os \<and> length os' \<le> length os \<and>
     (r = Suspended \<longleftrightarrow> os' = [])"
proof (induction os arbitrary: s)
  case (Cons o1 os)
  obtain p s1 where f: "f o1 s = (p, s1)" by fastforce
  show ?case
  proof (cases p)
    case Pending
    with f Cons.prems have "await_fut f os s1 = (r, s', os')" by simp
    from Cons.IH [OF this] show ?thesis by auto
  qed (use f Cons.prems in auto)
qed simp

text \<open>An invariant of every poll is kept.\<close>

lemma await_keep:
  assumes "\<And>o1 s p s'. o1 \<in> set os \<Longrightarrow> I s \<Longrightarrow> f o1 s = (p, s') \<Longrightarrow> I s'"
  shows "I s \<Longrightarrow> await_fut f os s = (r, s', os') \<Longrightarrow> I s'"
  using assms
proof (induction os arbitrary: s)
  case (Cons o1 os)
  obtain p s1 where f: "f o1 s = (p, s1)" by fastforce
  from Cons.prems(3) [OF _ Cons.prems(1) f] have "I s1" by simp
  moreover have "I s1" if "o2 \<in> set os" "I s" "f o2 s = (p, s1)" for o2 s p s1
    using Cons.prems(3) [of o2 s p s1] that by simp
  ultimately show ?case using Cons.IH [of s1] Cons.prems(2) f by (cases p) auto
qed simp

text \<open>What one poll of the client's race does: the caller's cancellation and the deadline come first.\<close>

definition disturbed :: "nat option \<Rightarrow> obs \<Rightarrow> bool" where
  "disturbed deadline o1 \<longleftrightarrow> ob_shutdown o1 \<or> (\<exists>i. deadline = Some i \<and> i \<le> ob_now o1)"

definition race_error :: "nat option \<Rightarrow> obs \<Rightarrow> status \<Rightarrow> bool" where
  "race_error deadline o1 e \<longleftrightarrow>
     (e = st_call_cancelled \<and> ob_shutdown o1) \<or>
     (e = st_elapsed \<and> (\<exists>i. deadline = Some i \<and> i \<le> ob_now o1))"

lemma race_error_disturbed: "race_error deadline o1 e \<Longrightarrow> disturbed deadline o1"
  by (auto simp: race_error_def disturbed_def)

lemma race_error_wf: "race_error deadline o1 e \<Longrightarrow> metadata_wf (st_metadata e)"
  by (auto simp: race_error_def st_call_cancelled_def st_elapsed_def metadata_wf_new)

lemma client_race_poll:
  assumes o: "or_ok f_or" and D: "delay_ok D" and t: "timer_ok \<lparr>c_deadline = deadline\<rparr> t"
    and r: "client_race D f_or deadline fut o1 (t, s) = (p, (t', s'))"
  shows "timer_ok \<lparr>c_deadline = deadline\<rparr> t' \<and>
    ((fut o1 s = (p, s') \<and> \<not> ob_shutdown o1) \<or> (\<exists>e. race_error deadline o1 e \<and> p = Ready (Inl e) \<and> s' = s))"
proof -
  have nested: "map_prod id (Pair u) (f_or (f_or cancel_fut (race_timer D a b)) fut o1 s) = (p, (t', s')) \<Longrightarrow>
      deadline = Some (a + b) \<Longrightarrow>
      t' = u \<and> ((fut o1 s = (p, s') \<and> \<not> ob_shutdown o1) \<or> (\<exists>e. race_error deadline o1 e \<and> p = Ready (Inl e) \<and> s' = s))" for u a b
    using o D by (cases "fut o1 s"; cases "fst (fut o1 s)")
      (auto simp: or_ok_def delay_ok_def cancel_fut_def race_timer_def race_error_def split: if_splits)
  show ?thesis
  proof (cases deadline)
    case None
    with r o t show ?thesis
      by (cases "fut o1 s") (auto simp: client_race_def or_ok_def cancel_fut_def race_error_def split: if_splits)
  next
    case (Some d)
    show ?thesis
    proof (cases t)
      case Unstarted
      show ?thesis
      proof (cases "ob_now o1 \<le> d")
        case True
        with Some r Unstarted have
          "map_prod id (Pair (Waiting (ob_now o1) (d - ob_now o1)))
            (f_or (f_or cancel_fut (race_timer D (ob_now o1) (d - ob_now o1))) fut o1 s) = (p, (t', s'))"
          by (simp add: client_race_def checked_duration_since_def)
        from nested [OF this] Some True show ?thesis by (auto simp: timer_ok_def)
      next
        case False
        with Some r Unstarted show ?thesis
          by (auto simp: client_race_def checked_duration_since_def race_error_def)
      qed
    next
      case (Waiting a b)
      with Some r t have n: "map_prod id (Pair t) (f_or (f_or cancel_fut (race_timer D a b)) fut o1 s) = (p, (t', s'))"
          "deadline = Some (a + b)" by (auto simp: client_race_def timer_ok_def)
      from nested [OF n] t show ?thesis by simp
    qed
  qed
qed

text \<open>The race as a whole.\<close>

lemma await_race_outcome:
  assumes o: "or_ok f_or" and D: "delay_ok D"
  shows "timer_ok \<lparr>c_deadline = deadline\<rparr> t \<Longrightarrow>
    await_fut (client_race D f_or deadline fut) os (t, s) = (r, (t', s'), os') \<Longrightarrow>
    await_fut fut os s = (r, s', os') \<or>
    (\<exists>o1 \<in> set os. \<exists>e. race_error deadline o1 e \<and> r = Finished (Inl e))"
proof (induction os arbitrary: t s)
  case (Cons o1 os)
  obtain p t1 s1 where r: "client_race D f_or deadline fut o1 (t, s) = (p, (t1, s1))" by (metis prod_cases3)
  note one = client_race_poll [OF o D Cons.prems(1) r]
  show ?case
  proof (cases p)
    case Pending
    with one have f: "fut o1 s = (Pending, s1)" by auto
    from Pending r Cons.prems(2) have "await_fut (client_race D f_or deadline fut) os (t1, s1) = (r, (t', s'), os')"
      by simp
    from Cons.IH [OF _ this] one f show ?thesis by auto
  next
    case (Ready y)
    with r Cons.prems(2) have "r = Finished y" "s1 = s'" "os' = o1 # os" by auto
    with one Ready show ?thesis by auto
  qed
qed simp

lemma await_race_calm:
  assumes o: "or_ok f_or" and D: "delay_ok D"
  shows "timer_ok \<lparr>c_deadline = deadline\<rparr> t \<Longrightarrow> \<forall>o1 \<in> set os. \<not> disturbed deadline o1 \<Longrightarrow>
    \<exists>t'. await_fut (client_race D f_or deadline fut) os (t, s) =
      (case await_fut fut os s of (r, s', os') \<Rightarrow> (r, (t', s'), os'))"
proof (induction os arbitrary: t s)
  case (Cons o1 os)
  obtain p t1 s1 where r: "client_race D f_or deadline fut o1 (t, s) = (p, (t1, s1))" by (metis prod_cases3)
  from client_race_poll [OF o D Cons.prems(1) r] Cons.prems(2) race_error_disturbed [of deadline o1]
  have one: "fut o1 s = (p, s1)" "timer_ok \<lparr>c_deadline = deadline\<rparr> t1" by auto
  show ?case
  proof (cases p)
    case Pending
    with r one Cons.IH [OF one(2), of s1] Cons.prems(2) show ?thesis by simp
  qed (use r one in auto)
qed simp

text \<open>
  A race whose first poll sees the cancellation or the deadline does not poll the future. A
  deadline that is over is seen first, then the cancellation, then the timer of a deadline that
  is reached in this very instant, provided that the runtime's timer over no time is ready at once.
\<close>

definition ready_at_once :: "delay_fn \<Rightarrow> nat option \<Rightarrow> obs \<Rightarrow> bool" where
  "ready_at_once D deadline o1 \<longleftrightarrow> (deadline = Some (ob_now o1) \<longrightarrow> D (ob_now o1) 0 (ob_now o1))"

definition cut_off_error :: "nat option \<Rightarrow> obs \<Rightarrow> status" where
  "cut_off_error deadline o1 =
     (if ob_shutdown o1 \<and> (\<forall>i. deadline = Some i \<longrightarrow> ob_now o1 \<le> i) then st_call_cancelled else st_elapsed)"

definition cut_off :: "delay_fn \<Rightarrow> nat option \<Rightarrow> obs \<Rightarrow> bool" where
  "cut_off D deadline o1 \<longleftrightarrow> disturbed deadline o1 \<and> (ob_shutdown o1 \<or> ready_at_once D deadline o1)"

lemma cut_off_shutdown: "ob_shutdown o1 \<Longrightarrow> cut_off D deadline o1"
  by (simp add: cut_off_def disturbed_def)

lemma cut_off_race_error: "cut_off D deadline o1 \<Longrightarrow> race_error deadline o1 (cut_off_error deadline o1)"
  by (auto simp: cut_off_def disturbed_def race_error_def cut_off_error_def not_le)

lemma client_race_cut_off:
  assumes "or_ok f_or" and "cut_off D deadline o1"
  shows "\<exists>t'. client_race D f_or deadline fut o1 (Unstarted, s) =
    (Ready (Inl (cut_off_error deadline o1)), (t', s))"
  using assms
  by (auto simp: client_race_def or_ok_def cancel_fut_def cut_off_def cut_off_error_def disturbed_def ready_at_once_def
      race_timer_def checked_duration_since_def split: option.splits)

lemma client_race_disturbed:
  assumes "or_ok f_or" and "ob_shutdown o1"
  shows "\<exists>t' e. client_race D f_or deadline fut o1 (Unstarted, s) = (Ready (Inl e), (t', s)) \<and>
    race_error deadline o1 e"
  using client_race_cut_off [OF assms(1) cut_off_shutdown [OF assms(2)]]
    cut_off_race_error [OF cut_off_shutdown [OF assms(2)]] by blast

section \<open>Lemmas: the life of a call\<close>

text \<open>
  What an operation can make of the transport state, whether it finishes or is dropped: a
  pending call can stay pending (with more buffered, or with its body gone when an opening was
  dropped while it was suspended), become live in its mode, or fail; a live one can stay or end;
  a failed one can end; an ended one stays as it is.
\<close>

fun inner_step :: "bool \<Rightarrow> ('r, 'w, 'h) inner \<Rightarrow> ('r, 'w, 'h) inner \<Rightarrow> bool" where
  "inner_step full_duplex (Inner_Pending p) i \<longleftrightarrow>
     (case i of
        Inner_Pending p' \<Rightarrow> (pd_send_closed p \<longrightarrow> pd_send_closed p') \<and> pd_path p' = pd_path p \<and>
          pd_content_type p' = pd_content_type p \<and>
          (metadata_wf (pd_request_metadata p) \<longrightarrow> metadata_wf (pd_request_metadata p'))
      | Inner_Reading _ \<Rightarrow> \<not> full_duplex | Inner_Duplex _ \<Rightarrow> full_duplex | Inner_Done _ _ \<Rightarrow> True | Inner_Failed _ \<Rightarrow> True)"
| "inner_step full_duplex (Inner_Reading l) i \<longleftrightarrow>
     (case i of Inner_Reading l' \<Rightarrow> lv_response_headers l' = lv_response_headers l \<and> lv_head_status l' = lv_head_status l
      | Inner_Done h _ \<Rightarrow> h = lv_response_headers l | _ \<Rightarrow> False)"
| "inner_step full_duplex (Inner_Duplex l) i \<longleftrightarrow>
     (case i of Inner_Duplex l' \<Rightarrow> lv_response_headers l' = lv_response_headers l \<and> lv_head_status l' = lv_head_status l
      | Inner_Done h _ \<Rightarrow> h = lv_response_headers l | _ \<Rightarrow> False)"
| "inner_step full_duplex (Inner_Failed st) i \<longleftrightarrow> (i = Inner_Failed st \<or> (\<exists>h t. i = Inner_Done h t))"
| "inner_step full_duplex (Inner_Done h t) i \<longleftrightarrow> i = Inner_Done h t"

lemma inner_step_refl [simp, intro]: "inner_step d i i"
  by (cases i) auto

lemma inner_step_trans: "inner_step d i j \<Longrightarrow> inner_step d j k \<Longrightarrow> inner_step d i k"
  by (cases i; cases j; cases k) auto

text \<open>What stays the same in the engine.\<close>

definition conn_step :: "('r, 'w, 'h, 'q, 'p) client_conn \<Rightarrow> ('r, 'w, 'h, 'q, 'p) client_conn \<Rightarrow> bool" where
  "conn_step c c' \<longleftrightarrow>
     inner_step (gcc_full_duplex c) (gcc_inner c) (gcc_inner c') \<and> gcc_full_duplex c' = gcc_full_duplex c \<and>
     gcc_decode c' = gcc_decode c \<and> gcc_encode c' = gcc_encode c \<and>
     gcc_outbound_encoding c' = gcc_outbound_encoding c \<and> gcc_max_message_size c' = gcc_max_message_size c"

lemma conn_step_refl [simp, intro]: "conn_step c c"
  by (simp add: conn_step_def)

lemma conn_step_trans: "conn_step a b \<Longrightarrow> conn_step b c \<Longrightarrow> conn_step a c"
  by (auto simp: conn_step_def intro: inner_step_trans)

lemma conn_step_inner:
  "inner_step (gcc_full_duplex c) (gcc_inner c) i \<Longrightarrow> conn_step c (c\<lparr>gcc_inner := i\<rparr>)"
  by (simp add: conn_step_def)

lemma defer_error_step [intro]: "conn_step c (defer_error e c)"
  by (simp add: defer_error_def conn_step_def split: option.splits)

lemma take_body_pending:
  "gcc_inner c = Inner_Pending pd \<Longrightarrow>
   take_body c = (pd_body pd, c\<lparr>gcc_inner := Inner_Pending (pd\<lparr>pd_body := []\<rparr>)\<rparr>)"
  by (simp add: take_body_def)

text \<open>A pending call can always be fired; a firing that finishes leaves it as it was meant to be, or failed.\<close>

lemma materialize_step:
  assumes "gcc_inner c = Inner_Pending pd"
    and enter: "\<And>head conn. inner_step (gcc_full_duplex c) (Inner_Pending pd) (enter head conn)"
    and m: "materialize N fire enter os c = (x, c', os')"
  shows "x \<noteq> Panicked \<and> conn_step c c' \<and>
    (x = Finished (Inr ()) \<longrightarrow> (\<exists>head conn. gcc_inner c' = enter head conn)) \<and>
    (\<forall>e. x = Finished (Inl e) \<longrightarrow> gcc_inner c' = Inner_Failed e)"
proof (cases "gcc_init_error c")
  case (Some e)
  with assms show ?thesis by (auto simp: materialize_def client_fail_def conn_step_def)
next
  case None
  let ?c = "c\<lparr>gcc_inner := Inner_Pending (pd\<lparr>pd_body := []\<rparr>)\<rparr>"
  obtain rq where rq: "build_request N (clock os) ?c (pd_body pd) = Some rq"
    by (simp add: build_request_def Let_def)
  obtain y t u os1 where a: "await_fut (client_race (n_delay N) (n_or_send N) (gcc_deadline c)
      (fut_map_err transport_error (n_poll N))) os (Unstarted, fire rq) = (y, (t, u), os1)"
    by (metis surj_pair)
  have f: "x = Finished (Inl e) \<and> conn_step c c' \<and> gcc_inner c' = Inner_Failed e"
    if "client_fail e ?c os1 = (x, c', os')" for e
    using that assms(1) by (auto simp: client_fail_def conn_step_def)
  show ?thesis
  proof (cases y)
    case Panicked
    with a show ?thesis by simp
  next
    case Suspended
    with m None a rq assms(1) show ?thesis
      by (auto simp: materialize_def take_body_pending conn_step_def)
  next
    case (Finished z)
    show ?thesis
    proof (cases z)
      case (Inl e)
      with m None a rq assms(1) Finished f [of e] show ?thesis
        by (auto simp: materialize_def take_body_pending)
    next
      case (Inr conn)
      with m None a rq assms(1) Finished have
        d: "(case process_head (n_env N) conn of
            Inr head \<Rightarrow> (Finished (Inr ()), ?c\<lparr>gcc_inner := enter head (rp_reader conn)\<rparr>, os1)
          | Inl status \<Rightarrow> client_fail status ?c os1) = (x, c', os')"
        by (simp add: materialize_def take_body_pending)
      show ?thesis
      proof (cases "process_head (n_env N) conn")
        case (Inl e)
        with d f [of e] show ?thesis by auto
      next
        case (Inr head)
        with d enter assms(1) show ?thesis by (auto simp: conn_step_def; blast)
      qed
    qed
  qed
qed

lemma materialize_reading_step:
  "gcc_inner c = Inner_Pending pd \<Longrightarrow> \<not> gcc_full_duplex c \<Longrightarrow> materialize_reading N os c = (x, c', os') \<Longrightarrow>
   x \<noteq> Panicked \<and> conn_step c c' \<and> (x = Finished (Inr ()) \<longrightarrow> (\<exists>live. gcc_inner c' = Inner_Reading live)) \<and>
   (\<forall>e. x = Finished (Inl e) \<longrightarrow> gcc_inner c' = Inner_Failed e)"
  unfolding materialize_reading_def by (drule (1) materialize_step [rotated 2]) auto

lemma materialize_duplex_step:
  "gcc_inner c = Inner_Pending pd \<Longrightarrow> gcc_full_duplex c \<Longrightarrow> materialize_duplex N os c = (x, c', os') \<Longrightarrow>
   x \<noteq> Panicked \<and> conn_step c c' \<and> (x = Finished (Inr ()) \<longrightarrow> (\<exists>live. gcc_inner c' = Inner_Duplex live)) \<and>
   (\<forall>e. x = Finished (Inl e) \<longrightarrow> gcc_inner c' = Inner_Failed e)"
  unfolding materialize_duplex_def by (drule (1) materialize_step [rotated 2]) auto

text \<open>Live calls.\<close>

lemma read_poll_step: "read_poll N decode max_size o1 i = (p, i') \<Longrightarrow> inner_step d i i'"
  by (auto simp: read_poll_def read_live_def split: inner.splits prod.splits)

definition is_live :: "('r, 'w, 'h) inner \<Rightarrow> bool" where
  "is_live i \<longleftrightarrow> (case i of Inner_Reading _ \<Rightarrow> True | Inner_Duplex _ \<Rightarrow> True | _ \<Rightarrow> False)"

lemma is_live_simps [simp]:
  "is_live (Inner_Reading l)" "is_live (Inner_Duplex l')" "\<not> is_live (Inner_Pending pd)"
  "\<not> is_live (Inner_Done h t)" "\<not> is_live (Inner_Failed e)"
  by (simp_all add: is_live_def)

lemma is_live_cases:
  assumes "is_live i"
  obtains (Reading) l where "i = Inner_Reading l" | (Duplex) l where "i = Inner_Duplex l"
  using assms by (cases i) auto

lemma read_poll_live: "is_live i \<Longrightarrow> read_poll N decode max_size o1 i = (p, i') \<Longrightarrow> is_live i'"
  by (auto simp: read_poll_def is_live_def split: inner.splits prod.splits)

lemma finish_from_trailers_step: "is_live i \<Longrightarrow> inner_step d i (snd (finish_from_trailers N i))"
  by (erule is_live_cases) (auto simp: finish_from_trailers_def Let_def split: option.splits)

lemma finish_from_trailers_done: "\<exists>h t. snd (finish_from_trailers N i) = Inner_Done h t"
  by (auto simp: finish_from_trailers_def Let_def split: option.splits inner.splits prod.splits)

text \<open>The raced read, whatever it ends with, leaves the call live.\<close>

lemma await_read:
  assumes "await_fut (client_race D f_or deadline (read_poll N decode max_size)) os (Unstarted, i) = (x, (t, i'), os')"
    and "or_ok f_or" and "delay_ok D" and "is_live i"
  shows "is_live i' \<and> inner_step d i i'"
proof -
  have "is_live (snd ti') \<and> inner_step d i (snd ti') \<and> timer_ok \<lparr>c_deadline = deadline\<rparr> (fst ti')"
    if "await_fut (client_race D f_or deadline (read_poll N decode max_size)) os (Unstarted, i) = (x, ti', os')" for ti'
  proof (rule await_keep [OF _ _ that])
    fix o1 s p s'
    assume a: "is_live (snd s) \<and> inner_step d i (snd s) \<and> timer_ok \<lparr>c_deadline = deadline\<rparr> (fst s)"
      and r: "client_race D f_or deadline (read_poll N decode max_size) o1 s = (p, s')"
    obtain u j u' j' where s: "s = (u, j)" "s' = (u', j')" by fastforce
    from client_race_poll [OF assms(2,3), of deadline u _ o1 j p u' j'] a r s
    have t: "timer_ok \<lparr>c_deadline = deadline\<rparr> u' \<and>
        (j' = j \<or> read_poll N decode max_size o1 j = (p, j'))" by auto
    then show "is_live (snd s') \<and> inner_step d i (snd s') \<and> timer_ok \<lparr>c_deadline = deadline\<rparr> (fst s')"
      using a s read_poll_live [of j] read_poll_step [of N decode max_size o1 j p j' d]
      by (auto intro: inner_step_trans)
  qed (use assms(4) in auto)
  from this [OF assms(1)] show ?thesis by simp
qed

lemma net_okD [simp, dest]:
  "net_ok N \<Longrightarrow> or_ok (n_or_send N)" "net_ok N \<Longrightarrow> or_ok (n_or_write N)" "net_ok N \<Longrightarrow> or_ok (n_or_read N)"
  "net_ok N \<Longrightarrow> delay_ok (n_delay N)" "net_ok N \<Longrightarrow> env_ok (n_env N)"
  by (simp_all add: net_ok_def)

lemma read_one_step:
  assumes "net_ok N" and "is_live (gcc_inner c)" and r: "client_read_one N os c = (x, c', os')"
  shows "x \<noteq> Panicked \<and> conn_step c c'"
proof -
  obtain y t i os1 where a: "await_fut (client_race (n_delay N) (n_or_read N) (gcc_deadline c)
      (read_poll N (gcc_decode c) (gcc_max_message_size c))) os (Unstarted, gcc_inner c) = (y, (t, i), os1)"
    by (metis surj_pair)
  from await_read [OF a, where d = "gcc_full_duplex c"] assms have i: "is_live i" "inner_step (gcc_full_duplex c) (gcc_inner c) i"
    by auto
  have "conn_step c (c\<lparr>gcc_inner := j\<rparr>)" if "j = i \<or> j = snd (finish_from_trailers N i)" for j
    using i that by (auto intro: conn_step_inner inner_step_trans finish_from_trailers_step)
  moreover from await_not_panicked a have "y \<noteq> Panicked" by metis
  ultimately show ?thesis
    using r by (cases "finish_from_trailers N i")
      (auto simp: client_read_one_def a split: outcome.splits sum.splits option.splits if_splits)
qed

lemma recv_live_step:
  assumes "net_ok N" and "\<And>pd. gcc_inner c \<noteq> Inner_Pending pd" and "recv_live N os c = (x, c', os')"
  shows "x \<noteq> Panicked \<and> conn_step c c'"
  using assms read_one_step [OF assms(1), of c os x c' os']
  by (cases "gcc_inner c") (auto simp: recv_live_def conn_step_def)

lemma async_try_cases:
  assumes "async_try m k os s = (x, s', os')"
  obtains (first) y where "m os s = (y, s', os')" "\<And>v. y \<noteq> Finished (Inr v)" "x = Panicked \<longleftrightarrow> y = Panicked"
      "\<And>e. x = Finished (Inl e) \<longleftrightarrow> y = Finished (Inl e)" "\<And>v. x \<noteq> Finished (Inr v)" "x = Suspended \<longleftrightarrow> y = Suspended"
    | (second) v s1 os1 where "m os s = (Finished (Inr v), s1, os1)" "k os1 s1 = (x, s', os')"
proof -
  obtain y s1 os1 where m: "m os s = (y, s1, os1)" by (metis surj_pair)
  show thesis
  proof (cases y)
    case Panicked
    with m assms show ?thesis by (intro first [of y]) (auto simp: async_try_def)
  next
    case Suspended
    with m assms show ?thesis by (intro first [of y]) (auto simp: async_try_def)
  next
    case (Finished z)
    with m assms show ?thesis
      by (cases z) (auto simp: async_try_def intro: first [of y] second)
  qed
qed

lemma materialize_either_step:
  assumes "gcc_inner c = Inner_Pending pd"
    and "(if gcc_full_duplex c then materialize_duplex N else materialize_reading N) os c = (x, c', os')"
  shows "x \<noteq> Panicked \<and> conn_step c c' \<and> (x = Finished (Inr ()) \<longrightarrow> is_live (gcc_inner c')) \<and>
   (\<forall>e. x = Finished (Inl e) \<longrightarrow> gcc_inner c' = Inner_Failed e)"
  using assms materialize_reading_step [OF assms(1), of N os x c' os'] materialize_duplex_step [OF assms(1), of N os x c' os']
  by (auto split: if_splits)

lemma recv_step:
  assumes "net_ok N" and "client_recv N os c = (x, c', os')"
  shows "x \<noteq> Panicked \<and> conn_step c c'"
proof (cases "\<exists>pd. gcc_inner c = Inner_Pending pd")
  case True
  then obtain pd where pd: "gcc_inner c = Inner_Pending pd" ..
  with assms(2) have "async_try (if gcc_full_duplex c then materialize_duplex N else materialize_reading N)
      (recv_live N) os c = (x, c', os')" by (simp add: client_recv_def)
  then show ?thesis
  proof (cases rule: async_try_cases)
    case (first y)
    with materialize_either_step [OF pd, of N os y] show ?thesis by auto
  next
    case (second v c1 os1)
    with materialize_either_step [OF pd, of N os "Finished (Inr v)" c1 os1]
    have "conn_step c c1" "is_live (gcc_inner c1)" by auto
    with recv_live_step [OF assms(1) _ second(2)] show ?thesis
      by (metis conn_step_trans is_live_simps(3))
  qed
next
  case False
  with assms recv_live_step [OF assms(1), of c os x c' os'] show ?thesis
    by (cases "gcc_inner c") (auto simp: client_recv_def)
qed

lemma open_head_step:
  "open_head N os c = (x, c', os') \<Longrightarrow> x \<noteq> Panicked \<and> conn_step c c'"
  using materialize_either_step [of c _ N os x c' os']
  by (auto simp: open_head_def split: inner.splits if_splits)

text \<open>Awaiting on an upgraded call only changes its transport.\<close>

lemma on_duplex_step:
  "gcc_inner c = Inner_Duplex live \<Longrightarrow> on_duplex live (y, w, os1) c = (x, c', os') \<Longrightarrow> x = y \<and> conn_step c c'"
  by (auto simp: on_duplex_def conn_step_def)

lemma send_step:
  assumes "client_send N message os c = (x, c', os')"
  shows "x \<noteq> Panicked \<and> conn_step c c'"
proof (cases "request_frame N c message")
  case (Inl e)
  with assms show ?thesis by (auto simp: client_send_def)
next
  case (Inr frame)
  show ?thesis
  proof (cases "gcc_inner c")
    case (Inner_Duplex live)
    obtain y t w os1 where a: "await_fut (client_race (n_delay N) (n_or_write N) (gcc_deadline c)
        (fut_map_err (\<lambda>e. st_unavailable (lit ''write error: '' @ e)) (n_write_all N frame)))
        os (Unstarted, lv_reader live) = (y, (t, w), os1)" by (metis surj_pair)
    with await_not_panicked have "y \<noteq> Panicked" by metis
    with on_duplex_step [OF Inner_Duplex, of y w os1 x c' os'] assms Inr Inner_Duplex a show ?thesis
      by (simp add: client_send_def)
  qed (use assms Inr in \<open>auto simp: client_send_def conn_step_def split: if_splits\<close>)
qed

lemma close_live_step:
  assumes "close_live N os c = (x, c', os')"
  shows "x \<noteq> Panicked \<and> conn_step c c'"
proof (cases "gcc_inner c")
  case (Inner_Duplex live)
  obtain y w os1 where a: "await_fut (fut_map_err (\<lambda>e. st_unavailable (lit ''close error: '' @ e)) (n_close N))
      os (lv_reader live) = (y, w, os1)" by (metis surj_pair)
  with await_not_panicked have "y \<noteq> Panicked" by metis
  with on_duplex_step [OF Inner_Duplex, of y w os1 x c' os'] assms Inner_Duplex a show ?thesis
    by (simp add: close_live_def)
qed (use assms in \<open>auto simp: close_live_def\<close>)

lemma close_send_step:
  assumes "close_send N os c = (x, c', os')"
  shows "x \<noteq> Panicked \<and> conn_step c c'"
proof (cases "gcc_inner c")
  case (Inner_Pending pd)
  let ?c = "c\<lparr>gcc_inner := Inner_Pending (pd\<lparr>pd_send_closed := True\<rparr>)\<rparr>"
  have pd: "gcc_inner ?c = Inner_Pending (pd\<lparr>pd_send_closed := True\<rparr>)" by simp
  have closed: "conn_step c ?c" using Inner_Pending by (simp add: conn_step_def)
  show ?thesis
  proof (cases "gcc_full_duplex c")
    case True
    with assms Inner_Pending have "async_try (materialize_duplex N) (close_live N) os ?c = (x, c', os')"
      by (simp add: close_send_def)
    then show ?thesis
    proof (cases rule: async_try_cases)
      case (first y)
      with materialize_duplex_step [OF pd, of N os y c' os'] True closed show ?thesis
        by (auto intro: conn_step_trans)
    next
      case (second v c1 os1)
      with materialize_duplex_step [OF pd, of N os "Finished (Inr v)" c1 os1] True close_live_step [OF second(2)] closed
      show ?thesis by (auto intro: conn_step_trans)
    qed
  next
    case False
    with assms Inner_Pending have "materialize_reading N os ?c = (x, c', os')" by (simp add: close_send_def)
    with materialize_reading_step [OF pd, of N os x c' os'] False closed show ?thesis
      by (auto intro: conn_step_trans)
  qed
qed (use assms close_live_step [of N os c x c' os'] in \<open>auto simp: close_send_def\<close>)

lemma add_metadata_step:
  "conn_step c (add_ascii_metadata N k v c)" "conn_step c (add_binary_metadata N k b c)"
  by (auto simp: add_ascii_metadata_def add_binary_metadata_def defer_error_def conn_step_def
      intro: insert_ascii_wf insert_binary_wf split: inner.splits sum.splits option.splits)

lemma buffer_request_step: "conn_step c (buffer_request N m c)"
  by (auto simp: buffer_request_def defer_error_def conn_step_def split: inner.splits sum.splits option.splits)

text \<open>
  One operation of the caller on its engine: it may finish, or be dropped while it is suspended.
\<close>

inductive client_step ::
  "('r, 'w, 'h, 'x, 'p) net \<Rightarrow> ('r, 'w, 'h, 'q, 'p) client_conn \<Rightarrow> ('r, 'w, 'h, 'q, 'p) client_conn \<Rightarrow> bool"
  for N where
  add_ascii: "client_step N c (add_ascii_metadata N key value c)"
| add_binary: "client_step N c (add_binary_metadata N key bs c)"
| set_deadline: "set_deadline_from_now N now timeout c = Some c' \<Longrightarrow> client_step N c c'"
| buffer: "client_step N c (buffer_request N message c)"
| head: "open_head N os c = (x, c', os') \<Longrightarrow> client_step N c c'"
| send: "client_send N message os c = (x, c', os') \<Longrightarrow> client_step N c c'"
| close: "close_send N os c = (x, c', os') \<Longrightarrow> client_step N c c'"
| recv: "client_recv N os c = (x, c', os') \<Longrightarrow> client_step N c c'"

inductive_cases client_step_cases: "client_step N c c'"

lemma client_step_conn_step:
  assumes "net_ok N" and "client_step N c c'"
  shows "conn_step c c'"
  using assms(2)
proof cases
  case (set_deadline now timeout)
  then show ?thesis by (auto simp: set_deadline_from_now_def conn_step_def)
qed (use assms(1) in \<open>auto dest: open_head_step send_step close_send_step recv_step
      intro: add_metadata_step buffer_request_step\<close>)

lemma client_steps_conn_step: "(client_step N)\<^sup>*\<^sup>* c c' \<Longrightarrow> net_ok N \<Longrightarrow> conn_step c c'"
  by (induction rule: rtranclp_induct) (auto intro: conn_step_trans client_step_conn_step)

text \<open>
  A call that is not pending has nothing left to fire: its operations do not depend on what the
  transport would make of a request.
\<close>

definition spent :: "('r, 'w, 'h, 'q, 'p) client_conn \<Rightarrow> bool" where
  "spent c \<longleftrightarrow> (\<forall>pd. gcc_inner c \<noteq> Inner_Pending pd)"

lemma conn_step_spent: "conn_step c c' \<Longrightarrow> spent c \<Longrightarrow> spent c'"
  by (cases "gcc_inner c"; cases "gcc_inner c'") (auto simp: conn_step_def spent_def)

lemma spent_live: "is_live (gcc_inner c) \<Longrightarrow> spent c"
  by (auto simp: spent_def)

lemma opened_spent: "\<forall>e. x = Inl e \<longrightarrow> gcc_inner c = Inner_Failed e \<Longrightarrow> x = Inr () \<longrightarrow> is_live (gcc_inner c) \<Longrightarrow> spent c"
  by (cases x) (auto simp: spent_def)

lemma open_head_spent:
  assumes "open_head N os c = (Finished x, c', os')"
  shows "spent c' \<and> (\<forall>e. x = Inl e \<longrightarrow> gcc_inner c' = Inner_Failed e)"
proof (cases "gcc_inner c")
  case (Inner_Pending pd)
  with assms have "(if gcc_full_duplex c then materialize_duplex N else materialize_reading N) os c = (Finished x, c', os')"
    by (simp add: open_head_def split: if_splits)
  from materialize_either_step [OF Inner_Pending this] show ?thesis
    by (auto intro: opened_spent)
qed (use assms in \<open>auto simp: open_head_def spent_def\<close>)

lemma recv_spent:
  assumes "net_ok N" and "client_recv N os c = (Finished x, c', os')"
  shows "spent c'"
proof (cases "gcc_inner c")
  case (Inner_Pending pd)
  with assms(2) have "async_try (if gcc_full_duplex c then materialize_duplex N else materialize_reading N)
      (recv_live N) os c = (Finished x, c', os')" by (simp add: client_recv_def)
  then show ?thesis
  proof (cases rule: async_try_cases)
    case (first y)
    then obtain e where "y = Finished (Inl e)" by (cases x) auto
    with first materialize_either_step [OF Inner_Pending, of N os y c' os'] show ?thesis by (simp add: spent_def)
  next
    case (second v c1 os1)
    with materialize_either_step [OF Inner_Pending, of N os "Finished (Inr v)" c1 os1]
    have "spent c1" by (simp add: spent_live)
    moreover from this have "conn_step c1 c'" using recv_live_step [OF assms(1) _ second(2)] by (simp add: spent_def)
    ultimately show ?thesis using conn_step_spent by blast
  qed
qed (use recv_step [OF assms] conn_step_spent [of c c'] in \<open>auto simp: spent_def\<close>)

lemma close_send_spent:
  assumes "close_send N os c = (Finished x, c', os')"
  shows "spent c'"
proof (cases "gcc_inner c")
  case (Inner_Pending pd)
  let ?c = "c\<lparr>gcc_inner := Inner_Pending (pd\<lparr>pd_send_closed := True\<rparr>)\<rparr>"
  have pd: "gcc_inner ?c = Inner_Pending (pd\<lparr>pd_send_closed := True\<rparr>)" by simp
  show ?thesis
  proof (cases "gcc_full_duplex c")
    case True
    with assms Inner_Pending have "async_try (materialize_duplex N) (close_live N) os ?c = (Finished x, c', os')"
      by (simp add: close_send_def)
    then show ?thesis
    proof (cases rule: async_try_cases)
      case (first y)
      then obtain e where "y = Finished (Inl e)" by (cases x) auto
      with first materialize_duplex_step [OF pd, of N os y c' os'] True show ?thesis by (simp add: spent_def)
    next
      case (second v c1 os1)
      with materialize_duplex_step [OF pd, of N os "Finished (Inr v)" c1 os1] True
      have "spent c1" by (auto simp: spent_def)
      with close_live_step [OF second(2)] conn_step_spent show ?thesis by blast
    qed
  next
    case False
    with assms Inner_Pending have "materialize_reading N os ?c = (Finished x, c', os')" by (simp add: close_send_def)
    with materialize_reading_step [OF pd, of N os "Finished x" c' os'] False show ?thesis
      by (auto intro!: opened_spent [of x])
  qed
qed (use close_send_step [OF assms] conn_step_spent [of c c'] in \<open>auto simp: spent_def\<close>)

lemma spent_no_request:
  assumes "spent c"
  shows "client_recv (N\<lparr>n_poll := poll\<rparr>) os c = client_recv N os c"
    and "open_head (N\<lparr>n_poll := poll\<rparr>) os c = open_head N os c"
    and "close_send (N\<lparr>n_poll := poll\<rparr>) os c = close_send N os c"
    and "client_send (N\<lparr>n_poll := poll\<rparr>) message os c = client_send N message os c"
proof -
  have "read_poll (N\<lparr>n_poll := poll\<rparr>) = read_poll N" "finish_from_trailers (N\<lparr>n_poll := poll\<rparr>) = finish_from_trailers N"
    by (simp_all add: fun_eq_iff read_poll_def finish_from_trailers_def Let_def split: inner.split)
  note same = this
  have "client_read_one (N\<lparr>n_poll := poll\<rparr>) os c = client_read_one N os c"
    unfolding client_read_one_def same by simp
  with assms show "client_recv (N\<lparr>n_poll := poll\<rparr>) os c = client_recv N os c"
    by (simp add: client_recv_def recv_live_def spent_def split: inner.split)
  show "open_head (N\<lparr>n_poll := poll\<rparr>) os c = open_head N os c"
    "close_send (N\<lparr>n_poll := poll\<rparr>) os c = close_send N os c"
    using assms by (simp_all add: open_head_def close_send_def close_live_def spent_def split: inner.split)
  show "client_send (N\<lparr>n_poll := poll\<rparr>) message os c = client_send N message os c"
    by (simp add: client_send_def request_frame_def split: sum.split inner.split)
qed

text \<open>A poll that sees the cancellation or the deadline ends the race before the raced future is polled.\<close>

lemma recv_cut_off_live:
  assumes "net_ok N" and "cut_off (n_delay N) (gcc_deadline c) o1" and live: "is_live (gcc_inner c)"
  shows "client_recv N (o1 # os) c = (Finished (Inl (cut_off_error (gcc_deadline c) o1)), c, o1 # os)"
proof -
  from client_race_cut_off [OF net_okD(3) [OF assms(1)] assms(2), of
      "read_poll N (gcc_decode c) (gcc_max_message_size c)" "gcc_inner c"]
  have "client_read_one N (o1 # os) c = (Finished (Inl (cut_off_error (gcc_deadline c) o1)), c, o1 # os)"
    by (auto simp: client_read_one_def)
  with live show ?thesis by (cases "gcc_inner c") (simp_all add: client_recv_def recv_live_def)
qed

lemma send_cut_off_duplex:
  assumes "net_ok N" and "cut_off (n_delay N) (gcc_deadline c) o1" and "gcc_inner c = Inner_Duplex live"
    and "request_frame N c message = Inr frame"
  shows "client_send N message (o1 # os) c = (Finished (Inl (cut_off_error (gcc_deadline c) o1)), c, o1 # os)"
  using client_race_cut_off [OF net_okD(2) [OF assms(1)] assms(2), of
      "fut_map_err (\<lambda>e. st_unavailable (lit ''write error: '' @ e)) (n_write_all N frame)" "lv_reader live"] assms(3,4)
  by (auto simp: client_send_def on_duplex_def)

lemma materialize_cut_off:
  assumes "net_ok N" and "cut_off (n_delay N) (gcc_deadline c) o1" and "gcc_inner c = Inner_Pending pd"
    and "gcc_init_error c = None"
  shows "materialize N fire enter (o1 # os) c = (Finished (Inl (cut_off_error (gcc_deadline c) o1)),
    c\<lparr>gcc_inner := Inner_Failed (cut_off_error (gcc_deadline c) o1)\<rparr>, o1 # os)"
proof -
  let ?c = "c\<lparr>gcc_inner := Inner_Pending (pd\<lparr>pd_body := []\<rparr>)\<rparr>"
  obtain rq where rq: "build_request N (ob_now o1) ?c (pd_body pd) = Some rq"
    by (simp add: build_request_def Let_def)
  from client_race_cut_off [OF net_okD(1) [OF assms(1)] assms(2), of
      "fut_map_err transport_error (n_poll N)" "fire rq"] rq assms(3,4)
  show ?thesis by (auto simp: materialize_def take_body_pending client_fail_def)
qed

lemma recv_cut_off_pending:
  assumes "net_ok N" and "cut_off (n_delay N) (gcc_deadline c) o1" and "gcc_inner c = Inner_Pending pd"
    and "gcc_init_error c = None"
  shows "client_recv N (o1 # os) c = (Finished (Inl (cut_off_error (gcc_deadline c) o1)),
    c\<lparr>gcc_inner := Inner_Failed (cut_off_error (gcc_deadline c) o1)\<rparr>, o1 # os)"
  using materialize_cut_off [OF assms] assms(3)
  by (simp add: client_recv_def async_try_def materialize_duplex_def materialize_reading_def)

lemma recv_cancelled_live:
  assumes "net_ok N" and "ob_shutdown o1" and "is_live (gcc_inner c)"
  shows "\<exists>e. race_error (gcc_deadline c) o1 e \<and> client_recv N (o1 # os) c = (Finished (Inl e), c, o1 # os)"
  using recv_cut_off_live [OF assms(1) cut_off_shutdown [OF assms(2)] assms(3)]
    cut_off_race_error [OF cut_off_shutdown [OF assms(2)]] by blast

lemma materialize_cancelled:
  assumes "net_ok N" and "ob_shutdown o1" and "gcc_inner c = Inner_Pending pd" and "gcc_init_error c = None"
  shows "\<exists>e c'. race_error (gcc_deadline c) o1 e \<and> materialize N fire enter (o1 # os) c = (Finished (Inl e), c', o1 # os) \<and>
    gcc_inner c' = Inner_Failed e"
  using materialize_cut_off [OF assms(1) cut_off_shutdown [OF assms(2)] assms(3,4)]
    cut_off_race_error [OF cut_off_shutdown [OF assms(2)]] by fastforce

lemma recv_cancelled_pending:
  assumes "net_ok N" and "ob_shutdown o1" and "gcc_inner c = Inner_Pending pd" and "gcc_init_error c = None"
  shows "\<exists>e c'. race_error (gcc_deadline c) o1 e \<and> client_recv N (o1 # os) c = (Finished (Inl e), c', o1 # os) \<and>
    gcc_inner c' = Inner_Failed e"
  using recv_cut_off_pending [OF assms(1) cut_off_shutdown [OF assms(2)] assms(3,4)]
    cut_off_race_error [OF cut_off_shutdown [OF assms(2)]] by fastforce

section \<open>A transport for examples\<close>

text \<open>
  The request future answers with a fixed response after a number of polls; the reader of a
  response is its bytes and its trailers, and an upgraded call reads what was sent to it.
\<close>

type_synonym example_headers = "(str, str list) alist"
type_synonym example_reader = "bytes \<times> example_headers"

definition example_poll ::
  "(example_reader, example_headers) response \<Rightarrow> (nat, str + (example_reader, example_headers) response) fut" where
  "example_poll rp o1 n = (case n of 0 \<Rightarrow> (Ready (Inr rp), 0) | Suc k \<Rightarrow> (Pending, k))"

definition example_read :: "example_reader poll_read_fn" where
  "example_read r n = (Ready (Inr (take n (fst r))), (drop n (fst r), snd r))"

definition example_net ::
  "nat \<Rightarrow> (example_reader, example_headers) response
   \<Rightarrow> (example_reader, example_reader, example_headers, nat, bytes) net" where
  "example_net polls rp =
     \<lparr>n_env = example_env, n_delay = exact_delay, n_default_headers = DAList.empty,
      n_post = (\<lambda>_. DAList.empty), n_send = (\<lambda>_. polls), n_upgrade = (\<lambda>_. polls), n_poll = example_poll rp,
      n_response_body = example_read, n_response_trailers = (\<lambda>r. Some (snd r)), n_into_upgrade = id,
      n_upgrade_read = example_read, n_received_trailers = (\<lambda>r. Some (snd r)),
      n_write_all = (\<lambda>bs o1 r. (Ready (Inr ()), (fst r @ bs, snd r))), n_close = (\<lambda>o1 r. (Ready (Inr ()), r)),
      n_or_send = fl_or simple_select, n_or_write = fl_or simple_select, n_or_read = fl_or simple_select\<rparr>"

definition example_rp :: "(example_reader, example_headers) response" where
  "example_rp = \<lparr>rp_status = Some 200, rp_headers = DAList.empty, rp_reader = ([], DAList.empty)\<rparr>"

definition example_live :: "(example_reader, example_headers) live" where
  "example_live = \<lparr>lv_reader = ([0, 0, 0, 0, 1, 7], DAList.empty), lv_response_headers = DAList.empty,
     lv_read_state = read_state_new, lv_response_encoding = Identity, lv_head_status = None\<rparr>"

lemma or_ok_simple: "or_ok (fl_or simple_select)"
  by (simp add: or_ok_def simple_select_def)

lemma net_ok_example: "net_ok (example_net n rp)"
  by (simp add: net_ok_def example_net_def env_ok_example delay_ok_exact or_ok_simple)

definition example_call :: "(example_reader, example_reader, example_headers, bytes, bytes) client_conn" where
  "example_call =
     \<lparr>gcc_inner = Inner_Pending \<lparr>pd_path = lit ''Say'', pd_content_type = lit ''application/grpc+proto'',
        pd_request_metadata = metadata_new, pd_body = [0, 0, 0, 0, 1, 7], pd_send_closed = False\<rparr>,
      gcc_decode = decode_response raw_codec, gcc_encode = encode_msg raw_codec, gcc_outbound_encoding = Identity,
      gcc_max_message_size = DEFAULT_MAX_MESSAGE_SIZE, gcc_full_duplex = False, gcc_deadline = None,
      gcc_init_error = None\<rparr>"

abbreviation at_time :: "nat \<Rightarrow> obs" where
  "at_time n \<equiv> \<lparr>ob_shutdown = False, ob_now = n\<rparr>"

abbreviation cancelled_at :: "nat \<Rightarrow> obs" where
  "cancelled_at n \<equiv> \<lparr>ob_shutdown = True, ob_now = n\<rparr>"

section \<open>Properties\<close>

text \<open>
  C10: The life of a call. Whatever the caller does with its engine (configure it, send, close,
  receive, read the head; with any polls, finishing the operation or dropping it half-way),
  nothing leads back: a half-duplex call only becomes \<open>Reading\<close>, a full-duplex one only
  \<open>Duplex\<close>; the head of the response does not change; a call that has ended stays as it is; the
  mode, the codec, the encoding and the size limit are fixed; no operation reaches an
  \<open>unreachable!()\<close>. An operation that opens the call and finishes, with success or an error,
  leaves it not pending, the error of the opening stored as \<open>Failed\<close>; and a call that is not
  pending stays so and fires no request, whatever the transport would make of one. So an opening
  that has finished is never repeated. (An opening that the caller drops while it is suspended
  leaves the call pending, and it can then fire again: see the lemma \<open>dropped_open_loses_body\<close>.)
\<close>

theorem call_lifecycle:
  assumes "net_ok N" and "(client_step N)\<^sup>*\<^sup>* c c'"
  shows "conn_step c c' \<and> (spent c \<longrightarrow> spent c') \<and>
    fst (client_recv N os c') \<noteq> Panicked \<and> fst (client_send N message os c') \<noteq> Panicked \<and>
    fst (close_send N os c') \<noteq> Panicked \<and> fst (open_head N os c') \<noteq> Panicked \<and>
    (\<forall>x c1 os1. open_head N os c' = (Finished x, c1, os1) \<longrightarrow>
       spent c1 \<and> (\<forall>e. x = Inl e \<longrightarrow> gcc_inner c1 = Inner_Failed e)) \<and>
    (\<forall>x c1 os1. close_send N os c' = (Finished x, c1, os1) \<longrightarrow> spent c1) \<and>
    (\<forall>x c1 os1. client_recv N os c' = (Finished x, c1, os1) \<longrightarrow> spent c1) \<and>
    (spent c' \<longrightarrow>
       (\<forall>poll. client_recv (N\<lparr>n_poll := poll\<rparr>) os c' = client_recv N os c' \<and>
          client_send (N\<lparr>n_poll := poll\<rparr>) message os c' = client_send N message os c' \<and>
          close_send (N\<lparr>n_poll := poll\<rparr>) os c' = close_send N os c' \<and>
          open_head (N\<lparr>n_poll := poll\<rparr>) os c' = open_head N os c'))"
proof -
  have "fst (client_recv N os c') \<noteq> Panicked" using recv_step [OF assms(1), of os c']
    by (cases "client_recv N os c'") auto
  moreover have "fst (client_send N message os c') \<noteq> Panicked" using send_step [of N message os c']
    by (cases "client_send N message os c'") auto
  moreover have "fst (close_send N os c') \<noteq> Panicked" using close_send_step [of N os c']
    by (cases "close_send N os c'") auto
  moreover have "fst (open_head N os c') \<noteq> Panicked" using open_head_step [of N os c']
    by (cases "open_head N os c'") auto
  moreover have "conn_step c c'" by (rule client_steps_conn_step [OF assms(2,1)])
  moreover from this have "spent c \<longrightarrow> spent c'" using conn_step_spent by blast
  ultimately show ?thesis
    using open_head_spent close_send_spent recv_spent [OF assms(1)] spent_no_request [where N = N and c = c' and os = os]
    by (intro conjI allI impI) (assumption | blast)+
qed

definition example_not_found :: "(example_reader, example_headers) response" where
  "example_not_found = example_rp\<lparr>rp_status := Some 404\<rparr>"

theorem call_lifecycle_witness:
  "\<exists>c1 c2. let e = status_new Unimplemented (lit ''HTTP '' @ show_nat 404) in
     client_recv (example_net 0 example_not_found) [at_time 0] example_call = (Finished (Inl e), c1, [at_time 0]) \<and>
     gcc_inner c1 = Inner_Failed e \<and> spent c1 \<and>
     (\<forall>poll. client_recv (example_net 0 example_not_found\<lparr>n_poll := poll\<rparr>) [at_time 1] c1 = (Finished (Inl e), c2, [at_time 1]) \<and>
        client_recv (example_net 0 example_not_found\<lparr>n_poll := poll\<rparr>) [at_time 2] c2 = (Finished (Inr None), c2, [at_time 2]))"
proof -
  let ?N = "example_net 0 example_not_found" and ?e = "status_new Unimplemented (lit ''HTTP '' @ show_nat 404)"
  let ?c = "example_call\<lparr>gcc_inner := Inner_Pending \<lparr>pd_path = lit ''Say'', pd_content_type = lit ''application/grpc+proto'',
        pd_request_metadata = metadata_new, pd_body = [], pd_send_closed = False\<rparr>\<rparr>"
  let ?c1 = "?c\<lparr>gcc_inner := Inner_Failed ?e\<rparr>"
  let ?c2 = "?c1\<lparr>gcc_inner := Inner_Done DAList.empty DAList.empty\<rparr>"
  have r: "client_recv ?N [at_time 0] example_call = (Finished (Inl ?e), ?c1, [at_time 0])"
    by (simp add: client_recv_def example_call_def async_try_def materialize_reading_def materialize_def take_body_def
        build_request_def example_net_def client_race_def simple_select_def cancel_fut_def fut_map_err_def
        example_poll_def process_head_def http_to_grpc_status_def client_fail_def example_not_found_def Let_def
        example_rp_def)
  have r1: "client_recv ?N [at_time 1] ?c1 = (Finished (Inl ?e), ?c2, [at_time 1])"
    by (simp add: client_recv_def recv_live_def example_net_def example_env_def dalist_headers_def)
  have r2: "client_recv ?N [at_time 2] ?c2 = (Finished (Inr None), ?c2, [at_time 2])"
    by (simp add: client_recv_def recv_live_def)
  have s1: "(client_step ?N)\<^sup>*\<^sup>* example_call ?c1" using client_step.recv [OF r] by blast
  then have s2: "(client_step ?N)\<^sup>*\<^sup>* example_call ?c2" using client_step.recv [OF r1] by (rule rtranclp.rtrancl_into_rtrancl)
  have "\<forall>x c1 os1. client_recv ?N [at_time 0] example_call = (Finished x, c1, os1) \<longrightarrow> spent c1"
    using call_lifecycle [OF net_ok_example [of 0 example_not_found] rtranclp.rtrancl_refl [of "client_step ?N" example_call],
        where os = "[at_time 0]"] by simp
  from this [rule_format, OF r] have p1: "spent ?c1" .
  then have p2: "spent ?c2" by (simp add: spent_def)
  have "\<forall>poll. client_recv (?N\<lparr>n_poll := poll\<rparr>) [at_time 1] ?c1 = client_recv ?N [at_time 1] ?c1"
    using call_lifecycle [OF net_ok_example s1, where os = "[at_time 1]"] p1 by simp
  moreover have "\<forall>poll. client_recv (?N\<lparr>n_poll := poll\<rparr>) [at_time 2] ?c2 = client_recv ?N [at_time 2] ?c2"
    using call_lifecycle [OF net_ok_example s2, where os = "[at_time 2]"] p2 by simp
  ultimately show ?thesis
    using r r1 r2 p1 by (intro exI [of _ ?c1] exI [of _ ?c2]) (simp add: Let_def)
qed

text \<open>
  C12: Cancellation and the deadline win over a response that is already there: a \<open>recv\<close> on a
  live call, or a \<open>send\<close> on an upgraded one, whose first poll sees that the caller has
  cancelled or that the deadline is reached, returns an error and leaves the engine exactly as it
  was, with no byte read or written; and a call that has not fired ends as \<open>Failed\<close> without its
  request being polled. The error is \<open>DeadlineExceeded\<close> when the deadline is over or nobody has
  cancelled, and \<open>Cancelled\<close> otherwise. It does not end a live call: every later \<open>recv\<close> under the
  same conditions returns it again. Of the runtime's timer this needs, for a deadline that is
  reached in the very instant of the poll, that a timer over no time is ready at once.
\<close>

theorem cancel_wins:
  assumes "net_ok N" and "ob_shutdown o1 \<or> (\<exists>i. gcc_deadline c = Some i \<and> i \<le> ob_now o1)"
    and "gcc_deadline c = Some (ob_now o1) \<and> \<not> ob_shutdown o1 \<longrightarrow> n_delay N (ob_now o1) 0 (ob_now o1)"
    and "e = (if ob_shutdown o1 \<and> (\<forall>i. gcc_deadline c = Some i \<longrightarrow> ob_now o1 \<le> i) then st_cancelled (lit ''call cancelled'')
      else status_new DeadlineExceeded (lit ''deadline elapsed''))"
  shows "(is_live (gcc_inner c) \<longrightarrow> client_recv N (o1 # os) c = (Finished (Inl e), c, o1 # os)) \<and>
    (\<forall>live frame. gcc_inner c = Inner_Duplex live \<and> request_frame N c message = Inr frame \<longrightarrow>
      client_send N message (o1 # os) c = (Finished (Inl e), c, o1 # os)) \<and>
    (\<forall>pd. gcc_inner c = Inner_Pending pd \<and> gcc_init_error c = None \<longrightarrow>
      (\<forall>poll. client_recv (N\<lparr>n_poll := poll\<rparr>) (o1 # os) c = (Finished (Inl e), c\<lparr>gcc_inner := Inner_Failed e\<rparr>, o1 # os)))"
proof -
  have e: "e = cut_off_error (gcc_deadline c) o1"
    using assms(4) by (simp add: cut_off_error_def st_call_cancelled_def st_elapsed_def)
  have cut: "cut_off (n_delay N) (gcc_deadline c) o1"
    using assms(2,3) by (auto simp: cut_off_def disturbed_def ready_at_once_def)
  have "client_recv (N\<lparr>n_poll := poll\<rparr>) (o1 # os) c = (Finished (Inl e), c\<lparr>gcc_inner := Inner_Failed e\<rparr>, o1 # os)"
    if "gcc_inner c = Inner_Pending pd" "gcc_init_error c = None" for pd poll
  proof -
    have "net_ok (N\<lparr>n_poll := poll\<rparr>)" using assms(1) unfolding net_ok_def by simp
    moreover have "cut_off (n_delay (N\<lparr>n_poll := poll\<rparr>)) (gcc_deadline c) o1" using cut by simp
    ultimately show ?thesis unfolding e using that by (rule recv_cut_off_pending)
  qed
  then show ?thesis
    unfolding e using recv_cut_off_live [OF assms(1) cut] send_cut_off_duplex [OF assms(1) cut] by blast
qed

theorem cancel_wins_witness:
  "client_recv (example_net 0 example_rp) [cancelled_at 3] (example_call\<lparr>gcc_inner := Inner_Reading example_live\<rparr>)
   = (Finished (Inl st_call_cancelled), example_call\<lparr>gcc_inner := Inner_Reading example_live\<rparr>, [cancelled_at 3]) \<and>
   client_recv (example_net 0 example_rp) [at_time 7] (example_call\<lparr>gcc_inner := Inner_Reading example_live, gcc_deadline := Some 7\<rparr>)
   = (Finished (Inl st_elapsed), example_call\<lparr>gcc_inner := Inner_Reading example_live, gcc_deadline := Some 7\<rparr>, [at_time 7])"
proof -
  let ?c = "example_call\<lparr>gcc_inner := Inner_Reading example_live\<rparr>" and ?N = "example_net 0 example_rp"
  have "client_recv ?N [cancelled_at 3] ?c = (Finished (Inl st_call_cancelled), ?c, [cancelled_at 3])"
    using cancel_wins [OF net_ok_example [of 0 example_rp], of "cancelled_at 3" ?c st_call_cancelled "[]"]
    by (simp add: example_call_def st_call_cancelled_def)
  moreover have "client_recv ?N [at_time 7] (?c\<lparr>gcc_deadline := Some 7\<rparr>) = (Finished (Inl st_elapsed), ?c\<lparr>gcc_deadline := Some 7\<rparr>, [at_time 7])"
    using cancel_wins [OF net_ok_example [of 0 example_rp], of "at_time 7" "?c\<lparr>gcc_deadline := Some 7\<rparr>" st_elapsed "[]"]
    by (simp add: example_net_def exact_delay_def st_elapsed_def)
  ultimately show ?thesis by simp
qed

text \<open>
  An open that is dropped loses the request: when the caller drops a \<open>recv\<close> (or
  \<open>open_head\<close>) that is suspended while the head of the response is awaited, for instance in a
  timeout of its own, the call is pending again, but the buffered request messages are gone;
  nothing records that, so the next \<open>recv\<close> fires a second request, with an empty body.
\<close>

lemma dropped_open_loses_body:
  assumes "gcc_inner c = Inner_Pending pd" and "gcc_init_error c = None"
    and "open_head N os c = (Suspended, c', os')"
  shows "c' = c\<lparr>gcc_inner := Inner_Pending (pd\<lparr>pd_body := []\<rparr>)\<rparr> \<and> take_body c' = ([], c') \<and>
    (\<exists>request. build_request N now c' [] = Some request \<and> rq_body request = [])"
proof -
  let ?c = "c\<lparr>gcc_inner := Inner_Pending (pd\<lparr>pd_body := []\<rparr>)\<rparr>"
  have "c' = ?c" if m: "materialize N fire enter os c = (Suspended, c', os')" for fire enter
  proof -
    obtain rq where rq: "build_request N (clock os) ?c (pd_body pd) = Some rq"
      by (simp add: build_request_def Let_def)
    with m assms(1,2) show ?thesis
      by (auto simp: materialize_def take_body_pending client_fail_def
          split: prod.splits outcome.splits sum.splits)
  qed
  with assms(1,3) have "c' = ?c"
    by (auto simp: open_head_def materialize_duplex_def materialize_reading_def split: if_splits)
  then show ?thesis by (simp add: take_body_def build_request_def Let_def)
qed

lemma dropped_open_loses_body_witness:
  "fst (take_body (fst (snd (open_head (example_net 5 example_rp) [at_time 0] example_call)))) = []"
proof -
  let ?pd = "\<lparr>pd_path = lit ''Say'', pd_content_type = lit ''application/grpc+proto'',
        pd_request_metadata = metadata_new, pd_body = [0, 0, 0, 0, 1, 7], pd_send_closed = False\<rparr>"
  have p: "gcc_inner example_call = Inner_Pending ?pd" "gcc_init_error example_call = None"
    by (simp_all add: example_call_def)
  have "\<exists>c'. open_head (example_net 5 example_rp) [at_time 0] example_call = (Suspended, c', [])"
    by (simp add: open_head_def example_call_def materialize_reading_def materialize_def take_body_def
        build_request_def example_net_def client_race_def simple_select_def cancel_fut_def fut_map_err_def
        example_poll_def Let_def)
  then obtain c' where o: "open_head (example_net 5 example_rp) [at_time 0] example_call = (Suspended, c', [])" ..
  from dropped_open_loses_body [OF p o] have "fst (take_body c') = []" by (metis fst_conv)
  with o show ?thesis by simp
qed

text \<open>
  What the engine makes of a response's head: a status other than 200 is the gRPC status of
  the HTTP mapping (also when the head carries a \<open>grpc-status\<close>), then a content type that is
  not gRPC is \<open>Unknown\<close>, then an encoding the build does not have is \<open>Internal\<close>; any other
  head is accepted, and no head is accepted otherwise.
\<close>

lemma head_verdict:
  "(rp_status conn \<noteq> Some 200 \<longrightarrow>
      process_head E conn = Inl (http_to_grpc_status (case rp_status conn of Some s \<Rightarrow> s | None \<Rightarrow> 0))) \<and>
   (rp_status conn = Some 200 \<longrightarrow>
      Option.bind (h_get_str (e_headers E) (rp_headers conn) (lit ''content-type'')) parse_grpc_content_type = None \<longrightarrow>
      (\<exists>m. process_head E conn = Inl (st_unknown m))) \<and>
   (rp_status conn = Some 200 \<longrightarrow>
      Option.bind (h_get_str (e_headers E) (rp_headers conn) (lit ''content-type'')) parse_grpc_content_type \<noteq> None \<longrightarrow>
      (case extract_request_encoding E (rp_headers conn) of
         Inl _ \<Rightarrow> \<exists>m. process_head E conn = Inl (st_internal m)
       | Inr enc \<Rightarrow> \<exists>head. process_head E conn = Inr head \<and> hd_response_encoding head = enc \<and>
           hd_response_headers head = rp_headers conn \<and>
           (hd_head_status head = None \<longleftrightarrow> h_get_str (e_headers E) (rp_headers conn) (lit ''grpc-status'') = None)))"
  by (auto simp: process_head_def extract_request_encoding_def Let_def split: option.splits sum.splits)

lemma head_verdict_witness:
  "process_head example_env \<lparr>rp_status = Some 404, rp_headers = DAList.empty, rp_reader = ()\<rparr> =
     Inl (status_new Unimplemented (lit ''HTTP '' @ show_nat 404))"
  using head_verdict [of "\<lparr>rp_status = Some 404, rp_headers = DAList.empty, rp_reader = ()\<rparr>" example_env]
  by (simp add: http_to_grpc_status_def)

text \<open>A failed open is reported twice: by the operation that fired it, and by the next \<open>recv\<close>.\<close>

lemma open_error_twice:
  assumes "gcc_inner c = Inner_Pending pd"
    and "open_head N os c = (Finished (Inl e), c', os')"
  shows "\<exists>c''. client_recv N os1 c' = (Finished (Inl e), c'', os1) \<and>
    client_recv N os2 c'' = (Finished (Inr None), c'', os2)"
proof -
  from assms have "(if gcc_full_duplex c then materialize_duplex N else materialize_reading N) os c = (Finished (Inl e), c', os')"
    by (simp add: open_head_def split: if_splits)
  from materialize_either_step [OF assms(1) this] have "gcc_inner c' = Inner_Failed e" by blast
  then show ?thesis by (simp add: client_recv_def recv_live_def)
qed

end
