(* ===== verification/Delivery.thy ===== *)
theory Delivery
  imports ClientCalls
begin

text \<open>
  How the client's engine delivers a response: a reader that brings the body and then the
  trailers (the interface \<open>response_source\<close>), the two modes of a live call (the interface
  \<open>call_mode\<close>, interpreted for \<open>Reading\<close> and \<open>Duplex\<close>), and the refinement of the abstract
  delivery, a list of messages and a verdict, by repeated \<open>recv\<close>.
\<close>

section \<open>Readers with trailers\<close>

locale response_source = live_source poll_read content good delay
  for poll_read :: "'r poll_read_fn" and content :: "'r \<Rightarrow> bytes" and good :: "'r \<Rightarrow> bool" and delay :: "'r \<Rightarrow> nat" +
  fixes trailers :: "'r \<Rightarrow> 'h option" and final :: "'r \<Rightarrow> 'h"
  assumes final_keep: "good r \<Longrightarrow> poll_read r n = (p, r') \<Longrightarrow> final r' = final r"
    and trailers_at_end: "good r \<Longrightarrow> poll_read r n = (Ready (Inr []), r') \<Longrightarrow> 0 < n \<Longrightarrow> trailers r' = Some (final r)"
begin

text \<open>The messages of such a reader, as a source of items.\<close>

lemma messages_source:
  "item_source (poll_next C poll_read) (message_todo C content) (message_sound good) (\<lambda>s. delay (ms_reader s))"
  by (rule messages.item_source_axioms)

lemma fill_loop_final:
  "fill_loop poll_read buf filled r = (f, buf', filled', r') \<Longrightarrow> good r \<Longrightarrow>
   final r' = final r \<and> (f = FillEof \<longrightarrow> trailers r' = Some (final r))"
proof (induction buf filled r rule: fill_loop_induct [where poll_read = poll_read])
  case (full buf filled r)
  then show ?case by (auto simp: fill_loop_full)
next
  case (stop buf filled r p r1)
  then show ?case
    using final_keep [of r "length buf - filled" p r1] trailers_at_end [of r "length buf - filled" r1]
    by (auto simp: fill_loop_stop split: poll.splits sum.splits)
next
  case (more buf filled r bs r1)
  with keep [OF more.prems(2) more.hyps(2)] final_keep [OF more.prems(2) more.hyps(2)]
  show ?case by (simp add: fill_loop_more)
qed

text \<open>A reader that has reported the end has its trailers; a message leaves the reader at a frame.\<close>

lemma poll_read_message_final:
  assumes "poll_read_message C poll_read decode enc max_size st r = (p, st', r')" and "good r" and "st \<noteq> Done"
  shows "final r' = final r \<and> (p = Ready None \<longrightarrow> trailers r' = Some (final r)) \<and>
    (\<forall>m. p = Ready (Some (Inr m)) \<longrightarrow> st' = read_state_new) \<and> (p = Pending \<longrightarrow> st' \<noteq> Done)"
proof -
  have payload: "final r' = final r1 \<and> p \<noteq> Ready None \<and>
      (\<forall>m. p = Ready (Some (Inr m)) \<longrightarrow> st' = read_state_new) \<and> (p = Pending \<longrightarrow> st' \<noteq> Done)"
    if "poll_read_message C poll_read decode enc max_size (ReadingPayload c pl k) r1 = (p, st', r')" "good r1" for c pl k r1
    using that fill_loop_final [of pl k r1] by (auto split: prod.splits fill.splits)
  show ?thesis
  proof (cases st)
    case Done
    with assms(3) show ?thesis by simp
  next
    case (ReadingPayload c pl k)
    with assms payload [of c pl k r] show ?thesis by auto
  next
    case (ReadingPrefix buf k)
    obtain f buf1 k1 r1 where f: "fill_loop poll_read buf k r = (f, buf1, k1, r1)" by (metis surj_pair)
    note fin = fill_loop_final [OF f assms(2)] fill_loop_keep [OF f assms(2)]
    show ?thesis
      using assms(1) fin payload [of "buf1 ! 0 \<noteq> 0" "replicate (frame_len buf1) 0" 0 r1]
      by (cases f) (auto simp: ReadingPrefix f Let_def split: if_splits)
  qed
qed

end

section \<open>The two modes of a live call\<close>

definition live_stream :: "(bytes \<Rightarrow> 'p result) \<Rightarrow> nat \<Rightarrow> ('r, 'h) live \<Rightarrow> ('p, 'r) message_stream" where
  "live_stream decode max_size live =
     \<lparr>ms_reader = lv_reader live, ms_state = lv_read_state live, ms_max_message_size = max_size,
      ms_encoding = lv_response_encoding live, ms_decode = decode\<rparr>"

definition same_head :: "('r, 'h) live \<Rightarrow> ('r, 'h) live \<Rightarrow> bool" where
  "same_head l l' \<longleftrightarrow> lv_response_headers l' = lv_response_headers l \<and> lv_head_status l' = lv_head_status l \<and>
     lv_response_encoding l' = lv_response_encoding l"

lemma same_head_trans: "same_head a b \<Longrightarrow> same_head b c \<Longrightarrow> same_head a c"
  by (simp add: same_head_def)

lemma read_live_poll_next:
  "read_live C poll_read decode max_size live = (p, live') \<Longrightarrow>
   poll_next C poll_read (live_stream decode max_size live) = (p, live_stream decode max_size live') \<and>
   same_head live live'"
  by (auto simp: read_live_def poll_next_def live_stream_def same_head_def split: prod.splits)

text \<open>The judgement at the end of a response, and the trailers that the call then shows.\<close>

definition verdict :: "'h env \<Rightarrow> (unit result) option \<Rightarrow> 'h \<Rightarrow> unit result" where
  "verdict E head_status trailers =
     (if h_get_str (e_headers E) trailers (lit ''grpc-status'') \<noteq> None
      then from_trailers (e_headers E) (e_base64 E) trailers
      else (case head_status of Some st \<Rightarrow> st | None \<Rightarrow> from_trailers (e_headers E) (e_base64 E) trailers))"

definition shown_trailers :: "'h env \<Rightarrow> (unit result) option \<Rightarrow> 'h \<Rightarrow> 'h \<Rightarrow> 'h" where
  "shown_trailers E head_status headers trailers =
     (if h_get_str (e_headers E) trailers (lit ''grpc-status'') = None \<and> head_status \<noteq> None then headers else trailers)"

locale call_mode =
  fixes wrap :: "('s, 'h) live \<Rightarrow> ('r, 'w, 'h) inner"
    and reader :: "('r, 'w, 'h, 'x, 'p) net \<Rightarrow> 's poll_read_fn"
    and trailers_of :: "('r, 'w, 'h, 'x, 'p) net \<Rightarrow> 's \<Rightarrow> 'h option"
  assumes wrap_live: "is_live (wrap live)"
    and read_wrap: "read_poll N decode max_size o1 (wrap live) =
      (case read_live (e_codecs (n_env N)) (reader N) decode max_size live of (p, l) \<Rightarrow> (map_poll Inr p, wrap l))"
    and only_wrap: "is_trailers_only (wrap live) \<longleftrightarrow> lv_head_status live \<noteq> None"
    and finish_wrap: "trailers_of N (lv_reader live) = Some tr \<Longrightarrow> finish_from_trailers N (wrap live) =
      (verdict (n_env N) (lv_head_status live) tr,
       Inner_Done (lv_response_headers live)
         (shown_trailers (n_env N) (lv_head_status live) (lv_response_headers live) tr))"

interpretation reading: call_mode Inner_Reading n_response_body n_response_trailers
  by unfold_locales
     (auto simp: read_poll_def is_trailers_only_def finish_from_trailers_def verdict_def shown_trailers_def Let_def
        split: option.splits prod.splits)

interpretation duplex: call_mode Inner_Duplex n_upgrade_read n_received_trailers
  by unfold_locales
     (auto simp: read_poll_def is_trailers_only_def finish_from_trailers_def verdict_def shown_trailers_def Let_def
        split: option.splits prod.splits)

section \<open>Delivery\<close>

text \<open>
  The abstract delivery of a response: the messages before the first error, and that error or
  the verdict. In a Trailers-Only response a message is itself an error.
\<close>

definition st_body_in_trailers_only :: status where
  "st_body_in_trailers_only = st_internal (lit ''trailers-only response (grpc-status in headers) carried a message body'')"

fun delivered :: "bool \<Rightarrow> ('p result) list \<Rightarrow> unit result \<Rightarrow> 'p list \<times> unit result" where
  "delivered only [] v = ([], v)"
| "delivered only (Inl e # xs) v = ([], Inl e)"
| "delivered only (Inr m # xs) v =
     (if only then ([], Inl st_body_in_trailers_only) else (case delivered only xs v of (ms, r) \<Rightarrow> (m # ms, r)))"

text \<open>Repeated \<open>recv\<close>, at most \<open>n\<close> times.\<close>

fun recv_all ::
  "nat \<Rightarrow> ('r, 'w, 'h, 'x, 'p) net \<Rightarrow> obs list \<Rightarrow> ('r, 'w, 'h, 'q, 'p) client_conn
   \<Rightarrow> 'p list \<times> (unit result) option \<times> ('r, 'w, 'h, 'q, 'p) client_conn" where
  "recv_all 0 N os c = ([], None, c)"
| "recv_all (Suc n) N os c =
     (case client_recv N os c of
        (Finished (Inr (Some m)), c, os) \<Rightarrow> (case recv_all n N os c of (ms, v, c) \<Rightarrow> (m # ms, v, c))
      | (Finished (Inr None), c, os) \<Rightarrow> ([], Some (Inr ()), c)
      | (Finished (Inl e), c, os) \<Rightarrow> ([], Some (Inl e), c)
      | (_, c, os) \<Rightarrow> ([], None, c))"

lemma client_recv_live: "is_live (gcc_inner c) \<Longrightarrow> client_recv N os c = client_read_one N os c"
  by (erule is_live_cases) (simp_all add: client_recv_def recv_live_def)

context call_mode begin

text \<open>A read, awaited under any polls that are enough for the reader's delay.\<close>

lemma await_message:
  assumes "response_source (reader N) content good delay (trailers_of N) final"
    and "message_sound good (live_stream decode max_size live)" and "lv_read_state live \<noteq> Done"
    and "delay (lv_reader live) < length os"
  shows "\<exists>x live' os'. await_fut (read_poll N decode max_size) os (wrap live) = (Finished (Inr x), wrap live', os') \<and>
    same_head live live' \<and> message_sound good (live_stream decode max_size live') \<and>
    delay (lv_reader live') < length os' \<and> final (lv_reader live') = final (lv_reader live) \<and>
    message_todo (e_codecs (n_env N)) content (live_stream decode max_size live) =
      (case x of None \<Rightarrow> [] | Some i \<Rightarrow> i # message_todo (e_codecs (n_env N)) content (live_stream decode max_size live')) \<and>
    (x = None \<longrightarrow> trailers_of N (lv_reader live') = Some (final (lv_reader live))) \<and>
    (\<forall>m. x = Some (Inr m) \<longrightarrow> lv_read_state live' \<noteq> Done)"
  using assms(2-4)
proof (induction os arbitrary: live)
  case (Cons o1 os)
  note live = response_source.messages_source [OF assms(1), of "e_codecs (n_env N)"]
  let ?C = "e_codecs (n_env N)"
  let ?todo = "\<lambda>l. message_todo ?C content (live_stream decode max_size l)"
  obtain p live1 where l: "read_live ?C (reader N) decode max_size live = (p, live1)" by fastforce
  then have poll: "poll_next ?C (reader N) (live_stream decode max_size live) = (p, live_stream decode max_size live1)"
    and head: "same_head live live1" using read_live_poll_next by blast+
  have m: "poll_read_message ?C (reader N) decode (lv_response_encoding live) max_size (lv_read_state live) (lv_reader live)
      = (p, lv_read_state live1, lv_reader live1)"
    using l by (auto simp: read_live_def split: prod.splits)
  have "good (lv_reader live)" using Cons.prems(1) by (simp add: message_sound_def live_stream_def)
  note fin = response_source.poll_read_message_final [OF assms(1) m this Cons.prems(2)]
  note item = item_source.item_keep [OF live Cons.prems(1) poll]
    item_source.item_pending [OF live Cons.prems(1), of "live_stream decode max_size live1"]
    item_source.item_end [OF live Cons.prems(1), of "live_stream decode max_size live1"]
    item_source.item_next [OF live Cons.prems(1), of _ "live_stream decode max_size live1"]
  have r: "lv_reader l = ms_reader (live_stream decode max_size l)" for l :: "('s, 'h) live" by (simp add: live_stream_def)
  show ?case
  proof (cases p)
    case Pending
    from item(2) [OF poll [unfolded Pending]]
    have t: "?todo live1 = ?todo live" "delay (lv_reader live1) < delay (lv_reader live)"
      by (simp_all only: r)
    have ready: "lv_read_state live1 \<noteq> Done" "delay (lv_reader live1) < length os"
      using fin Pending t(2) Cons.prems(3) by simp_all
    have step: "await_fut (read_poll N decode max_size) (o1 # os) (wrap live)
        = await_fut (read_poll N decode max_size) os (wrap live1)"
      by (simp add: read_wrap l Pending)
    have same: "same_head live1 l \<longleftrightarrow> same_head live l" for l
      using head by (simp add: same_head_def)
    from fin have "final (lv_reader live1) = final (lv_reader live)" by blast
    from Cons.IH [OF item(1) ready, unfolded this same t(1)] show ?thesis unfolding step .
  next
    case (Ready x)
    have "delay (lv_reader live1) \<le> delay (lv_reader live) \<and> ?todo live = (case x of None \<Rightarrow> [] | Some i \<Rightarrow> i # ?todo live1)"
    proof (cases x)
      case None
      from item(3) [OF poll [unfolded Ready None]] None show ?thesis by (simp only: r option.case)
    next
      case (Some i)
      from item(4) [OF poll [unfolded Ready Some]] Some show ?thesis by (simp only: r option.case)
    qed
    with Ready l fin head item(1) Cons.prems(3) show ?thesis
      by (intro exI [of _ x] exI [of _ live1] exI [of _ "o1 # os"]) (auto simp: read_wrap)
  qed
qed simp

text \<open>One \<open>recv\<close> while nothing disturbs the call.\<close>

lemma recv_message:
  assumes "net_ok N" and "response_source (reader N) content good delay (trailers_of N) final"
    and "gcc_inner c = wrap live" and "message_sound good (live_stream (gcc_decode c) (gcc_max_message_size c) live)"
    and "lv_read_state live \<noteq> Done" and "delay (lv_reader live) < length os"
    and "\<forall>o1 \<in> set os. \<not> disturbed (gcc_deadline c) o1"
  obtains (none) os' where
      "message_todo (e_codecs (n_env N)) content (live_stream (gcc_decode c) (gcc_max_message_size c) live) = []"
      "client_recv N os c =
        (Finished (map_sum id (\<lambda>_. None) (verdict (n_env N) (lv_head_status live) (final (lv_reader live)))),
         c\<lparr>gcc_inner := Inner_Done (lv_response_headers live)
            (shown_trailers (n_env N) (lv_head_status live) (lv_response_headers live) (final (lv_reader live)))\<rparr>, os')"
    | (some) i live' os' where
      "message_todo (e_codecs (n_env N)) content (live_stream (gcc_decode c) (gcc_max_message_size c) live)
        = i # message_todo (e_codecs (n_env N)) content (live_stream (gcc_decode c) (gcc_max_message_size c) live')"
      "same_head live live'" "message_sound good (live_stream (gcc_decode c) (gcc_max_message_size c) live')"
      "delay (lv_reader live') < length os'" "set os' \<subseteq> set os" "final (lv_reader live') = final (lv_reader live)"
      "\<And>m. i = Inr m \<Longrightarrow> lv_read_state live' \<noteq> Done"
      "client_recv N os c =
        (case i of
           Inl e \<Rightarrow> (Finished (Inl e), c\<lparr>gcc_inner := snd (finish_from_trailers N (wrap live'))\<rparr>, os')
         | Inr m \<Rightarrow>
             if lv_head_status live \<noteq> None
             then (Finished (Inl st_body_in_trailers_only), c\<lparr>gcc_inner := snd (finish_from_trailers N (wrap live'))\<rparr>, os')
             else (Finished (Inr (Some m)), c\<lparr>gcc_inner := wrap live'\<rparr>, os'))"
proof -
  let ?todo = "\<lambda>l. message_todo (e_codecs (n_env N)) content (live_stream (gcc_decode c) (gcc_max_message_size c) l)"
  from await_message [OF assms(2,4-6)] obtain x live' os' where
    a: "await_fut (read_poll N (gcc_decode c) (gcc_max_message_size c)) os (wrap live) = (Finished (Inr x), wrap live', os')"
    and l: "same_head live live'" "message_sound good (live_stream (gcc_decode c) (gcc_max_message_size c) live')"
      "delay (lv_reader live') < length os'" "final (lv_reader live') = final (lv_reader live)"
      "?todo live = (case x of None \<Rightarrow> [] | Some i \<Rightarrow> i # ?todo live')"
      "x = None \<longrightarrow> trailers_of N (lv_reader live') = Some (final (lv_reader live))"
      "\<forall>m. x = Some (Inr m) \<longrightarrow> lv_read_state live' \<noteq> Done"
    by blast
  from await_race_calm [OF net_okD(3) [OF assms(1)] net_okD(4) [OF assms(1)] timer_ok_Unstarted assms(7),
      of "read_poll N (gcc_decode c) (gcc_max_message_size c)" "wrap live"] a
  obtain t where t: "await_fut (client_race (n_delay N) (n_or_read N) (gcc_deadline c)
      (read_poll N (gcc_decode c) (gcc_max_message_size c))) os (Unstarted, wrap live) = (Finished (Inr x), (t, wrap live'), os')"
    by auto
  have recv: "client_recv N os c = client_read_one N os c"
    using assms(3) wrap_live [of live] by (simp add: client_recv_live)
  have heads: "lv_response_headers live' = lv_response_headers live" "lv_head_status live' = lv_head_status live"
    using l(1) by (simp_all add: same_head_def)
  from await_rest [OF a] have os: "set os' \<subseteq> set os" by blast
  show thesis
  proof (cases x)
    case None
    with l have e: "?todo live = []" "trailers_of N (lv_reader live') = Some (final (lv_reader live))" by simp_all
    show thesis
      by (rule none [OF e(1)]) (simp add: recv client_read_one_def assms(3) t None finish_wrap [OF e(2)] heads)
  next
    case (Some i)
    have "client_recv N os c =
        (case i of
           Inl e \<Rightarrow> (Finished (Inl e), c\<lparr>gcc_inner := snd (finish_from_trailers N (wrap live'))\<rparr>, os')
         | Inr m \<Rightarrow>
             if lv_head_status live \<noteq> None
             then (Finished (Inl st_body_in_trailers_only), c\<lparr>gcc_inner := snd (finish_from_trailers N (wrap live'))\<rparr>, os')
             else (Finished (Inr (Some m)), c\<lparr>gcc_inner := wrap live'\<rparr>, os'))"
      by (simp add: recv client_read_one_def assms(3) t Some only_wrap heads st_body_in_trailers_only_def split: sum.splits)
    with some l Some os show thesis by simp
  qed
qed

text \<open>Repeated \<open>recv\<close> refines the abstract delivery.\<close>

lemma recv_all_delivers:
  assumes "net_ok N" and "response_source (reader N) content good delay (trailers_of N) final"
    and "gcc_inner c = wrap live" and "message_sound good (live_stream (gcc_decode c) (gcc_max_message_size c) live)"
    and "lv_read_state live \<noteq> Done" and "delay (lv_reader live) < length os"
    and "\<forall>o1 \<in> set os. \<not> disturbed (gcc_deadline c) o1"
    and "message_todo (e_codecs (n_env N)) content (live_stream (gcc_decode c) (gcc_max_message_size c) live) = xs"
    and "length xs < n"
  shows "\<exists>c' h t. recv_all n N os c =
      (fst (delivered (lv_head_status live \<noteq> None) xs (verdict (n_env N) (lv_head_status live) (final (lv_reader live)))),
       Some (snd (delivered (lv_head_status live \<noteq> None) xs (verdict (n_env N) (lv_head_status live) (final (lv_reader live))))),
       c') \<and>
    gcc_inner c' = Inner_Done h t \<and>
    ((\<forall>e. Inl e \<notin> set xs) \<and> (lv_head_status live \<noteq> None \<longrightarrow> xs = []) \<longrightarrow>
      gcc_inner c' = Inner_Done (lv_response_headers live)
        (shown_trailers (n_env N) (lv_head_status live) (lv_response_headers live) (final (lv_reader live))))"
  using assms(3-)
proof (induction xs arbitrary: n os c live)
  case Nil
  then obtain k where n: "n = Suc k" by (cases n) auto
  show ?case
  proof (rule recv_message [OF assms(1,2) Nil.prems(1-5)], goal_cases)
    case (1 os')
    then show ?case
      by (cases "verdict (n_env N) (lv_head_status live) (final (lv_reader live))") (simp_all add: n)
  qed (use Nil.prems(6) in simp)
next
  case (Cons y ys)
  then obtain k where n: "n = Suc k" "length ys < k" by (cases n) auto
  note finished = finish_from_trailers_done [of N]
  show ?case
  proof (rule recv_message [OF assms(1,2) Cons.prems(1-5)], goal_cases)
    case (2 i live' os')
    then have i: "i = y" and ys: "message_todo (e_codecs (n_env N)) content
        (live_stream (gcc_decode c) (gcc_max_message_size c) live') = ys"
      using Cons.prems(6) by simp_all
    show ?case
    proof (cases y)
      case (Inl e)
      with 2(8) i finished show ?thesis by (simp add: n) blast
    next
      case (Inr m)
      show ?thesis
      proof (cases "lv_head_status live")
        case (Some st)
        with 2(8) i Inr finished show ?thesis by (simp add: n)
      next
        case None
        let ?c = "c\<lparr>gcc_inner := wrap live'\<rparr>"
        have h: "lv_head_status live' = None" "lv_response_headers live' = lv_response_headers live"
          using 2(2) None by (simp_all add: same_head_def)
        have calm: "\<forall>o1 \<in> set os'. \<not> disturbed (gcc_deadline ?c) o1" using 2(5) Cons.prems(5) by auto
        have "\<exists>c' h t. recv_all k N os' ?c =
            (fst (delivered False ys (verdict (n_env N) None (final (lv_reader live)))),
             Some (snd (delivered False ys (verdict (n_env N) None (final (lv_reader live))))), c') \<and>
          gcc_inner c' = Inner_Done h t \<and>
          ((\<forall>e. Inl e \<notin> set ys) \<longrightarrow> gcc_inner c' = Inner_Done (lv_response_headers live)
            (shown_trailers (n_env N) None (lv_response_headers live) (final (lv_reader live))))"
          using Cons.IH [of ?c live' os' k] 2 calm ys n(2) h i Inr by simp
        with 2(8) i Inr None show ?thesis
          by (fastforce simp: n split: prod.splits)
      qed
    qed
  qed (use Cons.prems(6) in simp)
qed

end

lemma message_todo_fresh:
  "message_todo C content (live_stream decode max_size (live_from head r)) =
     items C decode (hd_response_encoding head) max_size (content r)"
  by (simp add: message_todo_def live_stream_def live_from_def remaining_def items_opt_def)

lemma message_sound_fresh: "message_sound good (live_stream decode max_size (live_from head r)) \<longleftrightarrow> good r"
  by (simp add: message_sound_def live_stream_def live_from_def)

interpretation example_source: response_source example_read fst "\<lambda>_. True" "\<lambda>_. 0" "\<lambda>r. Some (snd r)" snd
  by unfold_locales (auto simp: example_read_def)

section \<open>Properties\<close>

text \<open>
  C8: What a half-duplex call delivers: on a response whose body is read by any partial and
  pending reads and is followed by its trailers, while nothing disturbs the call, repeated
  \<open>recv\<close> yields exactly the messages of the body before the first broken one, and then that
  one's error, or the verdict at the end; the verdict is the status of the trailers if they
  have one, else that of the head, and a message in a response whose head already has a status
  is refused. Then the call is over, and it shows the head and the trailers.
\<close>

theorem response_delivered:
  assumes "net_ok N"
    and "response_source (n_response_body N) content good delay (n_response_trailers N) final"
    and "gcc_inner c = Inner_Reading (live_from head r)" and "good r"
    and "delay r < length os" and "\<forall>o1 \<in> set os. \<not> disturbed (gcc_deadline c) o1"
    and "items (e_codecs (n_env N)) (gcc_decode c) (hd_response_encoding head) (gcc_max_message_size c) (content r) = xs"
    and "length xs < n"
  shows "\<exists>c' h t. recv_all n N os c =
      (fst (delivered (hd_head_status head \<noteq> None) xs (verdict (n_env N) (hd_head_status head) (final r))),
       Some (snd (delivered (hd_head_status head \<noteq> None) xs (verdict (n_env N) (hd_head_status head) (final r)))), c') \<and>
    gcc_inner c' = Inner_Done h t \<and>
    ((\<forall>e. Inl e \<notin> set xs) \<and> (hd_head_status head \<noteq> None \<longrightarrow> xs = []) \<longrightarrow>
      gcc_inner c' = Inner_Done (hd_response_headers head)
        (shown_trailers (n_env N) (hd_head_status head) (hd_response_headers head) (final r)))"
  using reading.recv_all_delivers [OF assms(1-3), of os xs n] assms(4-)
  by (simp add: message_todo_fresh message_sound_fresh) (simp add: live_from_def)

theorem response_delivered_witness:
  "fst (recv_all 2 (example_net 0 example_rp) [at_time 0]
     (example_call\<lparr>gcc_inner := Inner_Reading (live_from
        \<lparr>hd_response_headers = DAList.empty, hd_response_encoding = Identity, hd_head_status = None\<rparr>
        ([0, 0, 0, 0, 1, 7], DAList.empty))\<rparr>)) = [[7]]"
proof -
  let ?head = "\<lparr>hd_response_headers = DAList.empty, hd_response_encoding = Identity, hd_head_status = None\<rparr>
    :: example_headers head"
  let ?c = "example_call\<lparr>gcc_inner := Inner_Reading (live_from ?head ([0, 0, 0, 0, 1, 7], DAList.empty))\<rparr>"
  have src: "response_source (n_response_body (example_net 0 example_rp)) fst (\<lambda>_. True) (\<lambda>_. 0)
      (n_response_trailers (example_net 0 example_rp)) snd"
    by (simp add: example_net_def example_source.response_source_axioms)
  have items: "items (e_codecs (n_env (example_net 0 example_rp))) (gcc_decode ?c) (hd_response_encoding ?head)
      (gcc_max_message_size ?c) (fst ([0, 0, 0, 0, 1, 7], DAList.empty :: example_headers)) = [Inr [7]]"
    using items_frame [of "[7]" DEFAULT_MAX_MESSAGE_SIZE prefix_codecs "decode_response raw_codec" Identity 0 "[]"]
    by (simp add: u32_to_be_bytes_def finish_message_def raw_codec_def DEFAULT_MAX_MESSAGE_SIZE_def
        example_call_def decode_response_def example_net_def example_env_def)
  from response_delivered [OF net_ok_example src, of ?c ?head _ "[at_time 0]", OF _ _ _ _ items, of 2]
  show ?thesis by (auto simp: disturbed_def example_call_def)
qed

end
