(* ===== verification/Typed.thy ===== *)
theory Typed
  imports Delivery
begin

text \<open>
  \<open>src/client/typed.rs\<close>: the three call handles over the engine. A \<open>UnaryConn\<close> is awaited as a
  whole; a \<open>StreamingConn\<close> and a \<open>BidiConn\<close> are streams, whose \<open>recv\<close> in flight owns the
  engine between polls. A future in flight is represented by the engine it was given and the
  observations of the polls it has had. A panic (\<open>expect\<close>, or an \<open>Instant\<close> out of range) is
  \<open>None\<close> or \<open>Panicked\<close>.
\<close>

definition default_timeout :: "('r, 'w, 'h, 'x, 'p) net \<Rightarrow> duration option" where
  "default_timeout N =
     Option.bind (h_get_str (e_headers (n_env N)) (n_default_headers N) (lit ''grpc-timeout'')) parse_grpc_timeout"

section \<open>UnaryConn\<close>

record ('r, 'w, 'h, 'q, 'p, 's) unary_conn =
  uc_engine :: "('r, 'w, 'h, 'q, 'p) client_conn"
  uc_requests :: "'s option"
  uc_outcome :: "('p option \<times> unit result) option"

definition unary_new ::
  "('r, 'w, 'h, 'x, 'p) net \<Rightarrow> nat \<Rightarrow> 'q codec \<Rightarrow> 'p codec \<Rightarrow> str \<Rightarrow> 'q \<Rightarrow> (('r, 'w, 'h, 'q, 'p, 's) unary_conn) option" where
  "unary_new N now Kq Kp path request =
     map_option (\<lambda>engine. \<lparr>uc_engine = buffer_request N request engine, uc_requests = None, uc_outcome = None\<rparr>)
       (client_new N now Kq Kp path metadata_new (default_timeout N) False)"

definition client_streaming_new ::
  "('r, 'w, 'h, 'x, 'p) net \<Rightarrow> nat \<Rightarrow> 'q codec \<Rightarrow> 'p codec \<Rightarrow> str \<Rightarrow> 's \<Rightarrow> (('r, 'w, 'h, 'q, 'p, 's) unary_conn) option" where
  "client_streaming_new N now Kq Kp path reqs =
     map_option (\<lambda>engine. \<lparr>uc_engine = engine, uc_requests = Some reqs, uc_outcome = None\<rparr>)
       (client_new N now Kq Kp path metadata_new (default_timeout N) False)"

definition unary_with_ascii_metadata ::
  "('r, 'w, 'h, 'x, 'p) net \<Rightarrow> str \<Rightarrow> str \<Rightarrow> ('r, 'w, 'h, 'q, 'p, 's) unary_conn \<Rightarrow> ('r, 'w, 'h, 'q, 'p, 's) unary_conn" where
  "unary_with_ascii_metadata N key value u = u\<lparr>uc_engine := add_ascii_metadata N key value (uc_engine u)\<rparr>"

definition unary_with_binary_metadata ::
  "('r, 'w, 'h, 'x, 'p) net \<Rightarrow> str \<Rightarrow> bytes \<Rightarrow> ('r, 'w, 'h, 'q, 'p, 's) unary_conn \<Rightarrow> ('r, 'w, 'h, 'q, 'p, 's) unary_conn" where
  "unary_with_binary_metadata N key value u = u\<lparr>uc_engine := add_binary_metadata N key value (uc_engine u)\<rparr>"

definition unary_with_timeout ::
  "('r, 'w, 'h, 'x, 'p) net \<Rightarrow> nat \<Rightarrow> duration \<Rightarrow> ('r, 'w, 'h, 'q, 'p, 's) unary_conn
   \<Rightarrow> (('r, 'w, 'h, 'q, 'p, 's) unary_conn) option" where
  "unary_with_timeout N now timeout u =
     map_option (\<lambda>engine. u\<lparr>uc_engine := engine\<rparr>) (set_deadline_from_now N now timeout (uc_engine u))"

definition unary_metadata :: "('r, 'w, 'h, 'q, 'p, 's) unary_conn \<Rightarrow> 'h option" where
  "unary_metadata u = client_headers (uc_engine u)"

definition unary_trailers :: "('r, 'w, 'h, 'q, 'p, 's) unary_conn \<Rightarrow> 'h option" where
  "unary_trailers u = client_trailers (uc_engine u)"

definition unary_message :: "('r, 'w, 'h, 'q, 'p, 's) unary_conn \<Rightarrow> 'p option" where
  "unary_message u = Option.bind (uc_outcome u) fst"

definition unary_conn_status :: "('r, 'w, 'h, 'q, 'p, 's) unary_conn \<Rightarrow> unit result" where
  "unary_conn_status u = (case uc_outcome u of Some (_, s) \<Rightarrow> s | None \<Rightarrow> Inr ())"

definition into_message :: "('r, 'w, 'h, 'q, 'p, 's) unary_conn \<Rightarrow> 'p result" where
  "into_message u =
     (case uc_outcome u of
        Some (message, status) \<Rightarrow>
          and_then status (\<lambda>_. case message of
            Some m \<Rightarrow> Inr m | None \<Rightarrow> Inl (st_internal (lit ''unary response had no message'')))
      | None \<Rightarrow> Inl (st_internal (lit ''call has not been awaited'')))"

text \<open>
  The loop that sends the requests of a stream. It need not end (a stream can always have one
  more), so it has fuel, one unit per message; without fuel it counts as suspended.
\<close>

fun send_requests ::
  "nat \<Rightarrow> ('r, 'w, 'h, 'x, 'p) net \<Rightarrow> ('s \<Rightarrow> 'q option poll \<times> 's)
   \<Rightarrow> (('r, 'w, 'h, 'q, 'p) client_conn \<times> 's, unit result) async" where
  "send_requests 0 N next_req os es = (Suspended, es, os)"
| "send_requests (Suc n) N next_req os es =
     (case es of (engine, s) \<Rightarrow>
       (case await_fut (\<lambda>_. next_req) os s of
          (Panicked, s, os) \<Rightarrow> (Panicked, (engine, s), os)
        | (Suspended, s, os) \<Rightarrow> (Suspended, (engine, s), os)
        | (Finished None, s, os) \<Rightarrow> (Finished (Inr ()), (engine, s), os)
        | (Finished (Some message), s, os) \<Rightarrow>
            (case client_send N message os engine of
               (Finished (Inr _), engine, os) \<Rightarrow> send_requests n N next_req os (engine, s)
             | (x, engine, os) \<Rightarrow> (x, (engine, s), os))))"

definition read_unary ::
  "('r, 'w, 'h, 'x, 'p) net \<Rightarrow> (('r, 'w, 'h, 'q, 'p) client_conn, 'p option \<times> unit result) async" where
  "read_unary N os engine =
     (case client_recv N os engine of
        (Panicked, engine, os) \<Rightarrow> (Panicked, engine, os)
      | (Suspended, engine, os) \<Rightarrow> (Suspended, engine, os)
      | (Finished (Inr (Some message)), engine, os) \<Rightarrow>
          (case client_recv N os engine of
             (Panicked, engine, os) \<Rightarrow> (Panicked, engine, os)
           | (Suspended, engine, os) \<Rightarrow> (Suspended, engine, os)
           | (Finished (Inr None), engine, os) \<Rightarrow> (Finished (Some message, Inr ()), engine, os)
           | (Finished (Inr (Some _)), engine, os) \<Rightarrow>
               (Finished (None, Inl (st_internal (lit ''unary response had multiple messages''))), engine, os)
           | (Finished (Inl status), engine, os) \<Rightarrow> (Finished (Some message, Inl status), engine, os))
      | (Finished (Inr None), engine, os) \<Rightarrow>
          (Finished (None, Inl (st_internal (lit ''unary response had no message''))), engine, os)
      | (Finished (Inl status), engine, os) \<Rightarrow> (Finished (None, Inl status), engine, os))"

text \<open>
  \<open>IntoFuture\<close>: the requests, the half-close, the one response. An error consumes the handle.
\<close>

definition unary_finish ::
  "('r, 'w, 'h, 'x, 'p) net \<Rightarrow> obs list \<Rightarrow> ('r, 'w, 'h, 'q, 'p) client_conn
   \<Rightarrow> (('r, 'w, 'h, 'q, 'p, 's) unary_conn result) outcome" where
  "unary_finish N os engine =
     (case close_send N os engine of
        (Panicked, _, _) \<Rightarrow> Panicked
      | (Suspended, _, _) \<Rightarrow> Suspended
      | (Finished (Inl e), _, _) \<Rightarrow> Finished (Inl e)
      | (Finished (Inr _), engine, os) \<Rightarrow>
          (case read_unary N os engine of
             (Panicked, _, _) \<Rightarrow> Panicked
           | (Suspended, _, _) \<Rightarrow> Suspended
           | (Finished v, engine, os) \<Rightarrow>
               Finished (Inr \<lparr>uc_engine = engine, uc_requests = None, uc_outcome = Some v\<rparr>)))"

definition unary_into_future ::
  "nat \<Rightarrow> ('r, 'w, 'h, 'x, 'p) net \<Rightarrow> ('s \<Rightarrow> 'q option poll \<times> 's) \<Rightarrow> obs list
   \<Rightarrow> ('r, 'w, 'h, 'q, 'p, 's) unary_conn \<Rightarrow> (('r, 'w, 'h, 'q, 'p, 's) unary_conn result) outcome" where
  "unary_into_future n N next_req os u =
     (case uc_requests u of
        None \<Rightarrow> unary_finish N os (uc_engine u)
      | Some s \<Rightarrow>
          (case send_requests n N next_req os (uc_engine u, s) of
             (Panicked, _, _) \<Rightarrow> Panicked
           | (Suspended, _, _) \<Rightarrow> Suspended
           | (Finished (Inl e), _, _) \<Rightarrow> Finished (Inl e)
           | (Finished (Inr _), (engine, _), os) \<Rightarrow> unary_finish N os engine))"

section \<open>StreamingConn\<close>

record ('r, 'w, 'h, 'q, 'p) streaming_conn =
  sc_engine :: "(('r, 'w, 'h, 'q, 'p) client_conn) option"
  sc_in_flight :: "(('r, 'w, 'h, 'q, 'p) client_conn \<times> obs list) option"

definition streaming_new ::
  "('r, 'w, 'h, 'x, 'p) net \<Rightarrow> nat \<Rightarrow> 'q codec \<Rightarrow> 'p codec \<Rightarrow> str \<Rightarrow> 'q \<Rightarrow> (('r, 'w, 'h, 'q, 'p) streaming_conn) option" where
  "streaming_new N now Kq Kp path request =
     map_option (\<lambda>engine. \<lparr>sc_engine = Some (buffer_request N request engine), sc_in_flight = None\<rparr>)
       (client_new N now Kq Kp path metadata_new (default_timeout N) False)"

text \<open>\<open>engine()\<close> and \<open>engine_mut()\<close>, which \<open>expect\<close> the engine: what is done to it, or a panic.\<close>

definition on_engine ::
  "(('r, 'w, 'h, 'q, 'p) client_conn \<Rightarrow> 'a \<times> ('r, 'w, 'h, 'q, 'p) client_conn)
   \<Rightarrow> ('r, 'w, 'h, 'q, 'p) streaming_conn \<Rightarrow> ('a \<times> ('r, 'w, 'h, 'q, 'p) streaming_conn) option" where
  "on_engine f s = map_option (\<lambda>e. case f e of (x, e') \<Rightarrow> (x, s\<lparr>sc_engine := Some e'\<rparr>)) (sc_engine s)"

definition streaming_with_ascii_metadata ::
  "('r, 'w, 'h, 'x, 'p) net \<Rightarrow> str \<Rightarrow> str \<Rightarrow> ('r, 'w, 'h, 'q, 'p) streaming_conn \<Rightarrow> (('r, 'w, 'h, 'q, 'p) streaming_conn) option" where
  "streaming_with_ascii_metadata N key value s = map_option snd (on_engine (\<lambda>e. ((), add_ascii_metadata N key value e)) s)"

definition streaming_with_binary_metadata ::
  "('r, 'w, 'h, 'x, 'p) net \<Rightarrow> str \<Rightarrow> bytes \<Rightarrow> ('r, 'w, 'h, 'q, 'p) streaming_conn \<Rightarrow> (('r, 'w, 'h, 'q, 'p) streaming_conn) option" where
  "streaming_with_binary_metadata N key value s = map_option snd (on_engine (\<lambda>e. ((), add_binary_metadata N key value e)) s)"

definition streaming_with_timeout ::
  "('r, 'w, 'h, 'x, 'p) net \<Rightarrow> nat \<Rightarrow> duration \<Rightarrow> ('r, 'w, 'h, 'q, 'p) streaming_conn \<Rightarrow> (('r, 'w, 'h, 'q, 'p) streaming_conn) option" where
  "streaming_with_timeout N now timeout s =
     Option.bind (sc_engine s) (\<lambda>e. map_option (\<lambda>e'. s\<lparr>sc_engine := Some e'\<rparr>) (set_deadline_from_now N now timeout e))"

definition streaming_metadata :: "('r, 'w, 'h, 'q, 'p) streaming_conn \<Rightarrow> 'h option option" where
  "streaming_metadata s = map_option client_headers (sc_engine s)"

definition streaming_trailers :: "('r, 'w, 'h, 'q, 'p) streaming_conn \<Rightarrow> 'h option option" where
  "streaming_trailers s = map_option client_trailers (sc_engine s)"

text \<open>An \<open>async\<close> method on the engine.\<close>

definition on_engine_async ::
  "(('r, 'w, 'h, 'q, 'p) client_conn, 'a) async \<Rightarrow> (('r, 'w, 'h, 'q, 'p) streaming_conn, 'a) async" where
  "on_engine_async m os s =
     (case sc_engine s of
        None \<Rightarrow> (Panicked, s, os)
      | Some e \<Rightarrow> (case m os e of (x, e', os') \<Rightarrow> (x, s\<lparr>sc_engine := Some e'\<rparr>, os')))"

definition streaming_recv ::
  "('r, 'w, 'h, 'x, 'p) net \<Rightarrow> (('r, 'w, 'h, 'q, 'p) streaming_conn, 'p option result) async" where
  "streaming_recv N = on_engine_async (client_recv N)"

definition streaming_into_future ::
  "('r, 'w, 'h, 'x, 'p) net \<Rightarrow> (('r, 'w, 'h, 'q, 'p) streaming_conn, unit result) async" where
  "streaming_into_future N = on_engine_async (open_head N)"

text \<open>One poll of the \<open>Stream\<close>; \<open>None\<close> is the panic of the \<open>expect\<close> or of the \<open>recv\<close> in flight.\<close>

definition streaming_poll_next ::
  "('r, 'w, 'h, 'x, 'p) net \<Rightarrow> obs \<Rightarrow> ('r, 'w, 'h, 'q, 'p) streaming_conn
   \<Rightarrow> (('p result) option poll \<times> ('r, 'w, 'h, 'q, 'p) streaming_conn) option" where
  "streaming_poll_next N o1 s =
     (case (case sc_in_flight s of
              None \<Rightarrow> map_option (\<lambda>engine. (engine, [])) (sc_engine s)
            | Some fut \<Rightarrow> Some fut) of
        None \<Rightarrow> None
      | Some (engine, seen) \<Rightarrow>
          (case client_recv N (seen @ [o1]) engine of
             (Panicked, _, _) \<Rightarrow> None
           | (Suspended, _, _) \<Rightarrow> Some (Pending, \<lparr>sc_engine = None, sc_in_flight = Some (engine, seen @ [o1])\<rparr>)
           | (Finished x, engine', _) \<Rightarrow>
               Some (Ready (case x of Inr None \<Rightarrow> None | Inr (Some msg) \<Rightarrow> Some (Inr msg) | Inl status \<Rightarrow> Some (Inl status)),
                     \<lparr>sc_engine = Some engine', sc_in_flight = None\<rparr>)))"

section \<open>BidiConn\<close>

text \<open>The same fields, and the same stream, over a full-duplex engine.\<close>

type_synonym ('r, 'w, 'h, 'q, 'p) bidi_conn = "('r, 'w, 'h, 'q, 'p) streaming_conn"

definition bidi_new ::
  "('r, 'w, 'h, 'x, 'p) net \<Rightarrow> nat \<Rightarrow> 'q codec \<Rightarrow> 'p codec \<Rightarrow> str \<Rightarrow> (('r, 'w, 'h, 'q, 'p) bidi_conn) option" where
  "bidi_new N now Kq Kp path =
     map_option (\<lambda>engine. \<lparr>sc_engine = Some engine, sc_in_flight = None\<rparr>)
       (client_new N now Kq Kp path metadata_new (default_timeout N) True)"

definition bidi_with_ascii_metadata ::
  "('r, 'w, 'h, 'x, 'p) net \<Rightarrow> str \<Rightarrow> str \<Rightarrow> ('r, 'w, 'h, 'q, 'p) bidi_conn \<Rightarrow> (('r, 'w, 'h, 'q, 'p) bidi_conn) option" where
  "bidi_with_ascii_metadata = streaming_with_ascii_metadata"

definition bidi_with_binary_metadata ::
  "('r, 'w, 'h, 'x, 'p) net \<Rightarrow> str \<Rightarrow> bytes \<Rightarrow> ('r, 'w, 'h, 'q, 'p) bidi_conn \<Rightarrow> (('r, 'w, 'h, 'q, 'p) bidi_conn) option" where
  "bidi_with_binary_metadata = streaming_with_binary_metadata"

definition bidi_with_timeout ::
  "('r, 'w, 'h, 'x, 'p) net \<Rightarrow> nat \<Rightarrow> duration \<Rightarrow> ('r, 'w, 'h, 'q, 'p) bidi_conn \<Rightarrow> (('r, 'w, 'h, 'q, 'p) bidi_conn) option" where
  "bidi_with_timeout = streaming_with_timeout"

definition bidi_metadata :: "('r, 'w, 'h, 'q, 'p) bidi_conn \<Rightarrow> 'h option option" where
  "bidi_metadata = streaming_metadata"

definition bidi_trailers :: "('r, 'w, 'h, 'q, 'p) bidi_conn \<Rightarrow> 'h option option" where
  "bidi_trailers = streaming_trailers"

definition bidi_send ::
  "('r, 'w, 'h, 'x, 'p) net \<Rightarrow> 'q \<Rightarrow> (('r, 'w, 'h, 'q, 'p) bidi_conn, unit result) async" where
  "bidi_send N message = on_engine_async (client_send N message)"

definition bidi_close_send ::
  "('r, 'w, 'h, 'x, 'p) net \<Rightarrow> (('r, 'w, 'h, 'q, 'p) bidi_conn, unit result) async" where
  "bidi_close_send N = on_engine_async (close_send N)"

definition bidi_recv ::
  "('r, 'w, 'h, 'x, 'p) net \<Rightarrow> (('r, 'w, 'h, 'q, 'p) bidi_conn, 'p option result) async" where
  "bidi_recv N = on_engine_async (client_recv N)"

definition bidi_poll_next ::
  "('r, 'w, 'h, 'x, 'p) net \<Rightarrow> obs \<Rightarrow> ('r, 'w, 'h, 'q, 'p) bidi_conn
   \<Rightarrow> (('p result) option poll \<times> ('r, 'w, 'h, 'q, 'p) bidi_conn) option" where
  "bidi_poll_next = streaming_poll_next"

section \<open>Lemmas: more polls do not change a result\<close>

lemma await_extend:
  "await_fut f os s = (Finished x, s', r) \<Longrightarrow> await_fut f (os @ ex) s = (Finished x, s', r @ ex)"
  by (induction os arbitrary: s) (auto split: prod.splits poll.splits)

lemma await_finished_rest: "await_fut f os s = (Finished x, s', r) \<Longrightarrow> r \<noteq> []"
  using await_rest [of f os s "Finished x" s' r] by auto

lemma clock_append [simp]: "os \<noteq> [] \<Longrightarrow> clock (os @ ex) = clock os"
  by (cases os) auto

lemma client_fail_append:
  "client_fail e c os = (x, c', r) \<Longrightarrow> client_fail e c (os @ ex) = (x, c', r @ ex)"
  by (simp add: client_fail_def)

lemma materialize_extend:
  assumes "os \<noteq> []" and m: "materialize N fire enter os c = (Finished x, c', r)"
  shows "materialize N fire enter (os @ ex) c = (Finished x, c', r @ ex) \<and> r \<noteq> []"
proof (cases "gcc_init_error c")
  case (Some e)
  with assms show ?thesis by (auto simp: materialize_def client_fail_def)
next
  case None
  obtain body c1 where b: "take_body c = (body, c1)" by fastforce
  from None m b obtain rq where rq: "build_request N (clock os) c1 body = Some rq"
    by (cases "build_request N (clock os) c1 body") (auto simp: materialize_def)
  obtain y u os1 where a: "await_fut (client_race (n_delay N) (n_or_send N) (gcc_deadline c1)
      (fut_map_err transport_error (n_poll N))) os (Unstarted, fire rq) = (y, u, os1)" by (metis surj_pair)
  with m None b rq obtain z where y: "y = Finished z" by (cases y) (auto simp: materialize_def)
  note e = await_extend [OF a [unfolded y], of ex] await_finished_rest [OF a [unfolded y]]
  from m None b rq a y e assms(1) show ?thesis
    by (auto simp: materialize_def client_fail_def split: sum.splits)
qed

lemma read_one_extend:
  assumes "client_read_one N os c = (Finished x, c', r)"
  shows "client_read_one N (os @ ex) c = (Finished x, c', r @ ex)"
proof -
  obtain y u os1 where a: "await_fut (client_race (n_delay N) (n_or_read N) (gcc_deadline c)
      (read_poll N (gcc_decode c) (gcc_max_message_size c))) os (Unstarted, gcc_inner c) = (y, u, os1)"
    by (metis surj_pair)
  with assms obtain z where y: "y = Finished z"
    by (cases y) (auto simp: client_read_one_def split: prod.splits)
  from assms a await_extend [OF a [unfolded y], of ex] show ?thesis
    by (auto simp: client_read_one_def y split: prod.splits sum.splits option.splits if_splits)
qed

lemma recv_live_extend:
  "recv_live N os c = (Finished x, c', r) \<Longrightarrow> recv_live N (os @ ex) c = (Finished x, c', r @ ex)"
  by (cases "gcc_inner c") (auto simp: recv_live_def read_one_extend)

lemma async_try_extend:
  assumes "async_try m k os s = (Finished x, c', r)"
    and "\<And>z c1 r1. m os s = (Finished z, c1, r1) \<Longrightarrow> m (os @ ex) s = (Finished z, c1, r1 @ ex)"
    and "\<And>os1 s1. k os1 s1 = (Finished x, c', r) \<Longrightarrow> k (os1 @ ex) s1 = (Finished x, c', r @ ex)"
  shows "async_try m k (os @ ex) s = (Finished x, c', r @ ex)"
proof -
  obtain y c1 r1 where m: "m os s = (y, c1, r1)" by (metis surj_pair)
  with assms(1) obtain z where y: "y = Finished z" by (cases y) (auto simp: async_try_def)
  from assms(1) assms(2) [OF m [unfolded y]] assms(3) m y show ?thesis
    by (cases z) (auto simp: async_try_def)
qed

lemma recv_extend:
  assumes "os \<noteq> []" and "client_recv N os c = (Finished x, c', r)"
  shows "client_recv N (os @ ex) c = (Finished x, c', r @ ex)"
proof (cases "\<exists>pd. gcc_inner c = Inner_Pending pd")
  case True
  let ?m = "if gcc_full_duplex c then materialize_duplex N else materialize_reading N"
  have ext: "?m (os @ ex) c = (Finished z, c1, r1 @ ex)" if "?m os c = (Finished z, c1, r1)" for z c1 r1
    using that materialize_extend [OF assms(1), of N _ _ c z c1 r1 ex]
    by (auto simp: materialize_duplex_def materialize_reading_def split: if_splits)
  from True assms(2) have "async_try ?m (recv_live N) os c = (Finished x, c', r)"
    by (auto simp: client_recv_def)
  from async_try_extend [OF this, of ex, OF ext recv_live_extend] True show ?thesis
    by (auto simp: client_recv_def)
next
  case False
  with assms(2) recv_live_extend [of N os c x c' r ex] show ?thesis
    by (cases "gcc_inner c") (auto simp: client_recv_def)
qed

section \<open>Lemmas: streams\<close>

text \<open>Polling a stream until it is ready, under one observation each.\<close>

fun stream_next ::
  "('r, 'w, 'h, 'x, 'p) net \<Rightarrow> obs list \<Rightarrow> ('r, 'w, 'h, 'q, 'p) streaming_conn
   \<Rightarrow> ('p result) option outcome \<times> ('r, 'w, 'h, 'q, 'p) streaming_conn" where
  "stream_next N [] s = (Suspended, s)"
| "stream_next N (o1 # os) s =
     (case streaming_poll_next N o1 s of
        None \<Rightarrow> (Panicked, s)
      | Some (Pending, s) \<Rightarrow> stream_next N os s
      | Some (Ready x, s) \<Rightarrow> (Finished x, s))"

definition stream_item :: "'p option result \<Rightarrow> ('p result) option" where
  "stream_item x = (case x of Inr None \<Rightarrow> None | Inr (Some msg) \<Rightarrow> Some (Inr msg) | Inl status \<Rightarrow> Some (Inl status))"

lemma stream_next_in_flight:
  assumes "net_ok N" and "seen = [] \<longrightarrow> s = \<lparr>sc_engine = Some e, sc_in_flight = None\<rparr>"
    and "seen \<noteq> [] \<longrightarrow> s = \<lparr>sc_engine = None, sc_in_flight = Some (e, seen)\<rparr>" and "os \<noteq> []"
  shows "(\<exists>c' r. client_recv N (seen @ os) e = (Suspended, c', r) \<and>
        stream_next N os s = (Suspended, \<lparr>sc_engine = None, sc_in_flight = Some (e, seen @ os)\<rparr>)) \<or>
    (\<exists>x e' r. client_recv N (seen @ os) e = (Finished x, e', r) \<and>
        stream_next N os s = (Finished (stream_item x), \<lparr>sc_engine = Some e', sc_in_flight = None\<rparr>))"
  using assms(2-)
proof (induction os arbitrary: s seen)
  case (Cons o1 os)
  have fut: "(case sc_in_flight s of None \<Rightarrow> map_option (\<lambda>engine. (engine, [])) (sc_engine s) | Some fut \<Rightarrow> Some fut)
      = Some (e, seen)"
    using Cons.prems by (cases "seen = []") auto
  obtain x e' r where recv: "client_recv N (seen @ [o1]) e = (x, e', r)" by (metis surj_pair)
  show ?case
  proof (cases x)
    case Panicked
    with recv_step [OF assms(1) recv] show ?thesis by simp
  next
    case (Finished z)
    then have "streaming_poll_next N o1 s = Some (Ready (stream_item z), \<lparr>sc_engine = Some e', sc_in_flight = None\<rparr>)"
      by (simp add: streaming_poll_next_def fut recv stream_item_def)
    with recv_extend [OF _ recv [unfolded Finished], of os] show ?thesis by simp
  next
    case Suspended
    let ?s = "\<lparr>sc_engine = None, sc_in_flight = Some (e, seen @ [o1])\<rparr>"
    from Suspended have "streaming_poll_next N o1 s = Some (Pending, ?s)"
      by (simp add: streaming_poll_next_def fut recv)
    then have next': "stream_next N (o1 # os) s = stream_next N os ?s" by simp
    show ?thesis
    proof (cases "os = []")
      case True
      with next' recv Suspended show ?thesis by simp
    next
      case False
      from Cons.IH [of "seen @ [o1]" ?s, OF _ _ False] show ?thesis by (simp add: next' del: stream_next.simps)
    qed
  qed
qed simp

section \<open>Lemmas: unary calls\<close>

text \<open>Fewer \<open>recv\<close> deliver a prefix.\<close>

lemma recv_all_prefix:
  "recv_all n N os c = (ms, v, c') \<Longrightarrow> m \<le> n \<Longrightarrow>
   \<exists>c''. recv_all m N os c = (take m ms, if length ms < m then v else None, c'') \<and> (length ms < m \<longrightarrow> c'' = c')"
proof (induction n arbitrary: m os c ms v c')
  case (Suc n)
  show ?case
  proof (cases m)
    case (Suc k)
    obtain x c1 os1 where r: "client_recv N os c = (x, c1, os1)" by (metis surj_pair)
    show ?thesis
    proof (cases "\<exists>y. x = Finished (Inr (Some y))")
      case True
      then obtain y where y: "x = Finished (Inr (Some y))" ..
      obtain ms1 v1 c2 where all: "recv_all n N os1 c1 = (ms1, v1, c2)" by (metis surj_pair)
      with Suc.prems r y have eq: "ms = y # ms1" "v = v1" "c' = c2" by auto
      from Suc.IH [OF all, of k] Suc.prems(2) Suc obtain c'' where
        "recv_all k N os1 c1 = (take k ms1, if length ms1 < k then v1 else None, c'')"
        "length ms1 < k \<longrightarrow> c'' = c2" by auto
      with r y eq Suc show ?thesis by simp
    next
      case False
      with Suc.prems(1) r Suc show ?thesis by (auto split: outcome.splits sum.splits option.splits)
    qed
  qed simp
qed simp

text \<open>What the messages and the verdict of a response are to a unary call.\<close>

definition st_no_message :: status where
  "st_no_message = st_internal (lit ''unary response had no message'')"

definition st_multiple :: status where
  "st_multiple = st_internal (lit ''unary response had multiple messages'')"

fun unary_outcome_of :: "'p list \<Rightarrow> unit result \<Rightarrow> 'p option \<times> unit result" where
  "unary_outcome_of [] (Inr _) = (None, Inl st_no_message)"
| "unary_outcome_of [] (Inl e) = (None, Inl e)"
| "unary_outcome_of [m] v = (Some m, v)"
| "unary_outcome_of (_ # _ # _) v = (None, Inl st_multiple)"

lemma read_unary_recv_all:
  assumes "recv_all n N os c = (ms, Some v, c')" and "2 \<le> n"
  shows "\<exists>c'' os'. read_unary N os c = (Finished (unary_outcome_of ms v), c'', os') \<and> (length ms < 2 \<longrightarrow> c'' = c')"
proof -
  from recv_all_prefix [OF assms] obtain c2 where
    two: "recv_all 2 N os c = (take 2 ms, if length ms < 2 then Some v else None, c2)"
    and same: "length ms < 2 \<longrightarrow> c2 = c'" by blast
  obtain x1 c1 os1 where r1: "client_recv N os c = (x1, c1, os1)" by (metis surj_pair)
  obtain x2 c3 os2 where r2: "client_recv N os1 c1 = (x2, c3, os2)" by (metis surj_pair)
  from two r1 r2 same show ?thesis
    by (cases ms rule: list.exhaust [case_product list.exhaust [of "tl ms"]])
       (auto simp: read_unary_def numeral_2_eq_2 st_no_message_def st_multiple_def
          split: outcome.splits sum.splits option.splits if_splits)
qed

lemma into_message_outcome:
  "into_message \<lparr>uc_engine = e, uc_requests = r, uc_outcome = Some (unary_outcome_of ms v)\<rparr> =
     (case ms of
        [] \<Rightarrow> (case v of Inr _ \<Rightarrow> Inl st_no_message | Inl e \<Rightarrow> Inl e)
      | [m] \<Rightarrow> map_sum id (\<lambda>_. m) v
      | _ \<Rightarrow> Inl st_multiple)"
  by (cases v; cases ms rule: remdups_adj.cases) (auto simp: into_message_def)

section \<open>Lemmas: requests\<close>

text \<open>The body of a half-duplex call is the frames of what was sent.\<close>

lemma send_requests_buffers:
  assumes src: "item_source (\<lambda>s. map_prod (map_poll (map_option Inr)) id (next_req s)) todo sound wait"
  shows "sound s \<Longrightarrow> todo s = map Inr ms \<Longrightarrow> wait s < length os \<Longrightarrow> length ms < n \<Longrightarrow>
    gcc_inner c = Inner_Pending pd \<Longrightarrow> \<not> pd_send_closed pd \<Longrightarrow>
    list_all2 (\<lambda>m f. request_frame N c m = Inr f) ms frames \<Longrightarrow>
    \<exists>s' os'. send_requests n N next_req os (c, s) =
      (Finished (Inr ()), (c\<lparr>gcc_inner := Inner_Pending (pd\<lparr>pd_body := pd_body pd @ concat frames\<rparr>)\<rparr>, s'), os') \<and>
      os' \<noteq> [] \<and> set os' \<subseteq> set os"
proof (induction n arbitrary: s os c pd ms frames)
  case (Suc n)
  have await: "\<exists>x s' os'. await_fut (\<lambda>_. next_req) os s = (Finished x, s', os') \<and> sound s' \<and> wait s' < length os' \<and>
      todo s = (case x of None \<Rightarrow> [] | Some m \<Rightarrow> Inr m # todo s') \<and> set os' \<subseteq> set os"
    if "sound s" "wait s < length os" for s os
    using that
  proof (induction os arbitrary: s)
    case (Cons o1 os)
    obtain p s1 where p: "next_req s = (p, s1)" by fastforce
    then have p': "map_prod (map_poll (map_option Inr)) id (next_req s) = (map_poll (map_option Inr) p, s1)" by simp
    note item = item_source.item_keep [OF src Cons.prems(1) p'] item_source.item_pending [OF src Cons.prems(1), of s1]
      item_source.item_end [OF src Cons.prems(1), of s1] item_source.item_next [OF src Cons.prems(1), of _ s1]
    show ?case
    proof (cases p)
      case Pending
      with item(2) p have "todo s1 = todo s" "wait s1 < wait s" by simp_all
      with Cons.IH [OF item(1)] Cons.prems(2) Pending p show ?thesis by fastforce
    next
      case (Ready x)
      with item(1) item(3,4) p Cons.prems(2) show ?thesis by (cases x) fastforce+
    qed
  qed simp
  from await [OF Suc.prems(1,3)] obtain x s' os' where a: "await_fut (\<lambda>_. next_req) os s = (Finished x, s', os')"
    and s': "sound s'" "wait s' < length os'" "todo s = (case x of None \<Rightarrow> [] | Some m \<Rightarrow> Inr m # todo s')" "set os' \<subseteq> set os"
    by blast
  show ?case
  proof (cases x)
    case None
    with s' Suc.prems(2,7) have "ms = []" "frames = []" by auto
    with None a s' Suc.prems(5) show ?thesis by auto
  next
    case (Some m)
    with s' Suc.prems(2) obtain ms' where ms: "ms = m # ms'" "todo s' = map Inr ms'" by (cases ms) auto
    with Suc.prems(7) obtain f fs where f: "frames = f # fs" "request_frame N c m = Inr f"
      "list_all2 (\<lambda>m f. request_frame N c m = Inr f) ms' fs" by (auto simp: list_all2_Cons1)
    let ?pd = "pd\<lparr>pd_body := pd_body pd @ f\<rparr>"
    let ?c = "c\<lparr>gcc_inner := Inner_Pending ?pd\<rparr>"
    have send: "client_send N m os' c = (Finished (Inr ()), ?c, os')"
      using Suc.prems(5,6) f(2) by (simp add: client_send_def)
    have "list_all2 (\<lambda>m f. request_frame N ?c m = Inr f) ms' fs"
      using f(3) by (simp add: request_frame_def)
    from Suc.IH [OF s'(1) ms(2) s'(2) _ _ _ this, of ?pd] Suc.prems(4,6) ms(1) obtain s2 os2 where
      "send_requests n N next_req os' (?c, s') =
        (Finished (Inr ()), (?c\<lparr>gcc_inner := Inner_Pending (?pd\<lparr>pd_body := pd_body ?pd @ concat fs\<rparr>)\<rparr>, s2), os2)"
      "os2 \<noteq> []" "set os2 \<subseteq> set os'" by auto
    with a Some send f(1) s'(4) show ?thesis by auto
  qed
qed simp

text \<open>The future of a unary call, from the delivery of its response.\<close>

lemma unary_finish_result:
  assumes "net_ok N"
    and "response_source (n_response_body N) content good delay (n_response_trailers N) final"
    and "close_send N os0 engine = (Finished (Inr ()), c, os)" and "gcc_inner c = Inner_Reading (live_from head r)"
    and "good r" and "delay r < length os" and "\<forall>o1 \<in> set os. \<not> disturbed (gcc_deadline c) o1"
    and "delivered (hd_head_status head \<noteq> None)
      (items (e_codecs (n_env N)) (gcc_decode c) (hd_response_encoding head) (gcc_max_message_size c) (content r))
      (verdict (n_env N) (hd_head_status head) (final r)) = (ms, v)"
  shows "\<exists>u. unary_finish N os0 engine = Finished (Inr u) \<and>
    into_message u = (case ms of
        [] \<Rightarrow> (case v of Inr _ \<Rightarrow> Inl st_no_message | Inl e \<Rightarrow> Inl e)
      | [m] \<Rightarrow> map_sum id (\<lambda>_. m) v
      | _ \<Rightarrow> Inl st_multiple)"
proof -
  let ?xs = "items (e_codecs (n_env N)) (gcc_decode c) (hd_response_encoding head) (gcc_max_message_size c) (content r)"
  have todo: "message_todo (e_codecs (n_env N)) content
      (live_stream (gcc_decode c) (gcc_max_message_size c) (live_from head r)) = ?xs"
    by (simp add: message_todo_fresh)
  have live: "message_sound good (live_stream (gcc_decode c) (gcc_max_message_size c) (live_from head r))"
    "lv_read_state (live_from head r) \<noteq> Done" "delay (lv_reader (live_from head r)) < length os"
    using assms(5,6) by (simp_all add: message_sound_fresh) (simp_all add: live_from_def)
  from reading.recv_all_delivers [OF assms(1,2,4) live assms(7) todo, of "length ?xs + 2"] assms(8)
  obtain c' where "recv_all (length ?xs + 2) N os c = (ms, Some v, c')" by (auto simp: live_from_def)
  from read_unary_recv_all [OF this] obtain c'' os' where
    "read_unary N os c = (Finished (unary_outcome_of ms v), c'', os')" by auto
  with assms(3) show ?thesis
    by (simp add: unary_finish_def into_message_outcome)
qed

section \<open>Properties\<close>

text \<open>A call for examples: the response head is accepted, and the body and trailers are still to come.\<close>

definition example_headers :: example_headers where
  "example_headers = h_insert dalist_headers DAList.empty (lit ''content-type'') (lit ''application/grpc'')"

definition example_response :: "example_reader \<Rightarrow> (example_reader, example_headers) response" where
  "example_response rd = \<lparr>rp_status = Some 200, rp_headers = example_headers, rp_reader = rd\<rparr>"

definition example_head :: "example_headers head" where
  "example_head = \<lparr>hd_response_headers = example_headers, hd_response_encoding = Identity, hd_head_status = None\<rparr>"

lemma example_head_accepted: "process_head example_env (example_response rd) = Inr example_head"
proof -
  have ct: "h_get_str dalist_headers example_headers (lit ''content-type'') = Some (lit ''application/grpc'')"
    unfolding example_headers_def by (rule h_get_str_inserted [OF headers_ok_dalist]) (simp add: utf8_valid_ascii lit_def)
  have none: "h_get_str dalist_headers example_headers k = None" if "k \<in> {lit ''grpc-encoding'', lit ''grpc-status''}" for k
    using that unfolding example_headers_def by (intro h_get_str_None [OF headers_ok_dalist])
      (auto simp: h_get_values_insert [OF headers_ok_dalist] eq_ignore_ascii_case_lower dalist_headers_def)
  show ?thesis
    using ct none parse_written_content_type(2) [of "[]"]
    by (simp add: process_head_def example_env_def plain_suffix_def example_response_def example_head_def)
qed

lemma example_fired:
  obtains c where "close_send (example_net 0 (example_response rd)) [at_time 0] example_call = (Finished (Inr ()), c, [at_time 0])"
    and "gcc_inner c = Inner_Reading (live_from example_head rd)" and "gcc_deadline c = None"
    and "gcc_decode c = decode_response raw_codec" and "gcc_max_message_size c = DEFAULT_MAX_MESSAGE_SIZE"
proof -
  have rd: "rp_reader (example_response rd) = rd" by (simp add: example_response_def)
  show ?thesis
    using that example_head_accepted [of rd]
    by (simp add: close_send_def example_call_def materialize_reading_def materialize_def take_body_def
        build_request_def example_net_def client_race_def simple_select_def cancel_fut_def fut_map_err_def
        example_poll_def Let_def rd)
qed

text \<open>
  C19: A client-streaming call sends what the stream has: for every request stream that ends,
  with enough polls for its pending states, the sending loop terminates (one unit of fuel per
  message and one for the end) and the request's body is exactly the frames of the messages,
  in order, after what was already buffered.
\<close>

theorem client_streaming_body:
  assumes "item_source (\<lambda>s. map_prod (map_poll (map_option Inr)) id (next_req s)) todo sound wait"
    and "sound s" and "todo s = map Inr ms" and "wait s < length os" and "length ms < n"
    and "gcc_inner c = Inner_Pending pd" and "\<not> pd_send_closed pd"
    and "list_all2 (\<lambda>m f. request_frame N c m = Inr f) ms frames"
  shows "\<exists>s' os'. send_requests n N next_req os (c, s) =
      (Finished (Inr ()), (c\<lparr>gcc_inner := Inner_Pending (pd\<lparr>pd_body := pd_body pd @ concat frames\<rparr>)\<rparr>, s'), os')"
  using send_requests_buffers [OF assms(1-8)] by blast

definition next_request :: "'q list \<Rightarrow> 'q option poll \<times> 'q list" where
  "next_request qs = (case qs of [] \<Rightarrow> (Ready None, []) | q # r \<Rightarrow> (Ready (Some q), r))"

theorem client_streaming_body_witness:
  "\<exists>s' os'. send_requests 3 (example_net 0 example_rp) next_request [at_time 0] (example_call, [[8], []]) =
      (Finished (Inr ()), (example_call\<lparr>gcc_inner := Inner_Pending
        \<lparr>pd_path = lit ''Say'', pd_content_type = lit ''application/grpc+proto'', pd_request_metadata = metadata_new,
         pd_body = [0, 0, 0, 0, 1, 7, 0, 0, 0, 0, 1, 8, 0, 0, 0, 0, 0], pd_send_closed = False\<rparr>\<rparr>, s'), os')"
proof -
  have src: "item_source (\<lambda>s. map_prod (map_poll (map_option Inr)) id (next_request s)) (map Inr) (\<lambda>_. True) (\<lambda>_. 0)"
    by unfold_locales (auto simp: next_request_def split: list.splits)
  have frames: "list_all2 (\<lambda>m f. request_frame (example_net 0 example_rp) example_call m = Inr f) [[8], []]
      [[0, 0, 0, 0, 1, 8], [0, 0, 0, 0, 0]]"
    by (simp add: request_frame_def example_call_def raw_codec_def encode_payload_eq u32_to_be_bytes_def)
  have pd: "gcc_inner example_call = Inner_Pending
        \<lparr>pd_path = lit ''Say'', pd_content_type = lit ''application/grpc+proto'', pd_request_metadata = metadata_new,
         pd_body = [0, 0, 0, 0, 1, 7], pd_send_closed = False\<rparr>"
    by (simp add: example_call_def)
  from client_streaming_body [OF src _ _ _ _ pd _ frames, of "[[8], []]" "[at_time 0]" 3] show ?thesis by simp
qed

text \<open>
  C20: The \<open>Stream\<close> of a call is its \<open>recv\<close>: polling the handle until it is ready yields the
  item, and leaves the engine, that one \<open>recv\<close> awaited under the same polls would; while the
  \<open>recv\<close> is suspended so is the stream, which holds it. No poll panics.
\<close>

theorem stream_is_recv:
  assumes "net_ok N" and "os \<noteq> []"
  shows "(\<exists>c' r. client_recv N os e = (Suspended, c', r) \<and>
        stream_next N os \<lparr>sc_engine = Some e, sc_in_flight = None\<rparr> =
          (Suspended, \<lparr>sc_engine = None, sc_in_flight = Some (e, os)\<rparr>)) \<or>
    (\<exists>x e' r. client_recv N os e = (Finished x, e', r) \<and>
        stream_next N os \<lparr>sc_engine = Some e, sc_in_flight = None\<rparr> =
          (Finished (stream_item x), \<lparr>sc_engine = Some e', sc_in_flight = None\<rparr>))"
  using stream_next_in_flight [OF assms(1) _ _ assms(2), of "[]" "\<lparr>sc_engine = Some e, sc_in_flight = None\<rparr>" e] by simp

theorem stream_is_recv_witness:
  "fst (stream_next (example_net 1 example_rp) [cancelled_at 0, at_time 1] \<lparr>sc_engine = Some example_call, sc_in_flight = None\<rparr>)
     = Finished (Some (Inl st_call_cancelled))"
proof -
  have "client_recv (example_net 1 example_rp) [cancelled_at 0, at_time 1] example_call =
      (Finished (Inl st_call_cancelled),
       example_call\<lparr>gcc_inner := Inner_Failed st_call_cancelled\<rparr>, [cancelled_at 0, at_time 1])"
    by (simp add: client_recv_def example_call_def async_try_def materialize_reading_def materialize_def take_body_def
        build_request_def example_net_def client_race_def simple_select_def cancel_fut_def client_fail_def Let_def)
  with stream_is_recv [OF net_ok_example [of 1 example_rp], of "[cancelled_at 0, at_time 1]" example_call]
  show ?thesis by (auto simp: stream_item_def simp del: stream_next.simps)
qed

text \<open>
  A stream handle panics after a pending poll: once \<open>poll_next\<close> has returned \<open>Pending\<close>, the
  engine is inside the future in flight, and until the stream is polled to readiness every
  other method of the handle (\<open>metadata\<close>, \<open>trailers\<close>, \<open>recv\<close>, and \<open>send\<close> and \<open>close_send\<close> of
  a bidirectional call) hits the \<open>expect\<close>.
\<close>

lemma pending_stream_panics:
  assumes "streaming_poll_next N o1 s = Some (Pending, s')"
  shows "streaming_metadata s' = None \<and> streaming_trailers s' = None \<and>
    fst (streaming_recv N os s') = Panicked \<and> fst (streaming_into_future N os s') = Panicked \<and>
    fst (bidi_send N message os s') = Panicked \<and> fst (bidi_close_send N os s') = Panicked"
proof -
  from assms have "sc_engine s' = None"
    by (auto simp: streaming_poll_next_def split: option.splits outcome.splits prod.splits sum.splits)
  then show ?thesis
    by (simp add: streaming_metadata_def streaming_trailers_def streaming_recv_def streaming_into_future_def
        bidi_send_def bidi_close_send_def on_engine_async_def)
qed

lemma pending_stream_panics_witness:
  "\<exists>s'. streaming_poll_next (example_net 5 example_rp) (at_time 0) \<lparr>sc_engine = Some example_call, sc_in_flight = None\<rparr>
      = Some (Pending, s') \<and> fst (bidi_send (example_net 5 example_rp) [7] [at_time 1] s') = Panicked"
proof -
  have "\<exists>c'. client_recv (example_net 5 example_rp) [at_time 0] example_call = (Suspended, c', [])"
    by (simp add: client_recv_def async_try_def example_call_def materialize_reading_def materialize_def take_body_def
        build_request_def example_net_def client_race_def simple_select_def cancel_fut_def fut_map_err_def
        example_poll_def Let_def)
  then obtain s' where p: "streaming_poll_next (example_net 5 example_rp) (at_time 0)
      \<lparr>sc_engine = Some example_call, sc_in_flight = None\<rparr> = Some (Pending, s')"
    by (auto simp: streaming_poll_next_def)
  from p pending_stream_panics [OF p] show ?thesis by blast
qed

end
