(* ===== verification/ServiceClient.thy ===== *)
theory ServiceClient
  imports Typed
begin

text \<open>
  \<open>src/client/service_client.rs\<close> and \<open>src/client/mod.rs\<close>: what a generated service client is
  configured with. The underlying \<open>trillium_client::Client\<close> is not part of the repository; the
  model keeps of it the base URL and the default headers, which the setters write. The URL is
  the \<open>url\<close> crate's: the record \<open>url_api\<close> holds the operations that are called on it.
\<close>

section \<open>The client\<close>

record ('h, 'u) service_client =
  tc_base :: "'u option"
  tc_default_headers :: 'h

definition set_outbound_compression :: "'h headers_api \<Rightarrow> encoding \<Rightarrow> ('h, 'u) service_client \<Rightarrow> ('h, 'u) service_client" where
  "set_outbound_compression H enc c =
     (let headers = tc_default_headers c in
      c\<lparr>tc_default_headers :=
        (if enc = Identity then h_remove H headers (lit ''grpc-encoding'')
         else h_insert H headers (lit ''grpc-encoding'') (as_grpc_encoding enc))\<rparr>)"

definition outbound_compression :: "'h env \<Rightarrow> ('h, 'u) service_client \<Rightarrow> encoding" where
  "outbound_compression E c =
     (case Option.bind (h_get_str (e_headers E) (tc_default_headers c) (lit ''grpc-encoding''))
             (from_grpc_encoding (e_features E)) of
        Some enc \<Rightarrow> enc | None \<Rightarrow> Identity)"

definition is_zero :: "duration \<Rightarrow> bool" where
  "is_zero d \<longleftrightarrow> d_secs d = 0 \<and> d_nanos d = 0"

definition set_default_timeout :: "'h headers_api \<Rightarrow> duration \<Rightarrow> ('h, 'u) service_client \<Rightarrow> ('h, 'u) service_client" where
  "set_default_timeout H d c =
     (let headers = tc_default_headers c in
      c\<lparr>tc_default_headers :=
        (if is_zero d then h_remove H headers (lit ''grpc-timeout'')
         else h_insert H headers (lit ''grpc-timeout'') (format_grpc_timeout d))\<rparr>)"

definition client_default_timeout :: "'h env \<Rightarrow> ('h, 'u) service_client \<Rightarrow> duration option" where
  "client_default_timeout E c =
     Option.bind (h_get_str (e_headers E) (tc_default_headers c) (lit ''grpc-timeout'')) parse_grpc_timeout"

section \<open>The service prefix\<close>

text \<open>\<open>Url::path\<close>, \<open>Url::set_path\<close>, and \<open>Url::join\<close>, with which the client resolves a path.\<close>

record 'u url_api =
  u_path :: "'u \<Rightarrow> str"
  u_set_path :: "'u \<Rightarrow> str \<Rightarrow> 'u"
  u_join :: "'u \<Rightarrow> str \<Rightarrow> 'u"

definition trim_end_matches :: "u8 \<Rightarrow> str \<Rightarrow> str" where
  "trim_end_matches b s = rev (dropWhile (\<lambda>x. x = b) (rev s))"

text \<open>\<open>None\<close> is the panic of a client that has no base URL.\<close>

definition with_service_prefix ::
  "'u url_api \<Rightarrow> ('h, 'u) service_client \<Rightarrow> str \<Rightarrow> (('h, 'u) service_client) option" where
  "with_service_prefix U client prefix =
     map_option
       (\<lambda>base. client\<lparr>tc_base :=
          Some (u_set_path U base (trim_end_matches 0x2F (u_path U base) @ lit ''/'' @ prefix @ lit ''/''))\<rparr>)
       (tc_base client)"

text \<open>
  A segment that the URL standard leaves as it is, and the documented behaviour of the URL
  operations on paths made of such segments: no percent coding, no dot segments, and a
  relative path replaces what follows the last slash.
\<close>

definition plain_byte :: "u8 \<Rightarrow> bool" where
  "plain_byte b \<longleftrightarrow> 0x30 \<le> b \<and> b \<le> 0x39 \<or> 0x41 \<le> b \<and> b \<le> 0x5A \<or> 0x61 \<le> b \<and> b \<le> 0x7A \<or> b = 0x5F \<or> b = 0x2E"

definition plain_segment :: "str \<Rightarrow> bool" where
  "plain_segment s \<longleftrightarrow> s \<noteq> [] \<and> list_all plain_byte s \<and> s \<noteq> lit ''.'' \<and> s \<noteq> lit ''..''"

definition path_of :: "str list \<Rightarrow> str" where
  "path_of segs = concat (map (\<lambda>s. 0x2F # s) segs)"

definition url_ok :: "'u url_api \<Rightarrow> bool" where
  "url_ok U \<longleftrightarrow>
     (\<forall>u segs. list_all plain_segment segs \<longrightarrow>
        u_path U (u_set_path U u (path_of segs @ lit ''/'')) = path_of segs @ lit ''/'') \<and>
     (\<forall>u segs s. list_all plain_segment segs \<longrightarrow> plain_segment s \<longrightarrow> u_path U u = path_of segs @ lit ''/'' \<longrightarrow>
        u_path U (u_join U u s) = path_of (segs @ [s]))"

section \<open>Lemmas\<close>

lemma plain_byte_slash: "plain_byte b \<Longrightarrow> b \<noteq> 0x2F"
  by (auto simp: plain_byte_def)

lemma plain_segment_slash: "plain_segment s \<Longrightarrow> 0x2F \<notin> set s"
  by (auto simp: plain_segment_def list_all_iff dest: plain_byte_slash)

lemma path_of_append: "path_of (xs @ ys) = path_of xs @ path_of ys"
  by (simp add: path_of_def)

lemma trim_path:
  assumes "list_all plain_segment segs"
  shows "trim_end_matches 0x2F (path_of segs @ replicate n 0x2F) = path_of segs"
proof -
  have "dropWhile (\<lambda>x. x = 0x2F) (rev (path_of segs)) = rev (path_of segs)"
  proof (cases segs rule: rev_cases)
    case (snoc ss s)
    with assms have s: "plain_segment s" by simp
    then obtain ys y where y: "s = ys @ [y]" by (cases s rule: rev_cases) (auto simp: plain_segment_def)
    with plain_segment_slash [OF s] have "y \<noteq> 0x2F" by auto
    with y show ?thesis by (simp add: snoc path_of_append) (simp add: path_of_def)
  qed (simp add: path_of_def)
  then have "dropWhile (\<lambda>x. x = 0x2F) (replicate n 0x2F @ rev (path_of segs)) = rev (path_of segs)"
    by (induction n) simp_all
  then show ?thesis by (simp add: trim_end_matches_def)
qed

text \<open>The path of a request that a service client sends.\<close>

lemma service_path:
  assumes U: "url_ok U" and "with_service_prefix U client prefix = Some c"
    and "tc_base client = Some base" and "u_path U base = path_of segs @ replicate n 0x2F"
    and "list_all plain_segment segs" and "plain_segment prefix" and "plain_segment rpc"
  obtains base' where "tc_base c = Some base'" and "tc_default_headers c = tc_default_headers client"
    and "u_path U (u_join U base' rpc) = path_of (segs @ [prefix, rpc])"
proof -
  let ?b = "u_set_path U base (path_of (segs @ [prefix]) @ lit ''/'')"
  have lit: "lit ''/'' = [0x2F]" by (simp add: lit_def)
  have "trim_end_matches 0x2F (u_path U base) @ lit ''/'' @ prefix @ lit ''/'' = path_of (segs @ [prefix]) @ lit ''/''"
    using assms(4,5) by (simp add: trim_path path_of_append lit) (simp add: path_of_def)
  with assms(2,3) have c: "c = client\<lparr>tc_base := Some ?b\<rparr>"
    by (auto simp: with_service_prefix_def)
  have "u_path U ?b = path_of (segs @ [prefix]) @ lit ''/''"
    using U assms(5,6) by (simp add: url_ok_def)
  then have "u_path U (u_join U ?b rpc) = path_of ((segs @ [prefix]) @ [rpc])"
    using assms(5-7) U [unfolded url_ok_def, THEN conjunct2, rule_format, of "segs @ [prefix]" rpc ?b] by simp
  with c show ?thesis by (intro that [of ?b]) simp_all
qed

lemma option_headers_independent:
  assumes "headers_ok H"
  shows "h_get_values H (tc_default_headers (set_outbound_compression H e c)) k =
      (if eq_ignore_ascii_case (lit ''grpc-encoding'') k then (if e = Identity then None else Some [as_grpc_encoding e])
       else h_get_values H (tc_default_headers c) k)"
    and "h_get_values H (tc_default_headers (set_default_timeout H d c)) k =
      (if eq_ignore_ascii_case (lit ''grpc-timeout'') k then (if is_zero d then None else Some [format_grpc_timeout d])
       else h_get_values H (tc_default_headers c) k)"
  using assms
  by (simp_all add: set_outbound_compression_def set_default_timeout_def h_get_values_insert h_get_values_remove Let_def)

lemma get_str_of_values:
  assumes "headers_ok H" and "h_get_values H h k = (if b then None else Some [v])" and "utf8_valid v"
  shows "h_get_str H h k = (if b then None else Some v)"
  using assms h_get_str_None [OF assms(1), of h k] h_get_str_single [OF assms(1), of h k v] by (cases b) simp_all

text \<open>The two options of a client, as the headers show them after both setters in either order.\<close>

lemma configured:
  assumes H: "headers_ok (e_headers E)" and c: "c \<in>
    {set_default_timeout (e_headers E) d (set_outbound_compression (e_headers E) e c0),
     set_outbound_compression (e_headers E) e (set_default_timeout (e_headers E) d c0)}"
  shows "h_get_str (e_headers E) (tc_default_headers c) (lit ''grpc-encoding'') =
      (if e = Identity then None else Some (as_grpc_encoding e))"
    and "h_get_str (e_headers E) (tc_default_headers c) (lit ''grpc-timeout'') =
      (if is_zero d then None else Some (format_grpc_timeout d))"
proof -
  have ne: "\<not> eq_ignore_ascii_case (lit ''grpc-timeout'') (lit ''grpc-encoding'')"
      "\<not> eq_ignore_ascii_case (lit ''grpc-encoding'') (lit ''grpc-timeout'')"
      "eq_ignore_ascii_case (lit ''grpc-encoding'') (lit ''grpc-encoding'')"
      "eq_ignore_ascii_case (lit ''grpc-timeout'') (lit ''grpc-timeout'')"
    by (simp_all add: eq_ignore_ascii_case_lower)
  have "h_get_values (e_headers E) (tc_default_headers c) (lit ''grpc-encoding'') =
      (if e = Identity then None else Some [as_grpc_encoding e])"
    using c ne by (auto simp: option_headers_independent [OF H])
  then show "h_get_str (e_headers E) (tc_default_headers c) (lit ''grpc-encoding'') =
      (if e = Identity then None else Some (as_grpc_encoding e))"
    by (rule get_str_of_values [OF H]) (simp add: encoding_token.show_utf8 token_utf8)
  have "h_get_values (e_headers E) (tc_default_headers c) (lit ''grpc-timeout'') =
      (if is_zero d then None else Some [format_grpc_timeout d])"
    using c ne by (auto simp: option_headers_independent [OF H])
  then show "h_get_str (e_headers E) (tc_default_headers c) (lit ''grpc-timeout'') =
      (if is_zero d then None else Some (format_grpc_timeout d))"
    by (rule get_str_of_values [OF H]) (rule format_utf8)
qed

lemma buffered_fields:
  "gcc_outbound_encoding (buffer_request N q c) = gcc_outbound_encoding c"
  "gcc_deadline (buffer_request N q c) = gcc_deadline c"
  by (simp_all add: buffer_request_def defer_error_def split: sum.splits inner.splits option.splits)

text \<open>What a call takes over from the default headers of its client.\<close>

lemma opened_fields:
  assumes "unary_new N now Kq Kp path request = Some u"
  shows "gcc_outbound_encoding (uc_engine u) =
      (case Option.bind (h_get_str (e_headers (n_env N)) (n_default_headers N) (lit ''grpc-encoding''))
              (from_grpc_encoding (e_features (n_env N))) of Some e \<Rightarrow> e | None \<Rightarrow> Identity)"
    and "gcc_deadline (uc_engine u) = map_option (\<lambda>d. now + as_nanos d) (default_timeout N)"
  using assms
  by (auto simp: unary_new_def client_new_def client_open_def buffered_fields instant_add_def Let_def
      split: option.splits if_splits)

section \<open>Properties\<close>

text \<open>
  The options of a service client reach its calls. After both setters, in either order, the
  getters read the options back (the timeout rounded up, by less than an
  hour), and every call that is opened through the client has the
  encoding as its outbound encoding and a deadline that is not before the requested one.
  \<open>Identity\<close> and the zero duration clear their option.
\<close>

lemma options_reach_calls:
  assumes E: "n_env N = E" "headers_ok (e_headers E)" and e: "enabled (e_features E) e"
    and d: "as_nanos d \<le> MAX_VALUE * (3600 * 10 ^ 9)" and c: "c \<in>
      {set_default_timeout (e_headers E) d (set_outbound_compression (e_headers E) e c0),
       set_outbound_compression (e_headers E) e (set_default_timeout (e_headers E) d c0)}"
    and N: "n_default_headers N = tc_default_headers c"
    and u: "unary_new N now Kq Kp path request = Some u"
  shows "outbound_compression E c = e \<and> gcc_outbound_encoding (uc_engine u) = e \<and>
    client_default_timeout E c = default_timeout N \<and>
    (if is_zero d then client_default_timeout E c = None \<and> gcc_deadline (uc_engine u) = None
     else \<exists>d'. client_default_timeout E c = Some d' \<and> as_nanos d \<le> as_nanos d' \<and>
       as_nanos d' < as_nanos d + 3600 * 10 ^ 9 \<and>
       gcc_deadline (uc_engine u) = Some (now + as_nanos d'))"
proof -
  note h = configured [OF E(2) c]
  from h(1) e have enc: "outbound_compression E c = e" "gcc_outbound_encoding (uc_engine u) = e"
    by (simp_all add: outbound_compression_def opened_fields(1) [OF u] N E(1) encoding_token.read_show)
  have t: "client_default_timeout E c = default_timeout N"
    by (simp add: client_default_timeout_def default_timeout_def N E(1))
  show ?thesis
  proof (cases "is_zero d")
    case True
    with h(2) have "client_default_timeout E c = None" by (simp add: client_default_timeout_def)
    with True t enc show ?thesis by (simp add: opened_fields(2) [OF u])
  next
    case False
    obtain w sf d' where w: "(w, sf) \<in> set UNITS" "parse_grpc_timeout (format_grpc_timeout d) = Some d'"
      "as_nanos d \<le> as_nanos d'" "as_nanos d' < as_nanos d + w"
      using format_rounds_up [OF d] by blast
    then have "as_nanos d' < as_nanos d + 3600 * 10 ^ 9" using UNITS_suffix [of w sf] by simp
    moreover have "client_default_timeout E c = Some d'"
      using False h(2) w(2) by (simp add: client_default_timeout_def)
    ultimately show ?thesis using False t enc w(3) by (simp add: opened_fields(2) [OF u])
  qed
qed

lemma options_reach_calls_witness:
  "let c = set_default_timeout dalist_headers \<lparr>d_secs = 5, d_nanos = 0\<rparr>
             (set_outbound_compression dalist_headers Gzip \<lparr>tc_base = None :: unit option, tc_default_headers = DAList.empty\<rparr>);
       N = (example_net 0 example_rp)\<lparr>n_default_headers := tc_default_headers c\<rparr>;
       u = the (unary_new N 0 raw_codec raw_codec (lit ''Say'') [7]) :: (_, _, _, _, _, unit) unary_conn
   in gcc_outbound_encoding (uc_engine u) = Gzip \<and> gcc_deadline (uc_engine u) \<noteq> None"
proof -
  let ?d = "\<lparr>d_secs = 5, d_nanos = 0\<rparr> :: duration"
  let ?base = "\<lparr>tc_base = None :: unit option, tc_default_headers = DAList.empty\<rparr>"
  let ?c = "set_default_timeout dalist_headers ?d (set_outbound_compression dalist_headers Gzip ?base)"
  let ?N = "(example_net 0 example_rp)\<lparr>n_default_headers := tc_default_headers ?c\<rparr>"
  have E: "n_env ?N = example_env" "headers_ok (e_headers example_env)" "enabled (e_features example_env) Gzip"
    "e_headers example_env = dalist_headers"
    by (simp_all add: example_net_def example_env_def headers_ok_dalist)
  have d: "as_nanos ?d \<le> MAX_VALUE * (3600 * 10 ^ 9)" "\<not> is_zero ?d" "as_nanos ?d = 5 * 10 ^ 9"
    by (simp_all add: as_nanos_def MAX_VALUE_def is_zero_def)
  have mem: "?c \<in> {set_default_timeout (e_headers example_env) ?d (set_outbound_compression (e_headers example_env) Gzip ?base),
     set_outbound_compression (e_headers example_env) Gzip (set_default_timeout (e_headers example_env) ?d ?base)}"
    by (simp add: E(4))
  obtain w sf d' where w: "(w, sf) \<in> set UNITS" "parse_grpc_timeout (format_grpc_timeout ?d) = Some d'"
      "as_nanos d' < as_nanos ?d + w"
    using format_rounds_up [OF d(1)] by blast
  then have "as_nanos d' \<le> 2 ^ 63 * 10 ^ 9" using UNITS_suffix [of w sf] d(3) by simp
  moreover have "default_timeout ?N = Some d'"
    using configured(2) [OF E(2) mem] d(2) w(2) by (simp add: default_timeout_def E(1))
  ultimately obtain u :: "(_, _, _, _, _, unit) unary_conn"
    where u: "unary_new ?N 0 raw_codec raw_codec (lit ''Say'') [7] = Some u"
    by (auto simp: unary_new_def client_new_def client_open_def instant_add_def E(1)) (simp add: example_env_def)
  from options_reach_calls [OF E(1-3) d(1) mem _ u] d(2) u show ?thesis by (auto simp: Let_def)
qed

end
