(* ===== verification/Dispatch.thy ===== *)
theory Dispatch
  imports Bidi
begin

text \<open>
  \<open>src/server/dispatch.rs\<close>: the four call shapes. Each checks the request's encoding and
  timeout, runs the handler raced against the cancellation, and turns its result into a
  response. A handler is a function that creates its future's state from the request and a
  poll function on the control surface and that state. The outcome is a panic, a call that is
  still suspended when the polls have run out, or the finished connection.
\<close>

section \<open>What every shape does first\<close>

text \<open>\<open>now1\<close> and \<open>now2\<close> are the two readings of the clock.\<close>

definition call_setup ::
  "'h env \<Rightarrow> ('h, 'r, ('s, 'a, 'h) response_body, 'u) conn \<Rightarrow> nat \<Rightarrow> nat
   \<Rightarrow> (('h, 'r, ('s, 'a, 'h) response_body, 'u) conn
       + cancellation \<times> encoding \<times> encoding \<times> ('h, 'r, ('s, 'a, 'h) response_body, 'u) grpc_conn) option" where
  "call_setup E conn now1 now2 =
     (case extract_request_encoding E (cn_request_headers conn) of
        Inl status \<Rightarrow> Some (Inl (error_response E conn status))
      | Inr request_encoding \<Rightarrow>
          (case cancellation_from_conn (e_headers E) (e_debug E) (e_last_instant E)
                  (cn_request_headers conn) (cn_has_runtime conn) now1 of
             None \<Rightarrow> None
           | Some (Inl status) \<Rightarrow> Some (Inl (error_response E conn status))
           | Some (Inr cancellation) \<Rightarrow>
               (let response_encoding = negotiate_response_encoding E (cn_request_headers conn) in
                case grpc_server_conn_new E conn request_encoding now2 of
                  None \<Rightarrow> None
                | Some grpc \<Rightarrow> Some (Inr (cancellation, request_encoding, response_encoding, grpc)))))"

text \<open>
  The future \<open>async { let req = read_one(..).await?; f(&mut grpc, req).await }\<close>: its suspended
  states are those of \<open>read_one\<close> and those of the handler.
\<close>

datatype ('q, 'r, 'f) call_state = CReading "('q, 'r) read_one_state" | CRunning 'f

definition call_poll ::
  "codecs \<Rightarrow> 'r poll_read_fn \<Rightarrow> ('q \<Rightarrow> 'f) \<Rightarrow> (('h, 'r, 'b, 'u) grpc_conn \<times> 'f, 'x result) fut
   \<Rightarrow> (('h, 'r, 'b, 'u) grpc_conn \<times> ('q, 'r, 'f) call_state, 'x result) fut" where
  "call_poll C poll_read f_start f_poll o1 gs =
     (case gs of
        (g, CReading r) \<Rightarrow>
          (case read_one C poll_read r of
             (Pending, r') \<Rightarrow> (Pending, (give_back (read_one_stream r') g, CReading r'))
           | (Ready (Inl e), r') \<Rightarrow> (Ready (Inl e), (give_back (read_one_stream r') g, CReading r'))
           | (Ready (Inr req), r') \<Rightarrow>
               map_prod id (map_prod id CRunning)
                 (f_poll o1 (give_back (read_one_stream r') g, f_start req)))
      | (g, CRunning f) \<Rightarrow> map_prod id (map_prod id CRunning) (f_poll o1 (g, f)))"

definition call_start :: "'q codec \<Rightarrow> ('h, 'r, 'b, 'u) grpc_conn
   \<Rightarrow> ('h, 'r, 'b, 'u) grpc_conn \<times> ('q, 'r, 'f) call_state" where
  "call_start K g = (g, CReading (RFirst (requests K g)))"

section \<open>The shapes\<close>

definition unary_impl ::
  "'h env \<Rightarrow> delay_fn
   \<Rightarrow> (('h, 'r, ('s, 'a, 'h) response_body, 'u) grpc_conn \<times> ('q, 'r, 'f) call_state, 'p result) select_api
   \<Rightarrow> 'r poll_read_fn \<Rightarrow> 'q codec \<Rightarrow> 'p codec \<Rightarrow> ('q \<Rightarrow> 'f)
   \<Rightarrow> (('h, 'r, ('s, 'a, 'h) response_body, 'u) grpc_conn \<times> 'f, 'p result) fut
   \<Rightarrow> nat \<Rightarrow> nat \<Rightarrow> obs list \<Rightarrow> ('h, 'r, ('s, 'a, 'h) response_body, 'u) conn
   \<Rightarrow> ('h, 'r, ('s, 'a, 'h) response_body, 'u) conn outcome" where
  "unary_impl E D S poll_read Kq Kp f_start f_poll now1 now2 os conn =
     (case call_setup E conn now1 now2 of
        None \<Rightarrow> Panicked
      | Some (Inl conn) \<Rightarrow> Finished conn
      | Some (Inr (cancellation, request_encoding, response_encoding, grpc)) \<Rightarrow>
          (case drive (race D S cancellation (call_poll (e_codecs E) poll_read f_start f_poll)) os
                  (Unstarted, call_start Kq grpc) of
             None \<Rightarrow> Suspended
           | Some (res, (t, (grpc, st))) \<Rightarrow>
               (case into_parts grpc of
                  (conn, trailers) \<Rightarrow> Finished (finish_unary E Kp conn res response_encoding trailers))))"

definition client_streaming_impl ::
  "'h env \<Rightarrow> delay_fn
   \<Rightarrow> (('h, 'r, ('s, 'a, 'h) response_body, 'u) grpc_conn \<times> 'f, 'p result) select_api
   \<Rightarrow> 'p codec \<Rightarrow> 'f \<Rightarrow> (('h, 'r, ('s, 'a, 'h) response_body, 'u) grpc_conn \<times> 'f, 'p result) fut
   \<Rightarrow> nat \<Rightarrow> nat \<Rightarrow> obs list \<Rightarrow> ('h, 'r, ('s, 'a, 'h) response_body, 'u) conn
   \<Rightarrow> ('h, 'r, ('s, 'a, 'h) response_body, 'u) conn outcome" where
  "client_streaming_impl E D S Kp f f_poll now1 now2 os conn =
     (case call_setup E conn now1 now2 of
        None \<Rightarrow> Panicked
      | Some (Inl conn) \<Rightarrow> Finished conn
      | Some (Inr (cancellation, request_encoding, response_encoding, grpc)) \<Rightarrow>
          (case drive (race D S cancellation f_poll) os (Unstarted, (grpc, f)) of
             None \<Rightarrow> Suspended
           | Some (res, (t, (grpc, st))) \<Rightarrow>
               (case into_parts grpc of
                  (conn, trailers) \<Rightarrow> Finished (finish_unary E Kp conn res response_encoding trailers))))"

text \<open>The handler's result is the state of the response stream.\<close>

definition server_streaming_impl ::
  "'h env \<Rightarrow> delay_fn
   \<Rightarrow> (('h, 'r, ('s, 'p, 'h) response_body, 'u) grpc_conn \<times> ('q, 'r, 'f) call_state, 's result) select_api
   \<Rightarrow> 'r poll_read_fn \<Rightarrow> 'q codec \<Rightarrow> 'p codec \<Rightarrow> ('q \<Rightarrow> 'f)
   \<Rightarrow> (('h, 'r, ('s, 'p, 'h) response_body, 'u) grpc_conn \<times> 'f, 's result) fut
   \<Rightarrow> nat \<Rightarrow> nat \<Rightarrow> obs list \<Rightarrow> ('h, 'r, ('s, 'p, 'h) response_body, 'u) conn
   \<Rightarrow> ('h, 'r, ('s, 'p, 'h) response_body, 'u) conn outcome" where
  "server_streaming_impl E D S poll_read Kq Kp f_start f_poll now1 now2 os conn =
     (case call_setup E conn now1 now2 of
        None \<Rightarrow> Panicked
      | Some (Inl conn) \<Rightarrow> Finished conn
      | Some (Inr (cancellation, request_encoding, response_encoding, grpc)) \<Rightarrow>
          (case drive (race D S cancellation (call_poll (e_codecs E) poll_read f_start f_poll)) os
                  (Unstarted, call_start Kq grpc) of
             None \<Rightarrow> Suspended
           | Some (res, (t, (grpc, st))) \<Rightarrow>
               (case into_parts grpc of
                  (conn, trailers) \<Rightarrow>
                    Finished
                      (case res of
                         Inr stream \<Rightarrow>
                           respond conn (Streaming (stream_body_new stream (encode_msg Kp) response_encoding
                             trailers (Some (cancellation, Unstarted))))
                       | Inl status \<Rightarrow> error_response_with_trailers E conn status trailers))))"

definition bidi_prologue_impl ::
  "'h env \<Rightarrow> delay_fn
   \<Rightarrow> (('h, 'r, ('s, 'a, 'h) response_body, ('f2, 'h, 'q, 'p) bidi_state) grpc_conn \<times> 'f, 'f2 result) select_api
   \<Rightarrow> 'q codec \<Rightarrow> 'p codec \<Rightarrow> 'f
   \<Rightarrow> (('h, 'r, ('s, 'a, 'h) response_body, ('f2, 'h, 'q, 'p) bidi_state) grpc_conn \<times> 'f, 'f2 result) fut
   \<Rightarrow> nat \<Rightarrow> nat \<Rightarrow> obs list \<Rightarrow> ('h, 'r, ('s, 'a, 'h) response_body, ('f2, 'h, 'q, 'p) bidi_state) conn
   \<Rightarrow> ('h, 'r, ('s, 'a, 'h) response_body, ('f2, 'h, 'q, 'p) bidi_state) conn outcome" where
  "bidi_prologue_impl E D S Kq Kp f f_poll now1 now2 os conn =
     (case call_setup E conn now1 now2 of
        None \<Rightarrow> Panicked
      | Some (Inl conn) \<Rightarrow> Finished conn
      | Some (Inr (cancellation, request_encoding, response_encoding, grpc)) \<Rightarrow>
          (case drive (race D S cancellation f_poll) os (Unstarted, (grpc, f)) of
             None \<Rightarrow> Suspended
           | Some (res, (t, (grpc, st))) \<Rightarrow>
               (let deadline = gc_deadline grpc in
                case into_parts grpc of
                  (conn, trailers) \<Rightarrow>
                    Finished
                      (case res of
                         Inr responder \<Rightarrow>
                           conn_do Halt (conn_do Upgrade (conn_do (WithState
                             (bidi_upgrade_new responder trailers (decode_msg Kq) (encode_msg Kp)
                                request_encoding response_encoding deadline)) conn))
                       | Inl status \<Rightarrow> error_response_with_trailers E conn status trailers))))"

text \<open>The signal handed to a streaming body, as the body polls it under an observation.\<close>

definition signal_poll ::
  "delay_fn \<Rightarrow> (timer, unit) select_api \<Rightarrow> (timer, status) select_api \<Rightarrow> obs \<Rightarrow> (cancellation \<times> timer) poll_cancel_fn" where
  "signal_poll D I S o1 ct = (case ct of (c, t) \<Rightarrow> map_prod id (Pair c) (signal D I S c o1 t))"

section \<open>Lemmas\<close>

text \<open>A half-duplex response: what was done to the connection ends with a body and a halt.\<close>

definition answered_with :: "('h, 'r, ('s, 'a, 'h) response_body, 'u) conn \<Rightarrow> bytes \<Rightarrow> 'h \<Rightarrow> bool" where
  "answered_with conn bs tr \<longleftrightarrow> (\<exists>ops. cn_ops conn = ops @ [WithBody (OneShot (one_shot_new bs tr)), Halt])"

lemma answered_respond:
  "answered_with (respond conn (OneShot (one_shot_new bs tr))) bs tr"
  by (simp add: answered_with_def respond_def conn_do_def)

lemma error_answered:
  "answered_with (error_response_with_trailers E conn st tr) [] (status_write_into (e_headers E) (e_base64 E) st tr)"
  by (simp add: error_response_with_trailers_def answered_respond)

text \<open>The status and body that a handler's result becomes.\<close>

definition unary_status :: "'h env \<Rightarrow> 'p codec \<Rightarrow> encoding \<Rightarrow> 'p result \<Rightarrow> status" where
  "unary_status E K enc res =
     (case and_then res (\<lambda>v. encode_frame (e_codecs E) K v enc) of Inl st \<Rightarrow> st | Inr _ \<Rightarrow> status_ok)"

definition unary_body :: "'h env \<Rightarrow> 'p codec \<Rightarrow> encoding \<Rightarrow> 'p result \<Rightarrow> bytes" where
  "unary_body E K enc res =
     (case and_then res (\<lambda>v. encode_frame (e_codecs E) K v enc) of Inl st \<Rightarrow> [] | Inr frame \<Rightarrow> frame)"

lemma finish_unary_answered:
  "answered_with (finish_unary E K conn res enc tr) (unary_body E K enc res)
     (status_write_into (e_headers E) (e_base64 E) (unary_status E K enc res) tr)"
  by (auto simp: finish_unary_def unary_body_def unary_status_def error_answered answered_respond
      split: sum.splits)

lemma finish_unary_ops:
  "cn_ops (finish_unary E K conn res enc tr) = cn_ops conn @
     [WithBody (OneShot (one_shot_new (unary_body E K enc res)
       (status_write_into (e_headers E) (e_base64 E) (unary_status E K enc res) tr))), Halt]"
  by (auto simp: finish_unary_def unary_body_def unary_status_def error_response_with_trailers_def respond_def
      conn_do_def split: sum.splits)

text \<open>The setup's refusals, and what it hands on.\<close>

lemma call_setup_refusal:
  "call_setup E conn now1 now2 = Some (Inl conn') \<Longrightarrow>
   \<exists>st. conn' = error_response E conn st \<and> st_code st \<in> {Unimplemented, InvalidArgument} \<and>
     metadata_wf (st_metadata st)"
  by (auto simp: call_setup_def extract_request_encoding_def cancellation_from_conn_def Let_def
      metadata_wf_new split: option.splits sum.splits if_splits)

lemma call_setup_deadline:
  "call_setup E conn now1 now2 = Some (Inr (c, req, resp, g)) \<Longrightarrow>
   resp = negotiate_response_encoding E (cn_request_headers conn) \<and> gc_conn g = conn \<and>
   gc_response_trailers g = h_new (e_headers E) \<and> gc_request_encoding g = req \<and>
   extract_request_encoding E (cn_request_headers conn) = Inr req \<and>
   cancellation_from_conn (e_headers E) (e_debug E) (e_last_instant E)
     (cn_request_headers conn) (cn_has_runtime conn) now1 = Some (Inr c)"
  by (auto simp: call_setup_def grpc_server_conn_new_def Let_def split: option.splits sum.splits)

text \<open>The call's future is the reading of one request followed by the handler.\<close>

lemma drive_running:
  "drive (call_poll C poll_read f_start f_poll) os (g, CRunning f) =
     map_option (map_prod id (map_prod id CRunning)) (drive f_poll os (g, f))"
proof (induction os arbitrary: g f)
  case (Cons o1 os)
  obtain p g' f' where "f_poll o1 (g, f) = (p, (g', f'))" by (metis prod_cases3)
  with Cons show ?case by (cases p) (auto simp: call_poll_def)
qed simp

lemma call_poll_reading:
  "call_poll C poll_read f_start f_poll o1 (g, CReading r) =
     (case read_one C poll_read r of
        (Pending, r') \<Rightarrow> (Pending, (give_back (read_one_stream r') g, CReading r'))
      | (Ready (Inl e), r') \<Rightarrow> (Ready (Inl e), (give_back (read_one_stream r') g, CReading r'))
      | (Ready (Inr req), r') \<Rightarrow>
          map_prod id (map_prod id CRunning)
            (f_poll o1 (give_back (read_one_stream r') g, f_start req)))"
  by (simp add: call_poll_def)

text \<open>What reading the request changes of the control surface: the body that is left.\<close>

definition body_read :: "('h, 'r, 'b, 'u) grpc_conn \<Rightarrow> ('h, 'r, 'b, 'u) grpc_conn \<Rightarrow> bool" where
  "body_read g g1 \<longleftrightarrow> (\<exists>r. g1 = g\<lparr>gc_conn := (gc_conn g)\<lparr>cn_request_body := r\<rparr>\<rparr>)"

lemma body_read_give_back: "body_read g (give_back s g)" "body_read (give_back s g) g2 \<Longrightarrow> body_read g g2"
  by (auto simp: body_read_def give_back_def)

lemma body_read_keeps:
  "body_read g g1 \<Longrightarrow> cn_request_headers (gc_conn g1) = cn_request_headers (gc_conn g) \<and>
     cn_ops (gc_conn g1) = cn_ops (gc_conn g) \<and>
     gc_response_trailers g1 = gc_response_trailers g \<and> gc_deadline g1 = gc_deadline g"
  by (auto simp: body_read_def)

lemma drive_reading:
  "drive (call_poll C poll_read f_start f_poll) os (g, CReading r) = Some (res, (g', st)) \<Longrightarrow>
   (\<exists>e r'. drive (\<lambda>_. read_one C poll_read) os r = Some (Inl e, r') \<and> res = Inl e) \<or>
   (\<exists>req r' os1 os2 g1 f'. drive (\<lambda>_. read_one C poll_read) os r = Some (Inr req, r') \<and> os = os1 @ os2 \<and>
      body_read g g1 \<and>
      drive f_poll os2 (g1, f_start req) = Some (res, (g', f')))"
proof (induction os arbitrary: g r)
  case (Cons o1 os)
  obtain p r1 where r: "read_one C poll_read r = (p, r1)" by (cases "read_one C poll_read r")
  define g1 where "g1 = give_back (read_one_stream r1) g"
  consider "p = Pending" | e where "p = Ready (Inl e)" | req where "p = Ready (Inr req)"
    by (metis poll.exhaust sum.exhaust)
  then show ?case
  proof cases
    case 1
    then have step: "call_poll C poll_read f_start f_poll o1 (g, CReading r) = (Pending, (g1, CReading r1))"
      by (simp add: call_poll_reading r g1_def)
    with Cons.prems have "drive (call_poll C poll_read f_start f_poll) os (g1, CReading r1) = Some (res, (g', st))"
      by simp
    from Cons.IH [OF this] show ?thesis
    proof
      assume "\<exists>req r' os1 os2 g2 f'. drive (\<lambda>_. read_one C poll_read) os r1 = Some (Inr req, r') \<and> os = os1 @ os2 \<and>
        body_read g1 g2 \<and>
        drive f_poll os2 (g2, f_start req) = Some (res, (g', f'))"
      then obtain req r' os1 os2 g2 f' where "drive (\<lambda>_. read_one C poll_read) os r1 = Some (Inr req, r')"
        and "os = os1 @ os2" and "body_read g1 g2"
        and "drive f_poll os2 (g2, f_start req) = Some (res, (g', f'))" by blast
      with 1 r show ?thesis
        by (intro disjI2 exI [of _ req] exI [of _ r'] exI [of _ "o1 # os1"] exI [of _ os2] exI [of _ g2])
           (auto simp: g1_def body_read_give_back)
    qed (use 1 r in auto)
  next
    case (2 e)
    then have "call_poll C poll_read f_start f_poll o1 (g, CReading r) = (Ready (Inl e), (g1, CReading r1))"
      by (simp add: call_poll_reading r g1_def)
    with Cons.prems 2 r show ?thesis by simp
  next
    case (3 req)
    then have "call_poll C poll_read f_start f_poll o1 (g, CReading r) =
        call_poll C poll_read f_start f_poll o1 (g1, CRunning (f_start req))"
      by (simp add: call_poll_def r g1_def)
    with Cons.prems have "drive (call_poll C poll_read f_start f_poll) (o1 # os) (g1, CRunning (f_start req)) = Some (res, (g', st))"
      by simp
    then obtain f' where "drive f_poll (o1 # os) (g1, f_start req) = Some (res, (g', f'))"
      by (auto simp: drive_running simp del: drive.simps)
    with 3 r show ?thesis
      by (intro disjI2 exI [of _ req] exI [of _ r1] exI [of _ "[]"] exI [of _ "o1 # os"] exI [of _ g1])
         (auto simp: g1_def body_read_give_back)
  qed
qed simp

lemma drive_more: "drive f os s = Some x \<Longrightarrow> drive f (os @ os') s = Some x"
  by (induction os arbitrary: s) (auto split: prod.splits poll.splits)

text \<open>What \<open>read_one\<close> resolves to, on a body that delivers.\<close>

lemma read_one_result:
  assumes "live_source poll_read content good delay" and "good r"
    and "drive (\<lambda>_. read_one C poll_read) os (RFirst (request_stream_new r decode enc)) = Some (res, r')"
  shows "res = one_request (items C decode enc DEFAULT_MAX_MESSAGE_SIZE (content r))"
proof -
  let ?s = "request_stream_new r decode enc"
  have "map_option fst (drive (\<lambda>_. read_one C poll_read) (os @ replicate (Suc (delay r)) undefined) (RFirst ?s)) =
      Some (one_request (message_todo C content (ms_of ?s)))"
    using assms(2)
    by (intro live_source.read_first [OF assms(1)])
       (auto simp: message_sound_def ms_of_def request_stream_new_def)
  with drive_more [OF assms(3)] show ?thesis
    by (simp add: message_todo_def ms_of_def request_stream_new_def items_of_stream)
qed

text \<open>What the race of a call that takes one request resolves to.\<close>

lemma unary_race_result:
  assumes "select_ok S" and "delay_ok D"
    and "live_source poll_read content good delay" and "good (cn_request_body conn)"
    and handing: "call_setup E conn now1 now2 = Some (Inr (c, req, resp, g))"
    and d: "drive (race D S c (call_poll (e_codecs E) poll_read f_start f_poll)) os (Unstarted, call_start K g)
      = Some (res, (t, (g', st)))"
  defines "xs \<equiv> items (e_codecs E) (decode_msg K) req DEFAULT_MAX_MESSAGE_SIZE (content (cn_request_body conn))"
  shows "(res = Inl st_shutting_down \<and> (\<exists>o1 \<in> set os. ob_shutdown o1)) \<or>
    (res = Inl st_elapsed \<and> (\<exists>o1 \<in> set os. \<exists>i. c_deadline c = Some i \<and> i \<le> ob_now o1)) \<or>
    (\<exists>e. one_request xs = Inl e \<and> res = Inl e) \<or>
    (\<exists>q os1 os2 g1 f'. one_request xs = Inr q \<and> os = os1 @ os2 \<and>
      cn_request_headers (gc_conn g1) = cn_request_headers conn \<and> gc_response_trailers g1 = h_new (e_headers E) \<and>
      drive f_poll os2 (g1, f_start q) = Some (res, (g', f')))"
proof -
  note handed = call_setup_deadline [OF handing]
  have start: "call_start K g = (g, CReading (RFirst (request_stream_new (cn_request_body conn) (decode_msg K) req)))"
    using handed by (simp add: call_start_def requests_def)
  have read: "res' = one_request xs"
    if "drive (\<lambda>_. read_one (e_codecs E) poll_read) os
      (RFirst (request_stream_new (cn_request_body conn) (decode_msg K) req)) = Some (res', r')" for res' r'
    using read_one_result [OF assms(3,4) that] by (simp add: xs_def)
  have "(\<exists>e. one_request xs = Inl e \<and> res = Inl e) \<or>
      (\<exists>q os1 os2 g1 f'. one_request xs = Inr q \<and> os = os1 @ os2 \<and>
        cn_request_headers (gc_conn g1) = cn_request_headers conn \<and> gc_response_trailers g1 = h_new (e_headers E) \<and>
        drive f_poll os2 (g1, f_start q) = Some (res, (g', f')))"
    if "drive (call_poll (e_codecs E) poll_read f_start f_poll) os (call_start K g) = Some (res, (g', st))"
  proof -
    from drive_reading [OF that [unfolded start]] read show ?thesis
    proof (elim disjE exE conjE)
      fix q r' os1 os2 g1 f'
      assume q: "drive (\<lambda>_. read_one (e_codecs E) poll_read) os
          (RFirst (request_stream_new (cn_request_body conn) (decode_msg K) req)) = Some (Inr q, r')"
        and h: "os = os1 @ os2" "body_read g g1" "drive f_poll os2 (g1, f_start q) = Some (res, (g', f'))"
      from body_read_keeps [OF h(2)] handed read [OF q, symmetric] h(1,3) show ?thesis by auto
    qed auto
  qed
  with drive_race_outcome [OF assms(1,2) timer_ok_Unstarted d] show ?thesis by blast
qed

text \<open>The same in a call that nothing disturbs, whose body holds one request.\<close>

lemma undisturbed_call:
  assumes "select_ok S" and "delay_ok D"
    and "live_source poll_read content good delay" and "good (cn_request_body conn)"
    and handing: "call_setup E conn now1 now2 = Some (Inr (c, req, resp, g))"
    and calm: "\<forall>o1 \<in> set os. undisturbed c o1"
    and d: "drive (race D S c (call_poll (e_codecs E) poll_read f_start f_poll)) os (Unstarted, call_start K g)
      = Some (res, (t, (g', st)))"
    and q: "one_request (items (e_codecs E) (decode_msg K) req DEFAULT_MAX_MESSAGE_SIZE (content (cn_request_body conn))) = Inr q"
  shows "\<exists>os1 os2 g1 f'. os = os1 @ os2 \<and> body_read g g1 \<and> drive f_poll os2 (g1, f_start q) = Some (res, (g', f'))"
proof -
  note handed = call_setup_deadline [OF handing]
  have start: "call_start K g = (g, CReading (RFirst (request_stream_new (cn_request_body conn) (decode_msg K) req)))"
    using handed by (simp add: call_start_def requests_def)
  have "drive (call_poll (e_codecs E) poll_read f_start f_poll) os (call_start K g) = Some (res, (g', st))"
    using drive_race_undisturbed [OF assms(1,2) timer_ok_Unstarted calm, of "call_poll (e_codecs E) poll_read f_start f_poll"
      "call_start K g"] d by simp
  from drive_reading [OF this [unfolded start]] read_one_result [OF assms(3,4)] q show ?thesis by fastforce
qed

text \<open>What the reading and the handler both keep of the control surface, the call keeps.\<close>

lemma call_poll_keeps:
  fixes f_start :: "'q \<Rightarrow> 'f"
  assumes "\<And>o1 g f. P g \<Longrightarrow> P (fst (snd (f_poll o1 (g, f))))" and "\<And>(s :: ('q, _) request_stream) g. P g \<Longrightarrow> P (give_back s g)"
  shows "P (fst gs) \<Longrightarrow> P (fst (snd (call_poll C poll_read f_start f_poll o1 gs)))"
  using assms by (auto simp: call_poll_def split: prod.splits call_state.splits poll.splits sum.splits)

section \<open>Errors carry well-formed metadata\<close>

definition codec_wf :: "'a codec \<Rightarrow> bool" where
  "codec_wf K \<longleftrightarrow> (\<forall>b e. decode_msg K b = Inl e \<longrightarrow> metadata_wf (st_metadata e)) \<and>
     (\<forall>v e. encode_msg K v = Inl e \<longrightarrow> metadata_wf (st_metadata e))"

lemma codec_wf_prost [wf_intros]: "codec_wf (prost_codec P)"
  by (auto simp: codec_wf_def prost_codec_def prost_encode_def prost_decode_def metadata_wf_new split: sum.splits)

lemma map_io_err_wf: "map_io_err ctx r = Inl e \<Longrightarrow> metadata_wf (st_metadata e)"
  by (auto simp: map_io_err_def metadata_wf_new split: sum.splits)

lemma read_capped_wf: "read_capped r max_size ctx = Inl e \<Longrightarrow> metadata_wf (st_metadata e)"
  by (auto simp: read_capped_def Let_def and_then_eq_Inl oversize_def metadata_wf_new
      dest: map_io_err_wf split: if_splits)

lemma compress_wf: "compress C enc d = Inl e \<Longrightarrow> metadata_wf (st_metadata e)"
  by (cases enc) (auto simp: gzip_compress_def deflate_compress_def zstd_compress_def dest: map_io_err_wf)

lemma decompress_wf: "decompress C enc d max_size = Inl e \<Longrightarrow> metadata_wf (st_metadata e)"
  by (cases enc) (auto simp: oversize_def metadata_wf_new gzip_decompress_def deflate_decompress_def
      zstd_decompress_def and_then_eq_Inl dest: map_io_err_wf read_capped_wf split: if_splits)

lemma encode_frame_wf: "codec_wf K \<Longrightarrow> encode_frame C K v enc = Inl e \<Longrightarrow> metadata_wf (st_metadata e)"
  by (auto simp: encode_frame_def encode_payload_eq and_then_eq_Inl codec_wf_def dest: compress_wf)

lemma finish_message_wf:
  "codec_wf K \<Longrightarrow> finish_message C (decode_msg K) enc max_size c z = Inl e \<Longrightarrow> metadata_wf (st_metadata e)"
  by (auto simp: finish_message_def and_then_eq_Inl codec_wf_def metadata_wf_new dest: decompress_wf split: if_splits)

lemma items_wf:
  "codec_wf K \<Longrightarrow> Inl e \<in> set (items C (decode_msg K) enc max_size bs) \<Longrightarrow> metadata_wf (st_metadata e)"
proof (induction C "decode_msg K" enc max_size bs rule: items.induct)
  case (1 C enc max_size bs)
  obtain x rest where n: "next_frame C (decode_msg K) enc max_size bs = (x, rest)" by fastforce
  have x: "x = Some (Inl e) \<Longrightarrow> metadata_wf (st_metadata e)"
    using n 1(2) finish_message_wf by (auto simp: next_frame_def metadata_wf_new split: if_splits)
  have ih: "x = Some i \<Longrightarrow> rest = Some r \<Longrightarrow> Inl e \<in> set (items C (decode_msg K) enc max_size r) \<Longrightarrow>
      metadata_wf (st_metadata e)" for i r
    using 1(1) [OF n [symmetric]] 1(2) by auto
  show ?case
    using 1(3) x ih n by (subst (asm) items.simps) (auto split: option.splits)
qed

lemma one_request_wf:
  assumes "\<forall>e. Inl e \<in> set xs \<longrightarrow> metadata_wf (st_metadata e)" and "one_request xs = Inl e"
  shows "metadata_wf (st_metadata e)"
  using assms by (cases xs rule: one_request.cases)
    (auto simp: st_no_request_def st_more_requests_def metadata_wf_new)

lemma unary_status_wf:
  "codec_wf K \<Longrightarrow> (\<And>e. res = Inl e \<Longrightarrow> metadata_wf (st_metadata e)) \<Longrightarrow>
   metadata_wf (st_metadata (unary_status E K enc res))"
  by (cases res) (auto simp: unary_status_def encode_frame_wf split: sum.splits)

section \<open>The signal\<close>

lemma signal_step:
  assumes "select_ok I" and "select_ok S" and "delay_ok D" and "timer_ok c t"
    and r: "signal D I S c o1 t = (p, t')"
  shows "timer_ok c t' \<and>
    (p = Pending \<and> \<not> ob_shutdown o1 \<or>
     p = Ready st_shutting_down \<and> ob_shutdown o1 \<or>
     p = Ready st_elapsed \<and> (\<exists>i. c_deadline c = Some i \<and> i \<le> ob_now o1))"
proof -
  have sd: "signal_shutdown I o1 t =
      (if ob_shutdown o1 then (Ready st_shutting_down, t) else (Pending, t))"
    by (simp add: signal_shutdown_def interrupt_never [OF assms(1)])
  have timer: "timer_ok c t' \<and> (p = Pending \<or> p = Ready st_elapsed \<and> i \<le> ob_now o1)"
    if "signal_timer D i o1 t = (p, t')" and "c_deadline c = Some i" for p t' i
  proof -
    have early: "D start remaining now \<Longrightarrow> start + remaining \<le> now" for start remaining now
      using assms(3) by (simp add: delay_ok_def)
    show ?thesis
      using that assms(4)
      by (cases t) (auto simp: timer_ok_def checked_duration_since_def dest: early split: option.splits if_splits)
  qed
  show ?thesis
  proof (cases "c_deadline c")
    case None
    with r sd assms(4) show ?thesis by (auto simp: signal_def split: if_splits)
  next
    case (Some i)
    obtain q u where q: "signal_timer D i o1 t = (q, u)" by fastforce
    from r have "(if ob_shutdown o1 then (Ready st_shutting_down, t) else signal_timer D i o1 t) = (p, t')"
      by (simp add: signal_def Some select_or [OF assms(2)] sd split: if_splits)
    with q timer [OF q Some] Some assms(4) show ?thesis by (auto split: if_splits)
  qed
qed

lemma signal_calm:
  assumes "select_ok I" and "select_ok S" and "delay_ok D" and "undisturbed c o1"
  shows "stays_calm (signal_poll D I S o1) (\<lambda>(c', t). c' = c \<and> timer_ok c t)"
  unfolding stays_calm_def
proof (clarify)
  fix t assume t: "timer_ok c t"
  obtain p t' where r: "signal D I S c o1 t = (p, t')" by fastforce
  from signal_step [OF assms(1-3) t r] assms(4) r
  show "\<exists>c'. signal_poll D I S o1 (c, t) = (Pending, c') \<and> (case c' of (c', t) \<Rightarrow> c' = c \<and> timer_ok c t)"
    by (auto simp: signal_poll_def undisturbed_def)
qed

section \<open>Properties\<close>

text \<open>
  C7: A unary call, from the request's bytes to the response: whenever it finishes, the
  connection is answered and halted with exactly one status in the trailers, and that status
  and the body are those of one result. The result is a refusal before the handler
  (\<open>Unimplemented\<close> or \<open>InvalidArgument\<close>), a cancellation with its cause, the error of reading
  exactly one request in the announced encoding, or what the handler's own future returned for
  exactly the one request in the body, started with fresh trailers and answered with those it
  left; success is reported only when the handler succeeded and its response could be framed in
  the negotiated encoding, and only then is there a body.
\<close>

theorem unary_outcome:
  assumes "env_ok E" and "select_ok S" and "delay_ok D"
    and "live_source poll_read content good delay" and "good (cn_request_body conn)"
    and "codec_wf Kq" and "codec_wf Kp" and "errors_wf f_poll"
    and "unary_impl E D S poll_read Kq Kp f_start f_poll now1 now2 os conn = Finished conn'"
  shows "\<exists>res enc tr out. answered_with conn' (unary_body E Kp enc res) out \<and>
    enc = negotiate_response_encoding E (cn_request_headers conn) \<and>
    out = status_write_into (e_headers E) (e_base64 E) (unary_status E Kp enc res) tr \<and>
    h_get_str (e_headers E) out (lit ''grpc-status'') = Some (show_code (st_code (unary_status E Kp enc res))) \<and>
    ((\<exists>st. call_setup E conn now1 now2 = Some (Inl (error_response E conn st)) \<and> res = Inl st \<and>
        st_code st \<in> {Unimplemented, InvalidArgument}) \<or>
     (res = Inl st_shutting_down \<and> (\<exists>o1 \<in> set os. ob_shutdown o1)) \<or>
     (res = Inl st_elapsed \<and> (\<exists>o1 \<in> set os. \<exists>c i. cancellation_from_conn (e_headers E) (e_debug E)
        (e_last_instant E) (cn_request_headers conn) (cn_has_runtime conn) now1 = Some (Inr c) \<and>
        c_deadline c = Some i \<and> i \<le> ob_now o1)) \<or>
     (\<exists>renc e. extract_request_encoding E (cn_request_headers conn) = Inr renc \<and>
        one_request (items (e_codecs E) (decode_msg Kq) renc DEFAULT_MAX_MESSAGE_SIZE
          (content (cn_request_body conn))) = Inl e \<and> res = Inl e) \<or>
     (\<exists>renc req os1 os2 g1 g2 f'. extract_request_encoding E (cn_request_headers conn) = Inr renc \<and>
        one_request (items (e_codecs E) (decode_msg Kq) renc DEFAULT_MAX_MESSAGE_SIZE
          (content (cn_request_body conn))) = Inr req \<and> os = os1 @ os2 \<and>
        cn_request_headers (gc_conn g1) = cn_request_headers conn \<and>
        gc_response_trailers g1 = h_new (e_headers E) \<and>
        drive f_poll os2 (g1, f_start req) = Some (res, (g2, f')) \<and> tr = gc_response_trailers g2))"
proof -
  have status: "h_get_str (e_headers E) (status_write_into (e_headers E) (e_base64 E) st tr) (lit ''grpc-status'')
      = Some (show_code (st_code st))" if "metadata_wf (st_metadata st)" for st tr
    using that assms(1) by (simp add: write_into_strs env_ok_def)
  consider conn1 where "call_setup E conn now1 now2 = Some (Inl conn1)" "conn' = conn1"
    | c req resp g where "call_setup E conn now1 now2 = Some (Inr (c, req, resp, g))"
    using assms(9) by (auto simp: unary_impl_def split: option.splits sum.splits)
  then show ?thesis
  proof cases
    case (1 conn1)
    from call_setup_refusal [OF 1(1)] obtain st where st: "conn1 = error_response E conn st"
      "st_code st \<in> {Unimplemented, InvalidArgument}" "metadata_wf (st_metadata st)" by blast
    let ?enc = "negotiate_response_encoding E (cn_request_headers conn)"
    have "unary_status E Kp ?enc (Inl st) = st" "unary_body E Kp ?enc (Inl st) = []"
      by (simp_all add: unary_status_def unary_body_def)
    with error_answered [of E conn st "h_new (e_headers E)"] status [OF st(3), of "h_new (e_headers E)"] st 1
    show ?thesis
      by (intro exI [of _ "Inl st"] exI [of _ ?enc] exI [of _ "h_new (e_headers E)"]
          exI [of _ "status_write_into (e_headers E) (e_base64 E) st (h_new (e_headers E))"])
         (auto simp: error_response_def)
  next
    case (2 c req resp g)
    note handed = call_setup_deadline [OF 2]
    from assms(9) 2 obtain res t g' st where
      d: "drive (race D S c (call_poll (e_codecs E) poll_read f_start f_poll)) os (Unstarted, call_start Kq g)
        = Some (res, (t, (g', st)))"
      and conn': "conn' = finish_unary E Kp (gc_conn g') res resp (gc_response_trailers g')"
      by (auto simp: unary_impl_def into_parts_def split: option.splits prod.splits)
    define xs where "xs = items (e_codecs E) (decode_msg Kq) req DEFAULT_MAX_MESSAGE_SIZE (content (cn_request_body conn))"
    note outcome = unary_race_result [OF assms(2-5) 2 d, folded xs_def]
    have wf: "metadata_wf (st_metadata e)" if "res = Inl e" for e
    proof -
      have "\<forall>e. Inl e \<in> set xs \<longrightarrow> metadata_wf (st_metadata e)"
        using items_wf [OF assms(6)] by (auto simp: xs_def)
      note r = one_request_wf [OF this]
      from outcome that show ?thesis
        by (auto simp: st_shutting_down_def st_elapsed_def metadata_wf_new dest: r errors_wf_drive [OF assms(8)])
    qed
    have ans: "answered_with conn' (unary_body E Kp resp res)
        (status_write_into (e_headers E) (e_base64 E) (unary_status E Kp resp res) (gc_response_trailers g'))"
      unfolding conn' by (rule finish_unary_answered)
    show ?thesis
      using outcome handed ans status [OF unary_status_wf [OF assms(7), of res E resp], of "gc_response_trailers g'"] wf
      unfolding xs_def by blast
  qed
qed

text \<open>A call for examples: a handler that echoes the request, and a connection without headers.\<close>

definition echo :: "('g \<times> 'x, 'x result) fut" where
  "echo o1 gs = (Ready (Inr (snd gs)), gs)"

lemma errors_wf_echo: "errors_wf echo"
  by (simp add: errors_wf_def echo_def)

definition example_conn :: "bytes \<Rightarrow> ((str, str list) alist, bytes, 'b, 'u) conn" where
  "example_conn body = \<lparr>cn_request_headers = DAList.empty, cn_request_body = body, cn_has_runtime = True, cn_ops = []\<rparr>"

lemma codec_wf_raw: "codec_wf raw_codec"
  by (simp add: codec_wf_def raw_codec_def)

lemma example_header [simp]: "h_get_str (e_headers example_env) DAList.empty k = None"
proof -
  have "h_new dalist_headers = DAList.empty" by (simp add: dalist_headers_def)
  with h_get_str_new [OF headers_ok_dalist, of k] show ?thesis by (simp add: example_env_def)
qed

lemma example_setup:
  "call_setup example_env (example_conn body) now1 now2 =
     Some (Inr (\<lparr>c_deadline = None\<rparr>, Identity, Identity,
       \<lparr>gc_conn = example_conn body, gc_response_trailers = h_new (e_headers example_env),
        gc_request_encoding = Identity, gc_deadline = None\<rparr>))"
  by (simp add: call_setup_def extract_request_encoding_def cancellation_from_conn_def
      grpc_server_conn_new_def negotiate_response_encoding_def example_conn_def Let_def)

lemma example_read:
  "read_one prefix_codecs cursor_read (RFirst (request_stream_new [0, 0, 0, 0, 1, 7] Inr Identity))
      = (Ready (Inr [7]), RSecond [7] \<lparr>rs_reader = [], rs_state = Done, rs_decode = Inr, rs_encoding = Identity,
          rs_max_message_size = DEFAULT_MAX_MESSAGE_SIZE\<rparr>)"
  by (simp add: request_stream_new_def request_recv_def poll_message_def read_state_new_def fill_loop.simps
        PREFIX_LEN_def overwrite_def cursor_read_def frame_len_def u32_from_be_bytes_def Let_def
        finish_message_def DEFAULT_MAX_MESSAGE_SIZE_def)

lemma example_poll:
  assumes "cn_request_body (gc_conn g) = [0, 0, 0, 0, 1, 7]" and "gc_request_encoding g = Identity"
    and "\<And>g. f_poll o1 (g, f_start [7]) = (Ready res, (g, f_start [7]))"
  shows "\<exists>g2. call_poll prefix_codecs cursor_read f_start f_poll o1 (call_start raw_codec g)
      = (Ready res, (g2, CRunning (f_start [7])))"
  using assms by (simp add: call_poll_def call_start_def requests_def raw_codec_def example_read del: read_one.simps)

theorem unary_outcome_witness:
  "\<exists>conn' bs out. unary_impl example_env exact_delay simple_select cursor_read raw_codec raw_codec id echo 0 0
     [\<lparr>ob_shutdown = False, ob_now = 0\<rparr>] (example_conn [0, 0, 0, 0, 1, 7]
        :: ((str, str list) alist, bytes, (unit, bytes, (str, str list) alist) response_body, unit) conn) = Finished conn' \<and>
   answered_with conn' bs out \<and> h_get_str (e_headers example_env) out (lit ''grpc-status'') = Some (show_code Ok)"
proof -
  let ?conn = "example_conn [0, 0, 0, 0, 1, 7]
        :: ((str, str list) alist, bytes, (unit, bytes, (str, str list) alist) response_body, unit) conn"
  let ?os = "[\<lparr>ob_shutdown = False, ob_now = 0\<rparr>]"
  have codecs: "e_codecs example_env = prefix_codecs" by (simp add: example_env_def)
  have body: "cn_request_body ?conn = [0, 0, 0, 0, 1, 7]" by (simp add: example_conn_def)
  let ?g = "\<lparr>gc_conn = ?conn, gc_response_trailers = h_new (e_headers example_env),
        gc_request_encoding = Identity, gc_deadline = None\<rparr>"
  obtain g2 where poll: "call_poll prefix_codecs cursor_read id echo \<lparr>ob_shutdown = False, ob_now = 0\<rparr>
      (call_start raw_codec ?g) = (Ready (Inr [7]), (g2, CRunning [7]))"
    using example_poll [where g = ?g and f_poll = echo and ?o1.0 = "\<lparr>ob_shutdown = False, ob_now = 0\<rparr>"
      and res = "Inr [7]" and f_start = id]
    by (auto simp: body echo_def)
  obtain conn' where run: "unary_impl example_env exact_delay simple_select cursor_read raw_codec raw_codec id echo
      0 0 ?os ?conn = Finished conn'"
    by (simp add: unary_impl_def example_setup race_def interruptible_def simple_select_def codecs poll into_parts_def)
  have items: "items prefix_codecs (decode_msg raw_codec) renc DEFAULT_MAX_MESSAGE_SIZE [0, 0, 0, 0, 1, 7] = [Inr [7]]" for renc
    using items_frame [of "[7]" DEFAULT_MAX_MESSAGE_SIZE prefix_codecs "decode_msg raw_codec" renc 0 "[]"]
    by (simp add: u32_to_be_bytes_def finish_message_def raw_codec_def DEFAULT_MAX_MESSAGE_SIZE_def)
  have canc: "cancellation_from_conn (e_headers example_env) (e_debug example_env) (e_last_instant example_env)
      (cn_request_headers ?conn) (cn_has_runtime ?conn) 0 = Some (Inr \<lparr>c_deadline = None\<rparr>)"
    by (simp add: example_conn_def cancellation_from_conn_def)
  have echo: "drive echo os (g, x) = Some (res, gs) \<Longrightarrow> res = Inr x" for os g gs and x :: bytes and res
    by (cases os) (simp_all add: echo_def)
  have frame: "unary_status example_env raw_codec enc (Inr v) = status_ok" for enc v
    by (cases enc) (simp_all add: unary_status_def encode_frame_def encode_payload_eq raw_codec_def
      gzip_compress_def deflate_compress_def zstd_compress_def map_io_err_def codecs prefix_codecs_def)
  from unary_outcome [OF env_ok_example select_ok_simple delay_ok_exact cursor.live_source_axioms TrueI
      codec_wf_raw codec_wf_raw errors_wf_echo run]
  obtain res enc out where a: "answered_with conn' (unary_body example_env raw_codec enc res) out"
    and h: "h_get_str (e_headers example_env) out (lit ''grpc-status'') =
      Some (show_code (st_code (unary_status example_env raw_codec enc res)))"
    and res: "res = Inr [7]"
    by (auto simp: example_setup canc body codecs items dest: echo)
  from run a h show ?thesis unfolding res frame by auto
qed

text \<open>
  What all four call shapes refuse before the handler is created or the body is read: a
  \<open>grpc-encoding\<close> that the build does not have is answered with \<open>Unimplemented\<close>, else a
  \<open>grpc-timeout\<close> that cannot be parsed with \<open>InvalidArgument\<close>; the answer has an empty body
  and the trailers of the status alone, and does not depend on the handler.
\<close>

lemma refused_calls:
  assumes "h_get_str (e_headers E) (cn_request_headers conn) (lit ''grpc-encoding'') = Some v \<and>
      from_grpc_encoding (e_features E) v = None \<and> code = Unimplemented \<or>
    extract_request_encoding E (cn_request_headers conn) = Inr enc \<and>
      h_get_str (e_headers E) (cn_request_headers conn) (lit ''grpc-timeout'') = Some v \<and>
      parse_grpc_timeout v = None \<and> code = InvalidArgument"
  shows "\<exists>st. st_code st = code \<and>
    unary_impl E D S1 poll_read Kq Kp f_start f1 now1 now2 os conn = Finished (error_response E conn st) \<and>
    client_streaming_impl E D S2 Kp f f2 now1 now2 os conn = Finished (error_response E conn st) \<and>
    answered_with (error_response E conn st) []
      (status_write_into (e_headers E) (e_base64 E) st (h_new (e_headers E)))"
proof -
  have "\<exists>st. st_code st = code \<and> call_setup E conn now1 now2 = Some (Inl (error_response E conn st))"
    using assms
  proof
    assume a: "h_get_str (e_headers E) (cn_request_headers conn) (lit ''grpc-encoding'') = Some v \<and>
      from_grpc_encoding (e_features E) v = None \<and> code = Unimplemented"
    then obtain m where "extract_request_encoding E (cn_request_headers conn) = Inl (st_unimplemented m)"
      by (simp add: extract_request_encoding_def)
    with a show ?thesis by (intro exI [of _ "st_unimplemented m"]) (simp add: call_setup_def)
  next
    assume a: "extract_request_encoding E (cn_request_headers conn) = Inr enc \<and>
      h_get_str (e_headers E) (cn_request_headers conn) (lit ''grpc-timeout'') = Some v \<and>
      parse_grpc_timeout v = None \<and> code = InvalidArgument"
    then show ?thesis
      by (intro exI [of _ "st_invalid_argument (lit ''malformed grpc-timeout '' @ e_debug E v)"])
         (simp add: call_setup_def cancellation_from_conn_def)
  qed
  then show ?thesis
    by (auto simp: unary_impl_def client_streaming_impl_def error_response_def error_answered)
qed

lemma refused_calls_witness:
  "\<exists>st. st_code st = Unimplemented \<and>
    unary_impl example_env exact_delay simple_select cursor_read raw_codec raw_codec id echo 0 0 []
      (example_conn []\<lparr>cn_request_headers := h_insert dalist_headers DAList.empty (lit ''grpc-encoding'') (lit ''br'')\<rparr>)
    = Finished (error_response example_env
        (example_conn []\<lparr>cn_request_headers := h_insert dalist_headers DAList.empty (lit ''grpc-encoding'') (lit ''br'')\<rparr>) st)"
proof -
  have "h_get_str dalist_headers (h_insert dalist_headers DAList.empty (lit ''grpc-encoding'') (lit ''br'')) (lit ''grpc-encoding'')
      = Some (lit ''br'')"
    by (rule h_get_str_inserted [OF headers_ok_dalist]) (simp add: utf8_valid_ascii lit_def)
  then show ?thesis
    using refused_calls [where E = example_env and conn = "example_conn []\<lparr>cn_request_headers :=
        h_insert dalist_headers DAList.empty (lit ''grpc-encoding'') (lit ''br'')\<rparr>" and v = "lit ''br''" and code = Unimplemented
        and D = exact_delay and ?S1.0 = simple_select and poll_read = cursor_read and Kq = raw_codec and Kp = raw_codec
        and f_start = id and ?f1.0 = echo and ?now1.0 = 0 and ?now2.0 = 0 and os = "[]"]
    by (fastforce simp: example_env_def from_grpc_encoding_def lit_def)
qed

text \<open>
  The signal that cuts a response stream tells the truth: polled in any state it has
  reached, it is \<open>Cancelled\<close> only when the poll sees the shutdown, \<open>DeadlineExceeded\<close> only when
  the clock has reached the call's deadline, and it resolves whenever the shutdown is seen;
  otherwise it stays pending, so that an undisturbed stream is never cut.
\<close>

lemma signal_truthful:
  assumes "select_ok I" and "select_ok S" and "delay_ok D" and "timer_ok c t"
    and "signal_poll D I S o1 (c, t) = (p, (c', t'))"
  shows "c' = c \<and> timer_ok c t' \<and>
    (p = Pending \<and> \<not> ob_shutdown o1 \<or>
     p = Ready st_shutting_down \<and> ob_shutdown o1 \<or>
     p = Ready st_elapsed \<and> (\<exists>i. c_deadline c = Some i \<and> i \<le> ob_now o1))"
proof -
  obtain q u where r: "signal D I S c o1 t = (q, u)" by fastforce
  with assms(5) have "c' = c" "q = p" "u = t'" by (auto simp: signal_poll_def)
  with signal_step [OF assms(1-4) r] show ?thesis by simp
qed

lemma signal_truthful_witness:
  "signal_poll exact_delay simple_select simple_select \<lparr>ob_shutdown = False, ob_now = 7\<rparr> (\<lparr>c_deadline = Some 5\<rparr>, Unstarted)
     = (Ready st_elapsed, (\<lparr>c_deadline = Some 5\<rparr>, Unstarted)) \<and>
   timer_ok \<lparr>c_deadline = Some 5\<rparr> Unstarted"
proof -
  have step: "signal_poll exact_delay simple_select simple_select \<lparr>ob_shutdown = False, ob_now = 7\<rparr> (\<lparr>c_deadline = Some 5\<rparr>, Unstarted)
     = (Ready st_elapsed, (\<lparr>c_deadline = Some 5\<rparr>, Unstarted))"
    by (simp add: signal_poll_def signal_def simple_select_def signal_shutdown_def checked_duration_since_def)
  from signal_truthful [OF select_ok_simple select_ok_simple delay_ok_exact _ step] step
  show ?thesis by simp
qed

text \<open>
  C9: A server-streaming call, end to end: when the call's setup passes and the handler has
  returned a stream, the response body made of that stream, read by the client over any partial
  reads while nothing disturbs the call, delivers exactly the handler's items under the
  negotiated encoding, and then ends.
\<close>

theorem server_streaming_delivers:
  assumes "env_ok E" and "select_ok I" and "select_ok S2" and "delay_ok D" and "codec_ok Kp"
    and "call_setup E conn now1 now2 = Some (Inr (c, req, resp, g))"
    and "drive (race D S1 c (call_poll (e_codecs E) poll_read f_start f_poll)) os (Unstarted, call_start Kq g)
      = Some (Inr st, (t, (g', cs)))"
    and "item_source next_item todo sound wait" and "sound st" and "todo st = map Inr vs"
    and "list_all2 (fits (e_codecs E) Kp resp max_size) vs frames" and "max_size < 2 ^ 64 - 1"
    and "undisturbed c o1" and "length vs + wait st < n"
  shows "\<exists>body ops conn'. server_streaming_impl E D S1 poll_read Kq Kp f_start f_poll now1 now2 os conn = Finished conn' \<and>
    cn_ops conn' = ops @ [WithBody (Streaming body), Halt] \<and>
    resp = negotiate_response_encoding E (cn_request_headers conn) \<and>
    collect n (e_codecs E) (stream_body_poll_read (e_codecs E) next_item (signal_poll D I S2 o1))
      (with_encoding (with_max_message_size (message_stream_new body (decode_msg Kp)) max_size) resp)
    = (map Inr vs, True)"
proof -
  let ?body = "stream_body_new st (encode_msg Kp) resp (gc_response_trailers g') (Some (c, Unstarted))"
  have fin: "server_streaming_impl E D S1 poll_read Kq Kp f_start f_poll now1 now2 os conn
      = Finished (respond (gc_conn g') (Streaming ?body))"
    using assms(6,7) by (simp add: server_streaming_impl_def into_parts_def)
  have calm: "stays_calm (signal_poll D I S2 o1) (\<lambda>(c', t). c' = c \<and> timer_ok c t)"
    by (rule signal_calm [OF assms(2,3,4,13)])
  have content: "body_content (e_codecs E) todo ?body = concat frames"
    using assms(10) frames_of_fits [OF assms(11)] by (simp add: body_content_def stream_body_new_def)
  have items: "items (e_codecs E) (decode_msg Kp) resp max_size (body_content (e_codecs E) todo ?body) = map Inr vs"
    using items_all_fit [OF _ assms(5,12,11)] assms(1) by (simp add: content env_ok_def)
  have sound: "body_sound sound (\<lambda>(c', t). c' = c \<and> timer_ok c t) ?body"
    using assms(9) by (simp add: body_sound_def stream_body_new_def)
  have "collect n (e_codecs E) (stream_body_poll_read (e_codecs E) next_item (signal_poll D I S2 o1))
      (with_encoding (with_max_message_size (message_stream_new ?body (decode_msg Kp)) max_size) resp)
    = (map Inr vs, True)"
    using collect_new_stream [OF item_source.stream_body_live [OF assms(8) calm, where C = "e_codecs E"] sound,
        where C = "e_codecs E" and decode = "decode_msg Kp" and enc = resp and max_size = max_size and n = n] assms(14)
    by (simp add: items) (simp add: stream_body_new_def)
  with fin call_setup_deadline [OF assms(6)] show ?thesis
    by (intro exI [of _ ?body] exI [of _ "cn_ops (gc_conn g')"] exI [of _ "respond (gc_conn g') (Streaming ?body)"])
       (simp add: respond_def conn_do_def)
qed

definition open_stream :: "('g \<times> 'x, (bytes result list) result) fut" where
  "open_stream o1 gs = (Ready (Inr [Inr [7], Inr []]), gs)"

theorem server_streaming_delivers_witness:
  "\<exists>body ops conn'. server_streaming_impl example_env exact_delay simple_select cursor_read raw_codec raw_codec
      id open_stream 0 0 [\<lparr>ob_shutdown = False, ob_now = 0\<rparr>] (example_conn [0, 0, 0, 0, 1, 7]
        :: ((str, str list) alist, bytes, (bytes result list, bytes, (str, str list) alist) response_body, unit) conn)
      = Finished conn' \<and>
    cn_ops conn' = ops @ [WithBody (Streaming body), Halt] \<and>
    collect 3 prefix_codecs (stream_body_poll_read prefix_codecs list_next
        (signal_poll exact_delay simple_select simple_select \<lparr>ob_shutdown = False, ob_now = 9\<rparr>))
      (with_encoding (with_max_message_size (message_stream_new body (decode_msg raw_codec)) 10) Identity)
    = ([Inr [7], Inr []], True)"
proof -
  let ?conn = "example_conn [0, 0, 0, 0, 1, 7]
        :: ((str, str list) alist, bytes, (bytes result list, bytes, (str, str list) alist) response_body, unit) conn"
  let ?g = "\<lparr>gc_conn = ?conn, gc_response_trailers = h_new (e_headers example_env),
        gc_request_encoding = Identity, gc_deadline = None\<rparr>"
  let ?o = "\<lparr>ob_shutdown = False, ob_now = 0\<rparr>"
  have codecs: "e_codecs example_env = prefix_codecs" by (simp add: example_env_def)
  have body: "cn_request_body ?conn = [0, 0, 0, 0, 1, 7]" by (simp add: example_conn_def)
  obtain g2 where poll: "call_poll prefix_codecs cursor_read id open_stream ?o (call_start raw_codec ?g)
      = (Ready (Inr [Inr [7], Inr []]), (g2, CRunning [7]))"
    using example_poll [where g = ?g and f_poll = open_stream and ?o1.0 = ?o
      and res = "Inr [Inr [7], Inr []]" and f_start = id] by (auto simp: body open_stream_def)
  then have run: "drive (race exact_delay simple_select \<lparr>c_deadline = None\<rparr>
      (call_poll (e_codecs example_env) cursor_read id open_stream)) [?o] (Unstarted, call_start raw_codec ?g)
      = Some (Inr [Inr [7], Inr []], (Unstarted, (g2, CRunning [7])))"
    by (simp add: race_def interruptible_def simple_select_def codecs)
  have fits: "list_all2 (fits (e_codecs example_env) raw_codec Identity 10) [[7], []]
      [[0, 0, 0, 0, 1, 7], [0, 0, 0, 0, 0]]"
    by (simp add: fits_def encode_frame_Inr raw_codec_def u32_to_be_bytes_def PREFIX_LEN_def)
  have "undisturbed \<lparr>c_deadline = None\<rparr> \<lparr>ob_shutdown = False, ob_now = 9\<rparr>" by (simp add: undisturbed_def)
  from server_streaming_delivers [OF env_ok_example select_ok_simple select_ok_simple delay_ok_exact codec_ok_raw
      example_setup run list_stream.item_source_axioms TrueI _ fits _ this, of 3]
  show ?thesis by (simp add: codecs) blast
qed

end
