(* ===== verification/Codegen.thy ===== *)
theory Codegen
  imports ServiceClient Dispatch "HOL-Library.List_Lexorder"
begin

text \<open>
  \<open>codegen/src/lib.rs\<close>: the service generator. What it emits is Rust source; the model keeps
  the abstract syntax of what the templates are filled with (the trait, the routing of the
  server's \<open>Handler\<close>, the client's methods), gives the emitted \<open>run\<close> its meaning
  (\<open>server_run\<close>), and keeps the text of the \<open>use\<close> block. \<open>Service\<close> and \<open>Method\<close> are the
  descriptors of \<open>prost_build\<close>, as far as the generator reads them. The functions around the
  generator are in \<open>Generate\<close>.
\<close>

section \<open>Descriptors\<close>

record rpc_method =
  mt_name :: str
  mt_proto_name :: str
  mt_input_type :: str
  mt_output_type :: str
  mt_client_streaming :: bool
  mt_server_streaming :: bool

record rpc_service =
  sv_name :: str
  sv_proto_name :: str
  sv_package :: str
  sv_methods :: "rpc_method list"

section \<open>What is emitted\<close>

datatype trait_fn =
    Fn_Unary str str str
  | Fn_Server_Streaming str str str
  | Fn_Client_Streaming str str
  | Fn_Bidi str str str

datatype server_call = Prost_Unary | Prost_Server_Streaming | Prost_Client_Streaming | Prost_Bidi str str

record run_arm =
  ra_variant :: str
  ra_call :: server_call
  ra_inner :: str

record server_code =
  sg_server_name :: str
  sg_trait_name :: str
  sg_prefix :: str
  sg_variants :: "str list"
  sg_match_arms :: "(str \<times> str) list"
  sg_run_arms :: "run_arm list"
  sg_upgrade_hooks :: bool

datatype client_call = Unary_Unary | Unary_Client_Streaming | Streaming_Server_Streaming | Bidi_Bidi

record client_fn =
  cf_name :: str
  cf_call :: client_call
  cf_input :: str
  cf_output :: str
  cf_rpc :: str

record client_code =
  cg_client_name :: str
  cg_prefix :: str
  cg_methods :: "client_fn list"

section \<open>The renderers\<close>

definition render_trait_method :: "rpc_method \<Rightarrow> trait_fn" where
  "render_trait_method m =
     (case (mt_client_streaming m, mt_server_streaming m) of
        (False, False) \<Rightarrow> Fn_Unary (mt_name m) (mt_input_type m) (mt_output_type m)
      | (False, True) \<Rightarrow> Fn_Server_Streaming (mt_name m) (mt_input_type m) (mt_output_type m)
      | (True, False) \<Rightarrow> Fn_Client_Streaming (mt_name m) (mt_output_type m)
      | (True, True) \<Rightarrow> Fn_Bidi (mt_name m) (mt_input_type m) (mt_output_type m))"

definition render_trait :: "rpc_service \<Rightarrow> str \<times> trait_fn list" where
  "render_trait sv = (sv_name sv, map render_trait_method (sv_methods sv))"

definition render_run_arm :: "rpc_method \<Rightarrow> run_arm" where
  "render_run_arm m =
     \<lparr>ra_variant = mt_proto_name m,
      ra_call =
        (case (mt_client_streaming m, mt_server_streaming m) of
           (False, False) \<Rightarrow> Prost_Unary
         | (False, True) \<Rightarrow> Prost_Server_Streaming
         | (True, False) \<Rightarrow> Prost_Client_Streaming
         | (True, True) \<Rightarrow> Prost_Bidi (mt_input_type m) (mt_output_type m)),
      ra_inner = mt_name m\<rparr>"

definition render_server :: "rpc_service \<Rightarrow> server_code" where
  "render_server sv =
     \<lparr>sg_server_name = sv_name sv @ lit ''Server'',
      sg_trait_name = sv_name sv,
      sg_prefix =
        (if sv_package sv = [] then lit ''/'' @ sv_proto_name sv
         else lit ''/'' @ sv_package sv @ lit ''.'' @ sv_proto_name sv),
      sg_variants = map mt_proto_name (sv_methods sv),
      sg_match_arms = map (\<lambda>m. (lit ''/'' @ mt_proto_name m, mt_proto_name m)) (sv_methods sv),
      sg_run_arms = map render_run_arm (sv_methods sv),
      sg_upgrade_hooks = list_ex (\<lambda>m. mt_client_streaming m \<and> mt_server_streaming m) (sv_methods sv)\<rparr>"

definition render_client_method :: "rpc_method \<Rightarrow> client_fn" where
  "render_client_method m =
     \<lparr>cf_name = mt_name m,
      cf_call =
        (case (mt_client_streaming m, mt_server_streaming m) of
           (False, False) \<Rightarrow> Unary_Unary
         | (True, False) \<Rightarrow> Unary_Client_Streaming
         | (False, True) \<Rightarrow> Streaming_Server_Streaming
         | (True, True) \<Rightarrow> Bidi_Bidi),
      cf_input = mt_input_type m, cf_output = mt_output_type m, cf_rpc = mt_proto_name m\<rparr>"

definition render_client :: "rpc_service \<Rightarrow> client_code" where
  "render_client sv =
     \<lparr>cg_client_name = sv_name sv @ lit ''Client'',
      cg_prefix =
        (if sv_package sv = [] then sv_proto_name sv else sv_package sv @ lit ''.'' @ sv_proto_name sv),
      cg_methods = map render_client_method (sv_methods sv)\<rparr>"

section \<open>The emitted handler\<close>

definition strip_prefix :: "str \<Rightarrow> str \<Rightarrow> str option" where
  "strip_prefix p s = (if take (length p) s = p then Some (drop (length p) s) else None)"

text \<open>
  The body of the emitted \<open>Handler::run\<close>: the connection is passed on, answered by the
  preflight, or handed to one of the dispatch functions with the method to call.
\<close>

datatype 'c routed = Passed_On 'c | Answered 'c | Dispatched server_call str 'c

definition server_run ::
  "'h env \<Rightarrow> server_code \<Rightarrow> str \<Rightarrow> bool \<Rightarrow> ('h, 'r, 'b, 'u) conn \<Rightarrow> (('h, 'r, 'b, 'u) conn) routed" where
  "server_run E S path is_post conn =
     (case strip_prefix (sg_prefix S) path of
        None \<Rightarrow> Passed_On conn
      | Some rest \<Rightarrow>
          if \<not> is_post then Passed_On conn
          else (case map_of (sg_match_arms S) rest of
                  None \<Rightarrow> Passed_On conn
                | Some variant \<Rightarrow>
                    (case prepare_grpc_conn E conn (lit ''proto'') of
                       Inl c \<Rightarrow> Answered c
                     | Inr c \<Rightarrow>
                         (case find (\<lambda>a. ra_variant a = variant) (sg_run_arms S) of
                            Some a \<Rightarrow> Dispatched (ra_call a) (ra_inner a) c
                          | None \<Rightarrow> Passed_On c))))"

text \<open>The match over the variants is exhaustive: the last branch does not exist in the code.\<close>

lemma every_variant_has_an_arm:
  "map_of (sg_match_arms (render_server sv)) rest = Some v \<Longrightarrow>
   find (\<lambda>a. ra_variant a = v) (sg_run_arms (render_server sv)) \<noteq> None"
  by (auto simp: render_server_def render_run_arm_def find_None_iff dest!: map_of_SomeD)

section \<open>The use block\<close>

record needs =
  nd_stream_client :: bool
  nd_stream_server :: bool
  nd_grpc_conn :: bool
  nd_bidi :: bool
  nd_unary_conn :: bool
  nd_streaming_conn :: bool
  nd_bidi_conn :: bool

definition needs_none :: needs where
  "needs_none = \<lparr>nd_stream_client = False, nd_stream_server = False, nd_grpc_conn = False, nd_bidi = False,
     nd_unary_conn = False, nd_streaming_conn = False, nd_bidi_conn = False\<rparr>"

definition grpc_items :: "needs \<Rightarrow> bool \<Rightarrow> bool \<Rightarrow> str list" where
  "grpc_items needs client server = remdups_adj (sort (
     [lit ''prost''] @
     (if client \<or> server then [lit ''Prost''] else []) @
     (if server then
        [lit ''Server'', lit ''Status'', lit ''prepare_grpc_conn''] @
        (if nd_grpc_conn needs then [lit ''GrpcServerConn''] else []) @
        (if nd_bidi needs then [lit ''BidiResponder''] else []) @
        (if nd_stream_server needs then [lit ''Stream''] else [])
      else []) @
     (if client then
        [lit ''ServiceClient'', lit ''trillium_client::Client''] @
        (if nd_unary_conn needs then [lit ''UnaryConn''] else []) @
        (if nd_streaming_conn needs then [lit ''StreamingConn''] else []) @
        (if nd_bidi_conn needs then [lit ''BidiConn''] else []) @
        (if nd_stream_client needs then [lit ''Stream''] else [])
      else [])))"

definition trillium_items :: "needs \<Rightarrow> bool \<Rightarrow> str list" where
  "trillium_items needs server =
     (if server then [lit ''Conn'', lit ''Handler'', lit ''Method''] @ (if nd_bidi needs then [lit ''Upgrade''] else [])
      else [])"

definition render_imports :: "needs \<Rightarrow> bool \<Rightarrow> bool \<Rightarrow> str" where
  "render_imports needs client server =
     (if server then
        lit ''use std::sync::Arc;'' @ [0x0A] @
        lit ''use trillium::{'' @ join (lit '', '') (trillium_items needs server) @ lit ''};'' @ [0x0A]
      else []) @
     lit ''use trillium_grpc::{'' @ join (lit '', '') (grpc_items needs client server) @ lit ''};'' @ [0x0A, 0x0A]"

section \<open>The generator\<close>

text \<open>The buffer of a package: pieces of text and of emitted code.\<close>

datatype chunk = Text str | Server_Half "str \<times> trait_fn list" server_code | Client_Half client_code

record generator =
  gn_client :: bool
  gn_server :: bool
  gn_services_in_package :: nat
  gn_needs :: needs

definition generator_new :: "bool \<Rightarrow> bool \<Rightarrow> generator" where
  "generator_new client server =
     \<lparr>gn_client = client, gn_server = server, gn_services_in_package = 0, gn_needs = needs_none\<rparr>"

definition note_method :: "rpc_method \<Rightarrow> needs \<Rightarrow> needs" where
  "note_method m n =
     (case (mt_client_streaming m, mt_server_streaming m) of
        (False, False) \<Rightarrow> n\<lparr>nd_unary_conn := True\<rparr>
      | (True, False) \<Rightarrow> n\<lparr>nd_unary_conn := True, nd_stream_client := True\<rparr>
      | (False, True) \<Rightarrow> n\<lparr>nd_streaming_conn := True, nd_stream_server := True\<rparr>
      | (True, True) \<Rightarrow> n\<lparr>nd_bidi := True, nd_bidi_conn := True\<rparr>)\<lparr>nd_grpc_conn := True\<rparr>"

definition generate :: "rpc_service \<Rightarrow> generator \<times> chunk list \<Rightarrow> generator \<times> chunk list" where
  "generate sv gb =
     (case gb of (g, buf) \<Rightarrow>
       (g\<lparr>gn_services_in_package := gn_services_in_package g + 1,
          gn_needs := fold note_method (sv_methods sv) (gn_needs g)\<rparr>,
        buf @ (if gn_server g then [Server_Half (render_trait sv) (render_server sv)] else [])
            @ (if gn_client g then [Client_Half (render_client sv)] else [])))"

definition finalize_package :: "generator \<times> chunk list \<Rightarrow> generator \<times> chunk list" where
  "finalize_package gb =
     (case gb of (g, buf) \<Rightarrow>
       (g\<lparr>gn_services_in_package := 0, gn_needs := needs_none\<rparr>,
        (if gn_services_in_package g > 0
         then Text (render_imports (gn_needs g) (gn_client g) (gn_server g)) # buf else buf)))"

text \<open>
  The driver owns a buffer per package and decides in which order the services of the packages
  are generated and the packages finalized.
\<close>

datatype event = Generate str rpc_service | Finalize str

fun run_event :: "event \<Rightarrow> generator \<times> (str \<Rightarrow> chunk list) \<Rightarrow> generator \<times> (str \<Rightarrow> chunk list)" where
  "run_event (Generate pkg sv) (g, files) =
     (case generate sv (g, files pkg) of (g', buf) \<Rightarrow> (g', files(pkg := buf)))"
| "run_event (Finalize pkg) (g, files) =
     (case finalize_package (g, files pkg) of (g', buf) \<Rightarrow> (g', files(pkg := buf)))"

section \<open>Lemmas: routing\<close>

lemma strip_prefix_Some: "strip_prefix p s = Some r \<longleftrightarrow> s = p @ r"
  by (auto simp: strip_prefix_def) (metis append_take_drop_id)

lemma prefix_of_server: "sg_prefix (render_server sv) = 0x2F # cg_prefix (render_client sv)"
  by (simp add: render_server_def render_client_def lit_def)

lemma arms_of_server:
  assumes "distinct (map mt_proto_name (sv_methods sv))" and "m \<in> set (sv_methods sv)"
  shows "map_of (sg_match_arms (render_server sv)) (0x2F # mt_proto_name m) = Some (mt_proto_name m)"
    and "find (\<lambda>a. ra_variant a = mt_proto_name m) (sg_run_arms (render_server sv)) = Some (render_run_arm m)"
proof -
  have "map_of (map (\<lambda>m. (lit ''/'' @ mt_proto_name m, mt_proto_name m)) ms) (0x2F # mt_proto_name m) = Some (mt_proto_name m) \<and>
    find (\<lambda>a. ra_variant a = mt_proto_name m) (map render_run_arm ms) = Some (render_run_arm m)"
    if "distinct (map mt_proto_name ms)" and "m \<in> set ms" for ms
    using that by (induction ms) (auto simp: render_run_arm_def lit_def)
  with assms show "map_of (sg_match_arms (render_server sv)) (0x2F # mt_proto_name m) = Some (mt_proto_name m)"
    "find (\<lambda>a. ra_variant a = mt_proto_name m) (sg_run_arms (render_server sv)) = Some (render_run_arm m)"
    by (simp_all add: render_server_def)
qed

lemma server_run_own:
  assumes "distinct (map mt_proto_name (sv_methods sv))" and "m \<in> set (sv_methods sv)"
  shows "server_run E (render_server sv) (path_of [cg_prefix (render_client sv), mt_proto_name m]) True conn =
    (case prepare_grpc_conn E conn (lit ''proto'') of
       Inl c \<Rightarrow> Answered c | Inr c \<Rightarrow> Dispatched (ra_call (render_run_arm m)) (mt_name m) c)"
proof -
  have "strip_prefix (sg_prefix (render_server sv)) (path_of [cg_prefix (render_client sv), mt_proto_name m])
      = Some (0x2F # mt_proto_name m)"
    unfolding strip_prefix_Some by (simp add: prefix_of_server path_of_def)
  with arms_of_server [OF assms] show ?thesis
    by (simp add: server_run_def render_run_arm_def split: sum.split)
qed

lemma slash_split:
  fixes a b :: str
  assumes "0x2F \<notin> set a" and "0x2F \<notin> set b" and "a @ 0x2F # r = b @ 0x2F # s"
  shows "a = b"
proof -
  have "takeWhile (\<lambda>x. x \<noteq> 0x2F) (c @ 0x2F # t) = c" if "0x2F \<notin> set c" for c t :: str
    using that by (induction c) auto
  from this [OF assms(1), of r] this [OF assms(2), of s] assms(3) show ?thesis by simp
qed

lemma server_run_other:
  assumes "cg_prefix (render_client sv) \<noteq> prefix" and "0x2F \<notin> set (cg_prefix (render_client sv))" and "0x2F \<notin> set prefix"
  shows "server_run E (render_server sv) (path_of [prefix, rpc]) is_post conn = Passed_On conn"
proof -
  have "map_of (sg_match_arms (render_server sv)) rest = None"
    if "strip_prefix (sg_prefix (render_server sv)) (path_of [prefix, rpc]) = Some rest" for rest
  proof (rule ccontr)
    assume "map_of (sg_match_arms (render_server sv)) rest \<noteq> None"
    then obtain t where "rest = 0x2F # t"
      by (auto simp: render_server_def lit_def dest!: map_of_SomeD)
    with that have "prefix @ 0x2F # rpc = cg_prefix (render_client sv) @ 0x2F # t"
      unfolding strip_prefix_Some by (simp add: prefix_of_server path_of_def)
    with slash_split [OF assms(3,2)] assms(1) show False by metis
  qed
  then show ?thesis by (simp add: server_run_def split: option.split)
qed

section \<open>Lemmas: the use block\<close>

text \<open>
  The names that each template uses unqualified and that have to be imported from
  \<open>trillium_grpc\<close>, read off the \<open>quote!\<close> blocks: of a trait method and of a client method (in
  their four shapes), of a run arm (which calls \<open>Prost::unary\<close> and the like, functions of the
  trait \<open>Server\<close>), and of the rest of a server and of a client; then those of \<open>trillium\<close>.
\<close>

fun trait_fn_names :: "trait_fn \<Rightarrow> str list" where
  "trait_fn_names (Fn_Unary _ _ _) = [lit ''GrpcServerConn'', lit ''Status'']"
| "trait_fn_names (Fn_Server_Streaming _ _ _) = [lit ''GrpcServerConn'', lit ''Stream'', lit ''Status'']"
| "trait_fn_names (Fn_Client_Streaming _ _) = [lit ''GrpcServerConn'', lit ''Status'']"
| "trait_fn_names (Fn_Bidi _ _ _) = [lit ''GrpcServerConn'', lit ''BidiResponder'', lit ''Status'']"

fun client_call_names :: "client_call \<Rightarrow> str list" where
  "client_call_names Unary_Unary = [lit ''UnaryConn'', lit ''Prost'']"
| "client_call_names Unary_Client_Streaming = [lit ''Stream'', lit ''UnaryConn'', lit ''Prost'']"
| "client_call_names Streaming_Server_Streaming = [lit ''StreamingConn'', lit ''Prost'']"
| "client_call_names Bidi_Bidi = [lit ''BidiConn'', lit ''Prost'']"

definition run_arm_names :: "str list" where
  "run_arm_names = [lit ''Prost'', lit ''Server'']"

definition server_names :: "str list" where
  "server_names = [lit ''prepare_grpc_conn'']"

definition client_names :: "str list" where
  "client_names = [lit ''trillium_client::Client'', lit ''ServiceClient'']"

fun chunk_names :: "chunk \<Rightarrow> str list" where
  "chunk_names (Text _) = []"
| "chunk_names (Server_Half (_, fns) S) =
     server_names @ concat (map trait_fn_names fns) @ concat (map (\<lambda>_. run_arm_names) (sg_run_arms S))"
| "chunk_names (Client_Half C) = client_names @ concat (map (client_call_names \<circ> cf_call) (cg_methods C))"

fun chunk_trillium_names :: "chunk \<Rightarrow> str list" where
  "chunk_trillium_names (Server_Half _ S) =
     [lit ''Handler'', lit ''Conn'', lit ''Method''] @ (if sg_upgrade_hooks S then [lit ''Upgrade''] else [])"
| "chunk_trillium_names _ = []"

definition halves :: "bool \<Rightarrow> bool \<Rightarrow> rpc_service \<Rightarrow> chunk list" where
  "halves client server sv =
     (if server then [Server_Half (render_trait sv) (render_server sv)] else []) @
     (if client then [Client_Half (render_client sv)] else [])"

lemma generate_fold:
  "fold generate svs (g, buf) =
    (g\<lparr>gn_services_in_package := gn_services_in_package g + length svs,
       gn_needs := fold note_method (concat (map sv_methods svs)) (gn_needs g)\<rparr>,
     buf @ concat (map (halves (gn_client g) (gn_server g)) svs))"
  by (induction svs arbitrary: g buf) (simp_all add: generate_def halves_def)

lemma needs_fold:
  "nd_stream_client (fold note_method ms n) \<longleftrightarrow> nd_stream_client n \<or> (\<exists>m \<in> set ms. mt_client_streaming m \<and> \<not> mt_server_streaming m)"
  "nd_stream_server (fold note_method ms n) \<longleftrightarrow> nd_stream_server n \<or> (\<exists>m \<in> set ms. \<not> mt_client_streaming m \<and> mt_server_streaming m)"
  "nd_grpc_conn (fold note_method ms n) \<longleftrightarrow> nd_grpc_conn n \<or> ms \<noteq> []"
  "nd_bidi (fold note_method ms n) \<longleftrightarrow> nd_bidi n \<or> (\<exists>m \<in> set ms. mt_client_streaming m \<and> mt_server_streaming m)"
  "nd_unary_conn (fold note_method ms n) \<longleftrightarrow> nd_unary_conn n \<or> (\<exists>m \<in> set ms. \<not> mt_server_streaming m)"
  "nd_streaming_conn (fold note_method ms n) \<longleftrightarrow> nd_streaming_conn n \<or> (\<exists>m \<in> set ms. \<not> mt_client_streaming m \<and> mt_server_streaming m)"
  "nd_bidi_conn (fold note_method ms n) \<longleftrightarrow> nd_bidi_conn n \<or> (\<exists>m \<in> set ms. mt_client_streaming m \<and> mt_server_streaming m)"
  by (induction ms arbitrary: n) (auto simp: note_method_def split: bool.split)

text \<open>What the methods contribute to each half and to the imports, name by name.\<close>

lemma trait_fn_name:
  "x \<in> set (trait_fn_names (render_trait_method m)) \<longleftrightarrow>
     x = lit ''GrpcServerConn'' \<or> x = lit ''Status'' \<or>
     mt_client_streaming m \<and> mt_server_streaming m \<and> x = lit ''BidiResponder'' \<or>
     \<not> mt_client_streaming m \<and> mt_server_streaming m \<and> x = lit ''Stream''"
  by (cases "mt_client_streaming m"; cases "mt_server_streaming m") (auto simp: render_trait_method_def)

lemma client_fn_name:
  "x \<in> set (client_call_names (cf_call (render_client_method m))) \<longleftrightarrow>
     x = lit ''Prost'' \<or> \<not> mt_server_streaming m \<and> x = lit ''UnaryConn'' \<or>
     \<not> mt_client_streaming m \<and> mt_server_streaming m \<and> x = lit ''StreamingConn'' \<or>
     mt_client_streaming m \<and> mt_server_streaming m \<and> x = lit ''BidiConn'' \<or>
     mt_client_streaming m \<and> \<not> mt_server_streaming m \<and> x = lit ''Stream''"
  by (cases "mt_client_streaming m"; cases "mt_server_streaming m") (auto simp: render_client_method_def)

lemma server_half_name:
  "x \<in> set (chunk_names (Server_Half (render_trait sv) (render_server sv))) \<longleftrightarrow>
     x = lit ''prepare_grpc_conn'' \<or> (\<exists>m \<in> set (sv_methods sv). x = lit ''Prost'' \<or> x = lit ''Server'' \<or>
       x \<in> set (trait_fn_names (render_trait_method m)))"
  by (auto simp: render_trait_def render_server_def server_names_def run_arm_names_def)

lemma client_half_name:
  "x \<in> set (chunk_names (Client_Half (render_client sv))) \<longleftrightarrow>
     (x = lit ''trillium_client::Client'' \<or> x = lit ''ServiceClient'') \<or>
     (\<exists>m \<in> set (sv_methods sv). x \<in> set (client_call_names (cf_call (render_client_method m))))"
  by (auto simp: render_client_def client_names_def)

lemma grpc_item:
  "x \<in> set (grpc_items n client server) \<longleftrightarrow>
     x = lit ''prost'' \<or> (client \<or> server) \<and> x = lit ''Prost'' \<or>
     server \<and> (x = lit ''Server'' \<or> x = lit ''Status'' \<or> x = lit ''prepare_grpc_conn'' \<or>
       nd_grpc_conn n \<and> x = lit ''GrpcServerConn'' \<or> nd_bidi n \<and> x = lit ''BidiResponder'' \<or>
       nd_stream_server n \<and> x = lit ''Stream'') \<or>
     client \<and> (x = lit ''ServiceClient'' \<or> x = lit ''trillium_client::Client'' \<or>
       nd_unary_conn n \<and> x = lit ''UnaryConn'' \<or> nd_streaming_conn n \<and> x = lit ''StreamingConn'' \<or>
       nd_bidi_conn n \<and> x = lit ''BidiConn'' \<or> nd_stream_client n \<and> x = lit ''Stream'')"
proof -
  have opt: "x \<in> set (if b then xs else []) \<longleftrightarrow> b \<and> x \<in> set xs" for b and xs :: "str list" by simp
  show ?thesis
    by (simp only: grpc_items_def remdups_adj_set set_sort set_append opt list.set Un_iff insert_iff empty_iff simp_thms disj_assoc)
qed

lemma grpc_item_of_methods:
  assumes "ms \<noteq> []"
  shows "x \<in> set (grpc_items (fold note_method ms needs_none) client server) \<longleftrightarrow>
    x = lit ''prost'' \<or>
    server \<and> (x = lit ''prepare_grpc_conn'' \<or> (\<exists>m \<in> set ms. x = lit ''Prost'' \<or> x = lit ''Server'' \<or>
       x \<in> set (trait_fn_names (render_trait_method m)))) \<or>
    client \<and> ((x = lit ''trillium_client::Client'' \<or> x = lit ''ServiceClient'') \<or>
     (\<exists>m \<in> set ms. x \<in> set (client_call_names (cf_call (render_client_method m)))))"
proof -
  have none: "nd_stream_client needs_none = False" "nd_stream_server needs_none = False" "nd_bidi needs_none = False"
      "nd_unary_conn needs_none = False" "nd_streaming_conn needs_none = False" "nd_bidi_conn needs_none = False"
      "nd_grpc_conn needs_none = False"
    by (simp_all add: needs_none_def)
  from assms have any: "(\<exists>m \<in> set ms. P \<or> Q m) \<longleftrightarrow> P \<or> (\<exists>m \<in> set ms. Q m)"
      "(\<exists>m \<in> set ms. P) \<longleftrightarrow> P" "(ms \<noteq> []) = True" for P Q by (cases ms; auto)+
  have some: "(\<exists>m \<in> set ms. P m \<and> Q) \<longleftrightarrow> (\<exists>m \<in> set ms. P m) \<and> Q" for P Q by blast
  show ?thesis
    unfolding grpc_item needs_fold none trait_fn_name client_fn_name any bex_disj_distrib
    unfolding conj_assoc [symmetric] some
    unfolding any simp_thms by satx
qed

text \<open>The code of a package, and what its methods contribute.\<close>

lemma body_ex:
  "(\<exists>c \<in> set (concat (map (halves client server) svs)). P c) \<longleftrightarrow>
   (\<exists>sv \<in> set svs. server \<and> P (Server_Half (render_trait sv) (render_server sv)) \<or> client \<and> P (Client_Half (render_client sv)))"
  by (auto simp: halves_def)

lemma package_ex:
  "svs \<noteq> [] \<Longrightarrow> b \<and> (A \<or> (\<exists>m \<in> set (concat (map f svs)). Q m)) \<or> c \<and> (B \<or> (\<exists>m \<in> set (concat (map f svs)). R m)) \<longleftrightarrow>
    (\<exists>sv \<in> set svs. b \<and> (A \<or> (\<exists>m \<in> set (f sv). Q m)) \<or> c \<and> (B \<or> (\<exists>m \<in> set (f sv). R m)))"
  by (cases svs) auto

lemma trillium_name:
  "x \<in> set (chunk_trillium_names (Server_Half (render_trait sv) (render_server sv))) \<longleftrightarrow>
     x \<in> {lit ''Conn'', lit ''Handler'', lit ''Method''} \<or>
     (\<exists>m \<in> set (sv_methods sv). mt_client_streaming m \<and> mt_server_streaming m \<and> x = lit ''Upgrade'')"
  by (auto simp: render_trait_def render_server_def list_ex_iff)

lemma trillium_item:
  "x \<in> set (trillium_items (fold note_method ms needs_none) server) \<longleftrightarrow>
     server \<and> (x \<in> {lit ''Conn'', lit ''Handler'', lit ''Method''} \<or>
       (\<exists>m \<in> set ms. mt_client_streaming m \<and> mt_server_streaming m \<and> x = lit ''Upgrade''))"
  by (auto simp: trillium_items_def needs_fold needs_none_def)

lemma distinct_dedup: "sorted xs \<Longrightarrow> distinct (remdups_adj xs)"
  by (induction xs rule: remdups_adj.induct) auto

text \<open>What the needs that are collected from services import, and what the code of the services uses.\<close>

lemma imports_of_services:
  assumes "\<exists>sv \<in> set svs. sv_methods sv \<noteq> []"
  shows "let N = fold note_method (concat (map sv_methods svs)) needs_none;
             body = concat (map (halves client server) svs) in
    set (grpc_items N client server) = {lit ''prost''} \<union> (\<Union>c \<in> set body. set (chunk_names c)) \<and>
    set (trillium_items N server) = (\<Union>c \<in> set body. set (chunk_trillium_names c)) \<and>
    sorted (grpc_items N client server) \<and> distinct (grpc_items N client server)"
proof -
  let ?ms = "concat (map sv_methods svs)"
  let ?N = "fold note_method ?ms needs_none"
  let ?body = "concat (map (halves client server) svs)"
  from assms have ne: "?ms \<noteq> []" "svs \<noteq> []" by auto
  have "x \<in> set (grpc_items ?N client server) \<longleftrightarrow> x = lit ''prost'' \<or> (\<exists>c \<in> set ?body. x \<in> set (chunk_names c))" for x
    unfolding body_ex server_half_name client_half_name grpc_item_of_methods [OF ne(1)]
    by (subst package_ex [OF ne(2)]) (rule refl)
  then have "set (grpc_items ?N client server) = {lit ''prost''} \<union> (\<Union>c \<in> set ?body. set (chunk_names c))" by auto
  moreover have "x \<in> set (trillium_items ?N server) \<longleftrightarrow> (\<exists>c \<in> set ?body. x \<in> set (chunk_trillium_names c))" for x
    unfolding body_ex trillium_name trillium_item
    using package_ex [OF ne(2), of server "x \<in> {lit ''Conn'', lit ''Handler'', lit ''Method''}" sv_methods
        "\<lambda>m. mt_client_streaming m \<and> mt_server_streaming m \<and> x = lit ''Upgrade''" False]
    by (simp only: simp_thms chunk_trillium_names.simps list.set empty_iff)
  then have "set (trillium_items ?N server) = (\<Union>c \<in> set ?body. set (chunk_trillium_names c))" by auto
  moreover have "sorted (grpc_items ?N client server) \<and> distinct (grpc_items ?N client server)"
    unfolding grpc_items_def by (intro conjI sorted_remdups_adj distinct_dedup sorted_sort)
  ultimately show ?thesis by (simp only: Let_def simp_thms)
qed

text \<open>The two phases of a run of the driver.\<close>

definition code_of :: "bool \<Rightarrow> bool \<Rightarrow> (str \<times> rpc_service) list \<Rightarrow> str \<Rightarrow> chunk list" where
  "code_of client server gens p = concat (map (halves client server \<circ> snd) (filter (\<lambda>g. fst g = p) gens))"

lemma run_generates:
  "fold run_event (map (\<lambda>(p, sv). Generate p sv) gens) (g, files) =
    (g\<lparr>gn_services_in_package := gn_services_in_package g + length gens,
       gn_needs := fold note_method (concat (map (sv_methods \<circ> snd) gens)) (gn_needs g)\<rparr>,
     \<lambda>p. files p @ code_of (gn_client g) (gn_server g) gens p)"
proof (induction gens arbitrary: g files)
  case (Cons x gens)
  then show ?case by (cases x) (simp add: generate_def halves_def code_of_def fun_eq_iff)
qed (simp add: code_of_def)

lemma run_finalizes_idle:
  "fold run_event (map Finalize ps) (generator_new client server, files) = (generator_new client server, files)"
  by (induction ps) (simp_all add: finalize_package_def generator_new_def)

lemma code_of_all:
  assumes "set ps = fst ` set gens"
  shows "(\<Union>p \<in> set ps. set (code_of client server gens p)) = set (concat (map (halves client server) (map snd gens)))"
  unfolding assms code_of_def by force

section \<open>Properties\<close>

text \<open>A client's call function and the dispatch function of the server for the same kind of RPC.\<close>

fun speaks :: "client_call \<Rightarrow> server_call \<Rightarrow> bool" where
  "speaks Unary_Unary Prost_Unary = True"
| "speaks Unary_Client_Streaming Prost_Client_Streaming = True"
| "speaks Streaming_Server_Streaming Prost_Server_Streaming = True"
| "speaks Bidi_Bidi (Prost_Bidi _ _) = True"
| "speaks _ _ = False"

text \<open>
  C13: A call of a generated client reaches the method it is named after. When the client's
  base URL has a plain root path (with any number of slashes), the emitted server of the same
  service answers the request in the preflight or hands it to the method of the same name, by
  the dispatch function of the same kind of RPC; the emitted server of every other service
  passes it on untouched, so that handlers can be chained in any order. Another HTTP method is
  passed on too.
\<close>

theorem rpc_routing:
  assumes U: "url_ok U" and base: "tc_base client = Some base" "u_path U base = replicate n 0x2F"
    and c: "with_service_prefix U client (cg_prefix (render_client sv)) = Some c"
    and plain: "plain_segment (cg_prefix (render_client sv))"
      "\<forall>m \<in> set (sv_methods sv). plain_segment (mt_proto_name m)"
    and d: "distinct (map mt_proto_name (sv_methods sv))"
    and f: "f \<in> set (cg_methods (render_client sv))"
  shows "\<exists>base' m. tc_base c = Some base' \<and> m \<in> set (sv_methods sv) \<and> cf_name f = mt_name m \<and>
    speaks (cf_call f) (ra_call (render_run_arm m)) \<and>
    (let path = u_path U (u_join U base' (cf_rpc f)) in
      server_run E (render_server sv) path True conn =
        (case prepare_grpc_conn E conn (lit ''proto'') of
           Inl c \<Rightarrow> Answered c | Inr c \<Rightarrow> Dispatched (ra_call (render_run_arm m)) (cf_name f) c) \<and>
      server_run E (render_server sv) path False conn = Passed_On conn \<and>
      (\<forall>sv'. cg_prefix (render_client sv') \<noteq> cg_prefix (render_client sv) \<longrightarrow>
        plain_segment (cg_prefix (render_client sv')) \<longrightarrow>
        server_run E (render_server sv') path True conn = Passed_On conn))"
proof -
  from f obtain m where m: "m \<in> set (sv_methods sv)" "f = render_client_method m"
    by (auto simp: render_client_def)
  then have fm: "cf_name f = mt_name m" "cf_rpc f = mt_proto_name m" "speaks (cf_call f) (ra_call (render_run_arm m))"
    by (auto simp: render_client_method_def render_run_arm_def split: bool.split)
  have r: "u_path U base = path_of [] @ replicate n 0x2F" by (simp add: base(2) path_of_def)
  obtain base' where b: "tc_base c = Some base'"
    "u_path U (u_join U base' (mt_proto_name m)) = path_of [cg_prefix (render_client sv), mt_proto_name m]"
    using service_path [OF U c base(1) r, of "mt_proto_name m"] plain m(1) by auto
  have post: "server_run E S p False conn = Passed_On conn" for S p
    by (simp add: server_run_def split: option.split)
  have other: "server_run E (render_server sv') (path_of [cg_prefix (render_client sv), mt_proto_name m]) True conn = Passed_On conn"
    if "cg_prefix (render_client sv') \<noteq> cg_prefix (render_client sv)" "plain_segment (cg_prefix (render_client sv'))" for sv'
    using server_run_other [OF that(1)] that(2) plain(1) by (simp add: plain_segment_slash)
  show ?thesis
    unfolding fm(1,2) Let_def
    using b m(1) fm(3) post other server_run_own [OF d m(1), of E conn]
    by (intro exI [of _ base'] exI [of _ m]) simp
qed

text \<open>A URL that is its path, with the operations on plain paths only.\<close>

definition path_url :: "str url_api" where
  "path_url = \<lparr>u_path = id, u_set_path = (\<lambda>_ p. p), u_join = (\<lambda>p s. p @ s)\<rparr>"

lemma url_ok_path: "url_ok path_url"
  by (simp add: url_ok_def path_url_def path_of_def lit_def)

definition greeter :: rpc_service where
  "greeter = \<lparr>sv_name = lit ''Greeter'', sv_proto_name = lit ''Greeter'', sv_package = lit ''greeter.v1'',
     sv_methods = [\<lparr>mt_name = lit ''say_hello'', mt_proto_name = lit ''SayHello'', mt_input_type = lit ''Req'',
       mt_output_type = lit ''Resp'', mt_client_streaming = False, mt_server_streaming = False\<rparr>]\<rparr>"

theorem rpc_routing_witness:
  "let client = \<lparr>tc_base = Some (lit ''//''), tc_default_headers = DAList.empty\<rparr> :: ((str, str list) alist, str) service_client;
       c = the (with_service_prefix path_url client (cg_prefix (render_client greeter)));
       path = u_path path_url (u_join path_url (the (tc_base c)) (lit ''SayHello''));
       conn = \<lparr>cn_request_headers = DAList.empty, cn_request_body = (), cn_has_runtime = True, cn_ops = []\<rparr>
         :: (_, unit, unit, unit) conn
   in server_run example_env (render_server greeter) path True conn = Answered (conn\<lparr>cn_ops := [WithStatus 415, Halt]\<rparr>)"
proof -
  let ?client = "\<lparr>tc_base = Some (lit ''//''), tc_default_headers = DAList.empty\<rparr>
    :: ((str, str list) alist, str) service_client"
  let ?conn = "\<lparr>cn_request_headers = DAList.empty, cn_request_body = (), cn_has_runtime = True, cn_ops = []\<rparr>
         :: (_, unit, unit, unit) conn"
  have prefix: "cg_prefix (render_client greeter) = lit ''greeter.v1.Greeter''"
    by (simp add: render_client_def greeter_def lit_def)
  have plain: "plain_segment (lit ''greeter.v1.Greeter'')" "plain_segment (lit ''SayHello'')"
    by (simp_all add: plain_segment_def lit_def plain_byte_def)
  have base: "u_path path_url (lit ''//'') = replicate 2 0x2F"
    by (simp add: path_url_def lit_def numeral_2_eq_2)
  obtain c where c: "with_service_prefix path_url ?client (cg_prefix (render_client greeter)) = Some c"
    by (simp add: with_service_prefix_def)
  have f: "\<lparr>cf_name = lit ''say_hello'', cf_call = Unary_Unary, cf_input = lit ''Req'', cf_output = lit ''Resp'',
      cf_rpc = lit ''SayHello''\<rparr> \<in> set (cg_methods (render_client greeter))"
    by (simp add: render_client_def greeter_def render_client_method_def)
  have p: "prepare_grpc_conn example_env ?conn (lit ''proto'') = Inl (?conn\<lparr>cn_ops := [WithStatus 415, Halt]\<rparr>)"
    by (simp add: prepare_grpc_conn_def conn_do_def example_env_def dalist_headers_def)
  have side: "\<forall>m \<in> set (sv_methods greeter). plain_segment (mt_proto_name m)"
      "distinct (map mt_proto_name (sv_methods greeter))"
    by (simp_all add: greeter_def plain)
  have "tc_base ?client = Some (lit ''//'')" by simp
  from rpc_routing [OF url_ok_path this base c _ side f, of example_env ?conn] plain(1) p
  obtain base' where b: "tc_base c = Some base'"
    "server_run example_env (render_server greeter) (u_path path_url (u_join path_url base' (lit ''SayHello''))) True ?conn
      = Answered (?conn\<lparr>cn_ops := [WithStatus 415, Halt]\<rparr>)"
    by (auto simp: prefix Let_def)
  from b(2) show ?thesis unfolding Let_def c option.sel b(1) .
qed

text \<open>
  C23: The \<open>use\<close> blocks of a run. \<open>prost_build\<close> has the generator emit the services of all files,
  in any order of packages, into one buffer per package, and then has it finalize each package
  that has a service. The package that is finalized first gets, in front of its code, a block whose
  \<open>trillium_grpc\<close> items are \<open>prost\<close> and the names that the emitted templates of all packages
  use, no more and no less, in order and without repetition, and likewise its \<open>trillium\<close> items;
  every other package gets its code and no block. So the imports are exactly what the code needs
  when the run has one package, whichever halves are emitted, and a second package is left
  without its imports. Afterwards the generator is as new. (The services have a method.)
\<close>

theorem imports_exact:
  assumes "distinct (p # ps)" and "set (p # ps) = fst ` set gens" and "\<exists>g \<in> set gens. sv_methods (snd g) \<noteq> []"
  shows "let (g, files) = fold run_event (map (\<lambda>(p, sv). Generate p sv) gens @ map Finalize (p # ps))
           (generator_new client server, \<lambda>_. []);
        N = fold note_method (concat (map (sv_methods \<circ> snd) gens)) needs_none;
        code = \<Union>q \<in> set (p # ps). set (code_of client server gens q) in
    g = generator_new client server \<and>
    files p = Text (render_imports N client server) # code_of client server gens p \<and>
    (\<forall>q. q \<noteq> p \<longrightarrow> files q = code_of client server gens q) \<and>
    set (grpc_items N client server) = {lit ''prost''} \<union> (\<Union>c \<in> code. set (chunk_names c)) \<and>
    set (trillium_items N server) = (\<Union>c \<in> code. set (chunk_trillium_names c)) \<and>
    sorted (grpc_items N client server) \<and> distinct (grpc_items N client server)"
proof -
  let ?N = "fold note_method (concat (map (sv_methods \<circ> snd) gens)) needs_none"
  have ne: "gens \<noteq> []" using assms(3) by auto
  have "fold run_event (map (\<lambda>(p, sv). Generate p sv) gens @ map Finalize (p # ps)) (generator_new client server, \<lambda>_. []) =
      (generator_new client server,
       (code_of client server gens)(p := Text (render_imports ?N client server) # code_of client server gens p))"
    using ne run_finalizes_idle [of ps client server]
    by (simp add: run_generates finalize_package_def generator_new_def)
  moreover have "\<exists>sv \<in> set (map snd gens). sv_methods sv \<noteq> []" using assms(3) by auto
  note imports_of_services [OF this, of client server]
  ultimately show ?thesis
    by (simp add: Let_def code_of_all [OF assms(2)] del: list.set fold_append fold_simps)
qed

theorem imports_exact_witness:
  "set (grpc_items (fold note_method (sv_methods greeter) needs_none) True False) =
     {lit ''prost'', lit ''trillium_client::Client'', lit ''ServiceClient'', lit ''UnaryConn'', lit ''Prost''} \<and>
   snd (fold run_event [Generate (lit ''a'') greeter, Generate (lit ''b'') greeter, Finalize (lit ''a''), Finalize (lit ''b'')]
     (generator_new True False, \<lambda>_. [])) (lit ''b'') = [Client_Half (render_client greeter)]"
proof -
  have m: "sv_methods greeter \<noteq> []" by (simp add: greeter_def)
  have names: "set (grpc_items (fold note_method (sv_methods greeter) needs_none) True False) =
     {lit ''prost'', lit ''trillium_client::Client'', lit ''ServiceClient'', lit ''UnaryConn'', lit ''Prost''}"
    using imports_exact [of "lit ''a''" "[]" "[(lit ''a'', greeter)]" True False] m
    by (simp add: Let_def code_of_def halves_def)
      (auto simp: greeter_def render_client_def render_client_method_def client_names_def)
  have "lit ''a'' \<noteq> lit ''b''" by (simp add: lit_def)
  moreover obtain g files where "fold run_event [Generate (lit ''a'') greeter, Generate (lit ''b'') greeter, Finalize (lit ''a''),
      Finalize (lit ''b'')] (generator_new True False, \<lambda>_. []) = (g, files)" by fastforce
  ultimately have "snd (fold run_event [Generate (lit ''a'') greeter, Generate (lit ''b'') greeter, Finalize (lit ''a''), Finalize (lit ''b'')]
     (generator_new True False, \<lambda>_. [])) (lit ''b'') = [Client_Half (render_client greeter)]"
    using imports_exact [of "lit ''a''" "[lit ''b'']" "[(lit ''a'', greeter), (lit ''b'', greeter)]" True False] m
    by (simp add: Let_def code_of_def halves_def del: fold_Cons)
  with names show ?thesis ..
qed

end
