(* ===== verification/EndToEnd.thy ===== *)
theory EndToEnd
  imports Codegen
begin

text \<open>
  The client against the server of the same repository: what a request built by the client is
  to the server's preflight, encodings, deadline and request reading, and what the server's
  answer is to the caller. Between them is HTTP/2, of which the statements say that the
  headers, the body and the trailers that arrive are those that were sent.
\<close>

section \<open>The request on the wire\<close>

text \<open>
  What is said of the client's default headers: an encoding or a timeout that is set there is
  one value that the client itself can read (the setters of \<open>ServiceClientExt\<close> write no other).
\<close>

definition defaults_ok :: "('r, 'w, 'h, 'x, 'p) net \<Rightarrow> bool" where
  "defaults_ok N \<longleftrightarrow>
     (h_get_values (e_headers (n_env N)) (n_default_headers N) (lit ''grpc-encoding'') = None \<or>
      (\<exists>e. enabled (e_features (n_env N)) e \<and>
        h_get_values (e_headers (n_env N)) (n_default_headers N) (lit ''grpc-encoding'') = Some [as_grpc_encoding e])) \<and>
     (h_get_values (e_headers (n_env N)) (n_default_headers N) (lit ''grpc-timeout'') = None \<or>
      (\<exists>d. h_get_values (e_headers (n_env N)) (n_default_headers N) (lit ''grpc-timeout'') = Some [format_grpc_timeout d] \<and>
        parse_grpc_timeout (format_grpc_timeout d) \<noteq> None))"

lemma request_values:
  assumes "net_ok N" and "gcc_inner c = Inner_Pending pd" and "metadata_wf (pd_request_metadata pd)"
    and "build_request N now c body = Some rq" and k: "to_ascii_lowercase k = k" "is_reserved k"
  shows "h_get_values (e_headers (n_env N)) (rq_headers rq) k =
    (if k = lit ''grpc-timeout'' \<and> gcc_deadline c \<noteq> None
     then Some [format_grpc_timeout (duration_of (the (gcc_deadline c) - now))]
     else if k = lit ''grpc-encoding'' \<and> gcc_outbound_encoding c \<noteq> Identity
     then Some [as_grpc_encoding (gcc_outbound_encoding c)]
     else if k = lit ''grpc-accept-encoding'' then Some [accepted_encodings (e_features (n_env N))]
     else if k = lit ''te'' then Some [lit ''trailers'']
     else if k = lit ''content-type'' then Some [pd_content_type pd]
     else h_get_values (e_headers (n_env N)) (n_default_headers N) k)"
proof -
  let ?H = "e_headers (n_env N)"
  have H: "headers_ok ?H" using assms(1) unfolding net_ok_def env_ok_def by blast
  have post: "h_get_values ?H (n_post N p) k = h_get_values ?H (n_default_headers N) k" for p
    using assms(1) unfolding net_ok_def by blast
  have ins: "h_get_values ?H (h_insert ?H h n v) k = (if k = n then Some [v] else h_get_values ?H h k)"
    if "to_ascii_lowercase n = n" for h n v
    using that k(1) by (auto simp: h_get_values_insert [OF H] eq_ignore_ascii_case_lower)
  define h1 where "h1 = h_insert ?H (h_insert ?H (h_insert ?H (n_post N (pd_path pd)) (lit ''content-type'') (pd_content_type pd))
    (lit ''te'') (lit ''trailers'')) (lit ''grpc-accept-encoding'') (accepted_encodings (e_features (n_env N)))"
  define h2 where "h2 = (if gcc_outbound_encoding c \<noteq> Identity
    then h_insert ?H h1 (lit ''grpc-encoding'') (as_grpc_encoding (gcc_outbound_encoding c)) else h1)"
  define h3 where "h3 = (case gcc_deadline c of None \<Rightarrow> h2
    | Some deadline \<Rightarrow> h_insert ?H h2 (lit ''grpc-timeout'') (format_grpc_timeout (duration_of (deadline - now))))"
  have rq: "rq_headers rq = metadata_write_into ?H (e_base64 (n_env N)) (pd_request_metadata pd) h3"
    using assms(4) unfolding build_request_def assms(2) Let_def h1_def h2_def h3_def
    by (auto simp only: inner.case option.inject request.select_convs)
  have 1: "h_get_values ?H h1 k =
      (if k = lit ''grpc-accept-encoding'' then Some [accepted_encodings (e_features (n_env N))]
       else if k = lit ''te'' then Some [lit ''trailers'']
       else if k = lit ''content-type'' then Some [pd_content_type pd]
       else h_get_values ?H (n_default_headers N) k)"
    by (simp only: h1_def ins lower_names post)
  have 2: "h_get_values ?H h2 k = (if k = lit ''grpc-encoding'' \<and> gcc_outbound_encoding c \<noteq> Identity
      then Some [as_grpc_encoding (gcc_outbound_encoding c)] else h_get_values ?H h1 k)"
    by (cases "gcc_outbound_encoding c = Identity") (simp_all only: h2_def ins lower_names simp_thms if_True if_False)
  have "h_get_values ?H h3 k = (if k = lit ''grpc-timeout'' \<and> gcc_deadline c \<noteq> None
      then Some [format_grpc_timeout (duration_of (the (gcc_deadline c) - now))] else h_get_values ?H h2 k)"
    by (cases "gcc_deadline c")
      (simp_all only: h3_def ins lower_names option.case option.sel option.distinct simp_thms if_True if_False)
  then show ?thesis
    unfolding rq get_values_write_into_reserved [OF H assms(3) k] by (simp only: 1 2)
qed

section \<open>The server's reading of it\<close>

text \<open>Headers that arrive as they were sent, possibly in another implementation of the map.\<close>

definition same_headers :: "'h headers_api \<Rightarrow> 'h \<Rightarrow> 'g headers_api \<Rightarrow> 'g \<Rightarrow> bool" where
  "same_headers H h G g \<longleftrightarrow> (\<forall>k. h_get_values G g k = h_get_values H h k)"

lemma get_str_values:
  "headers_ok H \<Longrightarrow> h_get_values H h k = Some [v] \<Longrightarrow> utf8_valid v \<Longrightarrow> h_get_str H h k = Some v"
  by (simp add: h_get_str_single [where v = v])

lemma plain_content_type: "plain_suffix s \<Longrightarrow> utf8_valid (lit ''application/grpc+'' @ s)"
  by (rule utf8_valid_ascii) (auto simp: plain_suffix_def lit_def word_le_nat_alt word_less_nat_alt)

lemma accepted_utf8: "utf8_valid (accepted_encodings F)"
  by (rule utf8_valid_ascii)
    (auto simp: accepted_encodings_def all_encodings_def lit_def)

lemma request_preflight:
  assumes "headers_ok (e_headers E)" and "plain_suffix suffix"
    and "h_get_values (e_headers E) (cn_request_headers conn) (lit ''content-type'') = Some [lit ''application/grpc+'' @ suffix]"
    and "h_get_values (e_headers E) (cn_request_headers conn) (lit ''te'') = Some [lit ''trailers'']"
  shows "\<exists>conn'. prepare_grpc_conn E conn suffix = Inr conn' \<and> cn_request_headers conn' = cn_request_headers conn \<and>
    cn_request_body conn' = cn_request_body conn"
proof -
  have "Option.bind (h_get_str (e_headers E) (cn_request_headers conn) (lit ''content-type'')) parse_grpc_content_type = Some suffix"
    using get_str_values [OF assms(1,3) plain_content_type [OF assms(2)]] parse_written_content_type(1) [OF assms(2)] by simp
  moreover have "has_te_trailers (e_headers E) (cn_request_headers conn)"
    by (rule te_trailers_written [OF assms(1,4)])
  ultimately show ?thesis by (simp add: prepare_grpc_conn_def conn_do_def Let_def)
qed

lemma negotiated_both:
  assumes "headers_ok (e_headers E)"
    and "h_get_values (e_headers E) h (lit ''grpc-accept-encoding'') = Some [accepted_encodings F]"
  shows "enabled F (negotiate_response_encoding E h) \<and> enabled (e_features E) (negotiate_response_encoding E h)"
proof (cases "negotiate_response_encoding E h = Identity")
  case False
  from negotiate_find [OF refl False] obtain v where
    e: "enabled (e_features E) (negotiate_response_encoding E h)"
    and v: "h_get_str (e_headers E) h (lit ''grpc-accept-encoding'') = Some v"
    and mem: "as_grpc_encoding (negotiate_response_encoding E h) \<in> trim ` set (split_on 0x2C v)" by blast
  from v get_str_values [OF assms accepted_utf8] have "v = accepted_encodings F" by simp
  with mem have "as_grpc_encoding (negotiate_response_encoding E h) \<in> as_grpc_encoding ` {e. enabled F e}"
    by (auto simp: accepted_encodings_split token_trim set_all_encodings)
  with e show ?thesis by auto
qed simp

text \<open>A deadline as the header carries it, to the instant that the server sets.\<close>

lemma deadline_carried:
  assumes "headers_ok (e_headers E)" and "left \<le> MAX_VALUE * (3600 * 10 ^ 9)"
    and "h_get_values (e_headers E) h (lit ''grpc-timeout'') = Some [format_grpc_timeout (duration_of left)]"
    and "now + left + 3600 * 10 ^ 9 \<le> e_last_instant E"
  shows "\<exists>i. cancellation_from_conn (e_headers E) (e_debug E) (e_last_instant E) h True now
      = Some (Inr \<lparr>c_deadline = Some i\<rparr>) \<and> now + left \<le> i \<and> i < now + left + 3600 * 10 ^ 9"
proof -
  have n: "as_nanos (duration_of left) = left"
    using assms(2) by (intro as_nanos_of) (simp add: MAX_VALUE_def)
  obtain w sf d' where w: "(w, sf) \<in> set UNITS" "parse_grpc_timeout (format_grpc_timeout (duration_of left)) = Some d'"
    "left \<le> as_nanos d'" "as_nanos d' < left + w"
    using format_rounds_up [of "duration_of left"] assms(2) unfolding n by blast
  from w(4) UNITS_suffix [OF w(1)] have "as_nanos d' < left + 3600 * 10 ^ 9" by simp
  with w(2,3) assms(4) get_str_values [OF assms(1,3) format_utf8] show ?thesis
    by (simp add: cancellation_from_conn_def instant_add_def)
qed

text \<open>The engine of a unary call, after metadata has been added, on its way into the request.\<close>

definition with_metadata ::
  "('r, 'w, 'h, 'x, 'p) net \<Rightarrow> (str \<times> str) list \<Rightarrow> ('r, 'w, 'h, 'q, 'p) client_conn \<Rightarrow> ('r, 'w, 'h, 'q, 'p) client_conn" where
  "with_metadata N kvs c = fold (\<lambda>(k, v). add_ascii_metadata N k v) kvs c"

lemma with_metadata_keeps:
  "gcc_inner c = Inner_Pending pd \<Longrightarrow> metadata_wf (pd_request_metadata pd) \<Longrightarrow>
   \<exists>md. gcc_inner (with_metadata N kvs c) = Inner_Pending (pd\<lparr>pd_request_metadata := md\<rparr>) \<and> metadata_wf md \<and>
     gcc_outbound_encoding (with_metadata N kvs c) = gcc_outbound_encoding c \<and>
     gcc_deadline (with_metadata N kvs c) = gcc_deadline c"
proof (induction kvs arbitrary: c pd)
  case Nil
  then show ?case by (intro exI [of _ "pd_request_metadata pd"]) (simp add: with_metadata_def)
next
  case (Cons kv kvs)
  obtain k v where kv: "kv = (k, v)" by (cases kv)
  let ?c = "add_ascii_metadata N k v c"
  obtain md where md: "gcc_inner ?c = Inner_Pending (pd\<lparr>pd_request_metadata := md\<rparr>)" "metadata_wf md"
    "gcc_outbound_encoding ?c = gcc_outbound_encoding c" "gcc_deadline ?c = gcc_deadline c"
  proof (cases "insert_ascii (pd_request_metadata pd) k v")
    case (Inl e)
    with Cons.prems show ?thesis
      by (intro that [of "pd_request_metadata pd"])
        (auto simp: add_ascii_metadata_def defer_error_def split: option.split)
  next
    case (Inr md)
    with Cons.prems insert_ascii_wf [of "pd_request_metadata pd" k v md] show ?thesis
      by (intro that [of md]) (simp_all add: add_ascii_metadata_def)
  qed
  from Cons.IH [OF md(1)] md(2-4) show ?case by (auto simp: with_metadata_def kv)
qed

definition opened_call :: "str \<Rightarrow> 'q codec \<Rightarrow> bytes \<Rightarrow> pending_call" where
  "opened_call path K b =
     \<lparr>pd_path = path, pd_content_type = lit ''application/grpc+'' @ content_type_suffix K,
      pd_request_metadata = metadata_new, pd_body = b, pd_send_closed = False\<rparr>"

lemma opened_engine:
  assumes "unary_new N now Kq Kp path q = Some u"
  shows "\<exists>b. gcc_inner (uc_engine u) = Inner_Pending (opened_call path Kq b) \<and>
    (\<forall>frame. encode_frame (e_codecs (n_env N)) Kq q (gcc_outbound_encoding (uc_engine u)) = Inr frame \<longrightarrow> b = frame)"
proof -
  obtain e where e: "client_new N now Kq Kp path metadata_new (default_timeout N) False = Some e"
    and u: "uc_engine u = buffer_request N q e"
    using assms by (auto simp: unary_new_def)
  then have new: "gcc_encode e = encode_msg Kq" "gcc_inner e = Inner_Pending (opened_call path Kq [])"
    by (auto simp: client_new_def client_open_def opened_call_def Let_def split: option.splits)
  have frame: "encode_frame (e_codecs (n_env N)) Kq q (gcc_outbound_encoding (uc_engine u)) = request_frame N e q"
    by (simp add: new(1) u buffered_fields request_frame_def encode_frame_def)
  show ?thesis
  proof (cases "request_frame N e q")
    case (Inl st)
    then have "gcc_inner (uc_engine u) = gcc_inner e"
      by (simp add: u buffer_request_def defer_error_def split: option.splits)
    with new Inl show ?thesis unfolding frame by auto
  next
    case (Inr f)
    with new have "gcc_inner (uc_engine u) = Inner_Pending (opened_call path Kq f)"
      by (simp add: u buffer_request_def opened_call_def)
    with Inr show ?thesis unfolding frame by auto
  qed
qed

text \<open>The reserved headers that arrive at the server, of a call whose engine is \<open>c\<close>.\<close>

definition request_header ::
  "('r, 'w, 'h, 'x, 'p) net \<Rightarrow> nat \<Rightarrow> 'q codec \<Rightarrow> ('r, 'w, 'h, 'q, 'p) client_conn \<Rightarrow> str \<Rightarrow> str list option" where
  "request_header N t1 Kq c k =
     (if k = lit ''grpc-timeout'' \<and> gcc_deadline c \<noteq> None
      then Some [format_grpc_timeout (duration_of (the (gcc_deadline c) - t1))]
      else if k = lit ''grpc-encoding'' \<and> gcc_outbound_encoding c \<noteq> Identity
      then Some [as_grpc_encoding (gcc_outbound_encoding c)]
      else if k = lit ''grpc-accept-encoding'' then Some [accepted_encodings (e_features (n_env N))]
      else if k = lit ''te'' then Some [lit ''trailers'']
      else if k = lit ''content-type'' then Some [lit ''application/grpc+'' @ content_type_suffix Kq]
      else h_get_values (e_headers (n_env N)) (n_default_headers N) k)"

definition arrived ::
  "('r, 'w, 'h, 'x, 'p) net \<Rightarrow> nat \<Rightarrow> 'q codec \<Rightarrow> ('r, 'w, 'h, 'q, 'p) client_conn \<Rightarrow> 'g headers_api \<Rightarrow> 'g \<Rightarrow> bool" where
  "arrived N t1 Kq c G g \<longleftrightarrow>
     (\<forall>k. to_ascii_lowercase k = k \<and> is_reserved k \<longrightarrow> h_get_values G g k = request_header N t1 Kq c k)"

lemma request_arrives:
  assumes N: "net_ok N" and u: "unary_new N t0 Kq Kp path q = Some u"
    and c: "with_metadata N kvs (uc_engine u) = c"
    and rq: "take_body c = (body, c')" "build_request N t1 c' body = Some rq"
    and sent: "same_headers (e_headers (n_env N)) (rq_headers rq) G g"
  shows "arrived N t1 Kq c G g"
    and "encode_frame (e_codecs (n_env N)) Kq q (gcc_outbound_encoding c) = Inr frame \<Longrightarrow> rq_body rq = frame"
    and "gcc_outbound_encoding c = gcc_outbound_encoding (uc_engine u)" "gcc_deadline c = gcc_deadline (uc_engine u)"
proof -
  from opened_engine [OF u] obtain b where b: "gcc_inner (uc_engine u) = Inner_Pending (opened_call path Kq b)"
    "\<And>f. encode_frame (e_codecs (n_env N)) Kq q (gcc_outbound_encoding (uc_engine u)) = Inr f \<Longrightarrow> b = f" by blast
  from with_metadata_keeps [OF b(1), of N kvs] c obtain md where md: "metadata_wf md"
    "gcc_inner c = Inner_Pending (opened_call path Kq b\<lparr>pd_request_metadata := md\<rparr>)"
    and same: "gcc_outbound_encoding c = gcc_outbound_encoding (uc_engine u)" "gcc_deadline c = gcc_deadline (uc_engine u)"
    by (auto simp: metadata_wf_new opened_call_def)
  show "gcc_outbound_encoding c = gcc_outbound_encoding (uc_engine u)" "gcc_deadline c = gcc_deadline (uc_engine u)"
    using same by simp_all
  from rq(1) md(2) have c': "body = b" "gcc_outbound_encoding c' = gcc_outbound_encoding c" "gcc_deadline c' = gcc_deadline c"
    "gcc_inner c' = Inner_Pending (opened_call path Kq []\<lparr>pd_request_metadata := md\<rparr>)"
    by (auto simp: take_body_def opened_call_def)
  have wf: "metadata_wf (pd_request_metadata (opened_call path Kq []\<lparr>pd_request_metadata := md\<rparr>))" using md(1) by simp
  show "arrived N t1 Kq c G g"
    unfolding arrived_def sent [unfolded same_headers_def, rule_format]
  proof (intro allI impI, elim conjE)
    fix k :: str assume "to_ascii_lowercase k = k" "is_reserved k"
    from request_values [OF N c'(4) wf rq(2) this]
    show "h_get_values (e_headers (n_env N)) (rq_headers rq) k = request_header N t1 Kq c k"
      by (simp only: request_header_def c'(2,3) opened_call_def pending_call.select_convs pending_call.update_convs)
  qed
  assume "encode_frame (e_codecs (n_env N)) Kq q (gcc_outbound_encoding c) = Inr frame"
  with b(2) have "b = frame" by (simp add: same)
  with rq(2) c' show "rq_body rq = frame" by (auto simp: build_request_def Let_def)
qed

lemma arrived_reserved:
  assumes "arrived N t1 Kq c G g"
  shows "h_get_values G g (lit ''content-type'') = Some [lit ''application/grpc+'' @ content_type_suffix Kq]"
    and "h_get_values G g (lit ''te'') = Some [lit ''trailers'']"
    and "h_get_values G g (lit ''grpc-accept-encoding'') = Some [accepted_encodings (e_features (n_env N))]"
    and "h_get_values G g (lit ''grpc-encoding'') = (if gcc_outbound_encoding c \<noteq> Identity
      then Some [as_grpc_encoding (gcc_outbound_encoding c)]
      else h_get_values (e_headers (n_env N)) (n_default_headers N) (lit ''grpc-encoding''))"
    and "h_get_values G g (lit ''grpc-timeout'') = (case gcc_deadline c of
        Some d \<Rightarrow> Some [format_grpc_timeout (duration_of (d - t1))]
      | None \<Rightarrow> h_get_values (e_headers (n_env N)) (n_default_headers N) (lit ''grpc-timeout''))"
  using assms by (simp_all add: arrived_def request_header_def split: option.split)

lemma arrived_preflight:
  assumes "arrived N t1 Kq c (e_headers E) (cn_request_headers conn)" and "headers_ok (e_headers E)"
    and "plain_suffix (content_type_suffix Kq)"
  shows "\<exists>conn'. prepare_grpc_conn E conn (content_type_suffix Kq) = Inr conn' \<and>
    cn_request_headers conn' = cn_request_headers conn \<and> cn_request_body conn' = cn_request_body conn"
  by (rule request_preflight [OF assms(2,3) arrived_reserved(1,2) [OF assms(1)]])

lemma arrived_encoding:
  assumes a: "arrived N t1 Kq c (e_headers E) g" and H: "headers_ok (e_headers E)" "headers_ok (e_headers (n_env N))"
    and N: "defaults_ok N" and u: "unary_new N t0 Kq Kp path q = Some u"
    and c: "gcc_outbound_encoding c = gcc_outbound_encoding (uc_engine u)"
    and E: "enabled (e_features E) (gcc_outbound_encoding c)"
  shows "extract_request_encoding E g = Inr (gcc_outbound_encoding c)"
proof -
  have "h_get_values (e_headers E) g (lit ''grpc-encoding'') = None \<and> gcc_outbound_encoding c = Identity \<or>
      h_get_values (e_headers E) g (lit ''grpc-encoding'') = Some [as_grpc_encoding (gcc_outbound_encoding c)]"
    using N arrived_reserved(4) [OF a] opened_fields(1) [OF u] c H(2) get_str_values [OF H(2) _ token_utf8]
    by (auto simp: defaults_ok_def encoding_token.read_show)
  with E H(1) get_str_values [OF H(1) _ token_utf8] show ?thesis
    by (auto simp: extract_request_encoding_def encoding_token.read_show)
qed

lemma arrived_deadline:
  assumes a: "arrived N t1 Kq c (e_headers E) g" and H: "headers_ok (e_headers E)" "headers_ok (e_headers (n_env N))"
    and N: "defaults_ok N" and u: "unary_new N t0 Kq Kp path q = Some u"
    and c: "gcc_deadline c = gcc_deadline (uc_engine u)"
    and clock: "\<forall>d. gcc_deadline c = Some d \<longrightarrow>
      d - t1 \<le> MAX_VALUE * (3600 * 10 ^ 9) \<and> t2 + (d - t1) + 3600 * 10 ^ 9 \<le> e_last_instant E"
  shows "\<exists>cancel. cancellation_from_conn (e_headers E) (e_debug E) (e_last_instant E) g True t2 = Some (Inr cancel) \<and>
      (case gcc_deadline c of
         None \<Rightarrow> c_deadline cancel = None
       | Some d \<Rightarrow> \<exists>i. c_deadline cancel = Some i \<and> t2 + (d - t1) \<le> i \<and> i < t2 + (d - t1) + 3600 * 10 ^ 9)"
proof (cases "gcc_deadline c")
  case None
  with opened_fields(2) [OF u] c have "default_timeout N = None" by simp
  then have "h_get_values (e_headers (n_env N)) (n_default_headers N) (lit ''grpc-timeout'') = None"
    using N get_str_values [OF H(2) _ format_utf8] by (auto simp: defaults_ok_def default_timeout_def)
  with None arrived_reserved(5) [OF a] H(1) show ?thesis by (simp add: cancellation_from_conn_def)
next
  case (Some d)
  with arrived_reserved(5) [OF a] clock deadline_carried [OF H(1), of "d - t1" g t2]
  show ?thesis by auto
qed

section \<open>The answer's way to the caller\<close>

text \<open>What the caller makes of the status and the trailers that arrive.\<close>

definition callers_view :: "'h env \<Rightarrow> 'h \<Rightarrow> 'p result \<Rightarrow> 'p result" where
  "callers_view E trailers res =
     (case res of
        Inr v \<Rightarrow> Inr v
      | Inl st \<Rightarrow> if st_code st = Ok then Inl st_no_message
          else Inl \<lparr>st_code = st_code st, st_message = st_message st,
                    st_metadata = from_headers (e_headers E) (e_base64 E) trailers\<rparr>)"

lemma answer_items:
  assumes E: "env_ok E"
    and ok: "codec_ok Kp" "\<And>v. res = Inr v \<Longrightarrow> \<exists>frame. fits (e_codecs E) Kp enc DEFAULT_MAX_MESSAGE_SIZE v frame"
  shows "items (e_codecs E) (decode_response Kp) enc DEFAULT_MAX_MESSAGE_SIZE (unary_body E Kp enc res) =
      (case res of Inr m \<Rightarrow> [Inr m] | Inl _ \<Rightarrow> [])"
    and "unary_status E Kp enc res = (case res of Inr _ \<Rightarrow> status_ok | Inl st \<Rightarrow> st)"
proof -
  let ?K = "Kp\<lparr>decode_msg := decode_response Kp\<rparr>"
  have C: "codecs_ok (e_codecs E)" using E unfolding env_ok_def by blast
  have K: "codec_ok ?K" using ok(1) by (simp add: codec_ok_def decode_response_def)
  have "items (e_codecs E) (decode_response Kp) enc DEFAULT_MAX_MESSAGE_SIZE (unary_body E Kp enc res) =
      (case res of Inr m \<Rightarrow> [Inr m] | Inl _ \<Rightarrow> []) \<and>
    unary_status E Kp enc res = (case res of Inr _ \<Rightarrow> status_ok | Inl st \<Rightarrow> st)"
  proof (cases res)
    case (Inr m)
    from ok(2) [OF this] obtain frame where f: "fits (e_codecs E) Kp enc DEFAULT_MAX_MESSAGE_SIZE m frame" by blast
    then have "fits (e_codecs E) ?K enc DEFAULT_MAX_MESSAGE_SIZE m frame"
      by (simp add: fits_def encode_frame_def)
    from items_fits [OF C K _ this, of "[]"] f show ?thesis
      by (simp add: Inr DEFAULT_MAX_MESSAGE_SIZE_def fits_def unary_body_def unary_status_def)
  qed (simp add: unary_body_def unary_status_def)
  then show "items (e_codecs E) (decode_response Kp) enc DEFAULT_MAX_MESSAGE_SIZE (unary_body E Kp enc res) =
      (case res of Inr m \<Rightarrow> [Inr m] | Inl _ \<Rightarrow> [])"
    "unary_status E Kp enc res = (case res of Inr _ \<Rightarrow> status_ok | Inl st \<Rightarrow> st)" by blast+
qed

lemma answer_delivered:
  assumes E: "env_ok E"
    and tr: "h_get_values (e_headers E) tr (lit ''grpc-message'') = None"
    and ok: "codec_ok Kp" "\<And>v. res = Inr v \<Longrightarrow> \<exists>frame. fits (e_codecs E) Kp enc DEFAULT_MAX_MESSAGE_SIZE v frame"
    and err: "\<And>st. res = Inl st \<Longrightarrow> metadata_wf (st_metadata st) \<and> utf8_valid (st_message st)"
  defines "final \<equiv> status_write_into (e_headers E) (e_base64 E) (unary_status E Kp enc res) tr"
  shows "delivered False (items (e_codecs E) (decode_response Kp) enc DEFAULT_MAX_MESSAGE_SIZE (unary_body E Kp enc res))
      (from_trailers (e_headers E) (e_base64 E) final) =
    (case res of
       Inr m \<Rightarrow> ([m], Inr ())
     | Inl st \<Rightarrow> ([], if st_code st = Ok then Inr ()
         else Inl \<lparr>st_code = st_code st, st_message = st_message st,
                    st_metadata = from_headers (e_headers E) (e_base64 E) final\<rparr>))"
proof -
  have H: "headers_ok (e_headers E)" using E unfolding env_ok_def by blast
  note body = answer_items [OF E ok]
  show ?thesis
  proof (cases res)
    case (Inr m)
    with H show ?thesis
      by (simp add: final_def body from_trailers_written_ok status_ok_def metadata_wf_new)
  next
    case (Inl st)
    with from_trailers_written [OF H, of st tr "e_base64 E"] err [OF Inl] tr show ?thesis
      by (simp add: final_def body)
  qed
qed

lemma answer_read:
  assumes N: "net_ok N" "env_ok E" "e_headers (n_env N) = e_headers E" "e_base64 (n_env N) = e_base64 E"
      "e_codecs (n_env N) = e_codecs E"
    and src: "response_source (n_response_body N) content good delay (n_response_trailers N) final"
    and fired: "close_send N os0 engine = (Finished (Inr ()), c, os)" "gcc_inner c = Inner_Reading (live_from head r)"
      "good r" "delay r < length os" "\<forall>o1 \<in> set os. \<not> disturbed (gcc_deadline c) o1"
      "gcc_decode c = decode_response Kp" "gcc_max_message_size c = DEFAULT_MAX_MESSAGE_SIZE"
    and head: "hd_response_encoding head = enc" "hd_head_status head = None"
    and fin: "content r = unary_body E Kp enc res"
      "final r = status_write_into (e_headers E) (e_base64 E) (unary_status E Kp enc res) tr"
    and tr: "h_get_values (e_headers E) tr (lit ''grpc-message'') = None"
    and ok: "codec_ok Kp" "\<And>v. res = Inr v \<Longrightarrow> \<exists>frame. fits (e_codecs E) Kp enc DEFAULT_MAX_MESSAGE_SIZE v frame"
    and err: "\<And>st. res = Inl st \<Longrightarrow> metadata_wf (st_metadata st) \<and> utf8_valid (st_message st)"
  shows "\<exists>u :: (_, _, _, _, _, 's) unary_conn. unary_finish N os0 engine = Finished (Inr u) \<and>
    into_message u = callers_view E (final r) res"
proof -
  have v: "verdict (n_env N) None (final r) = from_trailers (e_headers E) (e_base64 E) (final r)"
    by (simp add: verdict_def N(3,4))
  have out: "delivered False (items (e_codecs E) (decode_response Kp) enc DEFAULT_MAX_MESSAGE_SIZE (content r))
      (from_trailers (e_headers E) (e_base64 E) (final r)) =
    (case res of
       Inr m \<Rightarrow> ([m], Inr ())
     | Inl st \<Rightarrow> ([], if st_code st = Ok then Inr ()
         else Inl \<lparr>st_code = st_code st, st_message = st_message st,
                    st_metadata = from_headers (e_headers E) (e_base64 E) (final r)\<rparr>))"
    unfolding fin by (rule answer_delivered [OF N(2) tr ok(1)]) (simp_all add: ok(2) err)
  have "\<exists>u :: (_, _, _, _, _, 's) unary_conn. unary_finish N os0 engine = Finished (Inr u) \<and> into_message u = (case ms of
        [] \<Rightarrow> (case w of Inr _ \<Rightarrow> Inl st_no_message | Inl e \<Rightarrow> Inl e)
      | [m] \<Rightarrow> map_sum id (\<lambda>_. m) w
      | _ \<Rightarrow> Inl st_multiple)"
    if "(case res of
           Inr m \<Rightarrow> ([m], Inr ())
         | Inl st \<Rightarrow> ([], if st_code st = Ok then Inr ()
             else Inl \<lparr>st_code = st_code st, st_message = st_message st,
                        st_metadata = from_headers (e_headers E) (e_base64 E) (final r)\<rparr>)) = (ms, w)" for ms w
    using unary_finish_result [OF N(1) src fired(1-5), of ms w] that out by (simp add: fired(6,7) head N(5) v)
  from this [OF surjective_pairing] show ?thesis
    by (cases res) (auto simp: callers_view_def split: if_splits)
qed

section \<open>Properties\<close>

text \<open>
  C3: What the client sends, the server takes. The request of a unary call, whatever metadata
  the caller added, passes the preflight of a server for the same codec; the server finds the
  encoding the client compressed with (when its build has it), and answers in an encoding that
  both builds have; its deadline is the client's remaining time or up to an hour more, never
  less, and there is none exactly when the call has none; and from the body it reads exactly
  one message, the caller's.
\<close>

theorem request_accepted:
  assumes N: "net_ok N" "defaults_ok N" and u: "unary_new N t0 Kq Kp path q = Some u"
    and c: "with_metadata N kvs (uc_engine u) = c"
    and rq: "take_body c = (body, c')" "build_request N t1 c' body = Some rq"
    and K: "plain_suffix (content_type_suffix Kq)" "codec_ok Kq"
      "fits (e_codecs (n_env N)) Kq (gcc_outbound_encoding c) DEFAULT_MAX_MESSAGE_SIZE q frame"
    and E: "env_ok E" "e_codecs E = e_codecs (n_env N)" "enabled (e_features E) (gcc_outbound_encoding c)"
    and sent: "same_headers (e_headers (n_env N)) (rq_headers rq) (e_headers E) (cn_request_headers conn)"
    and clock: "cn_has_runtime conn" "\<forall>d. gcc_deadline c = Some d \<longrightarrow>
      d - t1 \<le> MAX_VALUE * (3600 * 10 ^ 9) \<and> t2 + (d - t1) + 3600 * 10 ^ 9 \<le> e_last_instant E"
  shows "(\<exists>conn'. prepare_grpc_conn E conn (content_type_suffix Kq) = Inr conn' \<and>
      cn_request_headers conn' = cn_request_headers conn \<and> cn_request_body conn' = cn_request_body conn) \<and>
    extract_request_encoding E (cn_request_headers conn) = Inr (gcc_outbound_encoding c) \<and>
    enabled (e_features (n_env N)) (negotiate_response_encoding E (cn_request_headers conn)) \<and>
    (\<exists>cancel. cancellation_from_conn (e_headers E) (e_debug E) (e_last_instant E) (cn_request_headers conn) True t2
        = Some (Inr cancel) \<and>
      (case gcc_deadline c of
         None \<Rightarrow> c_deadline cancel = None
       | Some d \<Rightarrow> \<exists>i. c_deadline cancel = Some i \<and> t2 + (d - t1) \<le> i \<and> i < t2 + (d - t1) + 3600 * 10 ^ 9)) \<and>
    one_request (items (e_codecs E) (decode_msg Kq) (gcc_outbound_encoding c) DEFAULT_MAX_MESSAGE_SIZE (rq_body rq)) = Inr q"
proof -
  have H: "headers_ok (e_headers E)" "headers_ok (e_headers (n_env N))" and C: "codecs_ok (e_codecs (n_env N))"
    using E(1) N(1) unfolding net_ok_def env_ok_def by blast+
  note r = request_arrives [OF N(1) u c rq sent]
  have "rq_body rq = frame" using r(2) [of frame] K(3) by (simp add: fits_def)
  with items_fits [OF C K(2) _ K(3), of "[]"] E(2)
  have "one_request (items (e_codecs E) (decode_msg Kq) (gcc_outbound_encoding c) DEFAULT_MAX_MESSAGE_SIZE (rq_body rq)) = Inr q"
    by (simp add: DEFAULT_MAX_MESSAGE_SIZE_def)
  with arrived_preflight [OF r(1) H(1) K(1)] arrived_encoding [OF r(1) H N(2) u r(3) E(3)]
    negotiated_both [OF H(1) arrived_reserved(3) [OF r(1)]] arrived_deadline [OF r(1) H N(2) u r(4) clock(2)]
  show ?thesis by simp
qed

theorem request_accepted_witness:
  "\<exists>(u :: (_, _, _, _, _, unit) unary_conn) body c' rq.
    unary_new (example_net 0 example_rp) 0 raw_codec raw_codec (lit ''Say'') [7] = Some u \<and>
    take_body (with_metadata (example_net 0 example_rp) [(lit ''user'', lit ''me'')] (uc_engine u)) = (body, c') \<and>
    build_request (example_net 0 example_rp) 0 c' body = Some rq \<and>
    extract_request_encoding example_env (rq_headers rq) = Inr Identity \<and>
    one_request (items prefix_codecs (decode_msg raw_codec) Identity DEFAULT_MAX_MESSAGE_SIZE (rq_body rq)) = Inr [7]"
proof -
  let ?N = "example_net 0 example_rp"
  have D: "h_get_values (e_headers (n_env ?N)) (n_default_headers ?N) k = None" for k
    by (simp add: example_net_def example_env_def dalist_headers_def)
  have d: "defaults_ok ?N" by (simp add: defaults_ok_def D)
  have s: "h_get_str (e_headers (n_env ?N)) (n_default_headers ?N) k = None" for k
    using D by (simp add: example_net_def example_env_def dalist_headers_def)
  then obtain u :: "(_, _, _, _, _, unit) unary_conn" where u: "unary_new ?N 0 raw_codec raw_codec (lit ''Say'') [7] = Some u"
    by (simp add: unary_new_def client_new_def client_open_def default_timeout_def)
  then have f: "gcc_outbound_encoding (uc_engine u) = Identity" "gcc_deadline (uc_engine u) = None"
    using s by (simp_all add: opened_fields [OF u] default_timeout_def)
  from opened_engine [OF u] obtain b where b: "gcc_inner (uc_engine u) = Inner_Pending (opened_call (lit ''Say'') raw_codec b)"
    by blast
  let ?c = "with_metadata ?N [(lit ''user'', lit ''me'')] (uc_engine u)"
  from with_metadata_keeps [OF b, of ?N "[(lit ''user'', lit ''me'')]"] obtain md where
    c: "gcc_inner ?c = Inner_Pending (opened_call (lit ''Say'') raw_codec b\<lparr>pd_request_metadata := md\<rparr>)"
    "gcc_outbound_encoding ?c = Identity" "gcc_deadline ?c = None"
    using f by (auto simp: opened_call_def metadata_wf_new)
  obtain body c' where t: "take_body ?c = (body, c')" by fastforce
  with c have "gcc_inner c' = Inner_Pending (opened_call (lit ''Say'') raw_codec b\<lparr>pd_request_metadata := md, pd_body := []\<rparr>)"
    by (auto simp: take_body_def)
  then obtain rq where rq: "build_request ?N 0 c' body = Some rq" by (simp add: build_request_def Let_def)
  let ?conn = "\<lparr>cn_request_headers = rq_headers rq, cn_request_body = (), cn_has_runtime = True, cn_ops = []\<rparr>
    :: (_, unit, unit, unit) conn"
  have fits: "fits (e_codecs (n_env ?N)) raw_codec (gcc_outbound_encoding ?c) DEFAULT_MAX_MESSAGE_SIZE [7] [0, 0, 0, 0, 1, 7]"
    by (simp add: c(2) fits_def encode_frame_Inr raw_codec_def u32_to_be_bytes_def PREFIX_LEN_def DEFAULT_MAX_MESSAGE_SIZE_def)
  have K: "plain_suffix (content_type_suffix raw_codec)" by (simp add: raw_codec_def plain_suffix_def lit_def)
  have E: "n_env ?N = example_env" "e_codecs example_env = prefix_codecs" by (simp_all add: example_net_def example_env_def)
  have same: "same_headers (e_headers (n_env ?N)) (rq_headers rq) (e_headers example_env) (cn_request_headers ?conn)"
    by (simp add: same_headers_def E)
  from request_accepted [OF net_ok_example d u refl t rq K codec_ok_raw fits env_ok_example _ _ same] c E
  show ?thesis using u t rq by (intro exI [of _ u] exI [of _ body] exI [of _ c'] exI [of _ rq]) simp
qed

text \<open>
  C2: What the handler returns, the caller gets. Take the server's answer to a unary call whose
  handler returned \<open>res\<close>, and a client whose response head announced the answer's encoding and
  no status, with the answer's bytes as the body and the answer's trailers as the trailers.
  While nothing disturbs the call, awaiting the client's handle returns, and its
  \<open>into_message\<close> is the handler's message, or its error with the code, the message and what the
  trailers carry as metadata. An \<open>Err\<close> with the code \<open>Ok\<close>, which a handler can build, becomes
  the \<open>Internal\<close> error of a response without a message.
\<close>

theorem response_reaches_caller:
  assumes N: "net_ok N" "env_ok E" "e_headers (n_env N) = e_headers E" "e_base64 (n_env N) = e_base64 E"
      "e_codecs (n_env N) = e_codecs E"
    and src: "response_source (n_response_body N) content good delay (n_response_trailers N) final"
    and fired: "close_send N os0 engine = (Finished (Inr ()), c, os)" "gcc_inner c = Inner_Reading (live_from head r)"
      "good r" "delay r < length os" "\<forall>o1 \<in> set os. \<not> disturbed (gcc_deadline c) o1"
      "gcc_decode c = decode_response Kp" "gcc_max_message_size c = DEFAULT_MAX_MESSAGE_SIZE"
    and head: "hd_response_encoding head = enc" "hd_head_status head = None"
    and answer: "answered_with (finish_unary E Kp conn res enc tr) (content r) (final r)"
      "h_get_values (e_headers E) tr (lit ''grpc-message'') = None"
    and ok: "codec_ok Kp" "\<And>v. res = Inr v \<Longrightarrow> \<exists>frame. fits (e_codecs E) Kp enc DEFAULT_MAX_MESSAGE_SIZE v frame"
    and err: "\<And>st. res = Inl st \<Longrightarrow> metadata_wf (st_metadata st) \<and> utf8_valid (st_message st)"
  shows "\<exists>u :: (_, _, _, _, _, 's) unary_conn. unary_finish N os0 engine = Finished (Inr u) \<and> into_message u =
    (case res of
       Inr v \<Rightarrow> Inr v
     | Inl st \<Rightarrow> if st_code st = Ok then Inl st_no_message
         else Inl \<lparr>st_code = st_code st, st_message = st_message st,
                   st_metadata = from_headers (e_headers E) (e_base64 E) (final r)\<rparr>)"
proof -
  have "content r = unary_body E Kp enc res"
      "final r = status_write_into (e_headers E) (e_base64 E) (unary_status E Kp enc res) tr"
    using answer(1) finish_unary_answered [of E Kp conn res enc tr] by (auto simp: answered_with_def one_shot_new_def)
  from answer_read [OF N src fired head this answer(2) ok err] show ?thesis unfolding callers_view_def .
qed

theorem response_reaches_caller_witness:
  "\<exists>u. unary_finish (example_net 0 (example_response ([0, 0, 0, 0, 1, 7],
       status_write_into dalist_headers (e_base64 example_env) status_ok DAList.empty)))
     [at_time 0] example_call = Finished (Inr u) \<and> into_message (u :: (_, _, _, _, _, unit) unary_conn) = Inr [7]"
proof -
  let ?tr = "status_write_into dalist_headers (e_base64 example_env) status_ok DAList.empty"
  let ?rd = "([0, 0, 0, 0, 1, 7], ?tr)"
  let ?N = "example_net 0 (example_response ?rd)"
  let ?conn = "\<lparr>cn_request_headers = DAList.empty, cn_request_body = (), cn_has_runtime = True, cn_ops = []\<rparr>
    :: (_, unit, (unit, unit, _) response_body, unit) conn"
  obtain c where c: "close_send ?N [at_time 0] example_call = (Finished (Inr ()), c, [at_time 0])"
    "gcc_inner c = Inner_Reading (live_from example_head ?rd)"
    "gcc_deadline c = None" "gcc_decode c = decode_response raw_codec" "gcc_max_message_size c = DEFAULT_MAX_MESSAGE_SIZE"
    by (rule example_fired)
  have E: "n_env ?N = example_env" "e_headers example_env = dalist_headers" "e_codecs example_env = prefix_codecs"
    by (simp_all add: example_net_def example_env_def)
  have src: "response_source (n_response_body ?N) fst (\<lambda>_. True) (\<lambda>_. 0) (n_response_trailers ?N) snd"
    by (simp add: example_net_def example_source.response_source_axioms)
  have fits: "fits prefix_codecs raw_codec Identity DEFAULT_MAX_MESSAGE_SIZE [7] [0, 0, 0, 0, 1, 7]"
    by (simp add: fits_def encode_frame_Inr raw_codec_def u32_to_be_bytes_def PREFIX_LEN_def DEFAULT_MAX_MESSAGE_SIZE_def)
  then have "encode_frame prefix_codecs raw_codec [7] Identity = Inr [0, 0, 0, 0, 1, 7]" by (simp add: fits_def)
  then have ans: "answered_with (finish_unary example_env raw_codec ?conn (Inr [7]) Identity DAList.empty)
      (fst ?rd) (snd ?rd)"
    using finish_unary_answered [of example_env raw_codec ?conn "Inr [7]" Identity DAList.empty]
    by (simp add: E unary_body_def unary_status_def)
  have tr: "h_get_values (e_headers example_env) DAList.empty (lit ''grpc-message'') = None"
    by (simp add: E dalist_headers_def)
  from response_reaches_caller [OF net_ok_example env_ok_example _ _ _ src c(1,2) _ _ _ c(4,5) _ _ ans tr codec_ok_raw]
    fits c(3)
  show ?thesis by (auto simp: E example_head_def disturbed_def)
qed

end
