(* ===== verification/UnaryCall.thy ===== *)
theory UnaryCall
  imports EndToEnd
begin

text \<open>
  A unary call from the generated client's method to the generated server's handler and back:
  the composition of the client's request, the routing, the preflight, the dispatch function,
  the response head, the body and the trailers. What lies between the two programs is HTTP/2
  and \<open>trillium\<close>'s \<open>Conn\<close>; what is used of them is that a \<open>Conn\<close> answers with the status,
  the headers and the body that were set on it, and that the reserved headers, the body and the
  trailers that arrive are those that were sent.
\<close>

section \<open>The response of a connection\<close>

text \<open>
  The head that the operations done to a \<open>Conn\<close> leave: \<open>with_response_header\<close> replaces,
  \<open>response_headers_mut\<close> is whatever the handler did, the last status counts.
\<close>

definition response_head :: "'h headers_api \<Rightarrow> ('h, 'b, 'u) conn_op list \<Rightarrow> 'h" where
  "response_head H ops =
     fold (\<lambda>op1 h. case op1 of WithResponseHeader k v \<Rightarrow> h_insert H h k v | ResponseHeadersMut f \<Rightarrow> f h | _ \<Rightarrow> h)
       ops (h_new H)"

definition response_code :: "('h, 'b, 'u) conn_op list \<Rightarrow> nat option" where
  "response_code ops = fold (\<lambda>op1 c. case op1 of WithStatus n \<Rightarrow> Some n | _ \<Rightarrow> c) ops None"

text \<open>The response \<open>rp\<close>, its body and its trailers are what the server did to its connection.\<close>

definition transmitted ::
  "'h headers_api \<Rightarrow> ('h, 'r, ('s, 'a, 'h) response_body, 'u) conn \<Rightarrow> ('x, 'h) response \<Rightarrow> bytes \<Rightarrow> 'h \<Rightarrow> bool" where
  "transmitted H conn rp bs tr \<longleftrightarrow>
     rp_status rp = response_code (cn_ops conn) \<and>
     (\<forall>k. to_ascii_lowercase k = k \<and> is_reserved k \<longrightarrow>
        h_get_values H (rp_headers rp) k = h_get_values H (response_head H (cn_ops conn)) k) \<and>
     answered_with conn bs tr"

section \<open>Handlers that leave the protocol's headers alone\<close>

definition keeps_reserved :: "'h headers_api \<Rightarrow> ('h \<Rightarrow> 'h) \<Rightarrow> bool" where
  "keeps_reserved H f \<longleftrightarrow>
     (\<forall>h k. to_ascii_lowercase k = k \<and> is_reserved k \<longrightarrow> h_get_values H (f h) k = h_get_values H h k)"

definition answerable ::
  "'h env \<Rightarrow> ('h, ('s, 'a, 'h) response_body, 'u) conn_op list
   \<Rightarrow> ('h, 'r, ('s, 'a, 'h) response_body, 'u) grpc_conn \<Rightarrow> bool" where
  "answerable E base g \<longleftrightarrow>
     (\<exists>fs. cn_ops (gc_conn g) = base @ map ResponseHeadersMut fs \<and> (\<forall>f \<in> set fs. keeps_reserved (e_headers E) f)) \<and>
     h_get_values (e_headers E) (gc_response_trailers g) (lit ''grpc-message'') = None"

text \<open>
  A polite handler adds response headers and trailers of its own names only, returns messages
  that can be framed and read within the size limit, and errors that can be sent.
\<close>

definition polite ::
  "'h env \<Rightarrow> 'p codec \<Rightarrow> encoding \<Rightarrow> (('h, 'r, ('s, 'a, 'h) response_body, 'u) grpc_conn \<times> 'f, 'p result) fut \<Rightarrow> bool" where
  "polite E Kp enc f_poll \<longleftrightarrow>
     (\<forall>base o1 g f. answerable E base g \<longrightarrow> answerable E base (fst (snd (f_poll o1 (g, f))))) \<and>
     (\<forall>o1 gs v gs'. f_poll o1 gs = (Ready (Inr v), gs') \<longrightarrow>
        (\<exists>frame. fits (e_codecs E) Kp enc DEFAULT_MAX_MESSAGE_SIZE v frame)) \<and>
     (\<forall>o1 gs st gs'. f_poll o1 gs = (Ready (Inl st), gs') \<longrightarrow>
        metadata_wf (st_metadata st) \<and> utf8_valid (st_message st))"

section \<open>Lemmas\<close>

lemma drive_last_poll: "drive f os s = Some (x, s') \<Longrightarrow> \<exists>o1 s1. f o1 s1 = (Ready x, s')"
proof (induction os arbitrary: s)
  case (Cons o1 os)
  obtain p s1 where "f o1 s = (p, s1)" by (cases "f o1 s")
  with Cons show ?case by (cases p) auto
qed simp

text \<open>The head of a connection that passed the preflight and was answered by a polite handler.\<close>

lemma response_head_snoc:
  "response_head H (ops @ [op1]) =
     (case op1 of WithResponseHeader k v \<Rightarrow> h_insert H (response_head H ops) k v
      | ResponseHeadersMut f \<Rightarrow> f (response_head H ops) | _ \<Rightarrow> response_head H ops)"
  "response_code (ops @ [op1]) = (case op1 of WithStatus n \<Rightarrow> Some n | _ \<Rightarrow> response_code ops)"
  by (simp_all add: response_head_def response_code_def split: conn_op.split)

lemma response_head_muts:
  assumes "\<forall>f \<in> set fs. keeps_reserved H f"
  shows "response_code (ops @ map ResponseHeadersMut fs) = response_code ops"
    and "to_ascii_lowercase k = k \<Longrightarrow> is_reserved k \<Longrightarrow>
      h_get_values H (response_head H (ops @ map ResponseHeadersMut fs)) k = h_get_values H (response_head H ops) k"
  using assms
  by (induction fs rule: rev_induct)
    (auto simp: response_head_snoc keeps_reserved_def simp flip: append_assoc)

lemma preflight_head:
  assumes H: "headers_ok (e_headers E)" and p: "prepare_grpc_conn E conn suffix = Inr conn1" "cn_ops conn = []"
    and fs: "\<forall>f \<in> set fs. keeps_reserved (e_headers E) f"
    and ops: "cn_ops conn2 = cn_ops conn1 @ map ResponseHeadersMut fs @ [WithBody b, Halt]"
  defines "enc \<equiv> negotiate_response_encoding E (cn_request_headers conn)"
  shows "response_code (cn_ops conn2) = Some 200"
    and "to_ascii_lowercase k = k \<Longrightarrow> is_reserved k \<Longrightarrow>
      h_get_values (e_headers E) (response_head (e_headers E) (cn_ops conn2)) k =
       (if k = lit ''grpc-encoding'' \<and> enc \<noteq> Identity then Some [as_grpc_encoding enc]
        else if k = lit ''grpc-accept-encoding'' then Some [accepted_encodings (e_features E)]
        else if k = lit ''content-type'' then Some [lit ''application/grpc+'' @ suffix] else None)"
proof -
  let ?H = "e_headers E"
  have 1: "cn_ops conn1 = [WithResponseHeader (lit ''content-type'') (lit ''application/grpc+'' @ suffix),
        WithResponseHeader (lit ''grpc-accept-encoding'') (accepted_encodings (e_features E)), WithStatus 200] @
       (if enc = Identity then [] else [WithResponseHeader (lit ''grpc-encoding'') (as_grpc_encoding enc)])"
    using p by (auto simp: preflight enc_def Let_def split: if_splits)
  have ins: "h_get_values ?H (h_insert ?H h n v) k = (if k = n then Some [v] else h_get_values ?H h k)"
    if "to_ascii_lowercase n = n" "to_ascii_lowercase k = k" for h n v k
    using that by (auto simp: h_get_values_insert [OF H] eq_ignore_ascii_case_lower)
  have new: "h_get_values ?H (h_new ?H) k = None" for k by (rule h_get_values_new [OF H])
  have split_ops: "cn_ops conn2 = ((cn_ops conn1 @ map ResponseHeadersMut fs) @ [WithBody b]) @ [Halt]"
    by (simp add: ops)
  have drop_end: "response_code (cn_ops conn2) = response_code (cn_ops conn1 @ map ResponseHeadersMut fs)"
    "response_head ?H (cn_ops conn2) = response_head ?H (cn_ops conn1 @ map ResponseHeadersMut fs)"
    unfolding split_ops response_head_snoc by simp_all
  show "response_code (cn_ops conn2) = Some 200"
    unfolding drop_end response_head_muts(1) [OF fs] by (simp add: 1 response_code_def)
  assume k: "to_ascii_lowercase k = k" "is_reserved k"
  show "h_get_values (e_headers E) (response_head (e_headers E) (cn_ops conn2)) k =
       (if k = lit ''grpc-encoding'' \<and> enc \<noteq> Identity then Some [as_grpc_encoding enc]
        else if k = lit ''grpc-accept-encoding'' then Some [accepted_encodings (e_features E)]
        else if k = lit ''content-type'' then Some [lit ''application/grpc+'' @ suffix] else None)"
    unfolding drop_end response_head_muts(2) [OF fs k]
    using k(1) by (simp add: 1 response_head_def ins new)
qed

text \<open>The server's half: what becomes of a unary request that is not refused.\<close>

lemma answerable_give_back: "answerable E base g \<Longrightarrow> answerable E base (give_back s g)"
  by (simp add: answerable_def give_back_def)

lemma answerable_start:
  "headers_ok (e_headers E) \<Longrightarrow> gc_conn g = conn \<Longrightarrow> gc_response_trailers g = h_new (e_headers E) \<Longrightarrow>
   answerable E (cn_ops conn) g"
  by (simp add: answerable_def exI [of _ "[]"])

lemma polite_result:
  assumes "polite E Kp enc f_poll" and "drive f_poll os gs = Some (res, gs')"
  shows "(\<forall>v. res = Inr v \<longrightarrow> (\<exists>frame. fits (e_codecs E) Kp enc DEFAULT_MAX_MESSAGE_SIZE v frame)) \<and>
    (\<forall>st. res = Inl st \<longrightarrow> metadata_wf (st_metadata st) \<and> utf8_valid (st_message st))"
  using drive_last_poll [OF assms(2)] assms(1) unfolding polite_def by blast

lemma cancelled_sendable:
  "st \<in> {st_shutting_down, st_elapsed} \<Longrightarrow> metadata_wf (st_metadata st) \<and> utf8_valid (st_message st)"
  by (auto simp: st_shutting_down_def st_elapsed_def metadata_wf_new utf8_valid_ascii lit_def)

lemma unary_served:
  assumes E: "env_ok E" "select_ok S" "delay_ok D"
    and src: "live_source poll_read content good delay" "good (cn_request_body conn)"
    and enc: "extract_request_encoding E (cn_request_headers conn) = Inr renc"
      "enc = negotiate_response_encoding E (cn_request_headers conn)"
    and cancel: "cancellation_from_conn (e_headers E) (e_debug E) (e_last_instant E) (cn_request_headers conn)
      (cn_has_runtime conn) t2 = Some (Inr cancel)"
    and q: "one_request (items (e_codecs E) (decode_msg Kq) renc DEFAULT_MAX_MESSAGE_SIZE (content (cn_request_body conn))) = Inr q"
    and f: "polite E Kp enc f_poll"
    and run: "unary_impl E D S poll_read Kq Kp f_start f_poll t2 t3 os conn = Finished conn'"
  obtains res fs tr where
    "cn_ops conn' = cn_ops conn @ map ResponseHeadersMut fs @
      [WithBody (OneShot (one_shot_new (unary_body E Kp enc res)
        (status_write_into (e_headers E) (e_base64 E) (unary_status E Kp enc res) tr))), Halt]"
    and "\<forall>f \<in> set fs. keeps_reserved (e_headers E) f" and "h_get_values (e_headers E) tr (lit ''grpc-message'') = None"
    and "\<forall>v. res = Inr v \<longrightarrow> (\<exists>frame. fits (e_codecs E) Kp enc DEFAULT_MAX_MESSAGE_SIZE v frame)"
    and "\<forall>st. res = Inl st \<longrightarrow> metadata_wf (st_metadata st) \<and> utf8_valid (st_message st)"
    and "(res = Inl st_shutting_down \<and> (\<exists>o1 \<in> set os. ob_shutdown o1)) \<or>
      (res = Inl st_elapsed \<and> (\<exists>o1 \<in> set os. \<exists>i. c_deadline cancel = Some i \<and> i \<le> ob_now o1)) \<or>
      (\<exists>os1 os2 g1 g2 f'. os = os1 @ os2 \<and> cn_request_headers (gc_conn g1) = cn_request_headers conn \<and>
        gc_response_trailers g1 = h_new (e_headers E) \<and>
        drive f_poll os2 (g1, f_start q) = Some (res, (g2, f')) \<and> tr = gc_response_trailers g2)"
proof -
  have H: "headers_ok (e_headers E)" using E(1) unfolding env_ok_def by blast
  have "call_setup E conn t2 t3 = map_option (\<lambda>g. Inr (cancel, renc, enc, g)) (grpc_server_conn_new E conn renc t3)"
    by (simp add: call_setup_def enc cancel Let_def split: option.split)
  with run obtain g where g: "call_setup E conn t2 t3 = Some (Inr (cancel, renc, enc, g))"
    by (cases "grpc_server_conn_new E conn renc t3") (auto simp: unary_impl_def)
  then obtain res t g' st where
    d: "drive (race D S cancel (call_poll (e_codecs E) poll_read f_start f_poll)) os (Unstarted, call_start Kq g)
      = Some (res, (t, (g', st)))"
    and conn': "conn' = finish_unary E Kp (gc_conn g') res enc (gc_response_trailers g')"
    using run by (auto simp: unary_impl_def into_parts_def split: option.splits prod.splits)
  note handed = call_setup_deadline [OF g]
  note result1 = unary_race_result [OF E(2,3) src g d, unfolded q]
  let ?P = "\<lambda>s. answerable E (cn_ops conn) (fst s)"
  have "?P (snd (call_poll (e_codecs E) poll_read f_start f_poll o1 s))" if "?P s" for o1 s
    using f that unfolding polite_def
    by (intro call_poll_keeps [where P = "answerable E (cn_ops conn)"]) (blast intro: answerable_give_back)+
  then have "?P (g', st)"
    by (rule drive_race_keeps [where P = ?P, OF E(2) _ _ d])
      (use handed H in \<open>simp_all add: call_start_def answerable_start\<close>)
  then obtain fs where fs: "cn_ops (gc_conn g') = cn_ops conn @ map ResponseHeadersMut fs"
    "\<forall>f \<in> set fs. keeps_reserved (e_headers E) f"
    "h_get_values (e_headers E) (gc_response_trailers g') (lit ''grpc-message'') = None"
    by (auto simp: answerable_def)
  have sendable: "(\<forall>v. res = Inr v \<longrightarrow> (\<exists>frame. fits (e_codecs E) Kp enc DEFAULT_MAX_MESSAGE_SIZE v frame)) \<and>
      (\<forall>st. res = Inl st \<longrightarrow> metadata_wf (st_metadata st) \<and> utf8_valid (st_message st))"
    using result1 polite_result [OF f] cancelled_sendable by auto
  have "cn_ops conn' = cn_ops conn @ map ResponseHeadersMut fs @
      [WithBody (OneShot (one_shot_new (unary_body E Kp enc res)
        (status_write_into (e_headers E) (e_base64 E) (unary_status E Kp enc res) (gc_response_trailers g')))), Halt]"
    by (simp add: conn' finish_unary_ops fs(1))
  from that [OF this fs(2,3) sendable [THEN conjunct1] sendable [THEN conjunct2]] result1
  show ?thesis by (simp only: sum.inject sum.distinct simp_thms) blast
qed

text \<open>The client's half: the request fires, and the head is accepted.\<close>

lemma add_metadata_fields:
  "gcc_decode (with_metadata N kvs c) = gcc_decode c \<and> gcc_max_message_size (with_metadata N kvs c) = gcc_max_message_size c \<and>
   gcc_full_duplex (with_metadata N kvs c) = gcc_full_duplex c"
proof (induction kvs arbitrary: c)
  case (Cons kv kvs)
  have "gcc_decode (add_ascii_metadata N k v c) = gcc_decode c \<and>
      gcc_max_message_size (add_ascii_metadata N k v c) = gcc_max_message_size c \<and>
      gcc_full_duplex (add_ascii_metadata N k v c) = gcc_full_duplex c" for k v
    by (auto simp: add_ascii_metadata_def defer_error_def split: inner.split sum.split option.split)
  with Cons [of "add_ascii_metadata N (fst kv) (snd kv) c"] show ?case
    by (simp add: with_metadata_def case_prod_beta)
qed (simp add: with_metadata_def)

lemma opened_unary:
  assumes u: "unary_new N t0 Kq Kp path q = Some u" and c: "with_metadata N kvs (uc_engine u) = c"
  shows "\<exists>pd. gcc_inner c = Inner_Pending pd" and "\<not> gcc_full_duplex c" and "gcc_decode c = decode_response Kp"
    and "gcc_max_message_size c = DEFAULT_MAX_MESSAGE_SIZE"
proof -
  obtain e where e: "client_new N t0 Kq Kp path metadata_new (default_timeout N) False = Some e"
    and b: "uc_engine u = buffer_request N q e"
    using u by (auto simp: unary_new_def)
  then have "\<not> gcc_full_duplex e" "gcc_decode e = decode_response Kp" "gcc_max_message_size e = DEFAULT_MAX_MESSAGE_SIZE"
    by (auto simp: client_new_def client_open_def Let_def split: option.splits)
  with b add_metadata_fields [of N kvs "uc_engine u"] c
  show "\<not> gcc_full_duplex c" "gcc_decode c = decode_response Kp" "gcc_max_message_size c = DEFAULT_MAX_MESSAGE_SIZE"
    by (auto simp: buffer_request_def defer_error_def split: sum.splits inner.splits option.splits)
  from opened_engine [OF u] with_metadata_keeps [of "uc_engine u" _ N kvs] c
  show "\<exists>pd. gcc_inner c = Inner_Pending pd" by (force simp: opened_call_def metadata_wf_new)
qed

lemma fire_unary:
  assumes "gcc_inner c = Inner_Pending pd" and "\<not> gcc_full_duplex c" and "gcc_init_error c = None"
    and "take_body c = (body, c')" and "build_request N (clock os0) c' body = Some rq"
    and "await_fut (client_race (n_delay N) (n_or_send N) (gcc_deadline c) (fut_map_err transport_error (n_poll N)))
      os0 (Unstarted, n_send N rq) = (Finished (Inr rp), x, os)"
    and "process_head (n_env N) rp = Inr head"
  shows "\<exists>c''. close_send N os0 c = (Finished (Inr ()), c'', os) \<and> gcc_inner c'' = Inner_Reading (live_from head (rp_reader rp)) \<and>
    gcc_deadline c'' = gcc_deadline c \<and> gcc_decode c'' = gcc_decode c \<and> gcc_max_message_size c'' = gcc_max_message_size c"
proof -
  let ?cl = "c\<lparr>gcc_inner := Inner_Pending (pd\<lparr>pd_send_closed := True\<rparr>)\<rparr>"
  obtain b c1 where t: "take_body ?cl = (b, c1)" by fastforce
  with assms(1,4) have "b = body" "build_request N (clock os0) c1 b = build_request N (clock os0) c' body"
    "gcc_deadline c1 = gcc_deadline c" "gcc_decode c1 = gcc_decode c" "gcc_max_message_size c1 = gcc_max_message_size c"
    by (auto simp: take_body_def build_request_def Let_def split: option.split)
  with t assms show ?thesis
    by (simp add: close_send_def materialize_reading_def materialize_def)
qed

lemma head_accepted:
  assumes H: "headers_ok (e_headers E)" and s: "plain_suffix suffix" "enabled (e_features E) enc"
    and rp: "rp_status rp = Some 200"
      "\<And>k. to_ascii_lowercase k = k \<Longrightarrow> is_reserved k \<Longrightarrow> h_get_values (e_headers E) (rp_headers rp) k =
       (if k = lit ''grpc-encoding'' \<and> enc \<noteq> Identity then Some [as_grpc_encoding enc]
        else if k = lit ''grpc-accept-encoding'' then Some [accepted]
        else if k = lit ''content-type'' then Some [lit ''application/grpc+'' @ suffix] else None)"
  shows "\<exists>head. process_head E rp = Inr head \<and> hd_response_encoding head = enc \<and> hd_head_status head = None"
proof -
  have "h_get_str (e_headers E) (rp_headers rp) (lit ''content-type'') = Some (lit ''application/grpc+'' @ suffix)"
    using rp(2) [of "lit ''content-type''"] by (intro get_str_values [OF H _ plain_content_type [OF s(1)]]) simp
  moreover have "h_get_str (e_headers E) (rp_headers rp) (lit ''grpc-status'') = None"
    using rp(2) [of "lit ''grpc-status''"] by (intro h_get_str_None [OF H]) simp
  moreover have "h_get_str (e_headers E) (rp_headers rp) (lit ''grpc-encoding'') =
      (if enc = Identity then None else Some (as_grpc_encoding enc))"
    using rp(2) [of "lit ''grpc-encoding''"] get_str_values [OF H _ token_utf8] H by (cases "enc = Identity") simp_all
  ultimately show ?thesis
    using rp(1) s(2) parse_written_content_type(1) [OF s(1)]
    by (cases "enc = Identity") (simp_all add: process_head_def encoding_token.read_show)
qed

text \<open>The server's half of a call from the generated client's method.\<close>

lemma unary_call_served:
  assumes N: "net_ok N" "defaults_ok N" and E: "env_ok E" "select_ok S" "delay_ok D"
      "e_headers (n_env N) = e_headers E" "e_codecs (n_env N) = e_codecs E"
    and K: "codec_ok Kq" "content_type_suffix Kq = lit ''proto''"
    and m: "distinct (map mt_proto_name (sv_methods sv))" "m \<in> set (sv_methods sv)"
    and u: "unary_new N t0 Kq Kp (mt_proto_name m) q = Some u" "with_metadata N kvs (uc_engine u) = c"
      "fits (e_codecs E) Kq (gcc_outbound_encoding c) DEFAULT_MAX_MESSAGE_SIZE q frame"
    and rq: "take_body c = (body, c')" "build_request N (clock os0) c' body = Some rq"
    and there: "same_headers (e_headers E) (rq_headers rq) (e_headers E) (cn_request_headers conn)"
      "live_source poll_read content1 good1 delay1" "good1 (cn_request_body conn)" "content1 (cn_request_body conn) = rq_body rq"
      "cn_ops conn = []" "cn_has_runtime conn" "enabled (e_features E) (gcc_outbound_encoding c)"
      "\<forall>d. gcc_deadline c = Some d \<longrightarrow> d - clock os0 \<le> MAX_VALUE * (3600 * 10 ^ 9) \<and>
        t2 + (d - clock os0) + 3600 * 10 ^ 9 \<le> e_last_instant E"
    and run: "server_run E (render_server sv) (path_of [cg_prefix (render_client sv), mt_proto_name m]) True conn
        = Dispatched call name conn1"
      "unary_impl E D S poll_read Kq Kp (f_start name) f_poll t2 t3 os1 conn1 = Finished conn2"
      "polite E Kp (negotiate_response_encoding E (cn_request_headers conn)) f_poll"
  defines "enc \<equiv> negotiate_response_encoding E (cn_request_headers conn)"
  obtains res fs tr where "prepare_grpc_conn E conn (lit ''proto'') = Inr conn1"
    and "call = ra_call (render_run_arm m)" and "name = mt_name m" and "enabled (e_features (n_env N)) enc"
    and "cn_ops conn2 = cn_ops conn1 @ map ResponseHeadersMut fs @
      [WithBody (OneShot (one_shot_new (unary_body E Kp enc res)
        (status_write_into (e_headers E) (e_base64 E) (unary_status E Kp enc res) tr))), Halt]"
    and "\<forall>f \<in> set fs. keeps_reserved (e_headers E) f" and "h_get_values (e_headers E) tr (lit ''grpc-message'') = None"
    and "\<forall>v. res = Inr v \<longrightarrow> (\<exists>frame. fits (e_codecs E) Kp enc DEFAULT_MAX_MESSAGE_SIZE v frame)"
    and "\<forall>st. res = Inl st \<longrightarrow> metadata_wf (st_metadata st) \<and> utf8_valid (st_message st)"
    and "(res = Inl st_shutting_down \<and> (\<exists>o1 \<in> set os1. ob_shutdown o1)) \<or>
      (res = Inl st_elapsed \<and> (\<exists>o1 \<in> set os1. \<exists>d. gcc_deadline c = Some d \<and> t2 + (d - clock os0) \<le> ob_now o1)) \<or>
      (\<exists>os2 os3 g1 g2 f'. os1 = os2 @ os3 \<and> cn_request_headers (gc_conn g1) = cn_request_headers conn \<and>
        gc_response_trailers g1 = h_new (e_headers E) \<and>
        drive f_poll os3 (g1, f_start name q) = Some (res, (g2, f')) \<and> tr = gc_response_trailers g2)"
proof -
  have H: "headers_ok (e_headers E)" and HN: "headers_ok (e_headers (n_env N))" and C: "codecs_ok (e_codecs E)"
    using E(1,4) unfolding env_ok_def by auto
  have enc: "enc = negotiate_response_encoding E (cn_request_headers conn)" by (simp add: enc_def)
  note sent = request_arrives [OF N(1) u(1,2) rq, where G = "e_headers E" and g = "cn_request_headers conn", unfolded E(4,5), OF there(1)]
  have prep: "prepare_grpc_conn E conn (lit ''proto'') = Inr conn1" "call = ra_call (render_run_arm m)" "name = mt_name m"
    using run(1) unfolding server_run_own [OF m(1,2)] by (auto split: sum.splits)
  have conn1: "cn_request_headers conn1 = cn_request_headers conn" "cn_request_body conn1 = cn_request_body conn"
    "cn_has_runtime conn1"
    using prep(1) there(6) by (auto simp: preflight Let_def split: if_splits)
  have "rq_body rq = frame" using sent(2) [of frame] u(3) by (simp add: fits_def)
  with items_fits [OF C K(1) _ u(3), of "[]"] there(4)
  have one: "one_request (items (e_codecs E) (decode_msg Kq) (gcc_outbound_encoding c) DEFAULT_MAX_MESSAGE_SIZE
      (content1 (cn_request_body conn1))) = Inr q" by (simp add: DEFAULT_MAX_MESSAGE_SIZE_def conn1)
  note renc = arrived_encoding [OF sent(1) H HN N(2) u(1) sent(3) there(7)]
  obtain cancel where cancel: "cancellation_from_conn (e_headers E) (e_debug E) (e_last_instant E) (cn_request_headers conn) True t2
        = Some (Inr cancel)" "\<And>i. c_deadline cancel = Some i \<Longrightarrow> \<exists>d. gcc_deadline c = Some d \<and> t2 + (d - clock os0) \<le> i"
    using arrived_deadline [OF sent(1) H HN N(2) u(1) sent(4) there(8)] by (force split: option.splits)
  obtain res fs tr where ops: "cn_ops conn2 = cn_ops conn1 @ map ResponseHeadersMut fs @
      [WithBody (OneShot (one_shot_new (unary_body E Kp enc res)
        (status_write_into (e_headers E) (e_base64 E) (unary_status E Kp enc res) tr))), Halt]"
    and fs: "\<forall>f \<in> set fs. keeps_reserved (e_headers E) f" and tr: "h_get_values (e_headers E) tr (lit ''grpc-message'') = None"
    and ok: "\<forall>v. res = Inr v \<longrightarrow> (\<exists>frame. fits (e_codecs E) Kp enc DEFAULT_MAX_MESSAGE_SIZE v frame)"
      "\<forall>st. res = Inl st \<longrightarrow> metadata_wf (st_metadata st) \<and> utf8_valid (st_message st)"
    and res: "(res = Inl st_shutting_down \<and> (\<exists>o1 \<in> set os1. ob_shutdown o1)) \<or>
      (res = Inl st_elapsed \<and> (\<exists>o1 \<in> set os1. \<exists>i. c_deadline cancel = Some i \<and> i \<le> ob_now o1)) \<or>
      (\<exists>os2 os3 g1 g2 f'. os1 = os2 @ os3 \<and> cn_request_headers (gc_conn g1) = cn_request_headers conn1 \<and>
        gc_response_trailers g1 = h_new (e_headers E) \<and>
        drive f_poll os3 (g1, f_start name q) = Some (res, (g2, f')) \<and> tr = gc_response_trailers g2)"
    by (rule unary_served [OF E(1-3) there(2) there(3) [folded conn1(2)] renc [folded conn1(1)]
          enc [folded conn1(1)] _ one run(3) [folded enc_def] run(2), of cancel])
      (simp_all only: conn1 cancel(1))
  have passed: "\<exists>d. gcc_deadline c = Some d \<and> t2 + (d - clock os0) \<le> n" if "c_deadline cancel = Some i" "i \<le> n" for i n
    using cancel(2) [OF that(1)] that(2) by (auto intro: order_trans)
  have able: "enabled (e_features (n_env N)) enc"
    using negotiated_both [OF H arrived_reserved(3) [OF sent(1)]] by (simp add: enc_def)
  have cause: "(res = Inl st_shutting_down \<and> (\<exists>o1 \<in> set os1. ob_shutdown o1)) \<or>
      (res = Inl st_elapsed \<and> (\<exists>o1 \<in> set os1. \<exists>d. gcc_deadline c = Some d \<and> t2 + (d - clock os0) \<le> ob_now o1)) \<or>
      (\<exists>os2 os3 g1 g2 f'. os1 = os2 @ os3 \<and> cn_request_headers (gc_conn g1) = cn_request_headers conn \<and>
        gc_response_trailers g1 = h_new (e_headers E) \<and>
        drive f_poll os3 (g1, f_start name q) = Some (res, (g2, f')) \<and> tr = gc_response_trailers g2)"
    using res [unfolded conn1(1)] by (elim disj_forward conj_forward) (use passed in blast)+
  show thesis by (rule that [OF prep able ops fs tr ok cause])
qed

section \<open>Properties\<close>

text \<open>
  C1: A unary call does what it says. A caller invokes the method \<open>m\<close> of the generated client
  of a service, with a message and any metadata; the request arrives at the generated server of
  the same service, and the response arrives at the client. Then the server has dispatched the
  call as unary to the handler method of that name; and when the server has answered, awaiting
  the handle returns, with what the handler's own future returned for exactly the caller's
  message: its message, or its error with the code, the text and the metadata of the trailers.
  Otherwise the server was shutting down, or the deadline of the call had passed on the server,
  not before the client's remaining time was over, and the caller gets that error. The
  handler starts with fresh trailers and the request's headers; whatever encodings were set
  or negotiated do not show.
\<close>

theorem unary_call:
  assumes N: "net_ok N" "defaults_ok N" and E: "env_ok E" "select_ok S" "delay_ok D"
      "e_headers (n_env N) = e_headers E" "e_base64 (n_env N) = e_base64 E" "e_codecs (n_env N) = e_codecs E"
    and K: "codec_ok Kq" "content_type_suffix Kq = lit ''proto''" "codec_ok Kp"
    and m: "distinct (map mt_proto_name (sv_methods sv))" "m \<in> set (sv_methods sv)"
      "\<not> mt_client_streaming m" "\<not> mt_server_streaming m"
    and u: "unary_new N t0 Kq Kp (mt_proto_name m) q = Some u" "with_metadata N kvs (uc_engine u) = c" "gcc_init_error c = None"
      "fits (e_codecs E) Kq (gcc_outbound_encoding c) DEFAULT_MAX_MESSAGE_SIZE q frame"
    and rq: "take_body c = (body, c')" "build_request N (clock os0) c' body = Some rq"
    and there: "same_headers (e_headers E) (rq_headers rq) (e_headers E) (cn_request_headers conn)"
      "live_source poll_read content1 good1 delay1" "good1 (cn_request_body conn)" "content1 (cn_request_body conn) = rq_body rq"
      "cn_ops conn = []" "cn_has_runtime conn" "enabled (e_features E) (gcc_outbound_encoding c)"
      "\<forall>d. gcc_deadline c = Some d \<longrightarrow> d - clock os0 \<le> MAX_VALUE * (3600 * 10 ^ 9) \<and>
        t2 + (d - clock os0) + 3600 * 10 ^ 9 \<le> e_last_instant E"
    and run: "server_run E (render_server sv) (path_of [cg_prefix (render_client sv), mt_proto_name m]) True conn
        = Dispatched call name conn1"
      "unary_impl E D S poll_read Kq Kp (f_start name) f_poll t2 t3 os1 conn1 = Finished conn2"
      "polite E Kp (negotiate_response_encoding E (cn_request_headers conn)) f_poll"
    and answer: "await_fut (client_race (n_delay N) (n_or_send N) (gcc_deadline c) (fut_map_err transport_error (n_poll N)))
        os0 (Unstarted, n_send N rq) = (Finished (Inr rp), x, os)"
      "transmitted (e_headers E) conn2 rp (content (rp_reader rp)) (final (rp_reader rp))"
      "response_source (n_response_body N) content good delay (n_response_trailers N) final"
      "good (rp_reader rp)" "delay (rp_reader rp) < length os" "\<forall>o1 \<in> set os. \<not> disturbed (gcc_deadline c) o1"
  shows "call = Prost_Unary \<and> name = mt_name m \<and>
    (\<exists>res (u' :: (_, _, _, _, _, 's) unary_conn). unary_finish N os0 c = Finished (Inr u') \<and>
      into_message u' = callers_view E (final (rp_reader rp)) res \<and>
      ((res = Inl st_shutting_down \<and> (\<exists>o1 \<in> set os1. ob_shutdown o1)) \<or>
       (res = Inl st_elapsed \<and> (\<exists>o1 \<in> set os1. \<exists>d. gcc_deadline c = Some d \<and> t2 + (d - clock os0) \<le> ob_now o1)) \<or>
       (\<exists>os2 os3 g1 g2 f'. os1 = os2 @ os3 \<and> cn_request_headers (gc_conn g1) = cn_request_headers conn \<and>
         gc_response_trailers g1 = h_new (e_headers E) \<and>
         drive f_poll os3 (g1, f_start (mt_name m) q) = Some (res, (g2, f')) \<and>
         final (rp_reader rp) = status_write_into (e_headers E) (e_base64 E)
           (unary_status E Kp (negotiate_response_encoding E (cn_request_headers conn)) res) (gc_response_trailers g2))))"
proof -
  define enc where "enc = negotiate_response_encoding E (cn_request_headers conn)"
  have H: "headers_ok (e_headers E)" and HN: "headers_ok (e_headers (n_env N))"
    using E(1,4) unfolding env_ok_def by auto
  have suffix: "plain_suffix (lit ''proto'')" by (simp add: plain_suffix_def lit_def)
  obtain res fs tr where prep: "prepare_grpc_conn E conn (lit ''proto'') = Inr conn1" "call = ra_call (render_run_arm m)" "name = mt_name m"
    and able: "enabled (e_features (n_env N)) enc"
    and ops: "cn_ops conn2 = cn_ops conn1 @ map ResponseHeadersMut fs @
      [WithBody (OneShot (one_shot_new (unary_body E Kp enc res)
        (status_write_into (e_headers E) (e_base64 E) (unary_status E Kp enc res) tr))), Halt]"
    and fs: "\<forall>f \<in> set fs. keeps_reserved (e_headers E) f" and tr: "h_get_values (e_headers E) tr (lit ''grpc-message'') = None"
    and ok: "\<forall>v. res = Inr v \<longrightarrow> (\<exists>frame. fits (e_codecs E) Kp enc DEFAULT_MAX_MESSAGE_SIZE v frame)"
      "\<forall>st. res = Inl st \<longrightarrow> metadata_wf (st_metadata st) \<and> utf8_valid (st_message st)"
    and cause: "(res = Inl st_shutting_down \<and> (\<exists>o1 \<in> set os1. ob_shutdown o1)) \<or>
      (res = Inl st_elapsed \<and> (\<exists>o1 \<in> set os1. \<exists>d. gcc_deadline c = Some d \<and> t2 + (d - clock os0) \<le> ob_now o1)) \<or>
      (\<exists>os2 os3 g1 g2 f'. os1 = os2 @ os3 \<and> cn_request_headers (gc_conn g1) = cn_request_headers conn \<and>
        gc_response_trailers g1 = h_new (e_headers E) \<and>
        drive f_poll os3 (g1, f_start name q) = Some (res, (g2, f')) \<and> tr = gc_response_trailers g2)"
    by (rule unary_call_served [where f_start = f_start and ?content1.0 = content1 and ?good1.0 = good1, OF N E(1-4,6) K(1,2) m(1,2) u(1,2,4) rq there run, folded enc_def])
  note head = preflight_head [OF H prep(1) there(5) fs ops, folded enc_def]
  obtain hh where hh: "process_head (n_env N) rp = Inr hh" "hd_response_encoding hh = enc" "hd_head_status hh = None"
    using head_accepted [of "n_env N" "lit ''proto''" enc rp "accepted_encodings (e_features E)", OF HN suffix able] answer(2) head
    by (auto simp: transmitted_def E(4))
  have fin: "content (rp_reader rp) = unary_body E Kp enc res"
    "final (rp_reader rp) = status_write_into (e_headers E) (e_base64 E) (unary_status E Kp enc res) tr"
    using answer(2) ops by (auto simp: transmitted_def answered_with_def one_shot_new_def)
  obtain pd where pd: "gcc_inner c = Inner_Pending pd" using opened_unary(1) [OF u(1,2)] by blast
  obtain c'' where fired: "close_send N os0 c = (Finished (Inr ()), c'', os)"
    "gcc_inner c'' = Inner_Reading (live_from hh (rp_reader rp))" "gcc_deadline c'' = gcc_deadline c"
    "gcc_decode c'' = decode_response Kp" "gcc_max_message_size c'' = DEFAULT_MAX_MESSAGE_SIZE"
    using fire_unary [OF pd opened_unary(2) [OF u(1,2)] u(3) rq answer(1) hh(1)] opened_unary(3,4) [OF u(1,2)] by auto
  have "call = Prost_Unary" using m(3,4) by (simp add: prep(2) render_run_arm_def)
  moreover obtain u' :: "(_, _, _, _, _, 's) unary_conn" where
    "unary_finish N os0 c = Finished (Inr u')" "into_message u' = callers_view E (final (rp_reader rp)) res"
    using answer_read [OF N(1) E(1,4-6) answer(3) fired(1,2) answer(4,5) _ fired(4,5) hh(2,3) fin tr K(3)] answer(6) fired(3) ok
    by auto
  moreover have "(res = Inl st_shutting_down \<and> (\<exists>o1 \<in> set os1. ob_shutdown o1)) \<or>
       (res = Inl st_elapsed \<and> (\<exists>o1 \<in> set os1. \<exists>d. gcc_deadline c = Some d \<and> t2 + (d - clock os0) \<le> ob_now o1)) \<or>
       (\<exists>os2 os3 g1 g2 f'. os1 = os2 @ os3 \<and> cn_request_headers (gc_conn g1) = cn_request_headers conn \<and>
         gc_response_trailers g1 = h_new (e_headers E) \<and>
         drive f_poll os3 (g1, f_start (mt_name m) q) = Some (res, (g2, f')) \<and>
         final (rp_reader rp) = status_write_into (e_headers E) (e_base64 E) (unary_status E Kp enc res) (gc_response_trailers g2))"
    using cause [unfolded prep(3)] unfolding fin(2) by (elim disj_forward) (assumption | elim ex_forward conj_forward, simp_all)+
  ultimately show ?thesis using prep(3) unfolding enc_def by (intro conjI exI [of _ res] exI [of _ u']) simp_all
qed

text \<open>
  A service with one unary method, called with the message \<open>[7]\<close>; its handler answers \<open>[7]\<close>.
  Both builds have all encodings, so the answer comes back compressed.
\<close>

definition example_method :: rpc_method where
  "example_method = \<lparr>mt_name = lit ''say'', mt_proto_name = lit ''Say'', mt_input_type = lit ''Hi'',
     mt_output_type = lit ''Hi'', mt_client_streaming = False, mt_server_streaming = False\<rparr>"

definition example_service :: rpc_service where
  "example_service = \<lparr>sv_name = lit ''Greeter'', sv_proto_name = lit ''Greeter'', sv_package = [],
     sv_methods = [example_method]\<rparr>"

definition seven :: "('g \<times> 'f, bytes result) fut" where
  "seven o1 gs = (Ready (Inr [7]), gs)"

lemma seven_result: "drive seven os gs = Some (res, gs') \<Longrightarrow> res = Inr [7]"
  by (cases os) (simp_all add: seven_def)

lemma polite_seven: "polite example_env raw_codec enc seven"
proof -
  have "\<exists>frame. fits prefix_codecs raw_codec enc DEFAULT_MAX_MESSAGE_SIZE [7] frame"
    by (cases enc) (simp_all add: fits_def encode_frame_def encode_payload_eq raw_codec_def prefix_codecs_def gzip_compress_def
      deflate_compress_def zstd_compress_def map_io_err_def u32_to_be_bytes_def PREFIX_LEN_def DEFAULT_MAX_MESSAGE_SIZE_def)
  then show ?thesis by (auto simp: polite_def seven_def example_env_def)
qed

lemma example_opened:
  "unary_new (example_net 0 rp) 0 raw_codec raw_codec (mt_proto_name example_method) [7] =
     Some \<lparr>uc_engine = example_call, uc_requests = None, uc_outcome = None\<rparr>"
proof -
  have "h_get_str dalist_headers DAList.empty k = None" for k
    by (rule h_get_str_None [OF headers_ok_dalist]) (simp add: dalist_headers_def)
  moreover have "lit ''application/grpc+'' @ lit ''proto'' = lit ''application/grpc+proto''" by (simp add: lit_def)
  ultimately show ?thesis
    by (simp add: unary_new_def client_new_def client_open_def default_timeout_def example_net_def example_env_def
        example_method_def example_call_def buffer_request_def request_frame_def raw_codec_def encode_payload_eq
        u32_to_be_bytes_def)
qed

lemma example_served:
  fixes conn :: "((str, str list) alist, bytes, (unit, bytes, (str, str list) alist) response_body, unit) conn"
  assumes "extract_request_encoding example_env (cn_request_headers conn) = Inr Identity"
    and "h_get_str dalist_headers (cn_request_headers conn) (lit ''grpc-timeout'') = None"
    and "cn_request_body conn = [0, 0, 0, 0, 1, 7]"
  obtains conn' bs tr where "unary_impl example_env exact_delay simple_select cursor_read raw_codec raw_codec id seven 0 0
      [at_time 0] conn = Finished conn'" and "answered_with conn' bs tr"
proof -
  let ?g = "\<lparr>gc_conn = conn, gc_response_trailers = h_new (e_headers example_env),
        gc_request_encoding = Identity, gc_deadline = None\<rparr>"
  have E: "e_headers example_env = dalist_headers" "e_codecs example_env = prefix_codecs" by (simp_all add: example_env_def)
  have g: "call_setup example_env conn 0 0 = Some (Inr (\<lparr>c_deadline = None\<rparr>, Identity,
      negotiate_response_encoding example_env (cn_request_headers conn), ?g))"
    using assms by (simp add: call_setup_def cancellation_from_conn_def grpc_server_conn_new_def Let_def E)
  obtain g2 where "call_poll prefix_codecs cursor_read id seven (at_time 0) (call_start raw_codec ?g) =
      (Ready (Inr [7]), (g2, CRunning [7]))"
    using example_poll [where g = ?g and f_poll = seven and ?o1.0 = "at_time 0" and res = "Inr [7]" and f_start = id] assms(3)
    by (auto simp: seven_def)
  then have "\<exists>conn' enc res tr. unary_impl example_env exact_delay simple_select cursor_read raw_codec raw_codec id seven 0 0
      [at_time 0] conn = Finished (finish_unary example_env raw_codec conn' res enc tr)"
    by (simp add: unary_impl_def g E race_def interruptible_def simple_select_def into_parts_def) blast
  then show ?thesis using that finish_unary_answered by metis
qed

theorem unary_call_witness:
  "\<exists>rp (u' :: (_, _, _, _, _, unit) unary_conn).
     unary_finish (example_net 0 rp) [at_time 0] example_call = Finished (Inr u') \<and> into_message u' = Inr [7]"
proof -
  let ?N = "\<lambda>rp. example_net 0 rp" let ?H = "e_headers example_env"
  let ?o = "\<lparr>uc_engine = example_call, uc_requests = None, uc_outcome = None\<rparr> :: (_, _, _, _, _, unit) unary_conn"
  have E: "n_env (?N rp) = example_env" "?H = dalist_headers" "e_codecs example_env = prefix_codecs"
    "n_delay (?N rp) = exact_delay" "e_features example_env = \<lparr>f_gzip = True, f_deflate = True, f_zstd = True\<rparr>" for rp
    by (simp_all add: example_net_def example_env_def)
  have none: "h_get_values dalist_headers (n_default_headers (?N rp)) k = None" for rp k
    by (simp add: example_net_def dalist_headers_def)
  have c: "gcc_outbound_encoding example_call = Identity" "gcc_deadline example_call = None" "gcc_init_error example_call = None"
    by (simp_all add: example_call_def)
  obtain body c' where take_c: "take_body example_call = (body, c')" by fastforce
  then have "build_request (?N rp) 0 c' body = build_request (?N example_rp) 0 c' body" for rp
    by (auto simp: take_body_def example_call_def build_request_def example_net_def Let_def)
  moreover obtain rq where "build_request (?N example_rp) 0 c' body = Some rq"
    using take_c by (auto simp: take_body_def example_call_def build_request_def Let_def)
  ultimately have rq: "build_request (?N rp) (clock [at_time 0]) c' body = Some rq" for rp by simp
  have meta: "with_metadata (?N rp) [] (uc_engine ?o) = example_call" for rp by (simp add: with_metadata_def)
  let ?conn = "\<lparr>cn_request_headers = rq_headers rq, cn_request_body = rq_body rq, cn_has_runtime = True, cn_ops = []\<rparr>
    :: (example_headers, bytes, (unit, bytes, example_headers) response_body, unit) conn"
  have same: "same_headers ?H (rq_headers rq) ?H (cn_request_headers ?conn)" by (simp add: same_headers_def)
  have fits: "fits (e_codecs example_env) raw_codec (gcc_outbound_encoding example_call) DEFAULT_MAX_MESSAGE_SIZE [7] [0, 0, 0, 0, 1, 7]"
    by (simp add: c E fits_def encode_frame_Inr raw_codec_def u32_to_be_bytes_def PREFIX_LEN_def DEFAULT_MAX_MESSAGE_SIZE_def)
  note sent = request_arrives [OF net_ok_example example_opened meta take_c rq, where G = ?H and g = "cn_request_headers ?conn", unfolded E(1), OF same]
  have K: "content_type_suffix raw_codec = lit ''proto''" by (simp add: raw_codec_def)
  have "plain_suffix (content_type_suffix raw_codec)" by (simp add: K plain_suffix_def lit_def)
  from arrived_preflight [where E = example_env and conn = ?conn, OF sent(1) _ this, unfolded K] env_ok_example
  obtain conn1 where prep: "prepare_grpc_conn example_env ?conn (lit ''proto'') = Inr conn1" by (auto simp: env_ok_def)
  then have conn1: "cn_request_headers conn1 = cn_request_headers ?conn" "cn_request_body conn1 = rq_body rq"
    by (auto simp: preflight Let_def split: if_splits)
  have "extract_request_encoding example_env (cn_request_headers conn1) = Inr Identity"
    using arrived_reserved(4) [OF sent(1)] by (simp add: extract_request_encoding_def conn1 E none c headers_ok_dalist)
  moreover have "h_get_str dalist_headers (cn_request_headers conn1) (lit ''grpc-timeout'') = None"
    using arrived_reserved(5) [OF sent(1)] by (simp add: conn1 E none c headers_ok_dalist)
  moreover have "cn_request_body conn1 = [0, 0, 0, 0, 1, 7]" using sent(2) fits by (simp add: conn1 fits_def E)
  ultimately obtain conn2 bs tr where run: "unary_impl example_env exact_delay simple_select cursor_read raw_codec raw_codec id seven 0 0
      [at_time 0] conn1 = Finished conn2" and ans: "answered_with conn2 bs tr"
    by (rule example_served)
  define rp where "rp = \<lparr>rp_status = response_code (cn_ops conn2), rp_headers = response_head ?H (cn_ops conn2), rp_reader = (bs, tr)\<rparr>"
  have m: "distinct (map mt_proto_name (sv_methods example_service))" "example_method \<in> set (sv_methods example_service)"
      "\<not> mt_client_streaming example_method" "\<not> mt_server_streaming example_method"
    by (simp_all add: example_service_def example_method_def)
  have dispatched: "server_run example_env (render_server example_service)
      (path_of [cg_prefix (render_client example_service), mt_proto_name example_method]) True ?conn
      = Dispatched Prost_Unary (mt_name example_method) conn1"
    unfolding server_run_own [OF m(1,2)] using m(3,4) by (simp add: prep render_run_arm_def)
  have src: "response_source (n_response_body (?N rp)) fst (\<lambda>_. True) (\<lambda>_. 0) (n_response_trailers (?N rp)) snd"
    by (simp add: example_net_def example_source.response_source_axioms)
  have sent_back: "await_fut (client_race (n_delay (?N rp)) (n_or_send (?N rp)) (gcc_deadline example_call)
      (fut_map_err transport_error (n_poll (?N rp)))) [at_time 0] (Unstarted, n_send (?N rp) rq) = (Finished (Inr rp), (Unstarted, 0), [at_time 0])"
    by (simp add: c example_net_def client_race_def simple_select_def cancel_fut_def fut_map_err_def example_poll_def)
  have trans: "transmitted ?H conn2 rp (fst (rp_reader rp)) (snd (rp_reader rp))"
    using ans by (simp add: transmitted_def rp_def)
  have src1: "live_source cursor_read (\<lambda>r. r) (\<lambda>_. True) (\<lambda>_. 0)" by (rule cursor.live_source_axioms)
  have d: "defaults_ok (?N rp)" by (simp add: defaults_ok_def none E)
  have conn: "cn_request_body ?conn = rq_body rq" "cn_ops ?conn = []" "cn_has_runtime ?conn" by simp_all
  have calm: "\<forall>o1 \<in> set [at_time 0]. \<not> disturbed (gcc_deadline example_call) o1" by (simp add: disturbed_def c)
  have late: "\<forall>d. gcc_deadline example_call = Some d \<longrightarrow> d - clock [at_time 0] \<le> MAX_VALUE * (3600 * 10 ^ 9) \<and>
      0 + (d - clock [at_time 0]) + 3600 * 10 ^ 9 \<le> e_last_instant example_env" by (simp add: c)
  have en: "enabled (e_features example_env) (gcc_outbound_encoding example_call)" by (simp add: c)
  have shared: "e_headers (n_env (?N rp)) = ?H" "e_base64 (n_env (?N rp)) = e_base64 example_env" "e_codecs (n_env (?N rp)) = e_codecs example_env"
    by (simp_all add: E(1))
  have short: "0 < length [at_time 0]" by simp
  from unary_call [where f_start = "\<lambda>_. id", OF net_ok_example d env_ok_example select_ok_simple delay_ok_exact shared
      codec_ok_raw K codec_ok_raw m example_opened meta c(3) fits take_c rq same src1 TrueI conn en late
      dispatched run polite_seven sent_back trans src TrueI short calm]
  obtain res and u' :: "(_, _, _, _, _, unit) unary_conn" where
    u': "unary_finish (?N rp) [at_time 0] example_call = Finished (Inr u')" "into_message u' = callers_view example_env (snd (rp_reader rp)) res"
    and res: "res = Inr [7]"
    by (auto simp: c dest: seven_result)
  then show ?thesis by (auto simp: callers_view_def)
qed

end
