(* ===== verification/Macros.thy ===== *)
theory Macros
  imports Utf8 "HOL-Library.List_Lexorder"
begin

text \<open>
  \<open>macros/src/lib.rs\<close>: the tree of modules that the \<open>generate!\<close> macros emit. The generated
  files, one per package and named after it, become nested modules. A \<open>BTreeMap\<close> is a list
  sorted by key; the emitted tokens are kept as the modules they declare and the contents they
  hold, and whether a content is lexically Rust is a parameter. What comes before the tree, from
  the arguments to the generated files, is in \<open>Generate\<close>.
\<close>

section \<open>The tree\<close>

datatype mod_tree = Mod_Tree (children: "(str \<times> mod_tree) list") (contents: "str option")

definition mod_tree_default :: mod_tree where
  "mod_tree_default = Mod_Tree [] None"

text \<open>\<open>BTreeMap::entry(k).or_default()\<close>, with what is then done to the value.\<close>

fun alter :: "'k :: linorder \<Rightarrow> 'v \<Rightarrow> ('v \<Rightarrow> 'v) \<Rightarrow> ('k \<times> 'v) list \<Rightarrow> ('k \<times> 'v) list" where
  "alter k d f [] = [(k, f d)]"
| "alter k d f ((k', v) # xs) =
     (if k = k' then (k', f v) # xs
      else if k < k' then (k, f d) # (k', v) # xs
      else (k', v) # alter k d f xs)"

text \<open>Walking to the node of a package, and replacing its contents.\<close>

primrec put_contents :: "str list \<Rightarrow> str \<Rightarrow> mod_tree \<Rightarrow> mod_tree" where
  "put_contents [] content = (\<lambda>t. Mod_Tree (children t) (Some content))"
| "put_contents (seg # segs) content =
     (\<lambda>t. Mod_Tree (alter seg mod_tree_default (put_contents segs content) (children t)) (contents t))"

primrec contents_at :: "mod_tree \<Rightarrow> str list \<Rightarrow> str option" where
  "contents_at t [] = contents t"
| "contents_at t (seg # segs) = (case map_of (children t) seg of None \<Rightarrow> None | Some c \<Rightarrow> contents_at c segs)"

section \<open>Building it\<close>

text \<open>\<open>Path::file_stem\<close> of a plain file name: without the last extension.\<close>

definition file_stem :: "str \<Rightarrow> str option" where
  "file_stem name =
     (let before = rev (drop 1 (dropWhile (\<lambda>b. b \<noteq> 0x2E) (rev name))) in
      if name \<in> {[], lit ''.'', lit ''..''} then None
      else if 0x2E \<notin> set name \<or> before = [] then Some name else Some before)"

definition stem_of :: "str \<Rightarrow> str option" where
  "stem_of path = Option.bind (file_stem path) from_utf8"

datatype expand_error = Unexpected_Filename str | Duplicate_Package str

fun build_loop :: "(str \<times> str) list \<Rightarrow> mod_tree \<Rightarrow> expand_error + mod_tree" where
  "build_loop [] root = Inr root"
| "build_loop ((path, content) # files) root =
     (case stem_of path of
        None \<Rightarrow> Inl (Unexpected_Filename path)
      | Some stem \<Rightarrow>
          (let segs = split_on 0x2E stem in
           if contents_at root segs \<noteq> None then Inl (Duplicate_Package stem)
           else build_loop files (put_contents segs content root)))"

definition build_tree :: "(str \<times> str) list \<Rightarrow> expand_error + mod_tree" where
  "build_tree files = build_loop files mod_tree_default"

section \<open>Emitting it\<close>

datatype module_item = Contents str | Compile_Error str | Pub_Mod str "module_item list"

fun emit_tree :: "(str \<Rightarrow> bool) \<Rightarrow> mod_tree \<Rightarrow> module_item list" where
  "emit_tree parses (Mod_Tree ch ct) =
     (case ct of None \<Rightarrow> [] | Some content \<Rightarrow> [if parses content then Contents content else Compile_Error content]) @
     map (\<lambda>(name, child). Pub_Mod name (emit_tree parses child)) ch"

text \<open>
  \<open>format_ident!\<close> panics on a segment that is not an identifier of Rust; what is one is the
  parameter \<open>ident\<close>. \<open>None\<close> is the panic.
\<close>

fun names_ok :: "(str \<Rightarrow> bool) \<Rightarrow> mod_tree \<Rightarrow> bool" where
  "names_ok ident (Mod_Tree ch ct) \<longleftrightarrow> list_all (\<lambda>(name, child). ident name \<and> names_ok ident child) ch"

definition emit :: "(str \<Rightarrow> bool) \<Rightarrow> (str \<Rightarrow> bool) \<Rightarrow> mod_tree \<Rightarrow> (module_item list) option" where
  "emit ident parses t = (if names_ok ident t then Some (emit_tree parses t) else None)"

section \<open>Lemmas\<close>

lemma alter_map_of:
  "sorted_wrt (<) (map fst xs) \<Longrightarrow>
   map_of (alter k d f xs) k' = (if k' = k then Some (f (case map_of xs k of None \<Rightarrow> d | Some v \<Rightarrow> v)) else map_of xs k')"
proof (induction xs)
  case (Cons x xs)
  obtain a v where x: "x = (a, v)" by (cases x)
  have "map_of xs k = None" if "k < a"
    using that Cons.prems x by (auto simp: map_of_eq_None_iff)
  with Cons x show ?case by auto
qed simp

lemma alter_keys: "fst ` set (alter k d f xs) = insert k (fst ` set xs)"
  by (induction k d f xs rule: alter.induct) (simp_all add: insert_commute)

lemma alter_sorted: "sorted_wrt (<) (map fst xs) \<Longrightarrow> sorted_wrt (<) (map fst (alter k d f xs))"
proof (induction xs)
  case (Cons x xs)
  obtain a v where x: "x = (a, v)" by (cases x)
  have keys: "\<forall>y \<in> set (map fst (alter k d f xs)). a < y" if "\<not> k \<le> a"
    using that Cons.prems by (simp add: x alter_keys flip: image_set)
  with Cons x show ?case by (auto simp: less_le_not_le)
qed simp

lemma alter_values: "set (alter k d f xs) \<subseteq> set xs \<union> {(k, f d)} \<union> (\<lambda>(n, w). (n, f w)) ` set xs"
  by (induction k d f xs rule: alter.induct) auto

text \<open>The maps of the tree are sorted at every level.\<close>

inductive tree_sorted :: "mod_tree \<Rightarrow> bool" where
  "sorted_wrt (<) (map fst ch) \<Longrightarrow> (\<And>n c. (n, c) \<in> set ch \<Longrightarrow> tree_sorted c) \<Longrightarrow> tree_sorted (Mod_Tree ch ct)"

inductive_simps tree_sorted_node: "tree_sorted (Mod_Tree ch ct)"

lemma tree_sorted_default [simp]: "tree_sorted mod_tree_default"
  by (simp add: mod_tree_default_def tree_sorted_node)

lemma put_sorted: "tree_sorted t \<Longrightarrow> tree_sorted (put_contents segs content t)"
proof (induction segs arbitrary: t)
  case Nil
  then show ?case by (cases t) (simp add: tree_sorted_node)
next
  case (Cons seg segs)
  then show ?case
    by (cases t) (use alter_values in \<open>fastforce simp: tree_sorted_node alter_sorted\<close>)
qed

lemma contents_put:
  "tree_sorted t \<Longrightarrow> contents_at (put_contents p content t) q = (if p = q then Some content else contents_at t q)"
proof (induction p arbitrary: q t)
  case Nil
  then show ?case by (cases q) simp_all
next
  case (Cons seg segs)
  obtain ch ct where t: "t = Mod_Tree ch ct" by (cases t)
  with Cons.prems have s: "sorted_wrt (<) (map fst ch)" "\<And>n c. (n, c) \<in> set ch \<Longrightarrow> tree_sorted c"
    by (simp_all add: tree_sorted_node)
  have none: "contents_at mod_tree_default r = None" for r by (cases r) (simp_all add: mod_tree_default_def)
  show ?case
  proof (cases q)
    case (Cons x r)
    show ?thesis
    proof (cases "map_of ch seg")
      case None
      with Cons.IH [of mod_tree_default r] show ?thesis
        by (auto simp: t Cons alter_map_of [OF s(1)] none split: option.split)
    next
      case (Some c)
      with s(2) have "tree_sorted c" by (metis map_of_SomeD)
      with Some Cons.IH [of c r] show ?thesis by (auto simp: t Cons alter_map_of [OF s(1)] split: option.split)
    qed
  qed (simp add: t)
qed

lemma split_on_inverse: "join [c] (split_on c s) = s"
proof (induction s)
  case (Cons x s)
  obtain p ps where "split_on c s = p # ps" by (cases "split_on c s") auto
  with Cons show ?case by (cases ps) auto
qed simp

lemma split_on_inj: "split_on c s = split_on c t \<longleftrightarrow> s = t"
  by (metis split_on_inverse)

lemma build_loop_contents:
  "build_loop files root = Inr t \<Longrightarrow> tree_sorted root \<Longrightarrow> tree_sorted t \<and>
    (\<forall>q c. contents_at t q = Some c \<longleftrightarrow> contents_at root q = Some c \<or>
      (\<exists>p s. (p, c) \<in> set files \<and> stem_of p = Some s \<and> q = split_on 0x2E s))"
proof (induction files root rule: build_loop.induct)
  case (2 path content files root)
  then obtain s where s: "stem_of path = Some s" and free: "contents_at root (split_on 0x2E s) = None"
    and b: "build_loop files (put_contents (split_on 0x2E s) content root) = Inr t"
    by (auto simp: Let_def split: option.splits if_splits)
  from 2(1) [OF s refl] free b put_sorted [OF 2(3)]
  have "tree_sorted t \<and> (\<forall>q c. contents_at t q = Some c \<longleftrightarrow>
      contents_at (put_contents (split_on 0x2E s) content root) q = Some c \<or>
      (\<exists>p s. (p, c) \<in> set files \<and> stem_of p = Some s \<and> q = split_on 0x2E s))" by simp
  with free s show ?case by (auto simp: contents_put [OF 2(3)])
qed simp

lemma build_loop_succeeds:
  "tree_sorted root \<Longrightarrow> (\<exists>t. build_loop files root = Inr t) \<longleftrightarrow>
    (\<forall>p \<in> fst ` set files. \<exists>s. stem_of p = Some s \<and> contents_at root (split_on 0x2E s) = None) \<and>
    distinct (map (stem_of \<circ> fst) files)"
proof (induction files root rule: build_loop.induct)
  case (2 path content files root)
  show ?case
  proof (cases "stem_of path")
    case (Some s)
    show ?thesis
    proof (cases "contents_at root (split_on 0x2E s)")
      case None
      from 2(1) [OF Some refl] None put_sorted [OF 2(2)]
      have "(\<exists>t. build_loop files (put_contents (split_on 0x2E s) content root) = Inr t) \<longleftrightarrow>
          (\<forall>p \<in> fst ` set files. \<exists>s'. stem_of p = Some s' \<and>
            contents_at (put_contents (split_on 0x2E s) content root) (split_on 0x2E s') = None) \<and>
          distinct (map (stem_of \<circ> fst) files)" by (simp only: simp_thms)
      moreover have "(\<exists>s'. stem_of p = Some s' \<and>
            contents_at (put_contents (split_on 0x2E s) content root) (split_on 0x2E s') = None) \<longleftrightarrow>
          stem_of p \<noteq> Some s \<and> (\<exists>s'. stem_of p = Some s' \<and> contents_at root (split_on 0x2E s') = None)" for p
        by (auto simp: contents_put [OF 2(2)] split_on_inj)
      moreover have "distinct (map (stem_of \<circ> fst) ((path, content) # files)) \<longleftrightarrow>
          (\<forall>p \<in> fst ` set files. stem_of p \<noteq> Some s) \<and> distinct (map (stem_of \<circ> fst) files)"
        using Some by (force simp: image_iff)
      moreover have "(\<exists>t. build_loop ((path, content) # files) root = Inr t) \<longleftrightarrow>
          (\<exists>t. build_loop files (put_contents (split_on 0x2E s) content root) = Inr t)"
        using Some None by (simp add: Let_def)
      ultimately show ?thesis using Some None by (simp only: ball_conj_distrib) auto
    qed (use Some in \<open>auto simp: Let_def\<close>)
  qed simp
qed simp

text \<open>The segments that become names of modules are those of the files.\<close>

lemma alter_all:
  assumes "\<And>v. P (k, f v) \<longleftrightarrow> P (k, v) \<and> A" and "P (k, d) \<longleftrightarrow> I" and "\<And>v. P (k, v) \<Longrightarrow> I"
  shows "list_all P (alter k d f xs) \<longleftrightarrow> list_all P xs \<and> I \<and> A"
  using assms by (induction k d f xs rule: alter.induct) auto

lemma put_names: "names_ok ident (put_contents segs content t) \<longleftrightarrow> names_ok ident t \<and> list_all ident segs"
proof (induction segs arbitrary: t)
  case Nil
  then show ?case by (cases t) simp
next
  case (Cons seg segs)
  obtain ch ct where t: "t = Mod_Tree ch ct" by (cases t)
  have "list_all (\<lambda>(name, child). ident name \<and> names_ok ident child) (alter seg mod_tree_default (put_contents segs content) ch) \<longleftrightarrow>
      list_all (\<lambda>(name, child). ident name \<and> names_ok ident child) ch \<and> ident seg \<and> list_all ident segs"
    by (rule alter_all) (auto simp: Cons.IH mod_tree_default_def)
  then show ?case by (simp add: t)
qed

lemma build_loop_names:
  "build_loop files root = Inr t \<Longrightarrow> names_ok ident t \<longleftrightarrow> names_ok ident root \<and>
    (\<forall>p \<in> fst ` set files. \<forall>s. stem_of p = Some s \<longrightarrow> list_all ident (split_on 0x2E s))"
proof (induction files root rule: build_loop.induct)
  case (2 path content files root)
  then obtain s where s: "stem_of path = Some s" and free: "contents_at root (split_on 0x2E s) = None"
    and b: "build_loop files (put_contents (split_on 0x2E s) content root) = Inr t"
    by (auto simp: Let_def split: option.splits if_splits)
  from 2(1) [OF s refl] free b have "names_ok ident t \<longleftrightarrow> names_ok ident (put_contents (split_on 0x2E s) content root) \<and>
      (\<forall>p \<in> fst ` set files. \<forall>s. stem_of p = Some s \<longrightarrow> list_all ident (split_on 0x2E s))" by simp
  with s show ?case by (auto simp: put_names)
qed simp

text \<open>Where the emitted items put which contents, and that no module is declared twice.\<close>

fun located :: "module_item \<Rightarrow> (str list \<times> str) list" where
  "located (Contents c) = [([], c)]"
| "located (Compile_Error c) = []"
| "located (Pub_Mod name items) = map (map_prod ((#) name) id) (concat (map located items))"

definition mod_names :: "module_item list \<Rightarrow> str list" where
  "mod_names items = concat (map (\<lambda>i. case i of Pub_Mod n _ \<Rightarrow> [n] | _ \<Rightarrow> []) items)"

fun unique_names :: "module_item \<Rightarrow> bool" where
  "unique_names (Pub_Mod name items) \<longleftrightarrow> distinct (mod_names items) \<and> list_all unique_names items"
| "unique_names _ \<longleftrightarrow> True"

lemma map_of_sorted_in:
  "sorted_wrt (<) (map fst (xs :: (str \<times> 'v) list)) \<Longrightarrow> map_of xs k = Some v \<longleftrightarrow> (k, v) \<in> set xs"
  by (rule map_of_eq_Some_iff) (simp add: strict_sorted_iff)

lemma emitted_contents:
  "tree_sorted t \<Longrightarrow> (p, c) \<in> set (concat (map located (emit_tree parses t))) \<longleftrightarrow>
     contents_at t p = Some c \<and> parses c"
proof (induction arbitrary: p rule: tree_sorted.induct)
  case (1 ch ct)
  show ?case
  proof (cases p)
    case Nil
    then show ?thesis by (cases ct) auto
  next
    case (Cons n q)
    have "(p, c) \<in> set (concat (map located (emit_tree parses (Mod_Tree ch ct)))) \<longleftrightarrow>
        (\<exists>t. (n, t) \<in> set ch \<and> (q, c) \<in> set (concat (map located (emit_tree parses t))))"
      by (cases ct) (auto simp: Cons image_iff, force+)
    also have "\<dots> \<longleftrightarrow> (\<exists>t. (n, t) \<in> set ch \<and> contents_at t q = Some c \<and> parses c)"
      using 1(3) by blast
    also have "\<dots> \<longleftrightarrow> contents_at (Mod_Tree ch ct) p = Some c \<and> parses c"
      unfolding map_of_sorted_in [OF 1(1), symmetric] by (auto simp: Cons split: option.split)
    finally show ?thesis .
  qed
qed

lemma emitted_unique:
  "tree_sorted t \<Longrightarrow> distinct (mod_names (emit_tree parses t)) \<and> list_all unique_names (emit_tree parses t)"
proof (induction rule: tree_sorted.induct)
  case (1 ch ct)
  have "mod_names (emit_tree parses (Mod_Tree ch ct)) = map fst ch"
    by (cases ct) (auto simp: mod_names_def comp_def case_prod_beta)
  moreover have "distinct (map fst ch)" using 1(1) by (simp add: strict_sorted_iff)
  ultimately show ?case using 1(3) by (cases ct) (auto simp: list_all_iff)
qed

lemma tree_located:
  assumes "build_tree files = Inr t"
  shows "set (concat (map located (emit_tree parses t))) =
      {(split_on 0x2E s, c) |p s c. (p, c) \<in> set files \<and> stem_of p = Some s \<and> parses c}"
    and "distinct (mod_names (emit_tree parses t))" and "list_all unique_names (emit_tree parses t)"
proof -
  have none: "contents_at mod_tree_default q = None" for q by (cases q) (simp_all add: mod_tree_default_def)
  note c = build_loop_contents [OF assms [unfolded build_tree_def] tree_sorted_default]
  show "set (concat (map located (emit_tree parses t))) =
        {(split_on 0x2E s, c) |p s c. (p, c) \<in> set files \<and> stem_of p = Some s \<and> parses c}"
    using emitted_contents [of t _ _ parses] c none by (auto simp del: set_concat) blast
  show "distinct (mod_names (emit_tree parses t))" "list_all unique_names (emit_tree parses t)"
    using emitted_unique c by blast+
qed

section \<open>Properties\<close>

text \<open>
  C24: The macros emit every generated file in the module its name says. Building the tree
  succeeds exactly if every file name has a stem and no two have the same; then the emitted
  modules contain, at the path of the dot-separated segments of the stem, the contents of that
  file (those that are lexically Rust) and nothing else anywhere; no module declares a
  submodule twice, so packages with a common prefix share the modules of the prefix. The macro
  panics instead exactly if a segment of a file name is not an identifier.
\<close>

theorem module_tree:
  "((\<exists>t. build_tree files = Inr t) \<longleftrightarrow>
      (\<forall>p \<in> fst ` set files. stem_of p \<noteq> None) \<and> distinct (map (stem_of \<circ> fst) files)) \<and>
   (\<forall>t. build_tree files = Inr t \<longrightarrow>
      set (concat (map located (emit_tree parses t))) =
        {(split_on 0x2E s, c) |p s c. (p, c) \<in> set files \<and> stem_of p = Some s \<and> parses c} \<and>
      distinct (mod_names (emit_tree parses t)) \<and> list_all unique_names (emit_tree parses t) \<and>
      emit ident parses t =
        (if \<forall>p \<in> fst ` set files. \<forall>s. stem_of p = Some s \<longrightarrow> list_all ident (split_on 0x2E s)
         then Some (emit_tree parses t) else None))"
proof (intro conjI allI impI)
  have none: "contents_at mod_tree_default q = None" for q by (cases q) (simp_all add: mod_tree_default_def)
  show "(\<exists>t. build_tree files = Inr t) \<longleftrightarrow>
      (\<forall>p \<in> fst ` set files. stem_of p \<noteq> None) \<and> distinct (map (stem_of \<circ> fst) files)"
    unfolding build_tree_def build_loop_succeeds [OF tree_sorted_default] by (simp add: none)
  show "emit ident parses t = (if \<forall>p \<in> fst ` set files. \<forall>s. stem_of p = Some s \<longrightarrow> list_all ident (split_on 0x2E s)
      then Some (emit_tree parses t) else None)" if "build_tree files = Inr t" for t
    using build_loop_names [OF that [unfolded build_tree_def], of ident] by (simp add: emit_def mod_tree_default_def)
qed (rule tree_located, assumption)+

text \<open>A package \<open>a.b\<close>, and the messages of a file without a package, which end up in a module \<open>_\<close>.\<close>

theorem module_tree_witness:
  "\<exists>t. build_tree [(lit ''_.rs'', [2]), (lit ''a.b.rs'', [1])] = Inr t \<and>
     set (concat (map located (emit_tree (\<lambda>_. True) t))) = {([lit ''_''], [2]), ([lit ''a'', lit ''b''], [1])}"
proof -
  let ?files = "[(lit ''_.rs'', [2]), (lit ''a.b.rs'', [1])] :: (str \<times> str) list"
  have stems: "stem_of (lit ''_.rs'') = Some (lit ''_'')" "stem_of (lit ''a.b.rs'') = Some (lit ''a.b'')"
    by (simp_all add: stem_of_def file_stem_def lit_def from_utf8_def utf8_valid_ascii)
  have segs: "split_on 0x2E (lit ''_'') = [lit ''_'']" "split_on 0x2E (lit ''a.b'') = [lit ''a'', lit ''b'']"
    by (simp_all add: lit_def)
  obtain t where t: "build_tree ?files = Inr t"
    using conjunct1 [OF module_tree [of ?files]] stems by auto
  then have "set (concat (map located (emit_tree (\<lambda>_. True) t))) = {(split_on 0x2E s, c) |p s c. (p, c) \<in> set ?files \<and> stem_of p = Some s \<and> True}"
    using conjunct2 [OF module_tree [where files = ?files and parses = "\<lambda>_. True"]] by blast
  also have "\<dots> = {([lit ''_''], [2]), ([lit ''a'', lit ''b''], [1])}"
    using stems segs by (auto simp del: lit_eq_iff)
  finally show ?thesis using t by blast
qed

end
