(* ===== verification/Generate.thy ===== *)
theory Generate
  imports Codegen Macros
begin

text \<open>
  The front ends of the code generator: \<open>generate_from_proto\<close>, \<open>generate_from_descriptors\<close> and
  the build-script \<open>Builder\<close> of \<open>codegen/src/lib.rs\<close>, and the three macros of
  \<open>macros/src/lib.rs\<close>. \<open>protox\<close>, \<open>prost_build\<close>, \<open>syn\<close> and \<open>prettyplease\<close> are the record
  \<open>toolchain\<close>, the file system and the environment the record \<open>files_api\<close>; errors of theirs are
  kept as the text they display. Paths are byte strings.
\<close>

section \<open>Options and errors\<close>

datatype codegen_error = Protox str | ProstBuild str | Syn str | NoOutDir

definition codegen_error_display :: "codegen_error \<Rightarrow> str" where
  "codegen_error_display e =
     (case e of
        Protox m \<Rightarrow> lit ''failed to compile .proto sources: '' @ m
      | ProstBuild m \<Rightarrow> lit ''prost-build failed: '' @ m
      | Syn m \<Rightarrow> lit ''generated code did not parse as valid Rust: '' @ m
      | NoOutDir \<Rightarrow> lit ''OUT_DIR is not set; the build-script helpers must run from a build.rs'')"

record options =
  op_include_paths :: "str list"
  op_format :: bool
  op_client :: bool
  op_server :: bool

definition options_default :: options where
  "options_default = \<lparr>op_include_paths = [], op_format = True, op_client = True, op_server = True\<rparr>"

section \<open>The tools\<close>

text \<open>
  \<open>tl_generate\<close> is \<open>Config::generate\<close> with \<open>prost_path\<close> and the service generator it was
  configured with; \<open>tl_open\<close> is \<open>Compiler::new\<close> with source info and imports, and
  \<open>open_files\<close>.
\<close>

record ('fd, 'm, 'ast, 'c) toolchain =
  tl_compile :: "str list \<Rightarrow> str list \<Rightarrow> str + 'fd list"
  tl_package :: "'fd \<Rightarrow> str option"
  tl_module :: "str \<Rightarrow> 'm"
  tl_file_name :: "'m \<Rightarrow> str \<Rightarrow> str"
  tl_generate :: "str \<Rightarrow> generator \<Rightarrow> ('m \<times> 'fd) list \<Rightarrow> str + ('m \<times> str) list"
  tl_parse_file :: "str \<Rightarrow> 'ast option"
  tl_unparse :: "'ast \<Rightarrow> str"
  tl_compiler_new :: "str list \<Rightarrow> str + 'c"
  tl_open :: "'c \<Rightarrow> str list \<Rightarrow> str + 'c"
  tl_files :: "'c \<Rightarrow> str option list"
  tl_descriptors :: "'c \<Rightarrow> 'fd list"

record files_api =
  fs_out_dir :: "str option"
  fs_manifest_dir :: "str option"
  fs_is_absolute :: "str \<Rightarrow> bool"
  fs_join :: "str \<Rightarrow> str \<Rightarrow> str"
  fs_exists :: "str \<Rightarrow> bool"
  fs_parent :: "str \<Rightarrow> str option"
  fs_lossy :: "str \<Rightarrow> str"
  fs_write :: "str \<Rightarrow> str \<Rightarrow> str + unit"

section \<open>Generating\<close>

definition format_rust :: "('fd, 'm, 'ast, 'c) toolchain \<Rightarrow> str \<Rightarrow> str" where
  "format_rust T src = (case tl_parse_file T src of Some file \<Rightarrow> tl_unparse T file | None \<Rightarrow> src)"

text \<open>\<open>BTreeMap::insert\<close>.\<close>

definition insert_file :: "str \<Rightarrow> str \<Rightarrow> (str \<times> str) list \<Rightarrow> (str \<times> str) list" where
  "insert_file path body files = alter path body (\<lambda>_. body) files"

definition generate_from_descriptors ::
  "('fd, 'm, 'ast, 'c) toolchain \<Rightarrow> 'fd list \<Rightarrow> options \<Rightarrow> codegen_error + (str \<times> str) list" where
  "generate_from_descriptors T fds opts =
     (let requests = map (\<lambda>fdp.
            (tl_module T (case tl_package T fdp of Some pkg \<Rightarrow> pkg | None \<Rightarrow> []), fdp)) fds in
      and_then (map_sum ProstBuild id
          (tl_generate T (lit ''prost'') (generator_new (op_client opts) (op_server opts)) requests))
        (\<lambda>raw. Inr (fold (\<lambda>(module, code) files.
           insert_file (tl_file_name T module (lit ''_''))
             (if op_format opts then format_rust T code else code) files) raw [])))"

definition generate_from_proto ::
  "('fd, 'm, 'ast, 'c) toolchain \<Rightarrow> str list \<Rightarrow> options \<Rightarrow> codegen_error + (str \<times> str) list" where
  "generate_from_proto T srcs opts =
     and_then (map_sum Protox id (tl_compile T srcs (op_include_paths opts)))
       (\<lambda>fds. generate_from_descriptors T fds opts)"

section \<open>The build script\<close>

record builder =
  bd_format :: bool
  bd_client :: bool
  bd_server :: bool

definition configure :: builder where
  "configure = \<lparr>bd_format = True, bd_client = True, bd_server = True\<rparr>"

definition builder_format :: "bool \<Rightarrow> builder \<Rightarrow> builder" where
  "builder_format yes b = b\<lparr>bd_format := yes\<rparr>"

definition builder_client :: "bool \<Rightarrow> builder \<Rightarrow> builder" where
  "builder_client yes b = b\<lparr>bd_client := yes\<rparr>"

definition builder_server :: "bool \<Rightarrow> builder \<Rightarrow> builder" where
  "builder_server yes b = b\<lparr>bd_server := yes\<rparr>"

text \<open>What the build script does that can be seen from outside, in order.\<close>

datatype effect = Rerun_If_Changed str | Wrote str str

fun write_files :: "files_api \<Rightarrow> str \<Rightarrow> (str \<times> str) list \<Rightarrow> (codegen_error + unit) \<times> effect list" where
  "write_files F out_dir [] = (Inr (), [])"
| "write_files F out_dir ((rel_path, content) # files) =
     (let path = fs_join F out_dir rel_path in
      case fs_write F path content of
        Inl e \<Rightarrow> (Inl (ProstBuild e), [])
      | Inr _ \<Rightarrow> (case write_files F out_dir files of (r, es) \<Rightarrow> (r, Wrote path content # es)))"

fun rerun_lines :: "files_api \<Rightarrow> str option list \<Rightarrow> effect list" where
  "rerun_lines F [] = []"
| "rerun_lines F (Some path # files) = Rerun_If_Changed (fs_lossy F path) # rerun_lines F files"
| "rerun_lines F (None # files) = rerun_lines F files"

definition builder_compile ::
  "('fd, 'm, 'ast, 'c) toolchain \<Rightarrow> files_api \<Rightarrow> builder \<Rightarrow> str list \<Rightarrow> str list
   \<Rightarrow> (codegen_error + unit) \<times> effect list" where
  "builder_compile T F b protos includes =
     (case fs_out_dir F of
        None \<Rightarrow> (Inl NoOutDir, [])
      | Some out_dir \<Rightarrow>
          (case and_then (tl_compiler_new T includes) (\<lambda>compiler. tl_open T compiler protos) of
             Inl e \<Rightarrow> (Inl (Protox e), [])
           | Inr compiler \<Rightarrow>
               (let reruns = rerun_lines F (tl_files T compiler);
                    opts = \<lparr>op_include_paths = [], op_format = bd_format b, op_client = bd_client b,
                            op_server = bd_server b\<rparr> in
                case generate_from_descriptors T (tl_descriptors T compiler) opts of
                  Inl e \<Rightarrow> (Inl e, reruns)
                | Inr files \<Rightarrow> (case write_files F out_dir files of (r, es) \<Rightarrow> (r, reruns @ es)))))"

definition compile_protos ::
  "('fd, 'm, 'ast, 'c) toolchain \<Rightarrow> files_api \<Rightarrow> str list \<Rightarrow> str list \<Rightarrow> (codegen_error + unit) \<times> effect list" where
  "compile_protos T F protos includes = builder_compile T F configure protos includes"

section \<open>The macros\<close>

text \<open>
  The arguments are the string literals with their spans; an error has the span of a literal or
  that of the call (\<open>None\<close>).
\<close>

datatype 'sp macro_error = Macro_Error "'sp option" str

definition resolve_path :: "files_api \<Rightarrow> str \<Rightarrow> str \<Rightarrow> str" where
  "resolve_path F manifest_dir raw = (if fs_is_absolute F raw then raw else fs_join F manifest_dir raw)"

fun resolve_sources :: "files_api \<Rightarrow> str \<Rightarrow> ('sp \<times> str) list \<Rightarrow> 'sp macro_error + str list" where
  "resolve_sources F manifest_dir [] = Inr []"
| "resolve_sources F manifest_dir ((span, raw) # args) =
     (let resolved = resolve_path F manifest_dir raw in
      if \<not> fs_exists F resolved then
        Inl (Macro_Error (Some span) (lit ''.proto file not found: '' @ fs_lossy F resolved))
      else and_then (resolve_sources F manifest_dir args) (\<lambda>srcs. Inr (resolved # srcs)))"

definition include_dirs :: "files_api \<Rightarrow> str list \<Rightarrow> str list" where
  "include_dirs F srcs =
     fold (\<lambda>src includes.
       case fs_parent F src of
         None \<Rightarrow> includes
       | Some parent \<Rightarrow> if parent \<in> set includes then includes else includes @ [parent]) srcs []"

definition expand_error_display :: "files_api \<Rightarrow> expand_error \<Rightarrow> str" where
  "expand_error_display F e =
     (case e of
        Unexpected_Filename path \<Rightarrow> lit ''unexpected codegen output filename: '' @ fs_lossy F path
      | Duplicate_Package stem \<Rightarrow> lit ''duplicate codegen output for package '' @ stem)"

text \<open>
  The expansion: the files that are tracked with \<open>include_bytes!\<close>, and the modules, or \<open>None\<close>
  when emitting them panics.
\<close>

definition expand ::
  "('fd, 'm, 'ast, 'c) toolchain \<Rightarrow> files_api \<Rightarrow> (str \<Rightarrow> bool) \<Rightarrow> (str \<Rightarrow> bool) \<Rightarrow> ('sp \<times> str) list \<Rightarrow> bool \<Rightarrow> bool
   \<Rightarrow> 'sp macro_error + (str list \<times> (module_item list) option)" where
  "expand T F ident parses args client server =
     (if args = [] then
        Inl (Macro_Error None (lit ''trillium-grpc codegen requires at least one .proto path''))
      else
        (case fs_manifest_dir F of
           None \<Rightarrow> Inl (Macro_Error None (lit ''CARGO_MANIFEST_DIR not set; the trillium-grpc generate macros must run under cargo''))
         | Some manifest_dir \<Rightarrow>
             and_then (resolve_sources F manifest_dir args) (\<lambda>srcs.
               let opts = \<lparr>op_include_paths = include_dirs F srcs, op_format = False,
                           op_client = client, op_server = server\<rparr> in
               and_then (map_sum (\<lambda>e. Macro_Error None (lit ''trillium-grpc codegen failed: '' @ codegen_error_display e)) id
                   (generate_from_proto T srcs opts)) (\<lambda>generated.
                 and_then (map_sum (\<lambda>e. Macro_Error None (expand_error_display F e)) id (build_tree generated)) (\<lambda>tree.
                   Inr (map (fs_lossy F) srcs, emit ident parses tree))))))"

text \<open>\<open>parse_macro_input!\<close> has its own error; both kinds become a \<open>compile_error!\<close>.\<close>

datatype 'sp expansion =
    Expanded "str list" "module_item list"
  | Compile_Failure "'sp macro_error"
  | Macro_Panicked

definition expand_macro ::
  "('fd, 'm, 'ast, 'c) toolchain \<Rightarrow> files_api \<Rightarrow> (str \<Rightarrow> bool) \<Rightarrow> (str \<Rightarrow> bool) \<Rightarrow> 'sp macro_error + ('sp \<times> str) list
   \<Rightarrow> bool \<Rightarrow> bool \<Rightarrow> 'sp expansion" where
  "expand_macro T F ident parses input client server =
     (case input of
        Inl e \<Rightarrow> Compile_Failure e
      | Inr args \<Rightarrow>
          (case expand T F ident parses args client server of
             Inr (tracking, Some modules) \<Rightarrow> Expanded tracking modules
           | Inr (tracking, None) \<Rightarrow> Macro_Panicked
           | Inl e \<Rightarrow> Compile_Failure e))"

definition generate_macro where
  "generate_macro T F ident parses input = expand_macro T F ident parses input True True"

definition generate_client_macro where
  "generate_client_macro T F ident parses input = expand_macro T F ident parses input True False"

definition generate_server_macro where
  "generate_server_macro T F ident parses input = expand_macro T F ident parses input False True"

section \<open>Lemmas\<close>

lemma map_sum_eq_Inr: "map_sum f g r = Inr y \<longleftrightarrow> (\<exists>x. r = Inr x \<and> y = g x)"
  by (cases r) auto

text \<open>The generated files as a map: a later module with the same file name wins.\<close>

definition named_code :: "('fd, 'm, 'ast, 'c) toolchain \<Rightarrow> bool \<Rightarrow> ('m \<times> str) list \<Rightarrow> (str \<times> str) list" where
  "named_code T formatted raw =
     map (\<lambda>(module, code). (tl_file_name T module (lit ''_''), if formatted then format_rust T code else code)) raw"

lemma insert_files:
  "sorted_wrt (<) (map fst files) \<Longrightarrow>
   sorted_wrt (<) (map fst (fold (\<lambda>(p, c). insert_file p c) new files)) \<and>
   map_of (fold (\<lambda>(p, c). insert_file p c) new files) = map_of files ++ map_of (rev new)"
proof (induction new arbitrary: files)
  case (Cons pc new)
  obtain p c where pc: "pc = (p, c)" by (cases pc)
  have "map_of (insert_file p c files) = map_of files ++ [p \<mapsto> c]"
    using Cons.prems by (auto simp: insert_file_def alter_map_of)
  moreover have "sorted_wrt (<) (map fst (insert_file p c files))"
    using Cons.prems by (simp add: insert_file_def alter_sorted)
  ultimately show ?case using Cons.IH [of "insert_file p c files"] by (simp add: pc map_add_assoc del: map_add_upd map_add_empty)
qed simp

lemma generated_files:
  assumes "generate_from_descriptors T fds opts = Inr files"
  obtains raw where "tl_generate T (lit ''prost'') (generator_new (op_client opts) (op_server opts))
      (map (\<lambda>fdp. (tl_module T (case tl_package T fdp of Some pkg \<Rightarrow> pkg | None \<Rightarrow> []), fdp)) fds) = Inr raw"
    and "sorted_wrt (<) (map fst files)" and "map_of files = map_of (rev (named_code T (op_format opts) raw))"
proof -
  let ?put = "\<lambda>(module, code). insert_file (tl_file_name T module (lit ''_'')) (if op_format opts then format_rust T code else code)"
  have f: "fold ?put raw acc = fold (\<lambda>(p, c). insert_file p c) (named_code T (op_format opts) raw) acc" for raw acc
    by (induction raw arbitrary: acc) (auto simp: named_code_def)
  from assms obtain raw where raw: "tl_generate T (lit ''prost'') (generator_new (op_client opts) (op_server opts))
      (map (\<lambda>fdp. (tl_module T (case tl_package T fdp of Some pkg \<Rightarrow> pkg | None \<Rightarrow> []), fdp)) fds) = Inr raw"
    "files = fold ?put raw []"
    by (auto simp: generate_from_descriptors_def Let_def and_then_eq_Inr map_sum_eq_Inr)
  with insert_files [of "[]" "named_code T (op_format opts) raw"] show ?thesis
    by (intro that [OF raw(1)]) (simp_all add: f)
qed

lemma find_first: "\<forall>y \<in> set ys. \<not> P y \<Longrightarrow> P x \<Longrightarrow> find P (ys @ x # zs) = Some x"
  by (induction ys) auto

lemma resolve_sources_find:
  "resolve_sources F dir args =
     (case find (\<lambda>(span, raw). \<not> fs_exists F (resolve_path F dir raw)) args of
        None \<Rightarrow> Inr (map (resolve_path F dir \<circ> snd) args)
      | Some (span, raw) \<Rightarrow>
          Inl (Macro_Error (Some span) (lit ''.proto file not found: '' @ fs_lossy F (resolve_path F dir raw))))"
  by (induction args) (auto split: option.splits)

lemma include_dirs_remdups:
  "include_dirs F srcs = rev (remdups (rev (List.map_filter (fs_parent F) srcs)))"
proof (induction srcs rule: rev_induct)
  case (snoc src srcs)
  have "include_dirs F (srcs @ [src]) = (case fs_parent F src of None \<Rightarrow> include_dirs F srcs
      | Some parent \<Rightarrow> if parent \<in> set (include_dirs F srcs) then include_dirs F srcs else include_dirs F srcs @ [parent])"
    by (simp add: include_dirs_def split: option.split)
  then show ?case unfolding snoc by (cases "fs_parent F src") (simp_all add: List.map_filter_def)
qed (simp add: include_dirs_def List.map_filter_def)

lemma write_files_prefix:
  "write_files F dir files = (r, es) \<Longrightarrow>
   \<exists>first rest. files = first @ rest \<and> es = map (\<lambda>(p, c). Wrote (fs_join F dir p) c) first \<and> (r = Inr () \<longleftrightarrow> rest = [])"
proof (induction F dir files arbitrary: r es rule: write_files.induct)
  case (2 F dir p c files)
  show ?case
  proof (cases "fs_write F (fs_join F dir p) c")
    case (Inl e)
    with 2(2) show ?thesis by (intro exI [of _ "[]"] exI [of _ "(p, c) # files"]) (auto simp: Let_def)
  next
    case (Inr u)
    obtain r' es' where w: "write_files F dir files = (r', es')" by fastforce
    from 2(1) [OF refl Inr w] obtain first rest where
      "files = first @ rest" "es' = map (\<lambda>(p, c). Wrote (fs_join F dir p) c) first" "r' = Inr () \<longleftrightarrow> rest = []" by blast
    with 2(2) Inr w show ?thesis by (intro exI [of _ "(p, c) # first"] exI [of _ rest]) (auto simp: Let_def)
  qed
qed simp

section \<open>Properties\<close>

text \<open>
  C25: What a \<open>generate!\<close> macro expands to. The first path that does not exist is reported at its
  own literal, before the generator is called. When the macro expands, it ran under cargo
  with at least one path; it tracks every source, in the order of the arguments, paths
  relative to the directory of \<open>Cargo.toml\<close>; imports are looked up in the directories of the
  sources, each once, in their order; the generator was asked for exactly the halves of the
  macro; and the modules hold, each at the path that its file name says, the code of every
  generated package (of two with one file name the later) that is lexically Rust, and nothing
  else.
\<close>

theorem macro_expansion:
  fixes args :: "('sp \<times> str) list" and F and dir
  assumes "\<forall>raw. fs_is_absolute F raw \<longrightarrow> fs_join F dir raw = raw" and dir: "fs_manifest_dir F = Some dir"
  defines "srcs \<equiv> map (fs_join F dir \<circ> snd) args"
  shows "(\<forall>before span raw after. args = before @ (span, raw) # after \<and>
      (\<forall>(_, raw) \<in> set before. fs_exists F (fs_join F dir raw)) \<and> \<not> fs_exists F (fs_join F dir raw) \<longrightarrow>
      expand_macro T F ident parses (Inr args) client server =
        Compile_Failure (Macro_Error (Some span) (lit ''.proto file not found: '' @ fs_lossy F (fs_join F dir raw)))) \<and>
    (\<forall>tracking modules. expand_macro T F ident parses (Inr args) client server = Expanded tracking modules \<longrightarrow>
      args \<noteq> [] \<and> list_all (fs_exists F) srcs \<and> tracking = map (fs_lossy F) srcs \<and>
      (\<exists>fds raw. tl_compile T srcs (rev (remdups (rev (List.map_filter (fs_parent F) srcs)))) = Inr fds \<and>
        tl_generate T (lit ''prost'') (generator_new client server)
          (map (\<lambda>fdp. (tl_module T (case tl_package T fdp of Some pkg \<Rightarrow> pkg | None \<Rightarrow> []), fdp)) fds) = Inr raw \<and>
        set (concat (map located modules)) =
          {(split_on 0x2E s, c) |p s c. map_of (rev (named_code T False raw)) p = Some c \<and> stem_of p = Some s \<and> parses c} \<and>
        distinct (mod_names modules) \<and> list_all unique_names modules))"
proof (intro conjI allI impI)
  have path: "resolve_path F dir raw = fs_join F dir raw" for raw using assms(1) by (simp add: resolve_path_def)
  fix before after :: "('sp \<times> str) list" and span raw
  assume a: "args = before @ (span, raw) # after \<and>
      (\<forall>(_, raw) \<in> set before. fs_exists F (fs_join F dir raw)) \<and> \<not> fs_exists F (fs_join F dir raw)"
  then have "find (\<lambda>(span, raw). \<not> fs_exists F (fs_join F dir raw)) args = Some (span, raw)"
    using find_first [of before "\<lambda>(span, raw). \<not> fs_exists F (fs_join F dir raw)" "(span, raw)" after] by auto
  with a dir show "expand_macro T F ident parses (Inr args) client server =
        Compile_Failure (Macro_Error (Some span) (lit ''.proto file not found: '' @ fs_lossy F (fs_join F dir raw)))"
    by (simp add: expand_macro_def expand_def resolve_sources_find path)
next
  have path: "resolve_path F dir raw = fs_join F dir raw" for raw using assms(1) by (simp add: resolve_path_def)
  fix tracking modules
  assume e: "expand_macro T F ident parses (Inr args) client server = Expanded tracking modules"
  let ?opts = "\<lparr>op_include_paths = include_dirs F srcs, op_format = False, op_client = client, op_server = server\<rparr>"
  from e dir have ne: "args \<noteq> []" by (auto simp: expand_macro_def expand_def)
  with e dir have found: "find (\<lambda>(span, raw). \<not> fs_exists F (fs_join F dir raw)) args = None"
    by (auto simp: expand_macro_def expand_def resolve_sources_find path split: option.splits)
  then have res: "resolve_sources F dir args = Inr srcs"
    by (simp add: resolve_sources_find srcs_def path comp_def)
  have ex: "list_all (fs_exists F) srcs"
    using found by (auto simp: find_None_iff list_all_iff srcs_def)
  with e ne dir res obtain files t where g: "generate_from_proto T srcs ?opts = Inr files" "build_tree files = Inr t"
    "modules = emit_tree parses t" "tracking = map (fs_lossy F) srcs"
    by (auto simp: expand_macro_def expand_def emit_def and_then_eq_Inr map_sum_eq_Inr Let_def
        split: sum.splits option.splits if_splits)
  then obtain fds where fds: "tl_compile T srcs (include_dirs F srcs) = Inr fds" "generate_from_descriptors T fds ?opts = Inr files"
    by (auto simp: generate_from_proto_def and_then_eq_Inr map_sum_eq_Inr)
  from generated_files [OF fds(2)] obtain raw where raw: "tl_generate T (lit ''prost'') (generator_new client server)
          (map (\<lambda>fdp. (tl_module T (case tl_package T fdp of Some pkg \<Rightarrow> pkg | None \<Rightarrow> []), fdp)) fds) = Inr raw"
    "sorted_wrt (<) (map fst files)" "map_of files = map_of (rev (named_code T False raw))" by auto
  have "(p, c) \<in> set files \<longleftrightarrow> map_of (rev (named_code T False raw)) p = Some c" for p c
    using map_of_sorted_in [OF raw(2), of p c] raw(3) by simp
  with tree_located [OF g(2), of parses] g fds(1) raw(1) ne ex
  show "args \<noteq> []" "list_all (fs_exists F) srcs" "tracking = map (fs_lossy F) srcs"
    "\<exists>fds raw. tl_compile T srcs (rev (remdups (rev (List.map_filter (fs_parent F) srcs)))) = Inr fds \<and>
        tl_generate T (lit ''prost'') (generator_new client server)
          (map (\<lambda>fdp. (tl_module T (case tl_package T fdp of Some pkg \<Rightarrow> pkg | None \<Rightarrow> []), fdp)) fds) = Inr raw \<and>
        set (concat (map located modules)) =
          {(split_on 0x2E s, c) |p s c. map_of (rev (named_code T False raw)) p = Some c \<and> stem_of p = Some s \<and> parses c} \<and>
        distinct (mod_names modules) \<and> list_all unique_names modules"
    by (simp_all add: include_dirs_remdups)
qed

text \<open>Tools for examples: a compiler that finds one file of the package \<open>a\<close>, and a file system under \<open>/\<close>.\<close>

definition example_tools :: "(unit, str, unit, unit) toolchain" where
  "example_tools = \<lparr>tl_compile = (\<lambda>_ _. Inr [()]), tl_package = (\<lambda>_. Some (lit ''a'')), tl_module = id,
     tl_file_name = (\<lambda>m d. (if m = [] then d else m) @ lit ''.rs''),
     tl_generate = (\<lambda>_ _ reqs. Inr (map (\<lambda>(m, _). (m, [1])) reqs)), tl_parse_file = (\<lambda>_. None), tl_unparse = (\<lambda>_. []),
     tl_compiler_new = (\<lambda>_. Inr ()), tl_open = (\<lambda>_ _. Inr ()), tl_files = (\<lambda>_. [Some (lit ''a.proto''), None]),
     tl_descriptors = (\<lambda>_. [()])\<rparr>"

definition example_files :: files_api where
  "example_files = \<lparr>fs_out_dir = Some (lit ''/out/''), fs_manifest_dir = Some (lit ''/''),
     fs_is_absolute = (\<lambda>p. take 1 p = lit ''/''), fs_join = (\<lambda>d p. if take 1 p = lit ''/'' then p else d @ p),
     fs_exists = (\<lambda>_. True), fs_parent = (\<lambda>_. Some (lit ''/'')), fs_lossy = id, fs_write = (\<lambda>_ _. Inr ())\<rparr>"

lemma example_generated:
  "generate_from_descriptors example_tools [()] \<lparr>op_include_paths = ip, op_format = fm, op_client = cl, op_server = sv\<rparr> =
     Inr [(lit ''a.rs'', [1])]"
  by (simp add: generate_from_descriptors_def example_tools_def insert_file_def format_rust_def lit_def)

theorem macro_expansion_witness:
  "\<exists>modules. expand_macro example_tools example_files (\<lambda>_. True) (\<lambda>_. True) (Inr [((), lit ''a.proto'')]) True False =
       Expanded [lit ''/a.proto''] modules \<and>
     set (concat (map located modules)) = {([lit ''a''], [1])}"
proof -
  let ?args = "[((), lit ''a.proto'')]"
  have stem: "stem_of (lit ''a.rs'') = Some (lit ''a'')" and seg: "split_on 0x2E (lit ''a'') = [lit ''a'']"
    by (simp_all add: stem_of_def file_stem_def lit_def from_utf8_def utf8_valid_ascii)
  have J: "\<forall>p. fs_is_absolute example_files p \<longrightarrow> fs_join example_files (lit ''/'') p = p"
    by (simp add: example_files_def)
  have D: "fs_manifest_dir example_files = Some (lit ''/'')" by (simp add: example_files_def)
  have "build_tree [(lit ''a.rs'', [1])] = Inr (put_contents [lit ''a''] [1] mod_tree_default)"
    by (simp add: build_tree_def stem seg mod_tree_default_def)
  then obtain modules where m: "expand_macro example_tools example_files (\<lambda>_. True) (\<lambda>_. True) (Inr ?args) True False =
      Expanded [lit ''/a.proto''] modules"
    using example_generated
    by (simp add: expand_macro_def expand_def emit_def put_names mod_tree_default_def list_all_iff D resolve_path_def
        generate_from_proto_def)
      (simp add: example_tools_def example_files_def lit_def)
  have name: "map_of (rev (named_code example_tools False [(lit ''a'', [1])])) = [lit ''a.rs'' \<mapsto> [1]]"
    by (simp add: named_code_def example_tools_def lit_def)
  have raw: "tl_generate example_tools (lit ''prost'') g [(lit ''a'', ())] = Inr raw \<longleftrightarrow> raw = [(lit ''a'', [1])]"
      "tl_compile example_tools xs ys = Inr fds \<longleftrightarrow> fds = [()]" "tl_module example_tools p = p" "tl_package example_tools u = Some (lit ''a'')"
    for raw g xs ys fds p u by (auto simp: example_tools_def)
  from macro_expansion [where parses = "\<lambda>_. True" and ident = "\<lambda>_. True" and args = ?args, OF J D, THEN conjunct2, rule_format, OF m]
  have "set (concat (map located modules)) =
      {(split_on 0x2E s, c) |p s c. [lit ''a.rs'' \<mapsto> [1]] p = Some c \<and> stem_of p = Some s \<and> True}"
    by (auto simp: raw name)
  also have "\<dots> = {([lit ''a''], [1])}" using stem seg by (auto simp: fun_upd_def split: if_splits)
  finally show ?thesis using m by blast
qed

text \<open>
  A build script run. Nothing is written unless the compiler and the generator have
  succeeded on everything; what is written then are the generated files, each under its name
  in \<open>OUT_DIR\<close>, in order; the run succeeds exactly if all of them were written, and stops at the
  first that could not be. Before the files comes one \<open>rerun-if-changed\<close> line for every
  file the compiler has read from disk, imports included, also when the generator fails
  afterwards.
\<close>

lemma build_script:
  assumes "builder_compile T F b protos includes = (r, es)"
  shows "\<exists>reruns written. es = map Rerun_If_Changed reruns @ map (\<lambda>(p, c). Wrote p c) written \<and>
    (written \<noteq> [] \<or> r = Inr () \<longrightarrow> (\<exists>dir compiler compiler' files rest. fs_out_dir F = Some dir \<and>
      tl_compiler_new T includes = Inr compiler \<and> tl_open T compiler protos = Inr compiler' \<and>
      generate_from_descriptors T (tl_descriptors T compiler')
        \<lparr>op_include_paths = [], op_format = bd_format b, op_client = bd_client b, op_server = bd_server b\<rparr> = Inr files \<and>
      map (\<lambda>(p, c). (fs_join F dir p, c)) files = written @ rest \<and> (r = Inr () \<longleftrightarrow> rest = []))) \<and>
    (\<forall>compiler compiler'. fs_out_dir F \<noteq> None \<and> tl_compiler_new T includes = Inr compiler \<and>
      tl_open T compiler protos = Inr compiler' \<longrightarrow> reruns = map (fs_lossy F) (List.map_filter id (tl_files T compiler')))"
proof -
  have lines: "rerun_lines F fs = map Rerun_If_Changed (map (fs_lossy F) (List.map_filter id fs))" for fs
    by (induction F fs rule: rerun_lines.induct) (simp_all add: List.map_filter_def)
  show ?thesis
  proof (cases "fs_out_dir F = None \<or> (\<exists>e. and_then (tl_compiler_new T includes) (\<lambda>compiler. tl_open T compiler protos) = Inl e)")
    case True
    with assms have "es = []" "r \<noteq> Inr ()" by (auto simp: builder_compile_def split: option.splits)
    with True show ?thesis by (intro exI [of _ "[]"]) auto
  next
    case False
    then obtain dir compiler compiler' where c: "fs_out_dir F = Some dir" "tl_compiler_new T includes = Inr compiler"
      "tl_open T compiler protos = Inr compiler'"
      by (cases "tl_compiler_new T includes"; cases "tl_open T (projr (tl_compiler_new T includes)) protos") auto
    let ?g = "generate_from_descriptors T (tl_descriptors T compiler')
        \<lparr>op_include_paths = [], op_format = bd_format b, op_client = bd_client b, op_server = bd_server b\<rparr>"
    let ?reruns = "map (fs_lossy F) (List.map_filter id (tl_files T compiler'))"
    show ?thesis
    proof (cases ?g)
      case (Inl e)
      with assms c show ?thesis
        by (intro exI [of _ ?reruns] exI [of _ "[]"]) (auto simp: builder_compile_def Let_def lines)
    next
      case (Inr files)
      obtain r' es' where w: "write_files F dir files = (r', es')" by fastforce
      from write_files_prefix [OF this] obtain first rest where f: "files = first @ rest"
        "es' = map (\<lambda>(p, c). Wrote (fs_join F dir p) c) first" "r' = Inr () \<longleftrightarrow> rest = []" by blast
      from assms c Inr w have "r = r'" "es = map Rerun_If_Changed ?reruns @ es'"
        by (simp_all add: builder_compile_def Let_def lines)
      with c Inr f show ?thesis
        by (intro exI [of _ ?reruns] exI [of _ "map (\<lambda>(p, c). (fs_join F dir p, c)) first"])
          (auto simp: comp_def case_prod_beta)
    qed
  qed
qed

lemma build_script_witness:
  "\<exists>written. builder_compile example_tools example_files configure [lit ''a.proto''] [lit ''.''] =
     (Inr (), Rerun_If_Changed (lit ''a.proto'') # map (\<lambda>(p, c). Wrote p c) written) \<and> written = [(lit ''/out/a.rs'', [1])]"
proof -
  obtain r es where run: "builder_compile example_tools example_files configure [lit ''a.proto''] [lit ''.''] = (r, es)"
    by fastforce
  then have r: "r = Inr ()"
    using example_generated
    by (simp add: builder_compile_def configure_def example_tools_def example_files_def Let_def)
  have tools: "fs_out_dir example_files = Some (lit ''/out/'')" "tl_compiler_new example_tools inc = Inr ()"
      "tl_open example_tools u ps = Inr ()" "tl_descriptors example_tools u = [()]" for inc u ps
    by (simp_all add: example_tools_def example_files_def)
  from build_script [OF run, unfolded tools example_generated] r
  have "es = map Rerun_If_Changed (map (fs_lossy example_files) (List.map_filter id (tl_files example_tools ()))) @
      [Wrote (fs_join example_files (lit ''/out/'') (lit ''a.rs'')) [1]]"
    by (auto simp: tools)
  then show ?thesis
    using run r by (simp add: example_files_def example_tools_def List.map_filter_def lit_def)
qed

end
