(* ===== verification/ConformanceProto.thy ===== *)
theory ConformanceProto
  imports Dispatch
begin

text \<open>
  The messages of the conformance suite, \<open>conformance/proto/connectrpc/conformance/v1\<close>, as the
  records that \<open>prost\<close> generates from them: one field per field of the message that the
  programs read, write or encode. An enumeration is the \<open>i32\<close> of its field. The encoders and
  decoders are \<open>prost\<close>'s, a parameter \<open>'m prost_api\<close> for each message type.
\<close>

type_synonym i32 = "32 word"
type_synonym i64 = "64 word"

section \<open>Common messages\<close>

text \<open>\<open>google.protobuf.Any\<close>, \<open>Header\<close>, \<open>Error\<close>.\<close>

record any_msg =
  type_url :: str
  any_value :: bytes

record header_msg =
  hm_name :: str
  hm_value :: "str list"

record error_msg =
  er_code :: i32
  er_message :: "str option"
  er_details :: "any_msg list"

text \<open>\<open>RawHTTPResponse\<close> and what it contains. The programs only pass it on inside a request.\<close>

datatype message_data = DataBinary bytes | DataText str | DataBinaryMessage any_msg

record message_contents =
  mc_data :: "message_data option"
  mc_compression :: i32

record stream_item =
  si_flags :: u32
  si_length :: "u32 option"
  si_payload :: "message_contents option"

datatype raw_body = RawUnary message_contents | RawStream "stream_item list"

record raw_http_response =
  rr_status_code :: u32
  rr_headers :: "header_msg list"
  rr_body :: "raw_body option"
  rr_trailers :: "header_msg list"

section \<open>Response definitions\<close>

datatype unary_response_kind = ResponseData bytes | ResponseError error_msg

record unary_response_definition =
  ud_response_headers :: "header_msg list"
  ud_response :: "unary_response_kind option"
  ud_response_trailers :: "header_msg list"
  ud_response_delay_ms :: u32
  ud_raw_response :: "raw_http_response option"

record stream_response_definition =
  sd_response_headers :: "header_msg list"
  sd_response_data :: "bytes list"
  sd_response_delay_ms :: u32
  sd_error :: "error_msg option"
  sd_response_trailers :: "header_msg list"
  sd_raw_response :: "raw_http_response option"

section \<open>Requests and responses\<close>

record unary_request =
  ur_response_definition :: "unary_response_definition option"
  ur_request_data :: bytes

record idempotent_unary_request =
  iu_response_definition :: "unary_response_definition option"
  iu_request_data :: bytes

record client_stream_request =
  csr_response_definition :: "unary_response_definition option"
  csr_request_data :: bytes

record server_stream_request =
  ssr_response_definition :: "stream_response_definition option"
  ssr_request_data :: bytes

record bidi_stream_request =
  bsr_response_definition :: "stream_response_definition option"
  bsr_full_duplex :: bool
  bsr_request_data :: bytes

text \<open>\<open>connect_get_info\<close> holds the query parameters of a Connect call; gRPC leaves it out.\<close>

record request_info =
  ri_request_headers :: "header_msg list"
  ri_timeout_ms :: "i64 option"
  ri_requests :: "any_msg list"
  ri_connect_get_info :: "(header_msg list) option"

record conformance_payload =
  cp_data :: bytes
  cp_request_info :: "request_info option"

text \<open>The five responses hold a payload each.\<close>

record unary_response = ur_payload :: "conformance_payload option"
record idempotent_unary_response = iu_payload :: "conformance_payload option"
record client_stream_response = cs_payload :: "conformance_payload option"
record server_stream_response = ss_payload :: "conformance_payload option"
record bidi_stream_response = bs_payload :: "conformance_payload option"

text \<open>\<open>UnimplementedRequest\<close> and \<open>UnimplementedResponse\<close> have no fields.\<close>

datatype unimplemented_request = UnimplementedRequest
datatype unimplemented_response = UnimplementedResponse

text \<open>\<open>google.rpc.Status\<close>, as both programs declare it.\<close>

record rpc_status =
  rst_code :: i32
  rst_message :: str
  rst_details :: "any_msg list"

section \<open>Encoding\<close>

text \<open>
  The message types that the service encodes itself or receives. \<open>Message::encode_to_vec\<close>
  encodes into a growing vector, where \<open>encode\<close> cannot run out of room.
\<close>

record conformance_pb =
  pb_rpc_status :: "rpc_status prost_api"
  pb_request_info :: "request_info prost_api"
  pb_unary_request :: "unary_request prost_api"
  pb_idempotent_unary_request :: "idempotent_unary_request prost_api"
  pb_client_stream_request :: "client_stream_request prost_api"
  pb_server_stream_request :: "server_stream_request prost_api"
  pb_bidi_stream_request :: "bidi_stream_request prost_api"

definition encode_to_vec :: "'m prost_api \<Rightarrow> 'm \<Rightarrow> bytes" where
  "encode_to_vec P m = (case pm_encode P m of Inr b \<Rightarrow> b | Inl _ \<Rightarrow> [])"

definition prost_total :: "'m prost_api \<Rightarrow> bool" where
  "prost_total P \<longleftrightarrow> (\<forall>m. \<exists>b. pm_encode P m = Inr b)"

lemma decode_encode_to_vec:
  "prost_ok P \<Longrightarrow> prost_total P \<Longrightarrow> pm_decode P (encode_to_vec P m) = Inr m"
  unfolding prost_ok_def prost_total_def encode_to_vec_def by (metis sum.simps(6))

section \<open>Async bodies as steps\<close>

text \<open>
  The body of an \<open>async fn\<close> with a loop, as its steps from one suspension point to the next: go
  on, suspend, or return. A poll takes steps until one suspends or returns; \<open>fuel\<close> is the
  number of steps one poll takes at most, so that a poll that would take more is cut into
  several. What holds for every \<open>fuel\<close> holds of the code.
\<close>

datatype ('s, 'a) async_step = Go 's | Suspend 's | Return 'a 's

fun poll_steps :: "nat \<Rightarrow> (obs \<Rightarrow> 's \<Rightarrow> ('s, 'a) async_step) \<Rightarrow> ('s, 'a) fut" where
  "poll_steps 0 step o1 s = (Pending, s)"
| "poll_steps (Suc fuel) step o1 s =
     (case step o1 s of
        Go s' \<Rightarrow> poll_steps fuel step o1 s'
      | Suspend s' \<Rightarrow> (Pending, s')
      | Return x s' \<Rightarrow> (Ready x, s'))"

text \<open>An invariant of every step holds at every poll, and what a return means at its step.\<close>

definition step_keeps :: "(obs \<Rightarrow> 's \<Rightarrow> ('s, 'a) async_step) \<Rightarrow> obs set \<Rightarrow> ('s \<Rightarrow> bool) \<Rightarrow> bool" where
  "step_keeps step O1 I \<longleftrightarrow>
     (\<forall>o1 \<in> O1. \<forall>s s'. I s \<longrightarrow> step o1 s = Go s' \<or> step o1 s = Suspend s' \<longrightarrow> I s')"

lemma poll_steps_keep:
  assumes "step_keeps step O1 I" and "o1 \<in> O1"
  shows "I s \<Longrightarrow> poll_steps fuel step o1 s = (p, s') \<Longrightarrow>
    (p = Pending \<and> I s') \<or> (\<exists>x s1. p = Ready x \<and> I s1 \<and> step o1 s1 = Return x s')"
proof (induction fuel arbitrary: s)
  case (Suc fuel)
  show ?case
  proof (cases "step o1 s")
    case (Go s1)
    with assms Suc.prems(1) have "I s1" unfolding step_keeps_def by blast
    from Suc.IH [OF this] Suc.prems(2) Go show ?thesis by simp
  next
    case (Suspend s1)
    with assms Suc.prems(1) have "I s1" unfolding step_keeps_def by blast
    with Suspend Suc.prems(2) show ?thesis by simp
  next
    case (Return x s1)
    with Suc.prems show ?thesis by (intro disjI2 exI [of _ x] exI [of _ s]) simp
  qed
qed simp

lemma drive_steps:
  assumes "step_keeps step (set os) I"
  shows "I s \<Longrightarrow> drive (poll_steps fuel step) os s = Some (x, s') \<Longrightarrow>
    \<exists>o1 s1. o1 \<in> set os \<and> I s1 \<and> step o1 s1 = Return x s'"
  using assms
proof (induction os arbitrary: s)
  case (Cons o1 os)
  obtain p s1 where f: "poll_steps fuel step o1 s = (p, s1)" by (rule prod.exhaust)
  have k: "step_keeps step (set os) I" using Cons.prems(3) unfolding step_keeps_def by (meson list.set_intros(2))
  consider "p = Pending" "I s1" | y s2 where "p = Ready y" "I s2" "step o1 s2 = Return y s1"
    using poll_steps_keep [OF Cons.prems(3) list.set_intros(1) Cons.prems(1) f] by blast
  then show ?case
  proof cases
    case 1
    with Cons.IH [OF 1(2) _ k] Cons.prems(2) f show ?thesis by auto
  next
    case (2 y s2)
    with Cons.prems(2) f have "y = x" "s1 = s'" by simp_all
    with 2 show ?thesis by (intro exI [of _ o1] exI [of _ s2]) simp
  qed
qed simp

text \<open>\<open>tokio::time::sleep\<close> for a duration in nanoseconds, from the poll that creates it.\<close>

fun sleep_poll :: "delay_fn \<Rightarrow> nat \<Rightarrow> (timer, unit) fut" where
  "sleep_poll D d o1 Unstarted =
     ((if D (ob_now o1) d (ob_now o1) then Ready () else Pending), Waiting (ob_now o1) d)"
| "sleep_poll D d o1 (Waiting start dur) =
     ((if D start dur (ob_now o1) then Ready () else Pending), Waiting start dur)"

text \<open>\<open>Duration::from_millis\<close>, in nanoseconds.\<close>

definition from_millis :: "nat \<Rightarrow> nat" where
  "from_millis ms = ms * 10 ^ 6"

end
