(* ===== verification/ConformanceService.thy ===== *)
theory ConformanceService
  imports ConformanceProto
begin

text \<open>
  \<open>conformance/src/service.rs\<close>: the conformance suite's service on this crate's server. A
  handler is the poll function of its \<open>async\<close> body over the connection's control surface and
  its suspended state, as \<open>Dispatch\<close> runs it. The sleeps are \<open>tokio\<close>'s, a parameter of the type
  of the runtime's timers; the encoders are \<open>prost\<close>'s. The loop of the bidirectional call is
  in \<open>ConformanceBidi\<close>.
\<close>

section \<open>Helpers\<close>

definition TYPE_PREFIX :: str where
  "TYPE_PREFIX = lit ''type.googleapis.com/connectrpc.conformance.v1.''"

definition to_any :: "'m prost_api \<Rightarrow> str \<Rightarrow> 'm \<Rightarrow> any_msg" where
  "to_any P short_name msg = \<lparr>type_url = TYPE_PREFIX @ short_name, any_value = encode_to_vec P msg\<rparr>"

definition apply_headers :: "'h headers_api \<Rightarrow> header_msg list \<Rightarrow> 'h \<Rightarrow> 'h" where
  "apply_headers H headers dest =
     foldl (\<lambda>dest h. foldl (\<lambda>dest v. h_append H dest (hm_name h) v) dest (hm_value h)) dest headers"

definition echo_headers :: "'h headers_api \<Rightarrow> 'h \<Rightarrow> header_msg list" where
  "echo_headers H headers =
     List.map_filter (\<lambda>(name, vs).
       let value = List.map_filter (h_as_str H) vs in
       if value \<noteq> [] then Some \<lparr>hm_name = name, hm_value = value\<rparr> else None) (h_iter H headers)"

text \<open>The milliseconds are cast from \<open>u128\<close> to \<open>i64\<close>.\<close>

definition timeout_ms :: "nat \<Rightarrow> nat option \<Rightarrow> i64 option" where
  "timeout_ms now deadline =
     map_option (\<lambda>d. if now < d then of_nat ((d - now) div 10 ^ 6) else 0) deadline"

definition make_request_info :: "header_msg list \<Rightarrow> i64 option \<Rightarrow> any_msg list \<Rightarrow> request_info" where
  "make_request_info headers timeout reqs =
     \<lparr>ri_request_headers = headers, ri_timeout_ms = timeout, ri_requests = reqs, ri_connect_get_info = None\<rparr>"

text \<open>The status, and the trailers when they are given.\<close>

definition status_from_error ::
  "'h env \<Rightarrow> conformance_pb \<Rightarrow> error_msg \<Rightarrow> any_msg option \<Rightarrow> 'h option \<Rightarrow> status \<times> 'h option" where
  "status_from_error E P err request_info_any trailers =
     (let code = (case code_from_u8 (ucast (er_code err)) of Some c \<Rightarrow> c | None \<Rightarrow> Unknown);
          message = (case er_message err of Some m \<Rightarrow> m | None \<Rightarrow> []);
          details = er_details err @ (case request_info_any of Some a \<Rightarrow> [a] | None \<Rightarrow> []) in
      (status_new code message,
       map_option (\<lambda>trailers. h_insert (e_headers E) trailers (lit ''grpc-status-details-bin'')
           (b64_encode (e_base64 E) (encode_to_vec (pb_rpc_status P)
              \<lparr>rst_code = er_code err, rst_message = message, rst_details = details\<rparr>))) trailers))"

text \<open>The same on the trailers of a call, which is how every caller uses it.\<close>

definition raise_error ::
  "'h env \<Rightarrow> conformance_pb \<Rightarrow> error_msg \<Rightarrow> any_msg option \<Rightarrow> ('h, 'r, 'b, 'u) grpc_conn
   \<Rightarrow> status \<times> ('h, 'r, 'b, 'u) grpc_conn" where
  "raise_error E P err info_any g =
     (fst (status_from_error E P err info_any (Some (gc_response_trailers g))),
      response_trailers_mut (\<lambda>tr. case snd (status_from_error E P err info_any (Some tr)) of
         Some tr' \<Rightarrow> tr' | None \<Rightarrow> tr) g)"

section \<open>One response\<close>

text \<open>
  \<open>respond_single\<close>: its suspended states are the start, with its arguments, and the sleep.
\<close>

datatype single_state =
    SingleStart "unary_response_definition option" "any_msg list"
  | SingleDelay timer unary_response_definition request_info

definition request_info_any :: "conformance_pb \<Rightarrow> request_info \<Rightarrow> any_msg" where
  "request_info_any P info = to_any (pb_request_info P) (lit ''ConformancePayload.RequestInfo'') info"

text \<open>The code after the sleep.\<close>

definition respond_defined ::
  "'h env \<Rightarrow> conformance_pb \<Rightarrow> unary_response_definition \<Rightarrow> request_info \<Rightarrow> ('h, 'r, 'b, 'u) grpc_conn
   \<Rightarrow> conformance_payload result \<times> ('h, 'r, 'b, 'u) grpc_conn" where
  "respond_defined E P def info g =
     (case ud_response def of
        Some (ResponseError err) \<Rightarrow>
          (case raise_error E P err (Some (request_info_any P info)) g of (status, g) \<Rightarrow> (Inl status, g))
      | Some (ResponseData data) \<Rightarrow> (Inr \<lparr>cp_data = data, cp_request_info = Some info\<rparr>, g)
      | None \<Rightarrow> (Inr \<lparr>cp_data = [], cp_request_info = Some info\<rparr>, g))"

definition delay_then_respond ::
  "'h env \<Rightarrow> conformance_pb \<Rightarrow> delay_fn \<Rightarrow> obs \<Rightarrow> timer \<Rightarrow> unary_response_definition \<Rightarrow> request_info
   \<Rightarrow> ('h, 'r, 'b, 'u) grpc_conn \<Rightarrow> conformance_payload result poll \<times> ('h, 'r, 'b, 'u) grpc_conn \<times> single_state" where
  "delay_then_respond E P D o1 t def info g =
     (case sleep_poll D (from_millis (unat (ud_response_delay_ms def))) o1 t of
        (Pending, t) \<Rightarrow> (Pending, (g, SingleDelay t def info))
      | (Ready _, t) \<Rightarrow>
          (case respond_defined E P def info g of (res, g) \<Rightarrow> (Ready res, (g, SingleDelay t def info))))"

fun respond_single ::
  "'h env \<Rightarrow> conformance_pb \<Rightarrow> delay_fn \<Rightarrow> (('h, 'r, 'b, 'u) grpc_conn \<times> single_state, conformance_payload result) fut" where
  "respond_single E P D o1 (g, SingleStart def reqs) =
     (let info = make_request_info (echo_headers (e_headers E) (received_headers g))
                   (timeout_ms (ob_now o1) (gc_deadline g)) reqs in
      case def of
        None \<Rightarrow> (Ready (Inr \<lparr>cp_data = [], cp_request_info = Some info\<rparr>), (g, SingleStart def reqs))
      | Some def \<Rightarrow>
          (let g = response_headers_mut (apply_headers (e_headers E) (ud_response_headers def)) g;
               g = response_trailers_mut (apply_headers (e_headers E) (ud_response_trailers def)) g in
           if 0 < ud_response_delay_ms def then delay_then_respond E P D o1 Unstarted def info g
           else (case respond_defined E P def info g of (res, g) \<Rightarrow> (Ready res, (g, SingleDelay Unstarted def info)))))"
| "respond_single E P D o1 (g, SingleDelay t def info) = delay_then_respond E P D o1 t def info g"

text \<open>\<open>let payload = ...await?; Ok(Response { payload: Some(payload) })\<close>.\<close>

definition fut_ok :: "('a \<Rightarrow> 'b) \<Rightarrow> ('s, 'a result) fut \<Rightarrow> ('s, 'b result) fut" where
  "fut_ok f fut o1 s = map_prod (map_poll (map_sum id f)) id (fut o1 s)"

section \<open>Unary methods\<close>

text \<open>A handler's future starts in a state made from the request.\<close>

definition unary_start :: "conformance_pb \<Rightarrow> unary_request \<Rightarrow> single_state" where
  "unary_start P request =
     (let any = to_any (pb_unary_request P) (lit ''UnaryRequest'') request in
      SingleStart (ur_response_definition request) [any])"

definition unary_poll ::
  "'h env \<Rightarrow> conformance_pb \<Rightarrow> delay_fn \<Rightarrow> (('h, 'r, 'b, 'u) grpc_conn \<times> single_state, unary_response result) fut" where
  "unary_poll E P D = fut_ok (\<lambda>payload. \<lparr>ur_payload = Some payload\<rparr>) (respond_single E P D)"

definition idempotent_unary_start :: "conformance_pb \<Rightarrow> idempotent_unary_request \<Rightarrow> single_state" where
  "idempotent_unary_start P request =
     (let any = to_any (pb_idempotent_unary_request P) (lit ''IdempotentUnaryRequest'') request in
      SingleStart (iu_response_definition request) [any])"

definition idempotent_unary_poll ::
  "'h env \<Rightarrow> conformance_pb \<Rightarrow> delay_fn
   \<Rightarrow> (('h, 'r, 'b, 'u) grpc_conn \<times> single_state, idempotent_unary_response result) fut" where
  "idempotent_unary_poll E P D = fut_ok (\<lambda>payload. \<lparr>iu_payload = Some payload\<rparr>) (respond_single E P D)"

definition unimplemented_poll :: "('g \<times> unimplemented_request, unimplemented_response result) fut" where
  "unimplemented_poll o1 gs = (Ready (Inl (st_unimplemented
     (lit ''connectrpc.conformance.v1.ConformanceService.Unimplemented is not implemented''))), gs)"

section \<open>Client streaming\<close>

text \<open>
  The stream borrows the connection's body: at every suspension the connection is seen with
  what the stream has left of it. The loop of \<open>client_stream\<close> is a step function.
\<close>

datatype 'r client_stream_state =
    CollectStart
  | Collecting "(client_stream_request, 'r) request_stream" "unary_response_definition option" "any_msg list" bool
  | CollectDone single_state

fun client_stream_step ::
  "'h env \<Rightarrow> conformance_pb \<Rightarrow> delay_fn \<Rightarrow> 'r poll_read_fn \<Rightarrow> client_stream_request codec \<Rightarrow> obs
   \<Rightarrow> ('h, 'r, 'b, 'u) grpc_conn \<times> 'r client_stream_state
   \<Rightarrow> (('h, 'r, 'b, 'u) grpc_conn \<times> 'r client_stream_state, client_stream_response result) async_step" where
  "client_stream_step E P D poll_read K o1 (g, CollectStart) = Go (g, Collecting (requests K g) None [] True)"
| "client_stream_step E P D poll_read K o1 (g, Collecting stream def reqs first) =
     (case request_recv (e_codecs E) poll_read stream of
        (Pending, stream) \<Rightarrow> Suspend (give_back stream g, Collecting stream def reqs first)
      | (Ready (Inl status), stream) \<Rightarrow> Return (Inl status) (give_back stream g, Collecting stream def reqs first)
      | (Ready (Inr (Some msg)), stream) \<Rightarrow>
          Go (g, Collecting stream (if first then csr_response_definition msg else def)
                (reqs @ [to_any (pb_client_stream_request P) (lit ''ClientStreamRequest'') msg]) False)
      | (Ready (Inr None), stream) \<Rightarrow> Go (give_back stream g, CollectDone (SingleStart def reqs)))"
| "client_stream_step E P D poll_read K o1 (g, CollectDone st) =
     (case fut_ok (\<lambda>payload. \<lparr>cs_payload = Some payload\<rparr>) (respond_single E P D) o1 (g, st) of
        (Pending, (g, st)) \<Rightarrow> Suspend (g, CollectDone st)
      | (Ready res, (g, st)) \<Rightarrow> Return res (g, CollectDone st))"

definition client_stream_poll ::
  "nat \<Rightarrow> 'h env \<Rightarrow> conformance_pb \<Rightarrow> delay_fn \<Rightarrow> 'r poll_read_fn \<Rightarrow> client_stream_request codec
   \<Rightarrow> (('h, 'r, 'b, 'u) grpc_conn \<times> 'r client_stream_state, client_stream_response result) fut" where
  "client_stream_poll fuel E P D poll_read K = poll_steps fuel (client_stream_step E P D poll_read K)"

section \<open>Server streaming\<close>

text \<open>
  The stream that \<open>response_stream\<close> makes: what is still to come, and, while the closure of
  \<open>unfold\<close> sleeps, the response it has taken out of the queue.
\<close>

record response_stream =
  rq_responses :: "server_stream_response list"
  rq_terminal :: "status option"
  rq_delay :: nat
  rq_sleeping :: "(server_stream_response \<times> timer) option"

definition make_response_stream :: "server_stream_response list \<Rightarrow> status option \<Rightarrow> nat \<Rightarrow> response_stream" where
  "make_response_stream responses terminal delay =
     \<lparr>rq_responses = responses, rq_terminal = terminal, rq_delay = delay, rq_sleeping = None\<rparr>"

definition emit_after ::
  "delay_fn \<Rightarrow> obs \<Rightarrow> server_stream_response \<Rightarrow> timer \<Rightarrow> response_stream
   \<Rightarrow> (server_stream_response result) option poll \<times> response_stream" where
  "emit_after D o1 resp t s =
     (case sleep_poll D (rq_delay s) o1 t of
        (Pending, t) \<Rightarrow> (Pending, s\<lparr>rq_sleeping := Some (resp, t)\<rparr>)
      | (Ready _, t) \<Rightarrow> (Ready (Some (Inr resp)), s\<lparr>rq_sleeping := None\<rparr>))"

definition response_stream_next ::
  "delay_fn \<Rightarrow> obs \<Rightarrow> response_stream \<Rightarrow> (server_stream_response result) option poll \<times> response_stream" where
  "response_stream_next D o1 s =
     (case rq_sleeping s of
        Some (resp, t) \<Rightarrow> emit_after D o1 resp t s
      | None \<Rightarrow>
          (case rq_responses s of
             resp # rest \<Rightarrow>
               (let s = s\<lparr>rq_responses := rest\<rparr> in
                if rq_delay s \<noteq> 0 then emit_after D o1 resp Unstarted s
                else (Ready (Some (Inr resp)), s))
           | [] \<Rightarrow>
               (case rq_terminal s of
                  Some status \<Rightarrow> (Ready (Some (Inl status)), s\<lparr>rq_terminal := None\<rparr>)
                | None \<Rightarrow> (Ready None, s))))"

text \<open>The queue of responses; only the first carries the request's info.\<close>

definition stream_responses :: "request_info \<Rightarrow> bytes list \<Rightarrow> server_stream_response list" where
  "stream_responses info response_data =
     map (\<lambda>(i, data). \<lparr>ss_payload = Some \<lparr>cp_data = data,
            cp_request_info = (if i = 0 then Some info else None)\<rparr>\<rparr>)
       (List.enumerate 0 response_data)"

definition server_stream ::
  "'h env \<Rightarrow> conformance_pb \<Rightarrow> obs \<Rightarrow> ('h, 'r, 'b, 'u) grpc_conn \<Rightarrow> server_stream_request
   \<Rightarrow> response_stream \<times> ('h, 'r, 'b, 'u) grpc_conn" where
  "server_stream E P o1 g request =
     (let any = to_any (pb_server_stream_request P) (lit ''ServerStreamRequest'') request;
          info = make_request_info (echo_headers (e_headers E) (received_headers g))
                   (timeout_ms (ob_now o1) (gc_deadline g)) [any] in
      case ssr_response_definition request of
        None \<Rightarrow> (make_response_stream [] None 0, g)
      | Some def \<Rightarrow>
          (let g = response_headers_mut (apply_headers (e_headers E) (sd_response_headers def)) g;
               g = response_trailers_mut (apply_headers (e_headers E) (sd_response_trailers def)) g;
               responses = stream_responses info (sd_response_data def);
               delay = from_millis (unat (sd_response_delay_ms def)) in
           case sd_error def of
             None \<Rightarrow> (make_response_stream responses None delay, g)
           | Some err \<Rightarrow>
               (case raise_error E P err (if responses = [] then Some (request_info_any P info) else None) g of
                  (status, g) \<Rightarrow> (make_response_stream responses (Some status) delay, g))))"

text \<open>The handler never awaits: it is ready at its first poll, with its stream.\<close>

definition server_stream_poll ::
  "'h env \<Rightarrow> conformance_pb \<Rightarrow> (('h, 'r, 'b, 'u) grpc_conn \<times> server_stream_request, response_stream result) fut" where
  "server_stream_poll E P o1 gs =
     (case gs of (g, request) \<Rightarrow>
        (case server_stream E P o1 g request of (stream, g) \<Rightarrow> (Ready (Inr stream), (g, request))))"

section \<open>What a response definition asks for\<close>

text \<open>
  The specification of a single response, without suspensions: the result, and what is done
  to the trailers. An error's code is the low byte of the number in the definition.
\<close>

definition error_code :: "error_msg \<Rightarrow> code" where
  "error_code err = (case code_from_u8 (ucast (er_code err)) of Some c \<Rightarrow> c | None \<Rightarrow> Unknown)"

definition error_text :: "error_msg \<Rightarrow> str" where
  "error_text err = (case er_message err of Some m \<Rightarrow> m | None \<Rightarrow> [])"

definition details_value :: "'h env \<Rightarrow> conformance_pb \<Rightarrow> error_msg \<Rightarrow> any_msg list \<Rightarrow> str" where
  "details_value E P err details =
     b64_encode (e_base64 E) (encode_to_vec (pb_rpc_status P)
       \<lparr>rst_code = er_code err, rst_message = error_text err, rst_details = details\<rparr>)"

definition single_result :: "unary_response_definition option \<Rightarrow> request_info \<Rightarrow> conformance_payload result" where
  "single_result def info =
     (case Option.bind def ud_response of
        Some (ResponseError err) \<Rightarrow> Inl (status_new (error_code err) (error_text err))
      | Some (ResponseData data) \<Rightarrow> Inr \<lparr>cp_data = data, cp_request_info = Some info\<rparr>
      | None \<Rightarrow> Inr \<lparr>cp_data = [], cp_request_info = Some info\<rparr>)"

definition single_trailers ::
  "'h env \<Rightarrow> conformance_pb \<Rightarrow> unary_response_definition option \<Rightarrow> request_info \<Rightarrow> 'h \<Rightarrow> 'h" where
  "single_trailers E P def info tr =
     (case def of
        None \<Rightarrow> tr
      | Some d \<Rightarrow>
          (let tr = apply_headers (e_headers E) (ud_response_trailers d) tr in
           case ud_response d of
             Some (ResponseError err) \<Rightarrow>
               h_insert (e_headers E) tr (lit ''grpc-status-details-bin'')
                 (details_value E P err (er_details err @ [request_info_any P info]))
           | _ \<Rightarrow> tr))"

definition single_headers :: "'h env \<Rightarrow> unary_response_definition option \<Rightarrow> ('h, 'b, 'u) conn_op list" where
  "single_headers E def =
     (case def of None \<Rightarrow> [] | Some d \<Rightarrow> [ResponseHeadersMut (apply_headers (e_headers E) (ud_response_headers d))])"

definition observed_info ::
  "'h env \<Rightarrow> obs \<Rightarrow> ('h, 'r, 'b, 'u) grpc_conn \<Rightarrow> any_msg list \<Rightarrow> request_info" where
  "observed_info E o1 g reqs =
     make_request_info (echo_headers (e_headers E) (received_headers g)) (timeout_ms (ob_now o1) (gc_deadline g)) reqs"

lemma raise_error_eq:
  "raise_error E P err info_any g =
     (status_new (error_code err) (error_text err),
      g\<lparr>gc_response_trailers := h_insert (e_headers E) (gc_response_trailers g) (lit ''grpc-status-details-bin'')
          (details_value E P err (er_details err @ (case info_any of Some a \<Rightarrow> [a] | None \<Rightarrow> [])))\<rparr>)"
  by (simp add: raise_error_def status_from_error_def Let_def error_code_def error_text_def details_value_def
      response_trailers_mut_def)

text \<open>The control surface after the definition's headers and trailers were applied.\<close>

definition applied :: "'h env \<Rightarrow> unary_response_definition \<Rightarrow> ('h, 'r, 'b, 'u) grpc_conn \<Rightarrow> ('h, 'r, 'b, 'u) grpc_conn" where
  "applied E d g =
     response_trailers_mut (apply_headers (e_headers E) (ud_response_trailers d))
       (response_headers_mut (apply_headers (e_headers E) (ud_response_headers d)) g)"

definition single_conn ::
  "'h env \<Rightarrow> conformance_pb \<Rightarrow> unary_response_definition option \<Rightarrow> request_info
   \<Rightarrow> ('h, 'r, 'b, 'u) grpc_conn \<Rightarrow> ('h, 'r, 'b, 'u) grpc_conn" where
  "single_conn E P def info g =
     g\<lparr>gc_conn := (gc_conn g)\<lparr>cn_ops := cn_ops (gc_conn g) @ single_headers E def\<rparr>,
       gc_response_trailers := single_trailers E P def info (gc_response_trailers g)\<rparr>"

lemma respond_defined_eq:
  "respond_defined E P d info (applied E d g) = (single_result (Some d) info, single_conn E P (Some d) info g)"
  by (simp add: respond_defined_def raise_error_eq applied_def single_result_def single_conn_def single_trailers_def
      single_headers_def response_trailers_mut_def response_headers_mut_def conn_do_def Let_def
      split: option.split unary_response_kind.split)

lemma sleep_poll_ready:
  assumes "delay_ok D" and "sleep_poll D d o1 t = (p, t')"
    and "t = Unstarted \<and> start \<le> ob_now o1 \<or> (\<exists>i. t = Waiting i d \<and> start \<le> i)"
  shows "(\<exists>i. t' = Waiting i d \<and> start \<le> i) \<and> (p = Ready () \<longrightarrow> start + d \<le> ob_now o1)"
  using assms by (cases t) (auto simp: delay_ok_def split: if_splits, (meson add_le_mono1 le_trans)+)

lemma drive_delayed:
  assumes "delay_ok D"
  shows "drive (respond_single E P D) os (applied E d g, SingleDelay (Waiting i (from_millis (unat (ud_response_delay_ms d)))) d info)
      = Some (res, (g', st)) \<Longrightarrow>
    res = single_result (Some d) info \<and> g' = single_conn E P (Some d) info g \<and>
    (\<exists>o1 \<in> set os. i + from_millis (unat (ud_response_delay_ms d)) \<le> ob_now o1)"
proof (induction os)
  case (Cons o1 os)
  let ?d = "from_millis (unat (ud_response_delay_ms d))"
  show ?case
  proof (cases "D i ?d (ob_now o1)")
    case True
    with Cons.prems assms show ?thesis
      by (auto simp: delay_then_respond_def respond_defined_eq delay_ok_def)
  next
    case False
    with Cons show ?thesis by (auto simp: delay_then_respond_def)
  qed
qed simp

lemma respond_single_result:
  assumes "delay_ok D"
    and "drive (respond_single E P D) (o1 # os) (g, SingleStart def reqs) = Some (res, (g', st))"
  shows "res = single_result def (observed_info E o1 g reqs) \<and>
    g' = single_conn E P def (observed_info E o1 g reqs) g \<and>
    (\<forall>d. def = Some d \<longrightarrow>
      (\<exists>o2 \<in> set (o1 # os). ob_now o1 + from_millis (unat (ud_response_delay_ms d)) \<le> ob_now o2))"
proof (cases def)
  case None
  with assms(2) show ?thesis
    by (auto simp: Let_def observed_info_def single_result_def single_conn_def single_trailers_def single_headers_def)
next
  case (Some d)
  let ?info = "observed_info E o1 g reqs" and ?d = "from_millis (unat (ud_response_delay_ms d))"
  have start: "respond_single E P D o1 (g, SingleStart (Some d) reqs) =
      (if 0 < ud_response_delay_ms d then delay_then_respond E P D o1 Unstarted d ?info (applied E d g)
       else (Ready (single_result (Some d) ?info), (single_conn E P (Some d) ?info g, SingleDelay Unstarted d ?info)))"
    using respond_defined_eq [of E P d ?info g] by (simp add: Let_def observed_info_def applied_def)
  show ?thesis
  proof (cases "0 < ud_response_delay_ms d")
    case False
    then have "ud_response_delay_ms d = 0" by (simp add: word_gt_0)
    with assms(2) start Some False show ?thesis by (simp add: from_millis_def del: respond_single.simps)
  next
    case True
    show ?thesis
    proof (cases "D (ob_now o1) ?d (ob_now o1)")
      case fires: True
      with assms(1) have "?d = 0" unfolding delay_ok_def by (metis add.commute add_le_same_cancel2 le_zero_eq)
      with fires assms(2) start Some True show ?thesis
        by (auto simp: delay_then_respond_def respond_defined_eq simp del: respond_single.simps)
    next
      case waits: False
      with assms(2) start Some True
      have "drive (respond_single E P D) os (applied E d g, SingleDelay (Waiting (ob_now o1) ?d) d ?info) = Some (res, (g', st))"
        by (simp add: delay_then_respond_def del: respond_single.simps)
      from drive_delayed [OF assms(1) this] Some show ?thesis by auto
    qed
  qed
qed

lemma drive_fut_ok: "drive (fut_ok f fut) os s = map_option (map_prod (map_sum id f) id) (drive fut os s)"
proof (induction os arbitrary: s)
  case (Cons o1 os)
  then show ?case by (cases "fut o1 s"; cases "fst (fut o1 s)") (auto simp: fut_ok_def id_def)
qed simp

section \<open>Collecting the requests of a client stream\<close>

text \<open>What the collected items mean: the first error, or the messages.\<close>

fun collected :: "('q result) list \<Rightarrow> 'q list result" where
  "collected [] = Inr []"
| "collected (Inl e # xs) = Inl e"
| "collected (Inr q # xs) = map_sum id ((#) q) (collected xs)"

lemma collected_append: "collected (map Inr ys @ xs) = map_sum id ((@) ys) (collected xs)"
  by (induction ys) (simp_all add: map_sum.id map_sum.compositionality comp_def, cases "collected xs", auto)

definition first_definition :: "client_stream_request list \<Rightarrow> unary_response_definition option" where
  "first_definition qs = (case qs of [] \<Rightarrow> None | q # _ \<Rightarrow> csr_response_definition q)"

definition client_anys :: "conformance_pb \<Rightarrow> client_stream_request list \<Rightarrow> any_msg list" where
  "client_anys P = map (to_any (pb_client_stream_request P) (lit ''ClientStreamRequest''))"

text \<open>
  The invariant of the loop: what has been collected and what the stream still brings are the
  request's items. Once they are collected, the rest is a single response, started in a poll
  of this call.
\<close>

fun client_stream_inv ::
  "'h env \<Rightarrow> conformance_pb \<Rightarrow> delay_fn \<Rightarrow> ('r \<Rightarrow> bytes) \<Rightarrow> ('r \<Rightarrow> bool) \<Rightarrow> client_stream_request codec \<Rightarrow> obs set
   \<Rightarrow> (client_stream_request result) list \<Rightarrow> ('h, 'r, 'b, 'u) grpc_conn
   \<Rightarrow> ('h, 'r, 'b, 'u) grpc_conn \<times> 'r client_stream_state \<Rightarrow> bool" where
  "client_stream_inv E P D content good K O1 xs g0 (g, CollectStart) \<longleftrightarrow> g = g0"
| "client_stream_inv E P D content good K O1 xs g0 (g, Collecting stream def reqs first) \<longleftrightarrow>
     (\<exists>r. g = g0\<lparr>gc_conn := (gc_conn g0)\<lparr>cn_request_body := r\<rparr>\<rparr>) \<and> message_sound good (ms_of stream) \<and>
     (\<exists>qs. xs = map Inr qs @ message_todo (e_codecs E) content (ms_of stream) \<and>
        def = first_definition qs \<and> reqs = client_anys P qs \<and> first = (qs = []))"
| "client_stream_inv E P D content good K O1 xs g0 (g, CollectDone st) \<longleftrightarrow>
     (\<exists>qs r g1 os1. xs = map Inr qs \<and> g1 = g0\<lparr>gc_conn := (gc_conn g0)\<lparr>cn_request_body := r\<rparr>\<rparr> \<and> set os1 \<subseteq> O1 \<and>
        (\<forall>os. drive (respond_single E P D) (os1 @ os) (g1, SingleStart (first_definition qs) (client_anys P qs)) =
           drive (respond_single E P D) os (g, st)))"

lemma requests_sound:
  assumes "good (cn_request_body (gc_conn g))"
  shows "message_sound good (ms_of (requests K g)) \<and>
    message_todo C content (ms_of (requests K g)) =
      items C (decode_msg K) (gc_request_encoding g) DEFAULT_MAX_MESSAGE_SIZE (content (cn_request_body (gc_conn g)))"
  using assms
  by (auto simp: requests_def request_stream_new_def message_sound_def message_todo_def ms_of_def items_of_stream)

context live_source begin

lemma client_stream_keeps:
  assumes "good (cn_request_body (gc_conn g0))"
    and xs_def: "xs = items (e_codecs E) (decode_msg K) (gc_request_encoding g0) DEFAULT_MAX_MESSAGE_SIZE
      (content (cn_request_body (gc_conn g0)))"
  shows "step_keeps (client_stream_step E P D poll_read K) O1 (client_stream_inv E P D content good K O1 xs g0)"
  unfolding step_keeps_def
proof (intro ballI allI impI)
  fix o1 gs gs'
  assume o1: "o1 \<in> O1" and inv0: "client_stream_inv E P D content good K O1 xs g0 gs"
    and step: "client_stream_step E P D poll_read K o1 gs = Go gs' \<or> client_stream_step E P D poll_read K o1 gs = Suspend gs'"
  obtain g st where gs: "gs = (g, st)" by (cases gs)
  show "client_stream_inv E P D content good K O1 xs g0 gs'"
  proof (cases st)
    case CollectStart
    with gs inv0 step have "gs' = (g0, Collecting (requests K g0) None [] True)" by simp
    with requests_sound [of good g0 K "e_codecs E" content] assms(1) show ?thesis
      by (auto simp: xs_def first_definition_def client_anys_def intro: exI [of _ "cn_request_body (gc_conn g0)"])
  next
    case (Collecting stream def reqs first)
    obtain p s1 where r: "request_recv (e_codecs E) poll_read stream = (p, s1)" by (cases "request_recv (e_codecs E) poll_read stream")
    from inv0 gs Collecting obtain r0 qs where g: "g = g0\<lparr>gc_conn := (gc_conn g0)\<lparr>cn_request_body := r0\<rparr>\<rparr>"
      and sound: "message_sound good (ms_of stream)"
      and xs: "xs = map Inr qs @ message_todo (e_codecs E) content (ms_of stream)"
      and acc: "def = first_definition qs" "reqs = client_anys P qs" "first = (qs = [])" by auto
    note got = request_recv_step [OF sound r]
    have gb: "give_back s1 g = g0\<lparr>gc_conn := (gc_conn g0)\<lparr>cn_request_body := rs_reader s1\<rparr>\<rparr>"
      by (simp add: g give_back_def)
    consider "p = Pending" | e where "p = Ready (Inl e)" | "p = Ready (Inr None)" | q where "p = Ready (Inr (Some q))"
      by (metis option.exhaust poll.exhaust sum.exhaust)
    then show ?thesis
    proof cases
      case 1
      with step gs Collecting r have "gs' = (give_back s1 g, Collecting s1 def reqs first)" by simp
      with 1 got xs acc show ?thesis by (auto simp: gb)
    next
      case 3
      with step gs Collecting r have "gs' = (give_back s1 g, CollectDone (SingleStart def reqs))" by simp
      with 3 got xs acc show ?thesis by (auto simp: gb intro!: exI [of _ qs] exI [of _ "[]"])
    next
      case (4 q)
      with step gs Collecting r have "gs' = (g, Collecting s1 (if first then csr_response_definition q else def)
          (reqs @ [to_any (pb_client_stream_request P) (lit ''ClientStreamRequest'') q]) False)" by simp
      with 4 got xs acc g show ?thesis
        by (auto simp: first_definition_def client_anys_def split: list.splits intro!: exI [of _ "qs @ [q]"])
    qed (use step gs Collecting r in simp)
  next
    case (CollectDone sg)
    obtain p g1 sg1 where r: "respond_single E P D o1 (g, sg) = (p, (g1, sg1))" by (metis prod_cases3)
    with step gs CollectDone have p: "p = Pending" "gs' = (g1, CollectDone sg1)"
      by (cases p; simp add: fut_ok_def)+
    from inv0 gs CollectDone obtain qs r0 os1 where xs: "xs = map Inr qs" and os1: "set os1 \<subseteq> O1"
      and run: "\<And>os. drive (respond_single E P D) (os1 @ os)
          (g0\<lparr>gc_conn := (gc_conn g0)\<lparr>cn_request_body := r0\<rparr>\<rparr>, SingleStart (first_definition qs) (client_anys P qs)) =
        drive (respond_single E P D) os (g, sg)" by auto
    from run [of "o1 # os" for os] r p(1) have "drive (respond_single E P D) ((os1 @ [o1]) @ os)
          (g0\<lparr>gc_conn := (gc_conn g0)\<lparr>cn_request_body := r0\<rparr>\<rparr>, SingleStart (first_definition qs) (client_anys P qs)) =
        drive (respond_single E P D) os (g1, sg1)" for os by simp
    with xs os1 o1 p(2) show ?thesis
      by (auto intro!: exI [of _ qs] exI [of _ r0] exI [of _ "os1 @ [o1]"])
  qed
qed

text \<open>What the handler returns, whatever the polls.\<close>

lemma client_stream_result:
  assumes "delay_ok D" and "good (cn_request_body (gc_conn g0))"
    and "drive (client_stream_poll fuel E P D poll_read K) os (g0, CollectStart) = Some (res, (g', st))"
    and xs_def: "xs = items (e_codecs E) (decode_msg K) (gc_request_encoding g0) DEFAULT_MAX_MESSAGE_SIZE
      (content (cn_request_body (gc_conn g0)))"
  shows "case collected xs of
      Inl e \<Rightarrow> res = Inl e \<and> body_read g0 g'
    | Inr qs \<Rightarrow> (\<exists>o1 \<in> set os. \<exists>r.
        let info = observed_info E o1 g0 (client_anys P qs) in
        res = map_sum id (\<lambda>payload. \<lparr>cs_payload = Some payload\<rparr>) (single_result (first_definition qs) info) \<and>
        g' = single_conn E P (first_definition qs) info (g0\<lparr>gc_conn := (gc_conn g0)\<lparr>cn_request_body := r\<rparr>\<rparr>))"
proof -
  let ?step = "client_stream_step E P D poll_read K" and ?inv = "client_stream_inv E P D content good K (set os) xs g0"
  have keeps: "step_keeps ?step (set os) ?inv" by (rule client_stream_keeps [OF assms(2) xs_def])
  have "?inv (g0, CollectStart)" by simp
  from drive_steps [OF keeps this assms(3) [unfolded client_stream_poll_def]]
  obtain o1 gs where o1: "o1 \<in> set os" and inv1: "?inv gs" and ret: "?step o1 gs = Return res (g', st)" by blast
  obtain g st1 where gs: "gs = (g, st1)" by (cases gs)
  show ?thesis
  proof (cases st1)
    case CollectStart
    with ret gs show ?thesis by simp
  next
    case (Collecting stream def reqs first)
    obtain p s1 where r: "request_recv (e_codecs E) poll_read stream = (p, s1)" by (cases "request_recv (e_codecs E) poll_read stream")
    from inv1 gs Collecting obtain r0 qs where g: "g = g0\<lparr>gc_conn := (gc_conn g0)\<lparr>cn_request_body := r0\<rparr>\<rparr>"
      and sound: "message_sound good (ms_of stream)"
      and xs: "xs = map Inr qs @ message_todo (e_codecs E) content (ms_of stream)" by auto
    from ret gs Collecting r obtain e where e: "p = Ready (Inl e)" "res = Inl e" "g' = give_back s1 g"
      by (auto split: poll.splits sum.splits option.splits)
    with request_recv_step [OF sound r] xs have "collected xs = Inl e" by (simp add: collected_append)
    with e g show ?thesis by (auto simp: give_back_def body_read_def)
  next
    case (CollectDone sg)
    from inv1 gs CollectDone obtain qs r0 os1 where xs: "xs = map Inr qs" and os1: "set os1 \<subseteq> set os"
      and run: "\<And>os. drive (respond_single E P D) (os1 @ os)
          (g0\<lparr>gc_conn := (gc_conn g0)\<lparr>cn_request_body := r0\<rparr>\<rparr>, SingleStart (first_definition qs) (client_anys P qs)) =
        drive (respond_single E P D) os (g, sg)" by auto
    obtain p g1 sg1 where r: "respond_single E P D o1 (g, sg) = (p, (g1, sg1))" by (metis prod_cases3)
    with ret gs CollectDone obtain x where p: "p = Ready x" "g' = g1"
      and res: "res = map_sum id (\<lambda>payload. \<lparr>cs_payload = Some payload\<rparr>) x"
      by (cases p) (auto simp: fut_ok_def)
    obtain o2 os2 where os2: "os1 @ [o1] = o2 # os2" by (cases os1) auto
    with os1 o1 have o2: "o2 \<in> set os" by (cases os1) auto
    from run [of "[o1]"] r p have "drive (respond_single E P D) (o2 # os2)
          (g0\<lparr>gc_conn := (gc_conn g0)\<lparr>cn_request_body := r0\<rparr>\<rparr>, SingleStart (first_definition qs) (client_anys P qs))
        = Some (x, (g1, sg1))" by (simp add: os2 del: drive.simps, simp)
    note single = respond_single_result [OF assms(1) this]
    have all: "collected xs = Inr qs" using collected_append [of qs "[]"] by (simp add: xs)
    have info: "observed_info E o2 (g0\<lparr>gc_conn := (gc_conn g0)\<lparr>cn_request_body := r0\<rparr>\<rparr>) reqs = observed_info E o2 g0 reqs"
      for reqs by (simp add: observed_info_def received_headers_def)
    show ?thesis
      unfolding all sum.case Let_def using single [unfolded info] o2 unfolding res p(2) by blast
  qed
qed

end

section \<open>The response stream\<close>

text \<open>What the stream still has to yield: the response it sleeps for comes first.\<close>

definition stream_todo :: "response_stream \<Rightarrow> (server_stream_response result) list" where
  "stream_todo s =
     (case rq_sleeping s of Some (resp, t) \<Rightarrow> [Inr resp] | None \<Rightarrow> []) @ map Inr (rq_responses s) @
     (case rq_terminal s of Some status \<Rightarrow> [Inl status] | None \<Rightarrow> [])"

lemma response_stream_step:
  assumes "response_stream_next D o1 s = (p, s')"
  shows "rq_delay s' = rq_delay s \<and>
    (case p of
       Pending \<Rightarrow> stream_todo s' = stream_todo s \<and> rq_sleeping s' \<noteq> None
     | Ready None \<Rightarrow> stream_todo s = [] \<and> s' = s
     | Ready (Some x) \<Rightarrow> stream_todo s = x # stream_todo s' \<and> rq_sleeping s' = None)"
  using assms
  by (auto simp: response_stream_next_def emit_after_def stream_todo_def Let_def
      split: option.splits prod.splits poll.splits list.splits if_splits)

text \<open>Without a delay the stream is a source of items at every instant.\<close>

interpretation response_stream: item_source "response_stream_next D o1" stream_todo
  "\<lambda>s. rq_delay s = 0 \<and> rq_sleeping s = None" "\<lambda>_. 0" for D o1
proof -
  have "rq_delay s' = 0 \<and> rq_sleeping s' = None \<and> p \<noteq> Pending"
    if "rq_delay s = 0 \<and> rq_sleeping s = None" "response_stream_next D o1 s = (p, s')" for s s' p
    using that by (auto simp: response_stream_next_def split: option.splits list.splits)
  note calm = this
  show "item_source (response_stream_next D o1) stream_todo (\<lambda>s. rq_delay s = 0 \<and> rq_sleeping s = None) (\<lambda>_. 0)"
  proof
    fix s s' p
    assume s: "rq_delay s = 0 \<and> rq_sleeping s = None" and n: "response_stream_next D o1 s = (p, s')"
    from calm [OF s n] show "rq_delay s' = 0 \<and> rq_sleeping s' = None" by blast
  next
    fix s s'
    assume s: "rq_delay s = 0 \<and> rq_sleeping s = None" and n: "response_stream_next D o1 s = (Pending, s')"
    from calm [OF s n] show "stream_todo s' = stream_todo s \<and> (0 :: nat) < 0" by blast
  next
    fix s s'
    assume "response_stream_next D o1 s = (Ready None, s')"
    from response_stream_step [OF this] show "stream_todo s = [] \<and> (0 :: nat) \<le> 0" by simp
  next
    fix s x s'
    assume "response_stream_next D o1 s = (Ready (Some x), s')"
    from response_stream_step [OF this] show "stream_todo s = x # stream_todo s' \<and> (0 :: nat) \<le> 0" by simp
  qed
qed

text \<open>With one: the items that a sequence of polls yields, and how fast they come.\<close>

fun stream_polls ::
  "delay_fn \<Rightarrow> obs list \<Rightarrow> response_stream \<Rightarrow> (server_stream_response result) list \<times> response_stream" where
  "stream_polls D [] s = ([], s)"
| "stream_polls D (o1 # os) s =
     (case response_stream_next D o1 s of
        (Ready (Some x), s') \<Rightarrow> (case stream_polls D os s' of (xs, s2) \<Rightarrow> (x # xs, s2))
      | (_, s') \<Rightarrow> stream_polls D os s')"

lemma stream_polls_items: "stream_polls D os s = (xs, s') \<Longrightarrow> stream_todo s = xs @ stream_todo s'"
proof (induction os arbitrary: s xs)
  case (Cons o1 os)
  obtain p s1 where n: "response_stream_next D o1 s = (p, s1)" by (cases "response_stream_next D o1 s")
  consider "p = Pending" | "p = Ready None" | x where "p = Ready (Some x)" by (metis option.exhaust poll.exhaust)
  then show ?case
    using response_stream_step [OF n] n Cons by cases (auto split: prod.splits)
qed simp

definition paced :: "nat \<Rightarrow> response_stream \<Rightarrow> bool" where
  "paced start s \<longleftrightarrow> (\<forall>resp t. rq_sleeping s = Some (resp, t) \<longrightarrow> (\<exists>i. t = Waiting i (rq_delay s) \<and> start \<le> i))"

lemma emit_after_pace:
  assumes "delay_ok D" and "emit_after D o1 resp t s = (p, s')" and "start \<le> ob_now o1"
    and "t = Unstarted \<or> (\<exists>i. t = Waiting i (rq_delay s) \<and> start \<le> i)"
  shows "rq_delay s' = rq_delay s \<and>
    (p = Pending \<and> paced start s' \<or>
     p = Ready (Some (Inr resp)) \<and> rq_sleeping s' = None \<and> start + rq_delay s \<le> ob_now o1)"
proof -
  obtain q t' where q: "sleep_poll D (rq_delay s) o1 t = (q, t')" by (cases "sleep_poll D (rq_delay s) o1 t")
  from sleep_poll_ready [OF assms(1) q, of start] assms(3,4)
  have "(\<exists>i. t' = Waiting i (rq_delay s) \<and> start \<le> i) \<and> (q = Ready () \<longrightarrow> start + rq_delay s \<le> ob_now o1)" by auto
  with q assms(2) show ?thesis
    by (cases q) (auto simp: emit_after_def paced_def)
qed

lemma response_stream_pace:
  assumes "delay_ok D" and "response_stream_next D o1 s = (p, s')" and "start \<le> ob_now o1" and "paced start s"
  shows "rq_delay s' = rq_delay s \<and>
    (case p of Ready (Some (Inr resp)) \<Rightarrow> rq_sleeping s' = None \<and> start + rq_delay s \<le> ob_now o1
     | _ \<Rightarrow> paced start s')"
proof (cases "rq_sleeping s")
  case (Some rt)
  then obtain resp t where rt: "rq_sleeping s = Some (resp, t)" by (cases rt) auto
  with assms(2) have "emit_after D o1 resp t s = (p, s')" by (simp add: response_stream_next_def)
  from emit_after_pace [OF assms(1) this assms(3)] assms(4) rt show ?thesis by (auto simp: paced_def)
next
  case None
  show ?thesis
  proof (cases "rq_responses s")
    case (Cons resp rest)
    show ?thesis
    proof (cases "rq_delay s = 0")
      case True
      with Cons None assms show ?thesis by (auto simp: response_stream_next_def)
    next
      case False
      with Cons None assms(2) have "emit_after D o1 resp Unstarted (s\<lparr>rq_responses := rest\<rparr>) = (p, s')"
        by (simp add: response_stream_next_def)
      from emit_after_pace [OF assms(1) this assms(3)] show ?thesis by auto
    qed
  qed (use None assms in \<open>auto simp: response_stream_next_def paced_def split: option.splits\<close>)
qed

definition count_ok :: "('a result) list \<Rightarrow> nat" where
  "count_ok xs = length (filter (\<lambda>x. \<not> isl x) xs)"

lemma stream_polls_pace:
  assumes "delay_ok D"
  shows "stream_polls D os s = (xs, s') \<Longrightarrow> sorted (map ob_now os) \<Longrightarrow> \<forall>o1 \<in> set os. start \<le> ob_now o1 \<Longrightarrow>
    start \<le> stop \<Longrightarrow> \<forall>o1 \<in> set os. ob_now o1 \<le> stop \<Longrightarrow> paced start s \<Longrightarrow> start + count_ok xs * rq_delay s \<le> stop"
proof (induction os arbitrary: s xs start)
  case Nil
  then show ?case by (simp add: count_ok_def)
next
  case (Cons o1 os)
  obtain p s1 where n: "response_stream_next D o1 s = (p, s1)" by (cases "response_stream_next D o1 s")
  note pace = response_stream_pace [OF assms n _ Cons.prems(6)]
  consider "p = Pending \<or> p = Ready None" | e where "p = Ready (Some (Inl e))" | v where "p = Ready (Some (Inr v))"
    by (metis option.exhaust poll.exhaust sum.exhaust)
  then show ?case
  proof cases
    case 1
    with n Cons.prems have "stream_polls D os s1 = (xs, s')" by auto
    from Cons.IH [OF this, of start] Cons.prems pace 1 show ?thesis by auto
  next
    case (2 e)
    obtain ys where ys: "stream_polls D os s1 = (ys, s')" "xs = Inl e # ys"
      using 2 n Cons.prems(1) by (auto split: prod.splits)
    from Cons.IH [OF ys(1), of start] Cons.prems pace 2 show ?thesis by (simp add: ys(2) count_ok_def)
  next
    case (3 v)
    obtain ys where ys: "stream_polls D os s1 = (ys, s')" "xs = Inr v # ys"
      using 3 n Cons.prems(1) by (auto split: prod.splits)
    have "ob_now o1 + count_ok ys * rq_delay s1 \<le> stop"
      using Cons.prems pace 3 by (intro Cons.IH [OF ys(1)]) (auto simp: paced_def)
    with pace 3 Cons.prems show ?thesis by (simp add: ys(2) count_ok_def)
  qed
qed

text \<open>A unary call of the service, from the dispatch function to the operations on the connection.\<close>

lemma unary_served_single:
  assumes "select_ok S" and "delay_ok D" and "delay_ok T"
    and "live_source poll_read content good delay" and "good (cn_request_body conn)"
    and "call_setup E conn now1 now2 = Some (Inr (c, renc, enc, g))" and "\<forall>o1 \<in> set os. undisturbed c o1"
    and "one_request (items (e_codecs E) (decode_msg (prost_codec (pb_unary_request P))) renc
      DEFAULT_MAX_MESSAGE_SIZE (content (cn_request_body conn))) = Inr request"
    and "unary_impl E D S poll_read (prost_codec (pb_unary_request P)) (prost_codec Pr) (unary_start P)
      (unary_poll E P T) now1 now2 os conn = Finished conn'"
  shows "\<exists>o1 \<in> set os. \<exists>o2 \<in> set os.
    let def = ur_response_definition request;
        info = make_request_info (echo_headers (e_headers E) (cn_request_headers conn))
                 (timeout_ms (ob_now o1) (gc_deadline g))
                 [to_any (pb_unary_request P) (lit ''UnaryRequest'') request];
        res = map_sum id (\<lambda>payload. \<lparr>ur_payload = Some payload\<rparr>) (single_result def info) in
    cn_ops conn' = cn_ops conn @ single_headers E def @
      [WithBody (OneShot (one_shot_new (unary_body E (prost_codec Pr) enc res)
         (status_write_into (e_headers E) (e_base64 E) (unary_status E (prost_codec Pr) enc res)
            (single_trailers E P def info (h_new (e_headers E)))))), Halt] \<and>
    (\<forall>d. def = Some d \<longrightarrow> ob_now o1 + from_millis (unat (ud_response_delay_ms d)) \<le> ob_now o2)"
proof -
  let ?wrap = "\<lambda>payload. \<lparr>ur_payload = Some payload\<rparr>"
  from assms(6,9) obtain res t g' st where
    d: "drive (race D S c (call_poll (e_codecs E) poll_read (unary_start P) (unary_poll E P T))) os
        (Unstarted, call_start (prost_codec (pb_unary_request P)) g) = Some (res, (t, (g', st)))"
    and conn': "conn' = finish_unary E (prost_codec Pr) (gc_conn g') res enc (gc_response_trailers g')"
    by (auto simp: unary_impl_def into_parts_def split: option.splits prod.splits)
  from undisturbed_call [OF assms(1,2,4-7) d assms(8)] obtain os1 os2 g1 f' where
    os: "os = os1 @ os2" and g1: "body_read g g1"
    and run: "drive (unary_poll E P T) os2 (g1, unary_start P request) = Some (res, (g', f'))" by blast
  obtain o1 os3 where o1: "os2 = o1 # os3" using run by (cases os2) auto
  obtain res1 where single: "drive (respond_single E P T) os2 (g1, unary_start P request) = Some (res1, (g', f'))"
    and res: "res = map_sum id ?wrap res1"
    using drive_fut_ok [of ?wrap "respond_single E P T" os2 "(g1, unary_start P request)"] run
    by (auto simp: unary_poll_def)
  from respond_single_result [OF assms(3)] single
  have r: "res1 = single_result (ur_response_definition request)
        (observed_info E o1 g1 [to_any (pb_unary_request P) (lit ''UnaryRequest'') request])"
    and c: "g' = single_conn E P (ur_response_definition request)
        (observed_info E o1 g1 [to_any (pb_unary_request P) (lit ''UnaryRequest'') request]) g1"
    and late: "\<forall>d. ur_response_definition request = Some d \<longrightarrow>
      (\<exists>o2 \<in> set os2. ob_now o1 + from_millis (unat (ud_response_delay_ms d)) \<le> ob_now o2)"
    by (simp_all add: o1 unary_start_def del: drive.simps) blast+
  note kept = body_read_keeps [OF g1] call_setup_deadline [OF assms(6)]
  have "\<exists>o2 \<in> set os2. \<forall>d. ur_response_definition request = Some d \<longrightarrow>
      ob_now o1 + from_millis (unat (ud_response_delay_ms d)) \<le> ob_now o2"
  proof (cases "ur_response_definition request")
    case None
    then show ?thesis by (auto simp: o1)
  next
    case (Some d)
    with late obtain o2 where "o2 \<in> set os2" "ob_now o1 + from_millis (unat (ud_response_delay_ms d)) \<le> ob_now o2"
      by blast
    with Some show ?thesis by (intro bexI [of _ o2]) simp_all
  qed
  then obtain o2 where "o2 \<in> set os2"
    "\<forall>d. ur_response_definition request = Some d \<longrightarrow> ob_now o1 + from_millis (unat (ud_response_delay_ms d)) \<le> ob_now o2"
    by blast
  then show ?thesis
    using kept unfolding os conn' finish_unary_ops r c res
    by (intro bexI [of _ o1] bexI [of _ o2])
      (auto simp: Let_def single_conn_def observed_info_def received_headers_def o1)
qed

section \<open>Properties\<close>

text \<open>The request that a payload's info holds can be decoded again.\<close>

lemma echoed_request:
  "prost_ok P \<Longrightarrow> prost_total P \<Longrightarrow> pm_decode P (any_value (to_any P name m)) = Inr m"
  by (simp add: to_any_def decode_encode_to_vec)

text \<open>
  C26: A conformance unary call, run by the crate's dispatch function: when the call is set up,
  its body holds one request and nothing disturbs it, the response is what the request's
  definition asks for, whatever the polls and the delay. The response headers are the
  preflight's and the definition's; the body is the frame of a payload with the definition's
  data, the observed headers, the time left and the request itself, or there is none and the
  status is the definition's error; the trailers are the definition's, the details of the
  error and that status. The answer does not come before the definition's delay has passed.
\<close>

theorem conformance_unary:
  assumes "select_ok S" and "delay_ok D" and "delay_ok T"
    and "live_source poll_read content good delay" and "good (cn_request_body conn)"
    and "call_setup E conn now1 now2 = Some (Inr (c, renc, enc, g))" and "\<forall>o1 \<in> set os. undisturbed c o1"
    and "one_request (items (e_codecs E) (decode_msg (prost_codec (pb_unary_request P))) renc
      DEFAULT_MAX_MESSAGE_SIZE (content (cn_request_body conn))) = Inr request"
    and "unary_impl E D S poll_read (prost_codec (pb_unary_request P)) (prost_codec Pr) (unary_start P)
      (unary_poll E P T) now1 now2 os conn = Finished conn'"
  shows "\<exists>o1 \<in> set os. \<exists>o2 \<in> set os.
    let def = ur_response_definition request;
        info = make_request_info (echo_headers (e_headers E) (cn_request_headers conn))
                 (timeout_ms (ob_now o1) (gc_deadline g))
                 [to_any (pb_unary_request P) (lit ''UnaryRequest'') request];
        res = map_sum id (\<lambda>payload. \<lparr>ur_payload = Some payload\<rparr>) (single_result def info) in
    cn_ops conn' = cn_ops conn @ single_headers E def @
      [WithBody (OneShot (one_shot_new (unary_body E (prost_codec Pr) enc res)
         (status_write_into (e_headers E) (e_base64 E) (unary_status E (prost_codec Pr) enc res)
            (single_trailers E P def info (h_new (e_headers E)))))), Halt] \<and>
    (\<forall>d. def = Some d \<longrightarrow> ob_now o1 + from_millis (unat (ud_response_delay_ms d)) \<le> ob_now o2)"
  using assms by (rule unary_served_single)

lemma length_stream_responses [simp]: "length (stream_responses info data) = length data"
  by (simp add: stream_responses_def)

lemma nth_stream_responses:
  "k < length data \<Longrightarrow> stream_responses info data ! k =
     \<lparr>ss_payload = Some \<lparr>cp_data = data ! k, cp_request_info = (if k = 0 then Some info else None)\<rparr>\<rparr>"
  by (simp add: stream_responses_def nth_enumerate_eq)

text \<open>Messages for examples: every message of a type is encoded as nothing.\<close>

definition one_message :: "'m \<Rightarrow> 'm prost_api" where
  "one_message m = \<lparr>pm_encode = (\<lambda>_. Inr []), pm_decode = (\<lambda>_. Inr m)\<rparr>"

definition example_unary_request :: unary_request where
  "example_unary_request = \<lparr>ur_response_definition = Some \<lparr>ud_response_headers = [],
     ud_response = Some (ResponseData [7]), ud_response_trailers = [], ud_response_delay_ms = 0,
     ud_raw_response = None\<rparr>, ur_request_data = []\<rparr>"

definition example_stream_definition :: stream_response_definition where
  "example_stream_definition = \<lparr>sd_response_headers = [], sd_response_data = [[7], [8]],
     sd_response_delay_ms = 1, sd_error = None, sd_response_trailers = [], sd_raw_response = None\<rparr>"

definition example_pb :: conformance_pb where
  "example_pb = \<lparr>pb_rpc_status = one_message \<lparr>rst_code = 0, rst_message = [], rst_details = []\<rparr>,
     pb_request_info = one_message (make_request_info [] None []),
     pb_unary_request = one_message example_unary_request,
     pb_idempotent_unary_request = one_message \<lparr>iu_response_definition = None, iu_request_data = []\<rparr>,
     pb_client_stream_request = one_message \<lparr>csr_response_definition = None, csr_request_data = []\<rparr>,
     pb_server_stream_request = one_message \<lparr>ssr_response_definition = Some example_stream_definition, ssr_request_data = []\<rparr>,
     pb_bidi_stream_request = one_message \<lparr>bsr_response_definition = Some example_stream_definition,
        bsr_full_duplex = False, bsr_request_data = []\<rparr>\<rparr>"

lemma example_read_empty:
  assumes "dec [] = Inr q"
  shows "read_one prefix_codecs cursor_read (RFirst (request_stream_new [0, 0, 0, 0, 0] dec Identity))
      = (Ready (Inr q), RSecond q \<lparr>rs_reader = [], rs_state = Done, rs_decode = dec, rs_encoding = Identity,
          rs_max_message_size = DEFAULT_MAX_MESSAGE_SIZE\<rparr>)"
  using assms
  by (simp add: request_stream_new_def request_recv_def poll_message_def read_state_new_def fill_loop.simps
        PREFIX_LEN_def overwrite_def cursor_read_def frame_len_def u32_from_be_bytes_def Let_def
        finish_message_def DEFAULT_MAX_MESSAGE_SIZE_def)

theorem conformance_unary_witness:
  "\<exists>conn' info bs out. unary_impl example_env exact_delay simple_select cursor_read
     (prost_codec (pb_unary_request example_pb)) (prost_codec (one_message \<lparr>ur_payload = None\<rparr>))
     (unary_start example_pb) (unary_poll example_env example_pb exact_delay) 0 0 [\<lparr>ob_shutdown = False, ob_now = 0\<rparr>]
     (example_conn [0, 0, 0, 0, 0]
        :: ((str, str list) alist, bytes, (unit, bytes, (str, str list) alist) response_body, unit) conn) = Finished conn' \<and>
   cn_ops conn' = single_headers example_env (ur_response_definition example_unary_request) @
     [WithBody (OneShot (one_shot_new bs out)), Halt] \<and>
   bs = unary_body example_env (prost_codec (one_message \<lparr>ur_payload = None\<rparr>)) Identity
     (Inr \<lparr>ur_payload = Some \<lparr>cp_data = [7], cp_request_info = Some info\<rparr>\<rparr>)"
proof -
  let ?conn = "example_conn [0, 0, 0, 0, 0]
        :: ((str, str list) alist, bytes, (unit, bytes, (str, str list) alist) response_body, unit) conn"
  let ?K = "prost_codec (pb_unary_request example_pb)"
  have dec: "decode_msg ?K = (\<lambda>_. Inr example_unary_request)"
    by (simp add: prost_codec_def prost_decode_def example_pb_def one_message_def fun_eq_iff)
  have codecs: "e_codecs example_env = prefix_codecs" by (simp add: example_env_def)
  have calm: "\<forall>o1 \<in> set [\<lparr>ob_shutdown = False, ob_now = 0\<rparr>]. undisturbed \<lparr>c_deadline = None\<rparr> o1"
    by (simp add: undisturbed_def)
  have items: "items prefix_codecs (decode_msg ?K) Identity DEFAULT_MAX_MESSAGE_SIZE (cn_request_body ?conn)
      = [Inr example_unary_request]"
    using items_frame [of "[]" DEFAULT_MAX_MESSAGE_SIZE prefix_codecs "decode_msg ?K" Identity 0 "[]"]
    by (simp add: u32_to_be_bytes_def finish_message_def dec DEFAULT_MAX_MESSAGE_SIZE_def example_conn_def)
  let ?g = "\<lparr>gc_conn = ?conn, gc_response_trailers = h_new (e_headers example_env),
        gc_request_encoding = Identity, gc_deadline = None\<rparr>"
  have start: "call_start ?K ?g = (?g, CReading (RFirst (request_stream_new [0, 0, 0, 0, 0] (\<lambda>_. Inr example_unary_request) Identity)))"
    by (simp add: call_start_def requests_def dec example_conn_def)
  have "\<exists>x gs. unary_poll example_env example_pb exact_delay o1 (g, unary_start example_pb example_unary_request) = (Ready x, gs)"
    for o1 and g :: "((str, str list) alist, bytes, (unit, bytes, (str, str list) alist) response_body, unit) grpc_conn"
    by (simp add: unary_poll_def fut_ok_def unary_start_def example_unary_request_def Let_def respond_defined_def)
  then obtain x gs where poll: "call_poll prefix_codecs cursor_read (unary_start example_pb) (unary_poll example_env example_pb exact_delay)
      \<lparr>ob_shutdown = False, ob_now = 0\<rparr> (call_start ?K ?g) = (Ready x, gs)"
    unfolding start call_poll_reading example_read_empty [of "\<lambda>_. Inr example_unary_request", OF refl]
      prod.case poll.case sum.case by (metis map_prod_simp id_apply)
  obtain conn' where fin: "unary_impl example_env exact_delay simple_select cursor_read ?K
      (prost_codec (one_message \<lparr>ur_payload = None\<rparr>)) (unary_start example_pb) (unary_poll example_env example_pb exact_delay)
      0 0 [\<lparr>ob_shutdown = False, ob_now = 0\<rparr>] ?conn = Finished conn'"
    using poll by (cases gs) (simp add: unary_impl_def example_setup race_def interruptible_def simple_select_def codecs
        into_parts_def split: prod.split)
  from conformance_unary [OF select_ok_simple delay_ok_exact delay_ok_exact cursor.live_source_axioms TrueI
      example_setup calm _ fin] items codecs fin
  show ?thesis
    by (auto simp: Let_def single_result_def example_unary_request_def example_conn_def)
qed

text \<open>
  C27: A conformance server stream yields what its definition asks for, no sooner than it asks
  for it: whatever the polls, the items that have come and those still to come are one response
  for each datum of the definition, in order, the first alone with the request's info, and
  then the definition's error, if any; \<open>k\<close> responses take at least \<open>k\<close> delays by the clock. The
  call's trailers are the definition's, with the details of the error, to which the request's
  info is appended exactly when no response precedes it.
\<close>

theorem conformance_server_stream:
  assumes "delay_ok D" and "server_stream E P o1 g request = (s, g')"
    and "ssr_response_definition request = Some def"
    and "stream_polls D os s = (xs, s')" and "sorted (map ob_now os)"
    and "\<forall>o2 \<in> set os. start \<le> ob_now o2 \<and> ob_now o2 \<le> stop" and "start \<le> stop"
  shows "let info = observed_info E o1 g [to_any (pb_server_stream_request P) (lit ''ServerStreamRequest'') request];
      tr = apply_headers (e_headers E) (sd_response_trailers def) (gc_response_trailers g);
      items = xs @ stream_todo s'; data = sd_response_data def in
    (\<forall>k < length data. items ! k = Inr \<lparr>ss_payload = Some \<lparr>cp_data = data ! k,
       cp_request_info = (if k = 0 then Some info else None)\<rparr>\<rparr>) \<and>
    drop (length data) items =
      (case sd_error def of None \<Rightarrow> [] | Some err \<Rightarrow> [Inl (status_new (error_code err) (error_text err))]) \<and>
    length data \<le> length items \<and>
    count_ok xs * from_millis (unat (sd_response_delay_ms def)) \<le> stop - start \<and>
    gc_response_trailers g' = (case sd_error def of None \<Rightarrow> tr
      | Some err \<Rightarrow> h_insert (e_headers E) tr (lit ''grpc-status-details-bin'') (details_value E P err
          (er_details err @ (if sd_response_data def = [] then [request_info_any P info] else []))))"
proof -
  let ?info = "observed_info E o1 g [to_any (pb_server_stream_request P) (lit ''ServerStreamRequest'') request]"
  let ?tr = "apply_headers (e_headers E) (sd_response_trailers def) (gc_response_trailers g)"
  have empty: "stream_responses ?info data = [] \<longleftrightarrow> data = []" for data
    by (simp add: stream_responses_def enumerate_eq_zip)
  have s: "s = make_response_stream (stream_responses ?info (sd_response_data def))
        (map_option (\<lambda>err. status_new (error_code err) (error_text err)) (sd_error def))
        (from_millis (unat (sd_response_delay_ms def)))"
    and g': "gc_response_trailers g' = (case sd_error def of None \<Rightarrow> ?tr
      | Some err \<Rightarrow> h_insert (e_headers E) ?tr (lit ''grpc-status-details-bin'') (details_value E P err
          (er_details err @ (if sd_response_data def = [] then [request_info_any P ?info] else []))))"
    using assms(2) by (auto simp: server_stream_def assms(3) Let_def observed_info_def [symmetric] raise_error_eq
      response_headers_mut_def response_trailers_mut_def conn_do_def empty split: option.splits)
  have items: "stream_todo s = map Inr (stream_responses ?info (sd_response_data def)) @
      (case sd_error def of None \<Rightarrow> [] | Some err \<Rightarrow> [Inl (status_new (error_code err) (error_text err))])"
    by (simp add: s stream_todo_def make_response_stream_def split: option.split)
  have "start + count_ok xs * rq_delay s \<le> stop"
    using stream_polls_pace [OF assms(1,4,5)] assms(6,7) by (simp add: s paced_def make_response_stream_def)
  moreover have "xs @ stream_todo s' = map Inr (stream_responses ?info (sd_response_data def)) @
      (case sd_error def of None \<Rightarrow> [] | Some err \<Rightarrow> [Inl (status_new (error_code err) (error_text err))])"
    using items stream_polls_items [OF assms(4)] by simp
  ultimately show ?thesis
    by (simp add: Let_def g' s make_response_stream_def nth_append nth_stream_responses)
qed

theorem conformance_server_stream_witness:
  "\<exists>s g' info s'. server_stream example_env example_pb \<lparr>ob_shutdown = False, ob_now = 0\<rparr>
      (\<lparr>gc_conn = example_conn [], gc_response_trailers = DAList.empty, gc_request_encoding = Identity, gc_deadline = None\<rparr>
        :: ((str, str list) alist, bytes, unit, unit) grpc_conn)
      \<lparr>ssr_response_definition = Some example_stream_definition, ssr_request_data = []\<rparr> = (s, g') \<and>
    stream_polls exact_delay (map (\<lambda>t. \<lparr>ob_shutdown = False, ob_now = t\<rparr>) [0, 10 ^ 6, 10 ^ 6, 2 * 10 ^ 6]) s
      = ([Inr \<lparr>ss_payload = Some \<lparr>cp_data = [7], cp_request_info = Some info\<rparr>\<rparr>,
          Inr \<lparr>ss_payload = Some \<lparr>cp_data = [8], cp_request_info = None\<rparr>\<rparr>], s') \<and> stream_todo s' = [] \<and> 2 * from_millis 1 \<le> 2 * 10 ^ 6 - 0"
proof -
  let ?g = "\<lparr>gc_conn = example_conn [], gc_response_trailers = DAList.empty, gc_request_encoding = Identity, gc_deadline = None\<rparr>
        :: ((str, str list) alist, bytes, unit, unit) grpc_conn"
  let ?rq = "\<lparr>ssr_response_definition = Some example_stream_definition, ssr_request_data = []\<rparr>"
  let ?o1 = "\<lparr>ob_shutdown = False, ob_now = 0\<rparr>"
  let ?os = "map (\<lambda>t. \<lparr>ob_shutdown = False, ob_now = t\<rparr>) [0, 10 ^ 6, 10 ^ 6, 2 * 10 ^ 6]"
  let ?r1 = "\<lambda>info. \<lparr>ss_payload = Some \<lparr>cp_data = [7], cp_request_info = Some info\<rparr>\<rparr>"
  let ?r2 = "\<lparr>ss_payload = Some \<lparr>cp_data = [8], cp_request_info = None\<rparr>\<rparr>"
  obtain s g' where r: "server_stream example_env example_pb ?o1 ?g ?rq = (s, g')" by fastforce
  then obtain info where s: "s = make_response_stream [?r1 info, ?r2] None (10 ^ 6)"
    by (auto simp: server_stream_def example_stream_definition_def Let_def from_millis_def stream_responses_def)
  have p: "stream_polls exact_delay ?os s = ([Inr (?r1 info), Inr ?r2], s\<lparr>rq_responses := [], rq_sleeping := None\<rparr>)"
    by (simp add: s make_response_stream_def response_stream_next_def emit_after_def exact_delay_def)
  from conformance_server_stream [OF delay_ok_exact r _ p, of example_stream_definition 0 "2 * 10 ^ 6"]
  have "count_ok [Inr (?r1 info), Inr ?r2 :: server_stream_response result] * from_millis 1 \<le> 2 * 10 ^ 6 - 0"
    by (simp add: Let_def example_stream_definition_def)
  with r p show ?thesis
    by (intro exI [of _ s] exI [of _ g'] exI [of _ info] exI [of _ "s\<lparr>rq_responses := [], rq_sleeping := None\<rparr>"])
       (simp add: count_ok_def stream_todo_def s make_response_stream_def)
qed

text \<open>
  C28: A conformance client stream, run by the crate's dispatch function and disturbed by
  nothing, is answered as the first request's definition asks, after all requests have come:
  the info lists every request of the body, in order. When the body holds an item that is an
  error, that error is the answer, and no header or trailer of the definition has been set.
  This holds for every number of steps that one poll of the handler's loop may take.
\<close>

theorem conformance_client_stream:
  assumes "select_ok S" and "delay_ok D" and "delay_ok T"
    and "live_source poll_read content good delay" and "good (cn_request_body conn)"
    and "call_setup E conn now1 now2 = Some (Inr (c, renc, enc, g))" and "\<forall>o1 \<in> set os. undisturbed c o1"
    and "client_streaming_impl E D S Kp CollectStart
      (client_stream_poll fuel E P T poll_read K) now1 now2 os conn = Finished conn'"
  shows "\<exists>o1 \<in> set os. \<exists>res tr hs. cn_ops conn' = cn_ops conn @ hs @
      [WithBody (OneShot (one_shot_new (unary_body E Kp enc res)
         (status_write_into (e_headers E) (e_base64 E) (unary_status E Kp enc res) tr))), Halt] \<and>
    (case collected (items (e_codecs E) (decode_msg K) renc DEFAULT_MAX_MESSAGE_SIZE (content (cn_request_body conn))) of
       Inl e \<Rightarrow> res = Inl e \<and> tr = h_new (e_headers E) \<and> hs = []
     | Inr qs \<Rightarrow>
         let info = make_request_info (echo_headers (e_headers E) (cn_request_headers conn))
               (timeout_ms (ob_now o1) (gc_deadline g)) (client_anys P qs);
             def = first_definition qs in
         res = map_sum id (\<lambda>payload. \<lparr>cs_payload = Some payload\<rparr>) (single_result def info) \<and>
         tr = single_trailers E P def info (h_new (e_headers E)) \<and> hs = single_headers E def)"
proof -
  let ?f = "client_stream_poll fuel E P T poll_read K"
  from assms(6,8) obtain res t g' st where
    d: "drive (race D S c ?f) os (Unstarted, (g, CollectStart)) = Some (res, (t, (g', st)))"
    and conn': "conn' = finish_unary E Kp (gc_conn g') res enc (gc_response_trailers g')"
    by (auto simp: client_streaming_impl_def into_parts_def split: option.splits prod.splits)
  have run: "drive ?f os (g, CollectStart) = Some (res, (g', st))"
    using drive_race_undisturbed [OF assms(1,2) timer_ok_Unstarted assms(7), of ?f "(g, CollectStart)"] d by simp
  then obtain o1 os' where o1: "o1 \<in> set os" by (cases os) auto
  note kept = call_setup_deadline [OF assms(6)]
  let ?xs = "items (e_codecs E) (decode_msg K) renc DEFAULT_MAX_MESSAGE_SIZE (content (cn_request_body conn))"
  have xs: "?xs = items (e_codecs E) (decode_msg K) (gc_request_encoding g) DEFAULT_MAX_MESSAGE_SIZE
      (content (cn_request_body (gc_conn g)))" using kept by simp
  have good: "good (cn_request_body (gc_conn g))" using kept assms(5) by simp
  note result = live_source.client_stream_result [OF assms(4,3) good run xs]
  show ?thesis
  proof (cases "collected ?xs")
    case (Inl e)
    with result body_read_keeps [of g g'] kept o1 show ?thesis
      unfolding conn' finish_unary_ops by (intro bexI [OF _ o1] exI [of _ "Inl e"] exI [of _ "h_new (e_headers E)"] exI [of _ "[]"]) auto
  next
    case (Inr qs)
    with result obtain o2 r where o2: "o2 \<in> set os"
      and res: "res = map_sum id (\<lambda>payload. \<lparr>cs_payload = Some payload\<rparr>)
          (single_result (first_definition qs) (observed_info E o2 g (client_anys P qs)))"
      and g': "g' = single_conn E P (first_definition qs) (observed_info E o2 g (client_anys P qs))
          (g\<lparr>gc_conn := (gc_conn g)\<lparr>cn_request_body := r\<rparr>\<rparr>)" by (auto simp: Let_def)
    show ?thesis
      unfolding conn' finish_unary_ops Inr using kept
      by (intro bexI [OF _ o2] exI [of _ res] exI [of _ "gc_response_trailers g'"] exI [of _ "single_headers E (first_definition qs)"])
        (simp add: g' single_conn_def res Let_def observed_info_def received_headers_def)
  qed
qed

theorem conformance_client_stream_witness:
  "\<exists>conn' out info. client_streaming_impl example_env exact_delay simple_select (prost_codec (one_message \<lparr>cs_payload = None\<rparr>))
      CollectStart (client_stream_poll 9 example_env example_pb exact_delay cursor_read
        (prost_codec (pb_client_stream_request example_pb))) 0 0 [\<lparr>ob_shutdown = False, ob_now = 0\<rparr>]
      (example_conn [] :: ((str, str list) alist, bytes, (unit, bytes, (str, str list) alist) response_body, unit) conn)
      = Finished conn' \<and>
    cn_ops conn' = [WithBody (OneShot (one_shot_new
      (unary_body example_env (prost_codec (one_message \<lparr>cs_payload = None\<rparr>)) Identity
        (Inr \<lparr>cs_payload = Some \<lparr>cp_data = [], cp_request_info = Some info\<rparr>\<rparr>)) out)), Halt] \<and>
    ri_requests info = []"
proof -
  let ?conn = "example_conn [] :: ((str, str list) alist, bytes, (unit, bytes, (str, str list) alist) response_body, unit) conn"
  let ?K = "prost_codec (pb_client_stream_request example_pb)"
  let ?f = "client_stream_poll 9 example_env example_pb exact_delay cursor_read ?K"
  let ?g = "\<lparr>gc_conn = ?conn, gc_response_trailers = h_new (e_headers example_env),
        gc_request_encoding = Identity, gc_deadline = None\<rparr>"
  have codecs: "e_codecs example_env = prefix_codecs" by (simp add: example_env_def)
  have recv: "request_recv prefix_codecs cursor_read (requests ?K ?g) =
      (Ready (Inr None), (requests ?K ?g)\<lparr>rs_state := Done\<rparr>)"
    by (simp add: requests_def request_stream_new_def request_recv_def poll_message_def read_state_new_def fill_loop.simps
        PREFIX_LEN_def cursor_read_def example_conn_def)
  obtain x gs where poll: "?f \<lparr>ob_shutdown = False, ob_now = 0\<rparr> (?g, CollectStart) = (Ready x, gs)"
    by (simp add: client_stream_poll_def numeral_eq_Suc codecs recv fut_ok_def Let_def)
  obtain conn' where fin: "client_streaming_impl example_env exact_delay simple_select
      (prost_codec (one_message \<lparr>cs_payload = None\<rparr>)) CollectStart ?f 0 0 [\<lparr>ob_shutdown = False, ob_now = 0\<rparr>] ?conn = Finished conn'"
    using poll by (cases gs) (simp add: client_streaming_impl_def example_setup race_def interruptible_def simple_select_def
        into_parts_def split: prod.split)
  have items: "items prefix_codecs (decode_msg ?K) Identity DEFAULT_MAX_MESSAGE_SIZE (cn_request_body ?conn) = []"
    by (subst items.simps) (simp add: next_frame_def example_conn_def)
  have calm: "\<forall>o1 \<in> set [\<lparr>ob_shutdown = False, ob_now = 0\<rparr>]. undisturbed \<lparr>c_deadline = None\<rparr> o1"
    by (simp add: undisturbed_def)
  from conformance_client_stream [OF select_ok_simple delay_ok_exact delay_ok_exact cursor.live_source_axioms TrueI
      example_setup calm fin] items codecs fin
  show ?thesis
    by (fastforce simp: Let_def single_result_def first_definition_def client_anys_def single_headers_def example_conn_def
        make_request_info_def)
qed

end
