(* ===== verification/ConformanceBidi.thy ===== *)
theory ConformanceBidi
  imports ConformanceService
begin

text \<open>
  The bidirectional method of \<open>conformance/src/service.rs\<close>: the prologue that reads the first
  request, and the responder's loop, which reads and writes the upgraded transport. The
  reference is \<open>bidi_responses\<close>: the responses that the definition and the received requests
  ask for, as a function of the list of requests alone.
\<close>

section \<open>The prologue\<close>

record bidi_responder =
  br_request_headers :: "header_msg list"
  br_timeout_ms :: "i64 option"
  br_def :: "stream_response_definition option"
  br_full_duplex :: bool
  br_first :: "bidi_stream_request option"

datatype 'r prologue_state =
    PrologueStart
  | PrologueRead "header_msg list" "i64 option" "(bidi_stream_request, 'r) request_stream"

definition prologue_read ::
  "'h env \<Rightarrow> 'r poll_read_fn \<Rightarrow> header_msg list \<Rightarrow> i64 option \<Rightarrow> (bidi_stream_request, 'r) request_stream
   \<Rightarrow> ('h, 'r, 'b, 'u) grpc_conn
   \<Rightarrow> bidi_responder result poll \<times> ('h, 'r, 'b, 'u) grpc_conn \<times> 'r prologue_state" where
  "prologue_read E poll_read request_headers timeout stream g =
     (case request_recv (e_codecs E) poll_read stream of
        (Pending, stream) \<Rightarrow> (Pending, (give_back stream g, PrologueRead request_headers timeout stream))
      | (Ready (Inl status), stream) \<Rightarrow>
          (Ready (Inl status), (give_back stream g, PrologueRead request_headers timeout stream))
      | (Ready (Inr first), stream) \<Rightarrow>
          (let g = give_back stream g;
               (def, full_duplex) = (case first of
                  Some req \<Rightarrow> (bsr_response_definition req, bsr_full_duplex req)
                | None \<Rightarrow> (None, False));
               g = (case def of
                  Some def \<Rightarrow>
                    response_trailers_mut (apply_headers (e_headers E) (sd_response_trailers def))
                      (response_headers_mut (apply_headers (e_headers E) (sd_response_headers def)) g)
                | None \<Rightarrow> g) in
           (Ready (Inr \<lparr>br_request_headers = request_headers, br_timeout_ms = timeout, br_def = def,
               br_full_duplex = full_duplex, br_first = first\<rparr>),
            (g, PrologueRead request_headers timeout stream))))"

fun bidi_stream_poll ::
  "'h env \<Rightarrow> 'r poll_read_fn \<Rightarrow> bidi_stream_request codec
   \<Rightarrow> (('h, 'r, 'b, 'u) grpc_conn \<times> 'r prologue_state, bidi_responder result) fut" where
  "bidi_stream_poll E poll_read K o1 (g, PrologueStart) =
     prologue_read E poll_read (echo_headers (e_headers E) (received_headers g))
       (timeout_ms (ob_now o1) (gc_deadline g)) (requests K g) g"
| "bidi_stream_poll E poll_read K o1 (g, PrologueRead request_headers timeout stream) =
     prologue_read E poll_read request_headers timeout stream g"

section \<open>The responder\<close>

text \<open>Its suspended states: waiting for a request or to flush, and the two sleeps.\<close>

datatype respond_phase =
    AwaitRequest
  | DelayAnswer timer stream_response_definition request_info
  | Flush
  | DelayFlush timer stream_response_definition "request_info option"

record respond_state =
  rb_responder :: bidi_responder
  rb_first :: "bidi_stream_request option"
  rb_requests :: "any_msg list"
  rb_resp_num :: nat
  rb_phase :: respond_phase

definition respond_start :: "bidi_responder \<Rightarrow> respond_state" where
  "respond_start r = \<lparr>rb_responder = r, rb_first = br_first r, rb_requests = [], rb_resp_num = 0,
     rb_phase = AwaitRequest\<rparr>"

definition bidi_any :: "conformance_pb \<Rightarrow> bidi_stream_request \<Rightarrow> any_msg" where
  "bidi_any P = to_any (pb_bidi_stream_request P) (lit ''BidiStreamRequest'')"

definition bidi_response :: "bytes \<Rightarrow> request_info option \<Rightarrow> bidi_stream_response" where
  "bidi_response data info = \<lparr>bs_payload = Some \<lparr>cp_data = data, cp_request_info = info\<rparr>\<rparr>"

text \<open>The parameters of the loop: the codec libraries, the transport, the sleeps.\<close>

record ('h, 'w) respond_api =
  ra_env :: "'h env"
  ra_pb :: conformance_pb
  ra_delay :: delay_fn
  ra_read :: "'w poll_read_fn"
  ra_write :: "'w write_fn"

text \<open>A \<open>send\<close> and what follows it, which is \<open>resp_num += 1\<close> and the head of the same loop.\<close>

definition respond_send ::
  "('h, 'w) respond_api \<Rightarrow> ('w, 'h, bidi_stream_request, bidi_stream_response) channel \<Rightarrow> respond_state
   \<Rightarrow> stream_response_definition \<Rightarrow> request_info option \<Rightarrow> respond_phase
   \<Rightarrow> (('w, 'h, bidi_stream_request, bidi_stream_response) channel \<times> respond_state, unit result) async_step" where
  "respond_send A ch s def info next_phase =
     (case channel_send (e_codecs (ra_env A)) (ra_write A) ch
             (bidi_response (sd_response_data def ! rb_resp_num s) info) of
        (Inl e, ch) \<Rightarrow> Return (Inl e) (ch, s)
      | (Inr _, ch) \<Rightarrow> Go (ch, s\<lparr>rb_resp_num := rb_resp_num s + 1, rb_phase := next_phase\<rparr>))"

text \<open>A request has come.\<close>

definition respond_request ::
  "('h, 'w) respond_api \<Rightarrow> ('w, 'h, bidi_stream_request, bidi_stream_response) channel \<Rightarrow> respond_state
   \<Rightarrow> bidi_stream_request
   \<Rightarrow> (('w, 'h, bidi_stream_request, bidi_stream_response) channel \<times> respond_state, unit result) async_step" where
  "respond_request A ch s req =
     (let r = rb_responder s;
          s = s\<lparr>rb_first := None, rb_requests := rb_requests s @ [bidi_any (ra_pb A) req]\<rparr> in
      if br_full_duplex r then
        (case br_def r of
           None \<Rightarrow> Go (ch, s\<lparr>rb_phase := Flush\<rparr>)
         | Some def \<Rightarrow>
             if length (sd_response_data def) \<le> rb_resp_num s then Go (ch, s\<lparr>rb_phase := Flush\<rparr>)
             else
               (let info = (if rb_resp_num s = 0
                      then make_request_info (br_request_headers r) (br_timeout_ms r) (rb_requests s)
                      else make_request_info [] None (rb_requests s));
                    s = s\<lparr>rb_requests := []\<rparr> in
                if 0 < sd_response_delay_ms def then Go (ch, s\<lparr>rb_phase := DelayAnswer Unstarted def info\<rparr>)
                else respond_send A ch s def (Some info) AwaitRequest))
      else Go (ch, s))"

text \<open>The two loops; a phase that sleeps keeps the definition that the code holds by reference.\<close>

definition respond_step ::
  "('h, 'w) respond_api \<Rightarrow> obs
   \<Rightarrow> ('w, 'h, bidi_stream_request, bidi_stream_response) channel \<times> respond_state
   \<Rightarrow> (('w, 'h, bidi_stream_request, bidi_stream_response) channel \<times> respond_state, unit result) async_step" where
  "respond_step A o1 cs =
     (case cs of (ch, s) \<Rightarrow>
        let r = rb_responder s in
        case rb_phase s of
          AwaitRequest \<Rightarrow>
            (case rb_first s of
               Some req \<Rightarrow> respond_request A ch s req
             | None \<Rightarrow>
                 (case channel_recv (e_codecs (ra_env A)) (ra_read A) ch of
                    (Pending, ch) \<Rightarrow> Suspend (ch, s)
                  | (Ready None, ch) \<Rightarrow> Go (ch, s\<lparr>rb_phase := Flush\<rparr>)
                  | (Ready (Some (Inl e)), ch) \<Rightarrow> Return (Inl e) (ch, s)
                  | (Ready (Some (Inr req)), ch) \<Rightarrow> respond_request A ch s req))
        | DelayAnswer t def info \<Rightarrow>
            (case sleep_poll (ra_delay A) (from_millis (unat (sd_response_delay_ms def))) o1 t of
               (Pending, t) \<Rightarrow> Suspend (ch, s\<lparr>rb_phase := DelayAnswer t def info\<rparr>)
             | (Ready _, t) \<Rightarrow> respond_send A ch s def (Some info) AwaitRequest)
        | Flush \<Rightarrow>
            (case br_def r of
               None \<Rightarrow> Return (Inr ()) (ch, s)
             | Some def \<Rightarrow>
                 if rb_resp_num s < length (sd_response_data def) then
                   (let info = (if rb_resp_num s = 0
                          then Some (make_request_info (br_request_headers r) (br_timeout_ms r) (rb_requests s))
                          else None);
                        s = (if rb_resp_num s = 0 then s\<lparr>rb_requests := []\<rparr> else s) in
                    if 0 < sd_response_delay_ms def then Go (ch, s\<lparr>rb_phase := DelayFlush Unstarted def info\<rparr>)
                    else respond_send A ch s def info Flush)
                 else
                   (case sd_error def of
                      None \<Rightarrow> Return (Inr ()) (ch, s)
                    | Some err \<Rightarrow>
                        (let info_any = (if rb_resp_num s = 0
                               then Some (request_info_any (ra_pb A)
                                 (make_request_info (br_request_headers r) (br_timeout_ms r) (rb_requests s)))
                               else None) in
                         case status_from_error (ra_env A) (ra_pb A) err info_any (Some (ch_response_trailers ch)) of
                           (status, trailers) \<Rightarrow>
                             Return (Inl status)
                               (channel_trailers_mut (\<lambda>tr. case trailers of Some tr' \<Rightarrow> tr' | None \<Rightarrow> tr) ch, s))))
        | DelayFlush t def info \<Rightarrow>
            (case sleep_poll (ra_delay A) (from_millis (unat (sd_response_delay_ms def))) o1 t of
               (Pending, t) \<Rightarrow> Suspend (ch, s\<lparr>rb_phase := DelayFlush t def info\<rparr>)
             | (Ready _, t) \<Rightarrow> respond_send A ch s def info Flush))"

definition respond_poll ::
  "nat \<Rightarrow> ('h, 'w) respond_api
   \<Rightarrow> ('w, 'h, bidi_stream_request, bidi_stream_response, respond_state) responder_poll" where
  "respond_poll fuel A = poll_steps fuel (respond_step A)"

section \<open>What the definition and the requests ask for\<close>

text \<open>
  The responses, and how the loop ends: the error of a request, or nothing but the info that
  is appended to the details of the definition's error.
\<close>

definition owed_info :: "bidi_responder \<Rightarrow> any_msg list \<Rightarrow> request_info" where
  "owed_info r reqs = make_request_info (br_request_headers r) (br_timeout_ms r) reqs"

definition owed_details :: "conformance_pb \<Rightarrow> bidi_responder \<Rightarrow> nat \<Rightarrow> any_msg list \<Rightarrow> any_msg list" where
  "owed_details P r i reqs = (if i = 0 then [request_info_any P (owed_info r reqs)] else [])"

text \<open>The responses that are flushed when \<open>i\<close> have been sent; the first of all has the info.\<close>

fun flushed :: "bidi_responder \<Rightarrow> nat \<Rightarrow> any_msg list \<Rightarrow> bytes list \<Rightarrow> bidi_stream_response list" where
  "flushed r i reqs [] = []"
| "flushed r i reqs (d # ds) =
     bidi_response d (if i = 0 then Some (owed_info r reqs) else None) # flushed r (Suc i) reqs ds"

text \<open>Full duplex: one response for each request, then the surplus.\<close>

fun ping_pong ::
  "conformance_pb \<Rightarrow> bidi_responder \<Rightarrow> nat \<Rightarrow> bytes list \<Rightarrow> (bidi_stream_request result) list
   \<Rightarrow> bidi_stream_response list \<times> (status + any_msg list)" where
  "ping_pong P r i ds [] = (flushed r i [] ds, Inr (owed_details P r (i + length ds) []))"
| "ping_pong P r i ds (Inl e # xs) = ([], Inl e)"
| "ping_pong P r i [] (Inr q # xs) = ([], Inr (owed_details P r i [bidi_any P q]))"
| "ping_pong P r i (d # ds) (Inr q # xs) =
     apfst ((#) (bidi_response d (Some (if i = 0 then owed_info r [bidi_any P q]
         else make_request_info [] None [bidi_any P q]))))
       (ping_pong P r (Suc i) ds xs)"

definition bidi_responses ::
  "conformance_pb \<Rightarrow> bidi_responder \<Rightarrow> (bidi_stream_request result) list
   \<Rightarrow> bidi_stream_response list \<times> (status + any_msg list)" where
  "bidi_responses P r xs =
     (let data = (case br_def r of None \<Rightarrow> [] | Some def \<Rightarrow> sd_response_data def) in
      if br_full_duplex r then ping_pong P r 0 data xs
      else (case collected xs of
              Inl e \<Rightarrow> ([], Inl e)
            | Inr qs \<Rightarrow> (flushed r 0 (map (bidi_any P) qs) data,
                        Inr (owed_details P r (length data) (map (bidi_any P) qs)))))"

section \<open>The loop sends what is asked for\<close>

text \<open>
  The upgraded transport: what is written does not change what will be read, and the other way
  round.
\<close>

definition duplex_ok ::
  "'w poll_read_fn \<Rightarrow> 'w write_fn \<Rightarrow> ('w \<Rightarrow> bytes) \<Rightarrow> ('w \<Rightarrow> bytes) \<Rightarrow> ('w \<Rightarrow> bool) \<Rightarrow> ('w \<Rightarrow> nat) \<Rightarrow> bool" where
  "duplex_ok poll_read write_all content written good delay \<longleftrightarrow>
     live_source poll_read content good delay \<and> byte_sink write_all written \<and>
     (\<forall>w n p w'. poll_read w n = (p, w') \<longrightarrow> written w' = written w) \<and>
     (\<forall>w bs x w'. good w \<longrightarrow> write_all w bs = (x, w') \<longrightarrow> good w' \<and> content w' = content w)"

definition channel_stream ::
  "('w, 'h, 'q, 'p) channel \<Rightarrow> ('q, 'w) message_stream" where
  "channel_stream ch = \<lparr>ms_reader = ch_upgrade ch, ms_state = ch_state ch, ms_max_message_size = ch_max_message_size ch,
     ms_encoding = ch_inbound_encoding ch, ms_decode = ch_decode ch\<rparr>"

lemma poll_next_channel:
  "poll_next C poll_read (channel_stream ch) = map_prod id channel_stream (channel_recv C poll_read ch)"
  by (simp add: poll_next_def channel_recv_def channel_stream_def split: prod.split)

lemma channel_recv_fields:
  "channel_recv C poll_read ch = (p, ch') \<Longrightarrow> \<exists>st w. ch' = ch\<lparr>ch_state := st, ch_upgrade := w\<rparr>"
  by (auto simp: channel_recv_def split: prod.splits)

text \<open>The state of the loop between two steps, and what it still owes for the items to come.\<close>

abbreviation owed_data :: "respond_state \<Rightarrow> bytes list" where
  "owed_data s \<equiv> (case br_def (rb_responder s) of None \<Rightarrow> [] | Some def \<Rightarrow> sd_response_data def)"

definition respond_wf :: "respond_state \<Rightarrow> bool" where
  "respond_wf s \<longleftrightarrow> rb_resp_num s \<le> length (owed_data s) \<and>
     (case rb_phase s of
        AwaitRequest \<Rightarrow> if br_full_duplex (rb_responder s) then rb_requests s = [] else rb_resp_num s = 0
      | DelayAnswer t def info \<Rightarrow> rb_first s = None \<and> br_full_duplex (rb_responder s) \<and> rb_requests s = [] \<and>
          br_def (rb_responder s) = Some def \<and> rb_resp_num s < length (owed_data s)
      | Flush \<Rightarrow> True
      | DelayFlush t def info \<Rightarrow> br_def (rb_responder s) = Some def \<and> rb_resp_num s < length (owed_data s))"

definition owed ::
  "conformance_pb \<Rightarrow> respond_state \<Rightarrow> (bidi_stream_request result) list
   \<Rightarrow> bidi_stream_response list \<times> (status + any_msg list)" where
  "owed P s xs =
     (let r = rb_responder s; i = rb_resp_num s; data = owed_data s;
          pend = (case rb_first s of Some q \<Rightarrow> [Inr q] | None \<Rightarrow> []) @ xs in
      case rb_phase s of
        AwaitRequest \<Rightarrow>
          if br_full_duplex r then ping_pong P r i (drop i data) pend
          else (case collected pend of
                  Inl e \<Rightarrow> ([], Inl e)
                | Inr qs \<Rightarrow> (let reqs = rb_requests s @ map (bidi_any P) qs in
                            (flushed r 0 reqs data, Inr (owed_details P r (length data) reqs))))
      | DelayAnswer t def info \<Rightarrow>
          apfst ((#) (bidi_response (data ! i) (Some info))) (ping_pong P r (Suc i) (drop (Suc i) data) xs)
      | Flush \<Rightarrow> (flushed r i (rb_requests s) (drop i data), Inr (owed_details P r (length data) (rb_requests s)))
      | DelayFlush t def info \<Rightarrow> (bidi_response (data ! i) info # flushed r (Suc i) [] (drop (Suc i) data), Inr []))"

lemma owed_start: "owed P (respond_start r) xs =
    bidi_responses P r ((case br_first r of Some q \<Rightarrow> [Inr q] | None \<Rightarrow> []) @ xs)"
  by (simp add: owed_def respond_start_def bidi_responses_def Let_def split: sum.split)

lemma respond_wf_start: "respond_wf (respond_start r)"
  by (simp add: respond_wf_def respond_start_def)

lemma flushed_later: "0 < i \<Longrightarrow> flushed r i reqs ds = flushed r i reqs' ds"
  by (induction r i reqs ds rule: flushed.induct) auto

text \<open>
  One step: it owes what it owed, or it sends the first response of it; a return on the way is
  that of a failed send.
\<close>

definition step_owes ::
  "('h, 'w) respond_api \<Rightarrow> ('w, 'h, bidi_stream_request, bidi_stream_response) channel \<Rightarrow> bidi_responder
   \<Rightarrow> bidi_stream_response list \<times> (status + any_msg list) \<Rightarrow> (bidi_stream_request result) list
   \<Rightarrow> (('w, 'h, bidi_stream_request, bidi_stream_response) channel \<times> respond_state, unit result) async_step \<Rightarrow> bool" where
  "step_owes A ch r ow xs st \<longleftrightarrow>
     (case st of
        Go (ch', s') \<Rightarrow> rb_responder s' = r \<and> respond_wf s' \<and>
          (ch' = ch \<and> ow = owed (ra_pb A) s' xs \<or>
           (\<exists>v. channel_send (e_codecs (ra_env A)) (ra_write A) ch v = (Inr (), ch') \<and>
              ow = apfst ((#) v) (owed (ra_pb A) s' xs)))
      | Suspend (ch', s') \<Rightarrow> rb_responder s' = r \<and> respond_wf s' \<and> ch' = ch \<and> ow = owed (ra_pb A) s' xs
      | Return res (ch', s') \<Rightarrow>
          (\<exists>e v vs out. res = Inl e \<and> channel_send (e_codecs (ra_env A)) (ra_write A) ch v = (Inl e, ch') \<and>
             ow = (v # vs, out)))"

lemma send_owes:
  assumes "ow = apfst ((#) (bidi_response (sd_response_data def ! rb_resp_num s) info))
      (owed (ra_pb A) (s\<lparr>rb_resp_num := rb_resp_num s + 1, rb_phase := ph\<rparr>) xs)"
    and "respond_wf (s\<lparr>rb_resp_num := rb_resp_num s + 1, rb_phase := ph\<rparr>)" and "rb_responder s = r"
  shows "step_owes A ch r ow xs (respond_send A ch s def info ph)"
proof -
  obtain x ch' where snd: "channel_send (e_codecs (ra_env A)) (ra_write A) ch
      (bidi_response (sd_response_data def ! rb_resp_num s) info) = (x, ch')" by fastforce
  show ?thesis
  proof (cases x)
    case (Inl e)
    with snd assms show ?thesis
      by (cases "owed (ra_pb A) (s\<lparr>rb_resp_num := rb_resp_num s + 1, rb_phase := ph\<rparr>) xs")
        (simp add: respond_send_def step_owes_def)
  next
    case (Inr u)
    with snd assms show ?thesis by (auto simp: respond_send_def step_owes_def)
  qed
qed

lemma request_owes:
  assumes ph: "rb_phase s = AwaitRequest" and wf: "respond_wf s"
    and ow: "ow = owed (ra_pb A) (s\<lparr>rb_first := None\<rparr>) (Inr q # xs)" and r: "rb_responder s = r"
  shows "step_owes A ch r ow xs (respond_request A ch s q)"
proof (cases "br_full_duplex r")
  case False
  with assms show ?thesis
    by (auto simp: respond_request_def step_owes_def owed_def respond_wf_def Let_def split: sum.split)
next
  case fd: True
  with wf ph r have reqs: "rb_requests s = []" by (simp add: respond_wf_def)
  show ?thesis
  proof (cases "rb_resp_num s < length (owed_data s)")
    case False
    with wf have "rb_resp_num s = length (owed_data s)" by (simp add: respond_wf_def)
    with False fd r ph ow reqs show ?thesis
      by (auto simp: respond_request_def step_owes_def owed_def respond_wf_def Let_def split: option.splits)
  next
    case True
    then obtain def where def: "br_def r = Some def" using r by (cases "br_def r") auto
    let ?i = "rb_resp_num s"
    let ?info = "if ?i = 0 then owed_info r [bidi_any (ra_pb A) q] else make_request_info [] None [bidi_any (ra_pb A) q]"
    have i: "?i < length (sd_response_data def)" using True def r by simp
    then have drop_i: "drop ?i (sd_response_data def) = sd_response_data def ! ?i # drop (Suc ?i) (sd_response_data def)"
      by (simp add: Cons_nth_drop_Suc)
    have owes: "ow = apfst ((#) (bidi_response (sd_response_data def ! ?i) (Some ?info)))
        (ping_pong (ra_pb A) r (Suc ?i) (drop (Suc ?i) (sd_response_data def)) xs)"
      using ow ph fd def r by (simp add: owed_def Let_def drop_i)
    let ?s = "s\<lparr>rb_first := None, rb_requests := []\<rparr>"
    show ?thesis
    proof (cases "0 < sd_response_delay_ms def")
      case True
      then have "respond_request A ch s q = Go (ch, ?s\<lparr>rb_phase := DelayAnswer Unstarted def ?info\<rparr>)"
        using fd def r i reqs by (simp add: respond_request_def Let_def owed_info_def not_le)
      with owes fd def r i show ?thesis
        by (simp add: step_owes_def owed_def Let_def respond_wf_def)
    next
      case False
      then have "respond_request A ch s q = respond_send A ch ?s def (Some ?info) AwaitRequest"
        using fd def r i reqs by (simp add: respond_request_def Let_def owed_info_def not_le)
      moreover have "step_owes A ch r ow xs (respond_send A ch ?s def (Some ?info) AwaitRequest)"
        using owes fd def r i by (intro send_owes) (simp_all add: owed_def Let_def respond_wf_def)
      ultimately show ?thesis by simp
    qed
  qed
qed

text \<open>How the loop ends when nothing is left to send.\<close>

definition respond_ends ::
  "('h, 'w) respond_api \<Rightarrow> bidi_responder \<Rightarrow> status + any_msg list \<Rightarrow> 'h \<Rightarrow> unit result \<Rightarrow> 'h \<Rightarrow> bool" where
  "respond_ends A r out tr res tr' \<longleftrightarrow>
     (case out of
        Inl e \<Rightarrow> res = Inl e \<and> tr' = tr
      | Inr details \<Rightarrow>
          (case Option.bind (br_def r) sd_error of
             None \<Rightarrow> res = Inr () \<and> tr' = tr
           | Some err \<Rightarrow> res = Inl (status_new (error_code err) (error_text err)) \<and>
               tr' = h_insert (e_headers (ra_env A)) tr (lit ''grpc-status-details-bin'')
                 (details_value (ra_env A) (ra_pb A) err (er_details err @ details))))"

text \<open>The steps that do not read the transport.\<close>

lemma flush_owes:
  assumes ph: "rb_phase s = Flush" and wf: "respond_wf s" and r: "rb_responder s = r"
  shows "(\<exists>res ch'. respond_step A o1 (ch, s) = Return res (ch', s) \<and> ch' = ch\<lparr>ch_response_trailers := ch_response_trailers ch'\<rparr> \<and>
      fst (owed (ra_pb A) s xs) = [] \<and>
      respond_ends A r (snd (owed (ra_pb A) s xs)) (ch_response_trailers ch) res (ch_response_trailers ch')) \<or>
    step_owes A ch r (owed (ra_pb A) s xs) xs (respond_step A o1 (ch, s))"
proof (cases "rb_resp_num s < length (owed_data s)")
  case False
  with wf have i: "rb_resp_num s = length (owed_data s)" by (simp add: respond_wf_def)
  show ?thesis
  proof (cases "Option.bind (br_def r) sd_error")
    case None
    with i False ph r show ?thesis
      by (intro disjI1) (auto simp: respond_step_def owed_def respond_ends_def Let_def split: option.splits)
  next
    case (Some err)
    then obtain def where def: "br_def r = Some def" "sd_error def = Some err" by (cases "br_def r") auto
    with i False ph r show ?thesis
      by (intro disjI1) (simp add: respond_step_def owed_def respond_ends_def Let_def status_from_error_def
          channel_trailers_mut_def owed_details_def owed_info_def error_code_def error_text_def details_value_def)
  qed
next
  case True
  then obtain def where def: "br_def r = Some def" using r by (cases "br_def r") auto
  let ?i = "rb_resp_num s"
  have i: "?i < length (sd_response_data def)" using True def r by simp
  then have drop_i: "drop ?i (sd_response_data def) = sd_response_data def ! ?i # drop (Suc ?i) (sd_response_data def)"
    by (simp add: Cons_nth_drop_Suc)
  let ?info = "if ?i = 0 then Some (owed_info r (rb_requests s)) else None"
  let ?s = "if ?i = 0 then s\<lparr>rb_requests := []\<rparr> else s"
  have owes: "owed (ra_pb A) s xs = (bidi_response (sd_response_data def ! ?i) ?info #
      flushed r (Suc ?i) reqs (drop (Suc ?i) (sd_response_data def)), Inr [])" for reqs
    using ph def r i flushed_later [of "Suc ?i" r "rb_requests s" _ reqs]
    by (auto simp: owed_def Let_def drop_i owed_details_def)
  have s: "rb_responder ?s = r" "rb_resp_num ?s = ?i" using r by simp_all
  show ?thesis
  proof (cases "0 < sd_response_delay_ms def")
    case True
    then have "respond_step A o1 (ch, s) = Go (ch, ?s\<lparr>rb_phase := DelayFlush Unstarted def ?info\<rparr>)"
      using ph def r i by (simp add: respond_step_def Let_def owed_info_def)
    with owes [of "[]"] def s i show ?thesis
      by (intro disjI2) (simp add: step_owes_def owed_def Let_def respond_wf_def)
  next
    case False
    then have "respond_step A o1 (ch, s) = respond_send A ch ?s def ?info Flush"
      using ph def r i by (simp add: respond_step_def Let_def owed_info_def)
    moreover have "step_owes A ch r (owed (ra_pb A) s xs) xs (respond_send A ch ?s def ?info Flush)"
      using owes [of "rb_requests ?s"] def s i i [THEN gr_implies_not0]
      by (intro send_owes) (simp_all add: owed_def [of _ "?s\<lparr>rb_resp_num := _, rb_phase := _\<rparr>"] Let_def
          respond_wf_def owed_details_def Suc_le_eq)
    ultimately show ?thesis by simp
  qed
qed

lemma delay_owes:
  assumes ph: "rb_phase s = DelayAnswer t def info \<or> (\<exists>oinfo. rb_phase s = DelayFlush t def oinfo)"
    and wf: "respond_wf s" and r: "rb_responder s = r"
  shows "step_owes A ch r (owed (ra_pb A) s xs) xs (respond_step A o1 (ch, s))"
proof -
  obtain p t' where sl: "sleep_poll (ra_delay A) (from_millis (unat (sd_response_delay_ms def))) o1 t = (p, t')" by fastforce
  let ?i = "rb_resp_num s"
  from ph show ?thesis
  proof (elim disjE exE)
    assume ph: "rb_phase s = DelayAnswer t def info"
    with wf r have w: "rb_first s = None" "br_full_duplex r" "rb_requests s = []" "br_def r = Some def"
      "?i < length (sd_response_data def)" by (auto simp: respond_wf_def)
    show ?thesis
    proof (cases p)
      case Pending
      with ph sl w r show ?thesis by (simp add: respond_step_def step_owes_def Let_def owed_def respond_wf_def)
    next
      case (Ready u)
      then have "respond_step A o1 (ch, s) = respond_send A ch s def (Some info) AwaitRequest"
        using ph sl by (simp add: respond_step_def Let_def)
      moreover have "step_owes A ch r (owed (ra_pb A) s xs) xs (respond_send A ch s def (Some info) AwaitRequest)"
        using ph w r by (intro send_owes) (simp_all add: owed_def Let_def respond_wf_def Suc_le_eq)
      ultimately show ?thesis by simp
    qed
  next
    fix oinfo
    assume ph: "rb_phase s = DelayFlush t def oinfo"
    with wf r have w: "br_def r = Some def" "?i < length (sd_response_data def)" by (auto simp: respond_wf_def)
    show ?thesis
    proof (cases p)
      case Pending
      with ph sl w r show ?thesis by (simp add: respond_step_def step_owes_def Let_def owed_def respond_wf_def)
    next
      case (Ready u)
      then have "respond_step A o1 (ch, s) = respond_send A ch s def oinfo Flush"
        using ph sl by (simp add: respond_step_def Let_def)
      moreover have "step_owes A ch r (owed (ra_pb A) s xs) xs (respond_send A ch s def oinfo Flush)"
        using ph w r flushed_later [of "Suc ?i" r "rb_requests s" _ "[]"]
        by (intro send_owes) (auto simp add: owed_def Let_def respond_wf_def Suc_le_eq owed_details_def)
      ultimately show ?thesis by simp
    qed
  qed
qed

section \<open>The whole loop\<close>

abbreviation send_frame ::
  "('h, 'w) respond_api \<Rightarrow> ('w, 'h, 'q, 'p) channel \<Rightarrow> 'p \<Rightarrow> bytes result" where
  "send_frame A ch \<equiv> frame_item (e_codecs (ra_env A)) (ch_encode ch) (ch_outbound_encoding ch)"

text \<open>
  The invariant: the channel is the initial one but for its transport and its reader, the
  responses sent so far are on the transport, and with what the loop still owes they are what
  was asked for.
\<close>

definition respond_inv ::
  "('h, 'w) respond_api \<Rightarrow> ('w \<Rightarrow> bytes) \<Rightarrow> ('w \<Rightarrow> bytes) \<Rightarrow> ('w \<Rightarrow> bool) \<Rightarrow> bidi_responder
   \<Rightarrow> bidi_stream_response list \<times> (status + any_msg list)
   \<Rightarrow> ('w, 'h, bidi_stream_request, bidi_stream_response) channel
   \<Rightarrow> ('w, 'h, bidi_stream_request, bidi_stream_response) channel \<times> respond_state \<Rightarrow> bool" where
  "respond_inv A content written good r spec ch0 cs \<longleftrightarrow>
     (case cs of (ch, s) \<Rightarrow>
        (\<exists>st w. ch = ch0\<lparr>ch_state := st, ch_upgrade := w\<rparr>) \<and> rb_responder s = r \<and> respond_wf s \<and>
        message_sound good (channel_stream ch) \<and>
        (\<exists>sent frames. list_all2 (\<lambda>v f. send_frame A ch0 v = Inr f) sent frames \<and>
           written (ch_upgrade ch) = written (ch_upgrade ch0) @ concat frames \<and>
           spec = apfst ((@) sent)
             (owed (ra_pb A) s (message_todo (e_codecs (ra_env A)) content (channel_stream ch)))))"

text \<open>What a \<open>recv\<close> does to the invariant's parts.\<close>

context live_source begin

lemma stream_source:
  "item_source (poll_next C poll_read) (message_todo C content) (message_sound good) (\<lambda>s. delay (ms_reader s))"
  by (rule messages.item_source_axioms)

lemma kept_source:
  assumes "\<And>w n p w'. poll_read w n = (p, w') \<Longrightarrow> f w' = f w"
  shows "live_source poll_read content (\<lambda>w. good w \<and> f w = x) delay"
proof
  show "good r' \<and> f r' = x" if "good r \<and> f r = x" "poll_read r n = (p, r')" for r n p r'
    using that keep assms by blast
qed (auto intro: chunk at_end pending pending_delay ready_delay simp: no_error)

end

lemma channel_recv_step:
  assumes dx: "duplex_ok poll_read write_all content written good delay"
    and sound: "message_sound good (channel_stream ch)" and r: "channel_recv C poll_read ch = (p, ch')"
  shows "message_sound good (channel_stream ch') \<and> written (ch_upgrade ch') = written (ch_upgrade ch) \<and>
    (case p of
       Pending \<Rightarrow> message_todo C content (channel_stream ch') = message_todo C content (channel_stream ch)
     | Ready None \<Rightarrow> message_todo C content (channel_stream ch) = []
     | Ready (Some x) \<Rightarrow> message_todo C content (channel_stream ch) = x # message_todo C content (channel_stream ch'))"
proof -
  let ?good = "\<lambda>w. good w \<and> written w = written (ch_upgrade ch)"
  have ls: "live_source poll_read content good delay" using dx by (simp add: duplex_ok_def)
  have keep: "\<And>w n p w'. poll_read w n = (p, w') \<Longrightarrow> written w' = written w" using dx by (simp add: duplex_ok_def)
  have ls': "live_source poll_read content ?good delay"
    by (rule live_source.kept_source [OF ls keep])
  have "message_sound ?good (channel_stream ch)" using sound by (simp add: message_sound_def channel_stream_def)
  moreover have n: "poll_next C poll_read (channel_stream ch) = (p, channel_stream ch')"
    by (simp add: poll_next_channel r)
  moreover note src = live_source.stream_source [OF ls', of C]
  ultimately have "message_sound ?good (channel_stream ch')" by (blast intro: item_source.item_keep)
  then have "message_sound good (channel_stream ch')" "written (ch_upgrade ch') = written (ch_upgrade ch)"
    by (auto simp: message_sound_def channel_stream_def)
  with live_source.stream_source [OF ls, of C] n sound show ?thesis
    by (auto dest: item_source.item_pending item_source.item_end item_source.item_next split: poll.split option.split)
qed

lemma channel_send_step:
  assumes dx: "duplex_ok poll_read write_all content written good delay"
    and sound: "message_sound good (channel_stream ch)" and snd: "channel_send C write_all ch v = (Inr (), ch')"
  shows "\<exists>f w. frame_item C (ch_encode ch) (ch_outbound_encoding ch) v = Inr f \<and> ch' = ch\<lparr>ch_upgrade := w\<rparr> \<and>
    written w = written (ch_upgrade ch) @ f \<and> message_sound good (channel_stream ch') \<and>
    message_todo C content (channel_stream ch') = message_todo C content (channel_stream ch)"
proof -
  from snd obtain f w where f: "frame_item C (ch_encode ch) (ch_outbound_encoding ch) v = Inr f"
    and w: "write_all (ch_upgrade ch) f = (Inr (), w)" and ch': "ch' = ch\<lparr>ch_upgrade := w\<rparr>"
    by (auto simp: channel_send_Inr frame_item_def)
  have "good (ch_upgrade ch)" using sound by (simp add: message_sound_def channel_stream_def)
  with dx w have "good w" "content w = content (ch_upgrade ch)" unfolding duplex_ok_def by blast+
  moreover have sink: "byte_sink write_all written" using dx by (simp add: duplex_ok_def)
  moreover note byte_sink.write_ok [OF sink w]
  ultimately show ?thesis
    using f ch' sound
    by (intro exI [of _ f] exI [of _ w]) (simp add: message_sound_def message_todo_def channel_stream_def remaining_def)
qed

text \<open>Every step that goes on, and every return, from a state of the invariant.\<close>

lemma respond_inv_owes:
  assumes dx: "duplex_ok (ra_read A) (ra_write A) content written good delay"
    and ch: "\<exists>st w. ch = ch0\<lparr>ch_state := st, ch_upgrade := w\<rparr>" and sound: "message_sound good (channel_stream ch)"
    and sent: "list_all2 (\<lambda>v f. send_frame A ch0 v = Inr f) sent frames"
      "written (ch_upgrade ch) = written (ch_upgrade ch0) @ concat frames" "spec = apfst ((@) sent) ow"
    and owes: "step_owes A ch r ow (message_todo (e_codecs (ra_env A)) content (channel_stream ch)) st"
  shows "case st of
      Go cs \<Rightarrow> respond_inv A content written good r spec ch0 cs
    | Suspend cs \<Rightarrow> respond_inv A content written good r spec ch0 cs
    | Return res (ch', s') \<Rightarrow> \<exists>e v vs out. res = Inl e \<and> spec = (sent @ v # vs, out) \<and>
        channel_send (e_codecs (ra_env A)) (ra_write A) ch v = (Inl e, ch')"
proof (cases st)
  case (Go cs)
  obtain ch' s' where cs: "cs = (ch', s')" by (cases cs)
  let ?todo = "\<lambda>ch. message_todo (e_codecs (ra_env A)) content (channel_stream ch)"
  from owes Go cs have s': "rb_responder s' = r" "respond_wf s'"
    and step: "ch' = ch \<and> ow = owed (ra_pb A) s' (?todo ch) \<or>
      (\<exists>v. channel_send (e_codecs (ra_env A)) (ra_write A) ch v = (Inr (), ch') \<and>
         ow = apfst ((#) v) (owed (ra_pb A) s' (?todo ch)))"
    by (auto simp: step_owes_def)
  from step have "respond_inv A content written good r spec ch0 cs"
  proof (elim disjE exE conjE)
    assume "ch' = ch" "ow = owed (ra_pb A) s' (?todo ch)"
    with s' ch sound sent show ?thesis unfolding respond_inv_def cs by auto
  next
    fix v
    assume snd: "channel_send (e_codecs (ra_env A)) (ra_write A) ch v = (Inr (), ch')"
      and ow: "ow = apfst ((#) v) (owed (ra_pb A) s' (?todo ch))"
    from channel_send_step [OF dx sound snd] ch obtain f w where
      f: "send_frame A ch0 v = Inr f" "ch' = ch\<lparr>ch_upgrade := w\<rparr>" "written w = written (ch_upgrade ch) @ f"
      and keep: "message_sound good (channel_stream ch')" "?todo ch' = ?todo ch" by auto
    have "list_all2 (\<lambda>v f. send_frame A ch0 v = Inr f) (sent @ [v]) (frames @ [f])"
      using sent(1) f(1) by (simp add: list_all2_appendI)
    moreover have "spec = apfst ((@) (sent @ [v])) (owed (ra_pb A) s' (?todo ch'))"
      using sent(3) ow keep(2) by (cases "owed (ra_pb A) s' (?todo ch)") simp
    moreover have "written (ch_upgrade ch') = written (ch_upgrade ch0) @ concat (frames @ [f])"
      using sent(2) f by simp
    moreover have "\<exists>st w. ch' = ch0\<lparr>ch_state := st, ch_upgrade := w\<rparr>"
      using ch by (elim exE, intro exI [of _ "ch_state ch"] exI [of _ w]) (simp add: f(2))
    ultimately show ?thesis unfolding respond_inv_def cs using s' keep(1) by blast
  qed
  with Go show ?thesis by simp
next
  case (Suspend cs)
  with owes ch sound sent show ?thesis
    by (cases cs) (auto simp: step_owes_def respond_inv_def)
next
  case (Return res cs)
  with owes sent(3) show ?thesis by (cases cs) (auto simp: step_owes_def)
qed

lemma respond_inv_step:
  assumes dx: "duplex_ok (ra_read A) (ra_write A) content written good delay"
    and inv1: "respond_inv A content written good r spec ch0 cs"
  shows "case respond_step A o1 cs of
      Go cs' \<Rightarrow> respond_inv A content written good r spec ch0 cs'
    | Suspend cs' \<Rightarrow> respond_inv A content written good r spec ch0 cs'
    | Return res (ch', s') \<Rightarrow> \<exists>sent frames. list_all2 (\<lambda>v f. send_frame A ch0 v = Inr f) sent frames \<and>
        ((\<exists>ch e v vs out. res = Inl e \<and> spec = (sent @ v # vs, out) \<and>
           channel_send (e_codecs (ra_env A)) (ra_write A) ch v = (Inl e, ch') \<and>
           written (ch_upgrade ch) = written (ch_upgrade ch0) @ concat frames) \<or>
         (fst spec = sent \<and> written (ch_upgrade ch') = written (ch_upgrade ch0) @ concat frames \<and>
          respond_ends A r (snd spec) (ch_response_trailers ch0) res (ch_response_trailers ch')))"
proof -
  let ?todo = "\<lambda>ch. message_todo (e_codecs (ra_env A)) content (channel_stream ch)"
  obtain ch s where cs: "cs = (ch, s)" by (cases cs)
  from inv1 cs obtain sent frames where ch: "\<exists>st w. ch = ch0\<lparr>ch_state := st, ch_upgrade := w\<rparr>"
    and s: "rb_responder s = r" "respond_wf s" and sound: "message_sound good (channel_stream ch)"
    and sent: "list_all2 (\<lambda>v f. send_frame A ch0 v = Inr f) sent frames"
      "written (ch_upgrade ch) = written (ch_upgrade ch0) @ concat frames"
    and spec: "spec = apfst ((@) sent) (owed (ra_pb A) s (?todo ch))"
    unfolding respond_inv_def by auto
  note owing = respond_inv_owes [OF dx _ _ sent(1)]
  have plain: ?thesis if "step_owes A ch r (owed (ra_pb A) s (?todo ch)) (?todo ch) (respond_step A o1 cs)"
    using owing [OF ch sound sent(2) spec that] sent
    by (cases "respond_step A o1 cs") (auto split: prod.splits, blast)
  show ?thesis
  proof (cases "rb_phase s")
    case AwaitRequest
    show ?thesis
    proof (cases "rb_first s")
      case (Some q)
      have "respond_step A o1 cs = respond_request A ch s q"
        using AwaitRequest Some cs by (simp add: respond_step_def Let_def)
      moreover have "step_owes A ch r (owed (ra_pb A) s (?todo ch)) (?todo ch) (respond_request A ch s q)"
        using AwaitRequest Some s by (intro request_owes) (simp_all add: owed_def Let_def split: sum.split)
      ultimately show ?thesis using plain by simp
    next
      case None
      obtain p ch' where recv: "channel_recv (e_codecs (ra_env A)) (ra_read A) ch = (p, ch')" by fastforce
      from channel_recv_step [OF dx sound recv] have sound': "message_sound good (channel_stream ch')"
        and written': "written (ch_upgrade ch') = written (ch_upgrade ch0) @ concat frames"
        using sent(2) by auto
      have ch': "\<exists>st w. ch' = ch0\<lparr>ch_state := st, ch_upgrade := w\<rparr>"
        using channel_recv_fields [OF recv] ch
        by (elim exE, intro exI [of _ "ch_state ch'"] exI [of _ "ch_upgrade ch'"]) simp
      note read = channel_recv_step [OF dx sound recv]
      note owing' = owing [OF ch' sound' written']
      have step: "respond_step A o1 cs =
          (case p of Pending \<Rightarrow> Suspend (ch', s) | Ready None \<Rightarrow> Go (ch', s\<lparr>rb_phase := Flush\<rparr>)
           | Ready (Some (Inl e)) \<Rightarrow> Return (Inl e) (ch', s) | Ready (Some (Inr q)) \<Rightarrow> respond_request A ch' s q)"
        using AwaitRequest None cs recv by (simp add: respond_step_def Let_def split: poll.split option.split sum.split)
      consider "p = Pending" | "p = Ready None" | e where "p = Ready (Some (Inl e))" | q where "p = Ready (Some (Inr q))"
        by (metis option.exhaust poll.exhaust sum.exhaust)
      then show ?thesis
      proof cases
        case 1
        with read have "?todo ch' = ?todo ch" by simp
        with 1 step ch' s sound' sent(1) written' spec show ?thesis by (auto simp: respond_inv_def)
      next
        case 2
        with read have "?todo ch = []" by simp
        then have "owed (ra_pb A) s (?todo ch) = owed (ra_pb A) (s\<lparr>rb_phase := Flush\<rparr>) (?todo ch')"
          using AwaitRequest None s by (auto simp: owed_def respond_wf_def Let_def)
        moreover have "respond_wf (s\<lparr>rb_phase := Flush\<rparr>)" using s(2) by (simp add: respond_wf_def)
        ultimately show ?thesis using 2 step ch' s sound' sent(1) written' spec by (auto simp: respond_inv_def)
      next
        case (3 e)
        with read have "owed (ra_pb A) s (?todo ch) = ([], Inl e)"
          using AwaitRequest None by (simp add: owed_def Let_def)
        with 3 step spec sent(1) written' ch' show ?thesis
          by (auto simp: respond_ends_def intro!: exI [of _ sent] exI [of _ frames])
      next
        case (4 q)
        have "step_owes A ch' r (owed (ra_pb A) s (?todo ch)) (?todo ch') (respond_request A ch' s q)"
          using AwaitRequest None s 4 read by (intro request_owes) (simp_all add: owed_def Let_def split: sum.split)
        from owing' [OF spec this] 4 step sent(1) written' show ?thesis
          by (cases "respond_request A ch' s q") (auto split: prod.splits, blast)
      qed
    qed
  next
    case Flush
    from flush_owes [OF this s(2,1), of A o1 ch "?todo ch"] show ?thesis
    proof
      assume "\<exists>res ch'. respond_step A o1 (ch, s) = Return res (ch', s) \<and>
        ch' = ch\<lparr>ch_response_trailers := ch_response_trailers ch'\<rparr> \<and> fst (owed (ra_pb A) s (?todo ch)) = [] \<and>
        respond_ends A r (snd (owed (ra_pb A) s (?todo ch))) (ch_response_trailers ch) res (ch_response_trailers ch')"
      then obtain res ch' where ret: "respond_step A o1 (ch, s) = Return res (ch', s)"
        and ch'': "ch' = ch\<lparr>ch_response_trailers := ch_response_trailers ch'\<rparr>"
        and ow: "fst (owed (ra_pb A) s (?todo ch)) = []"
        and ends: "respond_ends A r (snd (owed (ra_pb A) s (?todo ch))) (ch_response_trailers ch) res (ch_response_trailers ch')"
        by blast
      have "ch_upgrade ch' = ch_upgrade ch" using arg_cong [OF ch'', of ch_upgrade] by simp
      moreover have "ch_response_trailers ch = ch_response_trailers ch0" using ch by auto
      ultimately show ?thesis using ret ow ends sent spec cs
        by (auto intro!: exI [of _ sent] exI [of _ frames])
    next
      assume "step_owes A ch r (owed (ra_pb A) s (?todo ch)) (?todo ch) (respond_step A o1 (ch, s))"
      with plain cs show ?thesis by simp
    qed
  next
    case (DelayAnswer t def info)
    with delay_owes [of s t def info r A ch "?todo ch" o1] s plain cs show ?thesis by simp
  next
    case (DelayFlush t def info)
    with delay_owes [of s t def undefined r A ch "?todo ch" o1] s plain cs show ?thesis by simp
  qed
qed

text \<open>All of the definition's data is asked for, unless a request is an error.\<close>

abbreviation response_data :: "bidi_stream_response \<Rightarrow> bytes option" where
  "response_data v \<equiv> map_option cp_data (bs_payload v)"

lemma flushed_data: "map response_data (flushed r i reqs ds) = map Some ds"
  by (induction r i reqs ds rule: flushed.induct) (simp_all add: bidi_response_def)

lemma ping_pong_data: "snd (ping_pong P r i ds xs) = Inr details \<Longrightarrow>
    map response_data (fst (ping_pong P r i ds xs)) = map Some ds"
  by (induction P r i ds xs rule: ping_pong.induct) (auto simp: flushed_data bidi_response_def)

lemma bidi_responses_data:
  "snd (bidi_responses P r xs) = Inr details \<Longrightarrow> map response_data (fst (bidi_responses P r xs)) =
     map Some (case br_def r of None \<Rightarrow> [] | Some def \<Rightarrow> sd_response_data def)"
  by (auto simp: bidi_responses_def Let_def flushed_data ping_pong_data split: if_splits sum.splits)

lemma apfst_Nil: "apfst ((@) []) x = x"
  by (cases x) simp

lemma drive_respond:
  assumes dx: "duplex_ok (ra_read A) (ra_write A) content written good delay"
    and inv1: "respond_inv A content written good r spec ch0 cs"
    and run: "drive (respond_poll fuel A) os cs = Some (res, (ch', s'))"
  shows "\<exists>sent frames. list_all2 (\<lambda>v f. send_frame A ch0 v = Inr f) sent frames \<and>
    ((\<exists>ch e v vs out. res = Inl e \<and> spec = (sent @ v # vs, out) \<and>
       channel_send (e_codecs (ra_env A)) (ra_write A) ch v = (Inl e, ch') \<and>
       written (ch_upgrade ch) = written (ch_upgrade ch0) @ concat frames) \<or>
     (fst spec = sent \<and> written (ch_upgrade ch') = written (ch_upgrade ch0) @ concat frames \<and>
      respond_ends A r (snd spec) (ch_response_trailers ch0) res (ch_response_trailers ch')))"
proof -
  have keeps: "step_keeps (respond_step A) (set os) (respond_inv A content written good r spec ch0)"
    unfolding step_keeps_def
  proof (intro ballI allI impI)
    fix o1 cs cs'
    assume "respond_inv A content written good r spec ch0 cs"
      and "respond_step A o1 cs = Go cs' \<or> respond_step A o1 cs = Suspend cs'"
    with respond_inv_step [OF dx, of r spec ch0 cs o1] show "respond_inv A content written good r spec ch0 cs'" by auto
  qed
  from drive_steps [OF keeps inv1 run [unfolded respond_poll_def]]
  obtain o1 cs1 where "respond_inv A content written good r spec ch0 cs1" "respond_step A o1 cs1 = Return res (ch', s')"
    by blast
  with respond_inv_step [OF dx, of r spec ch0 cs1 o1] show ?thesis by simp
qed

section \<open>The prologue leaves the rest of the body\<close>

text \<open>A reader that has yielded a message holds no byte of the next.\<close>

lemma read_message_fresh:
  "poll_read_message C poll_read decode enc max_size st r = (Ready (Some (Inr v)), st', r') \<Longrightarrow> st' = read_state_new"
  by (induction C poll_read decode enc max_size st r rule: poll_read_message.induct)
    (auto simp: Let_def split: prod.splits fill.splits if_splits)

lemma request_recv_fresh:
  "request_recv C poll_read s = (Ready (Inr (Some q)), s') \<Longrightarrow> rs_state s' = read_state_new"
  by (auto simp: request_recv_def poll_message_def split: prod.splits poll.splits option.splits sum.splits
      dest: read_message_fresh)

lemma request_recv_static:
  "request_recv C poll_read s = (p, s') \<Longrightarrow> rs_decode s' = rs_decode s \<and> rs_encoding s' = rs_encoding s \<and>
     rs_max_message_size s' = rs_max_message_size s"
  by (auto simp: request_recv_def poll_message_def split: prod.splits poll.splits option.splits sum.splits)

fun prologue_inv ::
  "codecs \<Rightarrow> ('r \<Rightarrow> bytes) \<Rightarrow> ('r \<Rightarrow> bool) \<Rightarrow> bidi_stream_request codec \<Rightarrow> ('h, 'r, 'b, 'u) grpc_conn
   \<Rightarrow> ('h, 'r, 'b, 'u) grpc_conn \<times> 'r prologue_state \<Rightarrow> bool" where
  "prologue_inv C content good K g0 (g, PrologueStart) \<longleftrightarrow> g = g0"
| "prologue_inv C content good K g0 (g, PrologueRead hs t stream) \<longleftrightarrow> body_read g0 g \<and>
     message_sound good (ms_of stream) \<and> rs_decode stream = decode_msg K \<and> rs_encoding stream = gc_request_encoding g0 \<and>
     rs_max_message_size stream = DEFAULT_MAX_MESSAGE_SIZE \<and>
     items C (decode_msg K) (gc_request_encoding g0) DEFAULT_MAX_MESSAGE_SIZE (content (cn_request_body (gc_conn g0)))
       = message_todo C content (ms_of stream)"

context live_source begin

lemma prologue_read_result:
  assumes inv0: "prologue_inv (e_codecs E) content good K g0 (g, PrologueRead hs t stream)"
    and r: "prologue_read E poll_read hs t stream g = (p, (g', st))"
  defines "xs \<equiv> \<lambda>g. items (e_codecs E) (decode_msg K) (gc_request_encoding g0) DEFAULT_MAX_MESSAGE_SIZE
      (content (cn_request_body (gc_conn g)))"
  shows "case p of
      Pending \<Rightarrow> prologue_inv (e_codecs E) content good K g0 (g', st)
    | Ready (Inl e) \<Rightarrow> \<exists>rest. xs g0 = Inl e # rest
    | Ready (Inr r) \<Rightarrow> (case br_first r of None \<Rightarrow> xs g0 = [] | Some q \<Rightarrow> xs g0 = Inr q # xs g')"
proof -
  obtain q s1 where recv: "request_recv (e_codecs E) poll_read stream = (q, s1)" by fastforce
  have sound: "message_sound good (ms_of stream)" using inv0 by simp
  note step = request_recv_step [OF sound recv] request_recv_static [OF recv]
  have todo: "xs g0 = message_todo (e_codecs E) content (ms_of stream)" using inv0 by (simp add: xs_def)
  consider "q = Pending" | e where "q = Ready (Inl e)" | "q = Ready (Inr None)" | m where "q = Ready (Inr (Some m))"
    by (metis option.exhaust poll.exhaust sum.exhaust)
  then show ?thesis
  proof cases
    case 1
    with r recv have "p = Pending" "g' = give_back s1 g" "st = PrologueRead hs t s1" by (simp_all add: prologue_read_def)
    moreover have "body_read g0 (give_back s1 g)"
      using inv0 by (auto simp: body_read_def give_back_def)
    ultimately show ?thesis using 1 step inv0 todo by (auto simp: xs_def)
  next
    case (2 e)
    with r recv have "p = Ready (Inl e)" by (simp add: prologue_read_def)
    with 2 step todo show ?thesis by auto
  next
    case 3
    with r recv obtain r' where "p = Ready (Inr r')" "br_first r' = None" by (auto simp: prologue_read_def)
    with 3 step todo show ?thesis by simp
  next
    case (4 m)
    with r recv obtain r' where p: "p = Ready (Inr r')" "br_first r' = Some m"
      and g': "cn_request_body (gc_conn g') = rs_reader s1"
      by (auto simp: prologue_read_def Let_def give_back_def response_trailers_mut_def response_headers_mut_def
          conn_do_def split: option.splits)
    have "rs_state s1 = read_state_new" by (rule request_recv_fresh [OF recv [unfolded 4]])
    then have "message_todo (e_codecs E) content (ms_of s1) = xs g'"
      using step(2) inv0 g' by (simp add: message_todo_def ms_of_def xs_def items_of_stream)
    with 4 step(1) todo p show ?thesis by simp
  qed
qed

lemma prologue_result:
  assumes "good (cn_request_body (gc_conn g0))"
  shows "prologue_inv (e_codecs E) content good K g0 gs \<Longrightarrow>
    drive (bidi_stream_poll E poll_read K) os gs = Some (res, (g', st)) \<Longrightarrow>
    (case res of
       Inl e \<Rightarrow> \<exists>rest. items (e_codecs E) (decode_msg K) (gc_request_encoding g0) DEFAULT_MAX_MESSAGE_SIZE
         (content (cn_request_body (gc_conn g0))) = Inl e # rest
     | Inr r \<Rightarrow> (case br_first r of
         None \<Rightarrow> items (e_codecs E) (decode_msg K) (gc_request_encoding g0) DEFAULT_MAX_MESSAGE_SIZE
           (content (cn_request_body (gc_conn g0))) = []
       | Some q \<Rightarrow> items (e_codecs E) (decode_msg K) (gc_request_encoding g0) DEFAULT_MAX_MESSAGE_SIZE
           (content (cn_request_body (gc_conn g0))) = Inr q #
           items (e_codecs E) (decode_msg K) (gc_request_encoding g0) DEFAULT_MAX_MESSAGE_SIZE
             (content (cn_request_body (gc_conn g')))))"
proof (induction os arbitrary: gs)
  case (Cons o1 os)
  obtain g ph where gs: "gs = (g, ph)" by (cases gs)
  obtain p g1 st1 where poll: "bidi_stream_poll E poll_read K o1 gs = (p, (g1, st1))" by (metis prod_cases3)
  have start: "prologue_inv (e_codecs E) content good K g0 (g0, PrologueRead hs t (requests K g0))" for hs t
    using requests_sound [of good g0 K "e_codecs E" content] assms
    by (auto simp: body_read_def requests_def request_stream_new_def intro: exI [of _ "cn_request_body (gc_conn g0)"])
  have "\<exists>hs t stream. prologue_inv (e_codecs E) content good K g0 (g, PrologueRead hs t stream) \<and>
      prologue_read E poll_read hs t stream g = (p, (g1, st1))"
  proof (cases ph)
    case PrologueStart
    with Cons.prems(1) poll gs start show ?thesis by (metis bidi_stream_poll.simps(1) prologue_inv.simps(1))
  next
    case (PrologueRead hs t stream)
    with Cons.prems(1) poll gs show ?thesis by (metis bidi_stream_poll.simps(2))
  qed
  then obtain hs t stream where i: "prologue_inv (e_codecs E) content good K g0 (g, PrologueRead hs t stream)"
    and rd: "prologue_read E poll_read hs t stream g = (p, (g1, st1))" by blast
  show ?case
  proof (cases p)
    case Pending
    with prologue_read_result [OF i rd] Cons.IH [of "(g1, st1)"] Cons.prems(2) poll show ?thesis by simp
  next
    case (Ready x)
    with Cons.prems(2) poll have "x = res" "g1 = g'" by simp_all
    with prologue_read_result [OF i rd] Ready show ?thesis by (simp split: sum.splits option.splits)
  qed
qed simp

end

section \<open>Properties\<close>

text \<open>
  C29: The responder of a conformance bidirectional call sends what its definition and the
  requests ask for, whatever the polls, the delays and the number of steps per poll: when the
  loop returns, either every response of the reference has been written to the transport, in
  order and framed, and the result and the trailers are the reference's (a request's error, the
  definition's error with its details, or \<open>Ok\<close>); or a send failed, its error is the result, and
  the responses before it have been written. The reference answers each request in full duplex
  and all of them at the end in half duplex, and asks for all the data of the definition, each
  once, unless a request is an error.
\<close>

theorem conformance_bidi:
  assumes "duplex_ok (ra_read A) (ra_write A) content written good delay" and "good upgrade"
    and "drive (respond_poll fuel A) os
      (channel_new upgrade tr decode encode inbound outbound, respond_start r) = Some (res, (ch', s'))"
  shows "let spec = bidi_responses (ra_pb A) r ((case br_first r of Some q \<Rightarrow> [Inr q] | None \<Rightarrow> []) @
        items (e_codecs (ra_env A)) decode inbound DEFAULT_MAX_MESSAGE_SIZE (content upgrade)) in
    (\<forall>details. snd spec = Inr details \<longrightarrow> map response_data (fst spec) =
       map Some (case br_def r of None \<Rightarrow> [] | Some def \<Rightarrow> sd_response_data def)) \<and>
    (\<exists>sent frames. list_all2 (\<lambda>v f. frame_item (e_codecs (ra_env A)) encode outbound v = Inr f) sent frames \<and>
      ((\<exists>ch e v vs out. res = Inl e \<and> spec = (sent @ v # vs, out) \<and>
         channel_send (e_codecs (ra_env A)) (ra_write A) ch v = (Inl e, ch') \<and>
         written (ch_upgrade ch) = written upgrade @ concat frames) \<or>
       (fst spec = sent \<and> written (ch_upgrade ch') = written upgrade @ concat frames \<and>
        respond_ends A r (snd spec) tr res (ch_response_trailers ch'))))"
proof -
  let ?ch = "channel_new upgrade tr decode encode inbound outbound"
  let ?xs = "items (e_codecs (ra_env A)) decode inbound DEFAULT_MAX_MESSAGE_SIZE (content upgrade)"
  let ?spec = "bidi_responses (ra_pb A) r ((case br_first r of Some q \<Rightarrow> [Inr q] | None \<Rightarrow> []) @ ?xs)"
  have todo: "message_todo (e_codecs (ra_env A)) content (channel_stream ?ch) = ?xs"
    by (simp add: message_todo_def channel_stream_def channel_new_def items_of_stream)
  have ch: "\<exists>st w. ?ch = ?ch\<lparr>ch_state := st, ch_upgrade := w\<rparr>"
    by (intro exI [of _ "ch_state ?ch"] exI [of _ "ch_upgrade ?ch"]) simp
  have "message_sound good (channel_stream ?ch)"
    using assms(2) by (auto simp: message_sound_def channel_stream_def channel_new_def)
  then have "respond_inv A content written good r ?spec ?ch (?ch, respond_start r)"
    unfolding respond_inv_def prod.case todo owed_start using ch
    by (auto simp: respond_wf_start intro!: exI [of _ "[]"]) (simp_all add: respond_start_def apfst_Nil)
  from drive_respond [OF assms(1) this assms(3)] bidi_responses_data show ?thesis
    by (auto simp: Let_def channel_new_def)
qed

text \<open>A transport for examples: what is left to read, and what has been written.\<close>

definition pair_read :: "(bytes \<times> bytes) poll_read_fn" where
  "pair_read w n = (Ready (Inr (take n (fst w))), (drop n (fst w), snd w))"

definition pair_write :: "(bytes \<times> bytes) write_fn" where
  "pair_write w bs = (Inr (), (fst w, snd w @ bs))"

interpretation pair_source: live_source pair_read fst "\<lambda>_. True" "\<lambda>_. 0"
  by unfold_locales (auto simp: pair_read_def)

interpretation pair_sink: byte_sink pair_write snd
  by unfold_locales (auto simp: pair_write_def)

lemma duplex_ok_pair: "duplex_ok pair_read pair_write fst snd (\<lambda>_. True) (\<lambda>_. 0)"
  by (auto simp: duplex_ok_def pair_source.live_source_axioms pair_sink.byte_sink_axioms pair_read_def pair_write_def)

definition example_respond_api :: "((str, str list) alist, bytes \<times> bytes) respond_api" where
  "example_respond_api = \<lparr>ra_env = example_env, ra_pb = example_pb, ra_delay = exact_delay,
     ra_read = pair_read, ra_write = pair_write\<rparr>"

text \<open>One request in full duplex against a definition with two data: the second is flushed.\<close>

definition example_responder :: bidi_responder where
  "example_responder = \<lparr>br_request_headers = [], br_timeout_ms = None,
     br_def = Some (example_stream_definition\<lparr>sd_response_delay_ms := 0\<rparr>), br_full_duplex = True,
     br_first = Some \<lparr>bsr_response_definition = None, bsr_full_duplex = True, bsr_request_data = []\<rparr>\<rparr>"

theorem conformance_bidi_witness:
  "\<exists>ch' s'. drive (respond_poll 9 example_respond_api) [\<lparr>ob_shutdown = False, ob_now = 0\<rparr>]
      (channel_new ([], []) DAList.empty (\<lambda>_. Inl status_ok)
         (\<lambda>v. Inr (case response_data v of Some d \<Rightarrow> d | None \<Rightarrow> [])) Identity Identity,
       respond_start example_responder) = Some (Inr (), (ch', s')) \<and>
    snd (ch_upgrade ch') = [0, 0, 0, 0, 1, 7, 0, 0, 0, 0, 1, 8]"
proof -
  let ?enc = "\<lambda>v. Inr (case response_data v of Some d \<Rightarrow> d | None \<Rightarrow> []) :: bytes result"
  let ?dec = "\<lambda>_. Inl status_ok :: bidi_stream_request result"
  let ?ch = "channel_new ([], []) DAList.empty ?dec ?enc Identity Identity
    :: (bytes \<times> bytes, (str, str list) alist, bidi_stream_request, bidi_stream_response) channel"
  have codecs: "e_codecs example_env = prefix_codecs" by (simp add: example_env_def)
  obtain ch' s' where run: "drive (respond_poll 9 example_respond_api) [\<lparr>ob_shutdown = False, ob_now = 0\<rparr>]
      (?ch, respond_start example_responder) = Some (Inr (), (ch', s'))"
    by (simp add: respond_poll_def numeral_eq_Suc respond_step_def respond_start_def example_responder_def
        respond_request_def respond_send_def example_stream_definition_def channel_send_def channel_recv_def channel_new_def
        read_state_new_def fill_loop.simps PREFIX_LEN_def pair_read_def pair_write_def example_respond_api_def
        bidi_response_def encode_payload_eq codecs Let_def)
  have "items prefix_codecs ?dec Identity DEFAULT_MAX_MESSAGE_SIZE [] = []"
    by (subst items.simps) (simp add: next_frame_def)
  with conformance_bidi [OF _ _ run, of fst snd "\<lambda>_. True" "\<lambda>_. 0"] duplex_ok_pair
  have "snd (ch_upgrade ch') = [0, 0, 0, 0, 1, 7, 0, 0, 0, 0, 1, 8]"
    by (auto simp: example_respond_api_def codecs example_responder_def example_stream_definition_def bidi_responses_def
        bidi_response_def Let_def list_all2_Cons1 frame_item_def encode_payload_eq u32_to_be_bytes_def)
  with run show ?thesis by blast
qed

text \<open>
  C37: The prologue of a conformance bidirectional call hands the request stream over without a
  loss: when it has read the first request, the requests of the body are that one followed by
  those that a fresh reader finds in what is left of the body, so that the responder's channel,
  which starts a new reader on the same transport, misses nothing and repeats nothing.
\<close>

theorem conformance_prologue:
  assumes "live_source poll_read content good delay" and "good (cn_request_body (gc_conn g))"
    and "drive (bidi_stream_poll E poll_read K) os (g, PrologueStart) = Some (Inr r, (g', st))"
  defines "requests_of \<equiv> \<lambda>g1. items (e_codecs E) (decode_msg K) (gc_request_encoding g) DEFAULT_MAX_MESSAGE_SIZE
      (content (cn_request_body (gc_conn g1)))"
  shows "case br_first r of None \<Rightarrow> requests_of g = [] | Some q \<Rightarrow> requests_of g = Inr q # requests_of g'"
  unfolding requests_of_def
  using live_source.prologue_result [OF assms(1,2) _ assms(3)] by simp

definition raw_bidi :: "bidi_stream_request codec" where
  "raw_bidi = \<lparr>content_type_suffix = lit ''proto'', encode_msg = (\<lambda>q. Inr (bsr_request_data q)),
     decode_msg = (\<lambda>b. Inr \<lparr>bsr_response_definition = None, bsr_full_duplex = False, bsr_request_data = b\<rparr>)\<rparr>"

theorem conformance_prologue_witness:
  "\<exists>r g' st. drive (bidi_stream_poll example_env cursor_read raw_bidi) [\<lparr>ob_shutdown = False, ob_now = 0\<rparr>]
      (\<lparr>gc_conn = example_conn [0, 0, 0, 0, 1, 7, 0, 0, 0, 0, 1, 8], gc_response_trailers = DAList.empty,
         gc_request_encoding = Identity, gc_deadline = None\<rparr> :: ((str, str list) alist, bytes, unit, unit) grpc_conn,
       PrologueStart) = Some (Inr r, (g', st)) \<and>
    map_option bsr_request_data (br_first r) = Some [7] \<and>
    items prefix_codecs (decode_msg raw_bidi) Identity DEFAULT_MAX_MESSAGE_SIZE (cn_request_body (gc_conn g')) =
      [Inr \<lparr>bsr_response_definition = None, bsr_full_duplex = False, bsr_request_data = [8]\<rparr>]"
proof -
  let ?g = "\<lparr>gc_conn = example_conn [0, 0, 0, 0, 1, 7, 0, 0, 0, 0, 1, 8], gc_response_trailers = DAList.empty,
         gc_request_encoding = Identity, gc_deadline = None\<rparr> :: ((str, str list) alist, bytes, unit, unit) grpc_conn"
  let ?q = "\<lambda>b. \<lparr>bsr_response_definition = None, bsr_full_duplex = False, bsr_request_data = b\<rparr> :: bidi_stream_request"
  have codecs: "e_codecs example_env = prefix_codecs" by (simp add: example_env_def)
  obtain r g' st where run: "drive (bidi_stream_poll example_env cursor_read raw_bidi) [\<lparr>ob_shutdown = False, ob_now = 0\<rparr>]
      (?g, PrologueStart) = Some (Inr r, (g', st))" and r: "br_first r = Some (?q [7])"
    by (simp add: prologue_read_def requests_def request_stream_new_def request_recv_def poll_message_def read_state_new_def
        fill_loop.simps PREFIX_LEN_def overwrite_def cursor_read_def frame_len_def u32_from_be_bytes_def Let_def
        finish_message_def DEFAULT_MAX_MESSAGE_SIZE_def example_conn_def raw_bidi_def codecs)
  have frame: "items prefix_codecs (decode_msg raw_bidi) Identity DEFAULT_MAX_MESSAGE_SIZE ([0, 0, 0, 0, 1, b] @ rest) =
      Inr (?q [b]) # items prefix_codecs (decode_msg raw_bidi) Identity DEFAULT_MAX_MESSAGE_SIZE rest" for b rest
    using items_frame [of "[b]" DEFAULT_MAX_MESSAGE_SIZE prefix_codecs "decode_msg raw_bidi" Identity 0 rest]
    by (simp add: u32_to_be_bytes_def finish_message_def raw_bidi_def DEFAULT_MAX_MESSAGE_SIZE_def)
  have whole: "items prefix_codecs (decode_msg raw_bidi) Identity DEFAULT_MAX_MESSAGE_SIZE (cn_request_body (gc_conn ?g)) =
      [Inr (?q [7]), Inr (?q [8])]"
    using frame [of 7 "[0, 0, 0, 0, 1, 8]"] frame [of 8 "[]"] by (simp add: example_conn_def)
  from conformance_prologue [OF cursor.live_source_axioms TrueI run] whole r
  have "items prefix_codecs (decode_msg raw_bidi) Identity DEFAULT_MAX_MESSAGE_SIZE (cn_request_body (gc_conn g')) = [Inr (?q [8])]"
    by (simp add: codecs)
  with run r show ?thesis by auto
qed

end
