(* ===== verification/ConformanceClient.thy ===== *)
theory ConformanceClient
  imports ConformanceService Typed
begin

text \<open>
  \<open>conformance/src/bin/client.rs\<close>: the program that issues one call per request of the
  conformance runner, on the client's engine. The body of \<open>drive\<close> is a chain of awaits like
  the engine's own operations (\<open>ClientConn\<close>): a function of the observations that its polls
  see, of the state of its local variables. The \<open>main\<close> function is in \<open>ConformanceHarness\<close>.
\<close>

section \<open>The request and the result of a test case\<close>

text \<open>\<open>StreamType\<close> and \<open>Compression\<close> with their getters, which turn an unknown number into the default.\<close>

datatype stream_type =
    StreamType_Unspecified | StreamType_Unary | StreamType_ClientStream | StreamType_ServerStream
  | StreamType_HalfDuplexBidiStream | StreamType_FullDuplexBidiStream

definition stream_type_of :: "i32 \<Rightarrow> stream_type" where
  "stream_type_of n =
     (if n = 1 then StreamType_Unary
      else if n = 2 then StreamType_ClientStream
      else if n = 3 then StreamType_ServerStream
      else if n = 4 then StreamType_HalfDuplexBidiStream
      else if n = 5 then StreamType_FullDuplexBidiStream
      else StreamType_Unspecified)"

datatype compression =
    Compression_Unspecified | Compression_Identity | Compression_Gzip | Compression_Br
  | Compression_Zstd | Compression_Deflate | Compression_Snappy

definition compression_of :: "i32 \<Rightarrow> compression" where
  "compression_of n =
     (if n = 1 then Compression_Identity
      else if n = 2 then Compression_Gzip
      else if n = 3 then Compression_Br
      else if n = 4 then Compression_Zstd
      else if n = 5 then Compression_Deflate
      else if n = 6 then Compression_Snappy
      else Compression_Unspecified)"

datatype cancel_timing = BeforeCloseSend | AfterCloseSendMs u32 | AfterNumResponses u32

text \<open>The fields of \<open>ClientCompatRequest\<close> that the program reads; \<open>Cancel\<close> holds an optional timing.\<close>

record client_compat_request =
  cr_test_name :: str
  cr_compression :: i32
  cr_host :: str
  cr_port :: u32
  cr_server_tls_cert :: bytes
  cr_service :: "str option"
  cr_method :: "str option"
  cr_stream_type :: i32
  cr_request_headers :: "header_msg list"
  cr_request_messages :: "any_msg list"
  cr_timeout_ms :: "u32 option"
  cr_request_delay_ms :: u32
  cr_cancel :: "(cancel_timing option) option"

record client_response_result =
  cx_response_headers :: "header_msg list"
  cx_payloads :: "conformance_payload list"
  cx_error :: "error_msg option"
  cx_response_trailers :: "header_msg list"
  cx_num_unsent_requests :: i32
  cx_http_status_code :: "i32 option"
  cx_feedback :: "str list"

text \<open>\<open>client_compat_response::Result\<close>; \<open>ClientErrorResult\<close> is its message.\<close>

datatype compat_result = ResponseResult client_response_result | ErrorResult str

section \<open>Helpers\<close>

definition SERVICE :: str where
  "SERVICE = lit ''connectrpc.conformance.v1.ConformanceService''"

definition CLIENT_TYPE_PREFIX :: str where
  "CLIENT_TYPE_PREFIX = lit ''connectrpc.conformance.v1.''"

definition client_error :: "str \<Rightarrow> compat_result" where
  "client_error message = ErrorResult message"

definition default_method :: "stream_type \<Rightarrow> str" where
  "default_method t =
     (case t of
        StreamType_ClientStream \<Rightarrow> lit ''ClientStream''
      | StreamType_ServerStream \<Rightarrow> lit ''ServerStream''
      | StreamType_HalfDuplexBidiStream \<Rightarrow> lit ''BidiStream''
      | StreamType_FullDuplexBidiStream \<Rightarrow> lit ''BidiStream''
      | _ \<Rightarrow> lit ''Unary'')"

text \<open>The inserts that fail leave the metadata as it is.\<close>

definition or_unchanged :: "'a \<Rightarrow> 'e + 'a \<Rightarrow> 'a" where
  "or_unchanged m r = (case r of Inr m' \<Rightarrow> m' | Inl _ \<Rightarrow> m)"

definition insert_header_value :: "base64_api \<Rightarrow> str \<Rightarrow> metadata \<Rightarrow> str \<Rightarrow> metadata" where
  "insert_header_value B name md value =
     (if ends_with name (lit ''-bin'') then
        (case b64_decode B value of
           Some bs \<Rightarrow> or_unchanged md (insert_binary md name bs)
         | None \<Rightarrow> md)
      else or_unchanged md (insert_ascii md name value))"

definition metadata_from_headers :: "base64_api \<Rightarrow> header_msg list \<Rightarrow> metadata" where
  "metadata_from_headers B headers =
     foldl (\<lambda>md h. foldl (insert_header_value B (to_ascii_lowercase (hm_name h))) md (hm_value h)) metadata_new headers"

text \<open>\<open>.ok()\<close> on a result whose error is not looked at.\<close>

definition ok_of :: "'e + 'a \<Rightarrow> 'a option" where
  "ok_of r = (case r of Inr x \<Rightarrow> Some x | Inl _ \<Rightarrow> None)"

definition error_details :: "'h env \<Rightarrow> conformance_pb \<Rightarrow> 'h \<Rightarrow> any_msg list" where
  "error_details E P headers =
     (case Option.bind (Option.bind (h_get_str (e_headers E) headers (lit ''grpc-status-details-bin''))
               (b64_decode (e_base64 E)))
             (\<lambda>bs. ok_of (pm_decode (pb_rpc_status P) bs)) of
        Some s \<Rightarrow> rst_details s
      | None \<Rightarrow> [])"

text \<open>The code is cast from \<open>u8\<close> to \<open>i32\<close>.\<close>

definition rpc_error :: "'h env \<Rightarrow> conformance_pb \<Rightarrow> status \<Rightarrow> 'h option \<Rightarrow> error_msg" where
  "rpc_error E P status trailers =
     \<lparr>er_code = ucast (as_u8 (st_code status)), er_message = Some (st_message status),
      er_details = (case trailers of Some t \<Rightarrow> error_details E P t | None \<Rightarrow> [])\<rparr>"

definition is_transport_header :: "str \<Rightarrow> bool" where
  "is_transport_header name \<longleftrightarrow>
     to_ascii_lowercase name \<in> {lit ''content-type'', lit ''grpc-encoding'', lit ''grpc-accept-encoding'',
       lit ''grpc-status'', lit ''grpc-message'', lit ''grpc-status-details-bin'', lit ''grpc-timeout''}"

definition headers_to_proto :: "'h headers_api \<Rightarrow> 'h option \<Rightarrow> header_msg list" where
  "headers_to_proto H headers =
     (case headers of
        None \<Rightarrow> []
      | Some headers \<Rightarrow>
          List.map_filter (\<lambda>(name, vs).
            if is_transport_header name then None
            else
              (let value = List.map_filter (h_as_str H) vs in
               if value \<noteq> [] then Some \<lparr>hm_name = name, hm_value = value\<rparr> else None)) (h_iter H headers))"

section \<open>The local variables of \<open>drive\<close>\<close>

text \<open>Those that do not change, and the \<open>client\<close>, the decoders and the extraction of the payload.\<close>

record ('r, 'w, 'h, 'x, 'p) drive_env =
  de_net :: "('r, 'w, 'h, 'x, 'p) net"
  de_pb :: conformance_pb
  de_payload :: "'p \<Rightarrow> conformance_payload option"
  de_single_response :: bool
  de_full_duplex :: bool
  de_request_delay :: nat
  de_cancel :: "cancel_timing option"

text \<open>
  Those that do: \<open>dv_cancelled\<close> is that \<open>cancel_handle.cancel()\<close> has been called here,
  \<open>dv_spawned\<close> the start and the length of the delay after which the spawned task calls it.
\<close>

record ('r, 'w, 'h, 'q, 'p) drive_vars =
  dv_conn :: "('r, 'w, 'h, 'q, 'p) client_conn"
  dv_payloads :: "conformance_payload list"
  dv_error :: "error_msg option"
  dv_num_unsent :: i32
  dv_cancelled :: bool
  dv_spawned :: "(nat \<times> nat) option"

text \<open>
  What the engine sees of a poll: its clock, and whether its handle has been cancelled. A delay
  may report late, so the spawned task may be late.
\<close>

definition seen :: "delay_fn \<Rightarrow> ('r, 'w, 'h, 'q, 'p) drive_vars \<Rightarrow> obs \<Rightarrow> obs" where
  "seen D v o1 = o1\<lparr>ob_shutdown := dv_cancelled v \<or>
     (case dv_spawned v of Some (start, ns) \<Rightarrow> D start ns (ob_now o1) | None \<Rightarrow> False)\<rparr>"

definition on_conn ::
  "('r, 'w, 'h, 'x, 'p) drive_env \<Rightarrow> (('r, 'w, 'h, 'q, 'p) client_conn, 'a) async
   \<Rightarrow> (('r, 'w, 'h, 'q, 'p) drive_vars, 'a) async" where
  "on_conn K m os v =
     (case m (map (seen (n_delay (de_net K)) v) os) (dv_conn v) of (x, c, os) \<Rightarrow> (x, v\<lparr>dv_conn := c\<rparr>, os))"

text \<open>Awaits in sequence.\<close>

definition async_bind :: "('s, 'a) async \<Rightarrow> ('a \<Rightarrow> ('s, 'b) async) \<Rightarrow> ('s, 'b) async" where
  "async_bind m k os s =
     (case m os s of
        (Panicked, s, os) \<Rightarrow> (Panicked, s, os)
      | (Suspended, s, os) \<Rightarrow> (Suspended, s, os)
      | (Finished x, s, os) \<Rightarrow> k x os s)"

definition async_return :: "'a \<Rightarrow> ('s, 'a) async" where
  "async_return x os s = (Finished x, s, os)"

definition async_update :: "('s \<Rightarrow> 's) \<Rightarrow> ('s, unit) async" where
  "async_update f os s = (Finished (), f s, os)"

text \<open>\<open>runtime.delay(..).await\<close>.\<close>

definition runtime_delay :: "('r, 'w, 'h, 'x, 'p) drive_env \<Rightarrow> nat \<Rightarrow> (('r, 'w, 'h, 'q, 'p) drive_vars, unit) async" where
  "runtime_delay K d os v =
     (case await_fut (sleep_poll (n_delay (de_net K)) d) os Unstarted of (x, _, os) \<Rightarrow> (x, v, os))"

definition set_cancelled :: "('r, 'w, 'h, 'q, 'p) drive_vars \<Rightarrow> ('r, 'w, 'h, 'q, 'p) drive_vars" where
  "set_cancelled v = v\<lparr>dv_cancelled := True\<rparr>"

section \<open>The loops of \<open>drive\<close>\<close>

definition payload_default :: conformance_payload where
  "payload_default = \<lparr>cp_data = [], cp_request_info = None\<rparr>"

definition push_payload ::
  "('r, 'w, 'h, 'x, 'p) drive_env \<Rightarrow> 'p \<Rightarrow> ('r, 'w, 'h, 'q, 'p) drive_vars \<Rightarrow> ('r, 'w, 'h, 'q, 'p) drive_vars" where
  "push_payload K resp v =
     (let payload = (case de_payload K resp of Some p \<Rightarrow> p | None \<Rightarrow> payload_default);
          v = v\<lparr>dv_payloads := dv_payloads v @ [payload]\<rparr> in
      case de_cancel K of
        Some (AfterNumResponses n) \<Rightarrow> if of_nat (length (dv_payloads v)) = n then set_cancelled v else v
      | _ \<Rightarrow> v)"

definition set_error ::
  "('r, 'w, 'h, 'x, 'p) drive_env \<Rightarrow> status \<Rightarrow> ('r, 'w, 'h, 'q, 'p) drive_vars \<Rightarrow> ('r, 'w, 'h, 'q, 'p) drive_vars" where
  "set_error K status v =
     v\<lparr>dv_error := Some (rpc_error (n_env (de_net K)) (de_pb K) status (client_trailers (dv_conn v)))\<rparr>"

text \<open>The macro \<open>recv_one\<close>: whether the stream is finished.\<close>

definition recv_one :: "('r, 'w, 'h, 'x, 'p) drive_env \<Rightarrow> (('r, 'w, 'h, 'q, 'p) drive_vars, bool) async" where
  "recv_one K =
     async_bind (on_conn K (client_recv (de_net K))) (\<lambda>r os v.
       case r of
         Inr (Some resp) \<Rightarrow> (Finished False, push_payload K resp v, os)
       | Inr None \<Rightarrow> (Finished True, v, os)
       | Inl status \<Rightarrow> (Finished True, set_error K status v, os))"

text \<open>The loop over the request messages; its result is \<open>done\<close>.\<close>

fun send_messages ::
  "('r, 'w, 'h, 'x, 'p) drive_env \<Rightarrow> nat \<Rightarrow> nat \<Rightarrow> 'q list \<Rightarrow> (('r, 'w, 'h, 'q, 'p) drive_vars, bool) async" where
  "send_messages K all_len i [] = async_return False"
| "send_messages K all_len i (message # messages) =
     async_bind (if de_request_delay K \<noteq> 0 then runtime_delay K (de_request_delay K) else async_return ()) (\<lambda>_.
     async_bind (on_conn K (client_send (de_net K) message)) (\<lambda>r.
       case r of
         Inl status \<Rightarrow>
           async_bind (async_update (\<lambda>v. set_error K status (v\<lparr>dv_num_unsent := of_nat (all_len - i)\<rparr>)))
             (\<lambda>_. async_return True)
       | Inr _ \<Rightarrow>
           if de_full_duplex K then
             async_bind (recv_one K) (\<lambda>finished.
               if finished then async_return True else send_messages K all_len (i + 1) messages)
           else send_messages K all_len (i + 1) messages))"

text \<open>The half-close, or the cancellation instead of it or after it.\<close>

definition close_phase :: "('r, 'w, 'h, 'x, 'p) drive_env \<Rightarrow> (('r, 'w, 'h, 'q, 'p) drive_vars, unit) async" where
  "close_phase K =
     async_bind
       (if de_cancel K = Some BeforeCloseSend then async_update set_cancelled
        else async_bind (on_conn K (close_send (de_net K))) (\<lambda>_. async_return ())) (\<lambda>_.
       case de_cancel K of
         Some (AfterCloseSendMs ms) \<Rightarrow>
           if de_single_response K then
             async_bind (runtime_delay K (from_millis (unat ms))) (\<lambda>_. async_update set_cancelled)
           else (\<lambda>os v. (Finished (), v\<lparr>dv_spawned := Some (clock os, from_millis (unat ms))\<rparr>, os))
       | _ \<Rightarrow> async_return ())"

text \<open>\<open>while !recv_one!() {}\<close>, at most \<open>fuel\<close> times; without fuel it counts as suspended.\<close>

fun drain :: "nat \<Rightarrow> ('r, 'w, 'h, 'x, 'p) drive_env \<Rightarrow> (('r, 'w, 'h, 'q, 'p) drive_vars, unit) async" where
  "drain 0 K = (\<lambda>os v. (Suspended, v, os))"
| "drain (Suc fuel) K = async_bind (recv_one K) (\<lambda>finished. if finished then async_return () else drain fuel K)"

definition check_single ::
  "('r, 'w, 'h, 'x, 'p) drive_env \<Rightarrow> ('r, 'w, 'h, 'q, 'p) drive_vars \<Rightarrow> ('r, 'w, 'h, 'q, 'p) drive_vars" where
  "check_single K v =
     (if dv_error v = None \<and> de_single_response K \<and> length (dv_payloads v) \<noteq> 1 then
        v\<lparr>dv_error := Some \<lparr>er_code = ucast (as_u8 Unimplemented),
            er_message = Some (lit ''expected exactly one response message, got '' @ show_nat (length (dv_payloads v))),
            er_details = []\<rparr>,
          dv_payloads := []\<rparr>
      else v)"

definition report :: "'h headers_api \<Rightarrow> ('r, 'w, 'h, 'q, 'p) drive_vars \<Rightarrow> compat_result" where
  "report H v = ResponseResult
     \<lparr>cx_response_headers = headers_to_proto H (client_headers (dv_conn v)),
      cx_payloads = dv_payloads v, cx_error = dv_error v,
      cx_response_trailers = headers_to_proto H (client_trailers (dv_conn v)),
      cx_num_unsent_requests = dv_num_unsent v, cx_http_status_code = None, cx_feedback = []\<rparr>"

text \<open>From the open call to the end of the last loop.\<close>

definition run_call ::
  "nat \<Rightarrow> ('r, 'w, 'h, 'x, 'p) drive_env \<Rightarrow> 'q list \<Rightarrow> (('r, 'w, 'h, 'q, 'p) drive_vars, unit) async" where
  "run_call fuel K messages =
     async_bind (send_messages K (length messages) 0 messages) (\<lambda>finished.
       if finished then async_return () else async_bind (close_phase K) (\<lambda>_. drain fuel K))"

section \<open>\<open>drive\<close>\<close>

text \<open>\<open>rsplit('/').next()\<close>, which always has one.\<close>

definition after_last_slash :: "str \<Rightarrow> str" where
  "after_last_slash s = last (split_on 0x2F s)"

fun decode_requests :: "'q prost_api \<Rightarrow> str \<Rightarrow> any_msg list \<Rightarrow> str + 'q list" where
  "decode_requests P want [] = Inr []"
| "decode_requests P want (any # anys) =
     (let type_name = after_last_slash (type_url any) in
      if type_name \<noteq> want then
        Inl (lit ''expected request type '' @ want @ lit '', got '' @ type_name)
      else
        (case pm_decode P (any_value any) of
           Inr m \<Rightarrow> map_sum id ((#) m) (decode_requests P want anys)
         | Inl e \<Rightarrow> Inl (lit ''failed to decode request: '' @ e)))"

text \<open>The arguments of the generic function at one method, but the client, the path and the request.\<close>

record ('q, 'p) driven_method =
  dm_request :: "'q prost_api"
  dm_response :: "'p prost_api"
  dm_short :: str
  dm_single_request :: bool
  dm_single_response :: bool
  dm_payload :: "'p \<Rightarrow> conformance_payload option"

definition drive_env_of ::
  "('r, 'w, 'h, 'x, 'p) net \<Rightarrow> conformance_pb \<Rightarrow> ('q, 'p) driven_method \<Rightarrow> bool \<Rightarrow> client_compat_request
   \<Rightarrow> ('r, 'w, 'h, 'x, 'p) drive_env" where
  "drive_env_of N P M full_duplex req =
     \<lparr>de_net = N, de_pb = P, de_payload = dm_payload M, de_single_response = dm_single_response M,
      de_full_duplex = full_duplex, de_request_delay = from_millis (unat (cr_request_delay_ms req)),
      de_cancel = Option.bind (cr_cancel req) id\<rparr>"

definition drive_vars_of :: "('r, 'w, 'h, 'q, 'p) client_conn \<Rightarrow> ('r, 'w, 'h, 'q, 'p) drive_vars" where
  "drive_vars_of c =
     \<lparr>dv_conn = c, dv_payloads = [], dv_error = None, dv_num_unsent = 0, dv_cancelled = False, dv_spawned = None\<rparr>"

definition drive_call ::
  "nat \<Rightarrow> ('r, 'w, 'h, 'x, 'p) net \<Rightarrow> conformance_pb \<Rightarrow> ('q, 'p) driven_method \<Rightarrow> str \<Rightarrow> bool
   \<Rightarrow> client_compat_request \<Rightarrow> obs list \<Rightarrow> compat_result outcome" where
  "drive_call fuel N P M path full_duplex req os =
     (case decode_requests (dm_request M) (CLIENT_TYPE_PREFIX @ dm_short M) (cr_request_messages req) of
        Inl message \<Rightarrow> Finished (client_error message)
      | Inr messages \<Rightarrow>
          if dm_single_request M \<and> length messages \<noteq> 1 then
            Finished (client_error (lit ''expected exactly one request message, got '' @ show_nat (length messages)))
          else
            (let md = metadata_from_headers (e_base64 (n_env N)) (cr_request_headers req);
                 timeout = map_option (\<lambda>ms. duration_of (from_millis (unat ms))) (cr_timeout_ms req);
                 K = drive_env_of N P M full_duplex req in
             case client_new N (clock os) (prost_codec (dm_request M)) (prost_codec (dm_response M))
                    path md timeout full_duplex of
               None \<Rightarrow> Panicked
             | Some c \<Rightarrow>
                 (case run_call fuel K messages os (drive_vars_of c) of
                    (Panicked, _, _) \<Rightarrow> Panicked
                  | (Suspended, _, _) \<Rightarrow> Suspended
                  | (Finished _, v, _) \<Rightarrow> Finished (report (e_headers (n_env N)) (check_single K v)))))"

section \<open>\<open>handle\<close>\<close>

text \<open>
  The six instances of \<open>drive\<close> are at the sums of the request types and of the response types:
  a sum's encoder and decoder are those of one of its types.
\<close>

datatype conformance_request =
    Req_Unary unary_request | Req_IdempotentUnary idempotent_unary_request
  | Req_Unimplemented unimplemented_request | Req_ClientStream client_stream_request
  | Req_ServerStream server_stream_request | Req_BidiStream bidi_stream_request

datatype conformance_response =
    Resp_Unary unary_response | Resp_IdempotentUnary idempotent_unary_response
  | Resp_Unimplemented unimplemented_response | Resp_ClientStream client_stream_response
  | Resp_ServerStream server_stream_response | Resp_BidiStream bidi_stream_response

definition sum_prost :: "('m \<Rightarrow> 's) \<Rightarrow> ('s \<Rightarrow> 'm option) \<Rightarrow> 'm prost_api \<Rightarrow> 's prost_api" where
  "sum_prost inject project P =
     \<lparr>pm_encode = (\<lambda>s. case project s of Some m \<Rightarrow> pm_encode P m | None \<Rightarrow> Inl []),
      pm_decode = (\<lambda>b. map_sum id inject (pm_decode P b))\<rparr>"

text \<open>The message types that only the client decodes or encodes.\<close>

record client_pb =
  cb_unary_response :: "unary_response prost_api"
  cb_idempotent_unary_response :: "idempotent_unary_response prost_api"
  cb_unimplemented_request :: "unimplemented_request prost_api"
  cb_unimplemented_response :: "unimplemented_response prost_api"
  cb_client_stream_response :: "client_stream_response prost_api"
  cb_server_stream_response :: "server_stream_response prost_api"
  cb_bidi_stream_response :: "bidi_stream_response prost_api"

fun payload_of :: "conformance_response \<Rightarrow> conformance_payload option" where
  "payload_of (Resp_Unary r) = ur_payload r"
| "payload_of (Resp_IdempotentUnary r) = iu_payload r"
| "payload_of (Resp_Unimplemented r) = None"
| "payload_of (Resp_ClientStream r) = cs_payload r"
| "payload_of (Resp_ServerStream r) = ss_payload r"
| "payload_of (Resp_BidiStream r) = bs_payload r"

text \<open>The arms of the match on the method, with the arguments of \<open>drive_method!\<close>.\<close>

definition find_method ::
  "conformance_pb \<Rightarrow> client_pb \<Rightarrow> str \<Rightarrow> (conformance_request, conformance_response) driven_method option" where
  "find_method P C name =
     (if name = lit ''Unary'' then
        Some \<lparr>dm_request = sum_prost Req_Unary (\<lambda>s. case s of Req_Unary m \<Rightarrow> Some m | _ \<Rightarrow> None) (pb_unary_request P),
              dm_response = sum_prost Resp_Unary (\<lambda>s. case s of Resp_Unary m \<Rightarrow> Some m | _ \<Rightarrow> None) (cb_unary_response C),
              dm_short = lit ''UnaryRequest'', dm_single_request = True, dm_single_response = True,
              dm_payload = payload_of\<rparr>
      else if name = lit ''IdempotentUnary'' then
        Some \<lparr>dm_request = sum_prost Req_IdempotentUnary (\<lambda>s. case s of Req_IdempotentUnary m \<Rightarrow> Some m | _ \<Rightarrow> None)
                (pb_idempotent_unary_request P),
              dm_response = sum_prost Resp_IdempotentUnary (\<lambda>s. case s of Resp_IdempotentUnary m \<Rightarrow> Some m | _ \<Rightarrow> None)
                (cb_idempotent_unary_response C),
              dm_short = lit ''IdempotentUnaryRequest'', dm_single_request = True, dm_single_response = True,
              dm_payload = payload_of\<rparr>
      else if name = lit ''Unimplemented'' then
        Some \<lparr>dm_request = sum_prost Req_Unimplemented (\<lambda>s. case s of Req_Unimplemented m \<Rightarrow> Some m | _ \<Rightarrow> None)
                (cb_unimplemented_request C),
              dm_response = sum_prost Resp_Unimplemented (\<lambda>s. case s of Resp_Unimplemented m \<Rightarrow> Some m | _ \<Rightarrow> None)
                (cb_unimplemented_response C),
              dm_short = lit ''UnimplementedRequest'', dm_single_request = True, dm_single_response = True,
              dm_payload = payload_of\<rparr>
      else if name = lit ''ClientStream'' then
        Some \<lparr>dm_request = sum_prost Req_ClientStream (\<lambda>s. case s of Req_ClientStream m \<Rightarrow> Some m | _ \<Rightarrow> None)
                (pb_client_stream_request P),
              dm_response = sum_prost Resp_ClientStream (\<lambda>s. case s of Resp_ClientStream m \<Rightarrow> Some m | _ \<Rightarrow> None)
                (cb_client_stream_response C),
              dm_short = lit ''ClientStreamRequest'', dm_single_request = False, dm_single_response = True,
              dm_payload = payload_of\<rparr>
      else if name = lit ''ServerStream'' then
        Some \<lparr>dm_request = sum_prost Req_ServerStream (\<lambda>s. case s of Req_ServerStream m \<Rightarrow> Some m | _ \<Rightarrow> None)
                (pb_server_stream_request P),
              dm_response = sum_prost Resp_ServerStream (\<lambda>s. case s of Resp_ServerStream m \<Rightarrow> Some m | _ \<Rightarrow> None)
                (cb_server_stream_response C),
              dm_short = lit ''ServerStreamRequest'', dm_single_request = True, dm_single_response = False,
              dm_payload = payload_of\<rparr>
      else if name = lit ''BidiStream'' then
        Some \<lparr>dm_request = sum_prost Req_BidiStream (\<lambda>s. case s of Req_BidiStream m \<Rightarrow> Some m | _ \<Rightarrow> None)
                (pb_bidi_stream_request P),
              dm_response = sum_prost Resp_BidiStream (\<lambda>s. case s of Resp_BidiStream m \<Rightarrow> Some m | _ \<Rightarrow> None)
                (cb_bidi_stream_response C),
              dm_short = lit ''BidiStreamRequest'', dm_single_request = False, dm_single_response = False,
              dm_payload = payload_of\<rparr>
      else None)"

text \<open>
  The connector of a client: plain TCP, or TLS with the certificates it trusts and the ALPN
  protocols it offers. The PEM parser is \<open>rustls_pemfile\<close>'s; \<open>None\<close> is the panic of \<open>expect\<close>.
\<close>

datatype connector = PlainTcp | TlsOverTcp "bytes list" "bytes list"

definition tls_connector :: "(bytes \<Rightarrow> (bytes list) option) \<Rightarrow> bytes \<Rightarrow> connector option" where
  "tls_connector pem_certs server_cert_pem =
     map_option (\<lambda>certs. TlsOverTcp certs [lit ''h2'']) (pem_certs server_cert_pem)"

definition connector_for :: "(bytes \<Rightarrow> (bytes list) option) \<Rightarrow> client_compat_request \<Rightarrow> (connector \<times> str) option" where
  "connector_for pem_certs req =
     (if cr_server_tls_cert req = [] then
        Some (PlainTcp, lit ''http://'' @ cr_host req @ lit '':'' @ show_nat (unat (cr_port req)))
      else
        map_option (\<lambda>k. (k, lit ''https://'' @ cr_host req @ lit '':'' @ show_nat (unat (cr_port req))))
          (tls_connector pem_certs (cr_server_tls_cert req)))"

text \<open>
  \<open>mk_client connector base edit\<close> is the transport of \<open>Client::new(connector).with_base(base)\<close>
  whose default headers have been edited.
\<close>

definition handle ::
  "nat \<Rightarrow> (connector \<Rightarrow> str \<Rightarrow> ('h \<Rightarrow> 'h) \<Rightarrow> ('r, 'w, 'h, 'x, conformance_response) net) \<Rightarrow> 'h headers_api
   \<Rightarrow> (bytes \<Rightarrow> (bytes list) option) \<Rightarrow> conformance_pb \<Rightarrow> client_pb \<Rightarrow> client_compat_request \<Rightarrow> obs list
   \<Rightarrow> compat_result outcome" where
  "handle fuel mk_client H pem_certs P C req os =
     (let service = (case cr_service req of Some s \<Rightarrow> s | None \<Rightarrow> SERVICE) in
      if service \<noteq> SERVICE then Finished (client_error (lit ''unknown service '' @ service))
      else
        (let stream_type = stream_type_of (cr_stream_type req);
             meth = (case cr_method req of Some m \<Rightarrow> m | None \<Rightarrow> default_method stream_type) in
         case connector_for pem_certs req of
           None \<Rightarrow> Panicked
         | Some (k, base) \<Rightarrow>
             (let N = mk_client k base (\<lambda>h. if compression_of (cr_compression req) = Compression_Gzip
                        then h_insert H h (lit ''grpc-encoding'') (lit ''gzip'') else h);
                  path = lit ''/'' @ SERVICE @ lit ''/'' @ meth;
                  full_duplex = (stream_type = StreamType_FullDuplexBidiStream) in
              case find_method P C meth of
                Some M \<Rightarrow> drive_call fuel N P M path full_duplex req os
              | None \<Rightarrow> Finished (client_error (lit ''unknown method '' @ meth)))))"

section \<open>Lemmas: what holds when an await finishes\<close>

definition async_ok :: "('s \<Rightarrow> bool) \<Rightarrow> ('s, 'a) async \<Rightarrow> ('a \<Rightarrow> 's \<Rightarrow> bool) \<Rightarrow> bool" where
  "async_ok I m Q \<longleftrightarrow> (\<forall>os s x s' os'. I s \<longrightarrow> m os s = (Finished x, s', os') \<longrightarrow> Q x s')"

lemma async_okI: "(\<And>os s x s' os'. I s \<Longrightarrow> m os s = (Finished x, s', os') \<Longrightarrow> Q x s') \<Longrightarrow> async_ok I m Q"
  by (auto simp: async_ok_def)

lemma async_okD: "async_ok I m Q \<Longrightarrow> I s \<Longrightarrow> m os s = (Finished x, s', os') \<Longrightarrow> Q x s'"
  unfolding async_ok_def by blast

lemma async_ok_bind:
  assumes "async_ok I m R" and "\<And>x. async_ok (R x) (k x) Q"
  shows "async_ok I (async_bind m k) Q"
proof (rule async_okI)
  fix os s y s' os'
  assume "I s" "async_bind m k os s = (Finished y, s', os')"
  then obtain x s1 os1 where "m os s = (Finished x, s1, os1)" "k x os1 s1 = (Finished y, s', os')"
    by (cases "m os s") (auto simp: async_bind_def split: outcome.splits)
  with async_okD [OF assms(1) \<open>I s\<close>] async_okD [OF assms(2)] show "Q y s'" by blast
qed

lemma async_ok_return: "(\<And>s. I s \<Longrightarrow> Q x s) \<Longrightarrow> async_ok I (async_return x) Q"
  by (auto simp: async_ok_def async_return_def)

lemma async_ok_update: "(\<And>s. I s \<Longrightarrow> Q () (f s)) \<Longrightarrow> async_ok I (async_update f) Q"
  by (auto simp: async_ok_def async_update_def)

lemma async_ok_weaken: "async_ok I m Q \<Longrightarrow> (\<And>s. J s \<Longrightarrow> I s) \<Longrightarrow> (\<And>x s. Q x s \<Longrightarrow> R x s) \<Longrightarrow> async_ok J m R"
  unfolding async_ok_def by blast

lemma async_ok_delay: "async_ok I (runtime_delay K d) (\<lambda>_. I)"
  by (auto simp: async_ok_def runtime_delay_def split: prod.splits)

lemma async_ok_on_conn:
  assumes "\<And>v os x c os'. I v \<Longrightarrow> m (map (seen (n_delay (de_net K)) v) os) (dv_conn v) = (Finished x, c, os') \<Longrightarrow>
    Q x (v\<lparr>dv_conn := c\<rparr>)"
  shows "async_ok I (on_conn K m) Q"
  using assms by (fastforce simp: async_ok_def on_conn_def split: prod.splits)

section \<open>Lemmas: the engine under the program's cancellation\<close>

lemma recv_some_live:
  assumes "client_recv N os c = (Finished (Inr (Some m)), c', os')" and "net_ok N"
  shows "is_live (gcc_inner c')"
proof -
  have one: "is_live (gcc_inner c')" if r: "client_read_one N os c = (Finished (Inr (Some m)), c', os')"
    and l: "is_live (gcc_inner c)" for os c
  proof -
    obtain y t i os1 where a: "await_fut (client_race (n_delay N) (n_or_read N) (gcc_deadline c)
        (read_poll N (gcc_decode c) (gcc_max_message_size c))) os (Unstarted, gcc_inner c) = (y, (t, i), os1)"
      by (metis surj_pair)
    from await_read [OF a _ _ l] assms(2) have "is_live i" by auto
    moreover have "map_sum id (\<lambda>_. None) w \<noteq> Inr (Some m)" for w :: "unit result" by (cases w) simp_all
    ultimately show ?thesis using r a
      by (auto simp: client_read_one_def split: outcome.splits sum.splits option.splits if_splits prod.splits)
  qed
  have live: "is_live (gcc_inner c')" if "recv_live N os c = (Finished (Inr (Some m)), c', os')" for os c
    using that one [of os c] by (cases "gcc_inner c") (auto simp: recv_live_def)
  show ?thesis
  proof (cases "\<exists>pd. gcc_inner c = Inner_Pending pd")
    case True
    with assms(1) have "async_try (if gcc_full_duplex c then materialize_duplex N else materialize_reading N)
        (recv_live N) os c = (Finished (Inr (Some m)), c', os')" by (auto simp: client_recv_def)
    then show ?thesis by (cases rule: async_try_cases) (use live in auto)
  next
    case False
    with assms(1) live [of os c] show ?thesis by (cases "gcc_inner c") (auto simp: client_recv_def)
  qed
qed

lemma recv_live_no_polls: "is_live (gcc_inner c) \<Longrightarrow> client_recv N [] c = (Suspended, c, [])"
  by (cases "gcc_inner c") (simp_all add: client_recv_def recv_live_def client_read_one_def)

lemma send_keeps_live: "client_send N m os c = (x, c', os') \<Longrightarrow> is_live (gcc_inner c) \<Longrightarrow> is_live (gcc_inner c')"
  by (cases "gcc_inner c") (auto simp: client_send_def on_duplex_def split: sum.splits prod.splits)

lemma close_keeps_live: "close_send N os c = (x, c', os') \<Longrightarrow> is_live (gcc_inner c) \<Longrightarrow> is_live (gcc_inner c')"
  by (cases "gcc_inner c") (auto simp: close_send_def close_live_def on_duplex_def split: prod.splits)

lemma seen_cancelled: "dv_cancelled v \<Longrightarrow> ob_shutdown (seen D v o1)"
  by (simp add: seen_def)

text \<open>A live call that the program has cancelled answers the next \<open>recv\<close> with an error.\<close>

lemma recv_after_cancel:
  assumes "net_ok (de_net K)" and "dv_cancelled v" and "is_live (gcc_inner (dv_conn v))"
    and "client_recv (de_net K) (map (seen (n_delay (de_net K)) v) os) (dv_conn v) = (Finished r, c, os')"
  shows "\<exists>e o1. r = Inl e \<and> c = dv_conn v \<and> race_error (gcc_deadline (dv_conn v)) o1 e"
proof (cases os)
  case Nil
  with assms(3,4) recv_live_no_polls [of "dv_conn v" "de_net K"] show ?thesis by simp
next
  case (Cons o1 rest)
  from recv_cancelled_live [OF assms(1) seen_cancelled [OF assms(2)] assms(3),
      of "n_delay (de_net K)" o1 "map (seen (n_delay (de_net K)) v) rest"] assms(4) Cons
  show ?thesis by auto
qed

section \<open>Lemmas: what a finished run reports\<close>

text \<open>
  The quota of \<open>AfterNumResponses\<close>: no more than \<open>n\<close> responses, and with the last one the call
  is cancelled while it is still live; at the end it has become an error.
\<close>

definition quota_of :: "('r, 'w, 'h, 'x, 'p) drive_env \<Rightarrow> nat option" where
  "quota_of K = (case de_cancel K of Some (AfterNumResponses n) \<Rightarrow> if 0 < n then Some (unat n) else None | _ \<Rightarrow> None)"

definition quota_open :: "('r, 'w, 'h, 'x, 'p) drive_env \<Rightarrow> ('r, 'w, 'h, 'q, 'p) drive_vars \<Rightarrow> bool" where
  "quota_open K v \<longleftrightarrow> dv_error v = None \<and> dv_num_unsent v = 0 \<and>
     (\<forall>n. quota_of K = Some n \<longrightarrow> length (dv_payloads v) \<le> n \<and> (dv_cancelled v \<longleftrightarrow> length (dv_payloads v) = n) \<and>
        (dv_cancelled v \<longrightarrow> is_live (gcc_inner (dv_conn v))))"

definition quota_met :: "('r, 'w, 'h, 'x, 'p) drive_env \<Rightarrow> ('r, 'w, 'h, 'q, 'p) drive_vars \<Rightarrow> bool" where
  "quota_met K v \<longleftrightarrow>
     (\<forall>n. quota_of K = Some n \<longrightarrow> length (dv_payloads v) \<le> n \<and> (length (dv_payloads v) = n \<longrightarrow> dv_error v \<noteq> None))"

lemma quota_of_after: "quota_of K = Some n \<longleftrightarrow> (\<exists>m. de_cancel K = Some (AfterNumResponses m) \<and> 0 < m \<and> n = unat m)"
  by (auto simp: quota_of_def split: option.splits cancel_timing.splits if_splits)

lemma of_nat_eq_iff_unat: "k \<le> unat m \<Longrightarrow> of_nat k = m \<longleftrightarrow> k = unat m" for m :: u32
  using le_unat_uoi [of k m] by auto

lemma recv_one_quota:
  assumes N: "net_ok (de_net K)"
  shows "async_ok (quota_open K) (recv_one K)
    (\<lambda>finished v. if finished then quota_met K v \<and> dv_num_unsent v = 0 else quota_open K v)"
  unfolding recv_one_def
proof (rule async_ok_bind [where R = "\<lambda>r v. dv_error v = None \<and> dv_num_unsent v = 0 \<and>
      (\<forall>n. quota_of K = Some n \<longrightarrow> length (dv_payloads v) \<le> n \<and> (dv_cancelled v \<longleftrightarrow> length (dv_payloads v) = n) \<and>
         (dv_cancelled v \<longrightarrow> (\<exists>e. r = Inl e)) \<and> (\<forall>m. r = Inr (Some m) \<longrightarrow> is_live (gcc_inner (dv_conn v))))"])
  show "async_ok (quota_open K) (on_conn K (client_recv (de_net K)))
     (\<lambda>r v. dv_error v = None \<and> dv_num_unsent v = 0 \<and>
      (\<forall>n. quota_of K = Some n \<longrightarrow> length (dv_payloads v) \<le> n \<and> (dv_cancelled v \<longleftrightarrow> length (dv_payloads v) = n) \<and>
         (dv_cancelled v \<longrightarrow> (\<exists>e. r = Inl e)) \<and> (\<forall>m. r = Inr (Some m) \<longrightarrow> is_live (gcc_inner (dv_conn v)))))"
  proof (rule async_ok_on_conn, goal_cases)
    case (1 v os x c os')
    have live: "\<exists>e. x = Inl e" if "dv_cancelled v" "is_live (gcc_inner (dv_conn v))"
      using recv_after_cancel [OF N that 1(2)] by blast
    show ?case
      using 1(1) live recv_some_live [OF _ N] 1(2) by (auto simp: quota_open_def)
  qed
next
  fix r :: "status + 'e option"
  show "async_ok (\<lambda>v :: ('a, 'b, 'c, 'q, 'e) drive_vars. dv_error v = None \<and> dv_num_unsent v = 0 \<and>
      (\<forall>n. quota_of K = Some n \<longrightarrow> length (dv_payloads v) \<le> n \<and> (dv_cancelled v \<longleftrightarrow> length (dv_payloads v) = n) \<and>
         (dv_cancelled v \<longrightarrow> (\<exists>e. r = Inl e)) \<and> (\<forall>m. r = Inr (Some m) \<longrightarrow> is_live (gcc_inner (dv_conn v)))))
     (\<lambda>os v. case r of
         Inr (Some resp) \<Rightarrow> (Finished False, push_payload K resp v, os)
       | Inr None \<Rightarrow> (Finished True, v, os)
       | Inl status \<Rightarrow> (Finished True, set_error K status v, os))
     (\<lambda>finished v. if finished then quota_met K v \<and> dv_num_unsent v = 0 else quota_open K v)"
  proof (cases r)
    case (Inl e)
    then show ?thesis by (auto simp: async_ok_def quota_met_def set_error_def)
  next
    case (Inr m)
    show ?thesis
    proof (cases m)
      case None
      with Inr show ?thesis by (auto simp: async_ok_def quota_met_def)
    next
      case (Some resp)
      have "quota_open K (push_payload K resp v)"
        if v: "dv_error v = None" "dv_num_unsent v = 0" "\<forall>n. quota_of K = Some n \<longrightarrow> length (dv_payloads v) \<le> n \<and>
          (dv_cancelled v \<longleftrightarrow> length (dv_payloads v) = n) \<and> \<not> dv_cancelled v \<and> is_live (gcc_inner (dv_conn v))"
        for v :: "('a, 'b, 'c, 'q, 'e) drive_vars"
      proof (cases "quota_of K")
        case None
        with v show ?thesis
          by (auto simp: quota_open_def push_payload_def set_cancelled_def Let_def split: option.splits cancel_timing.splits)
      next
        case (Some n)
        then obtain m where m: "de_cancel K = Some (AfterNumResponses m)" "n = unat m" by (auto simp: quota_of_after)
        from v(3) Some have l: "length (dv_payloads v) < n" "\<not> dv_cancelled v" "is_live (gcc_inner (dv_conn v))"
          by auto
        have "of_nat (Suc (length (dv_payloads v))) = m \<longleftrightarrow> Suc (length (dv_payloads v)) = n"
          unfolding m(2) using l(1) m(2) by (intro of_nat_eq_iff_unat) simp
        with l v(1,2) m show ?thesis
          by (auto simp: quota_open_def push_payload_def set_cancelled_def Let_def Some)
      qed
      with Inr Some show ?thesis by (auto simp: async_ok_def)
    qed
  qed
qed

text \<open>The end of a run: what is reported as not sent is an error.\<close>

definition run_met :: "('r, 'w, 'h, 'x, 'p) drive_env \<Rightarrow> nat \<Rightarrow> ('r, 'w, 'h, 'q, 'p) drive_vars \<Rightarrow> bool" where
  "run_met K all_len v \<longleftrightarrow> quota_met K v \<and>
     (\<exists>k \<le> all_len. dv_num_unsent v = of_nat k \<and> (0 < k \<longrightarrow> dv_error v \<noteq> None))"

lemma run_met_all_sent: "quota_met K v \<Longrightarrow> dv_num_unsent v = 0 \<Longrightarrow> run_met K all_len v"
  unfolding run_met_def by (auto intro: exI [of _ 0])

lemma run_met_unsent:
  assumes "quota_open K v"
  shows "run_met K all_len (set_error K e (v\<lparr>dv_num_unsent := of_nat (all_len - i)\<rparr>))"
  using assms unfolding run_met_def
  by (intro conjI exI [of _ "all_len - i"]) (auto simp: quota_met_def quota_open_def set_error_def)

lemma quota_open_conn:
  "quota_open K v \<Longrightarrow> (is_live (gcc_inner (dv_conn v)) \<Longrightarrow> is_live (gcc_inner c)) \<Longrightarrow> quota_open K (v\<lparr>dv_conn := c\<rparr>)"
  by (auto simp: quota_open_def)

text \<open>The body of the sending loop.\<close>

lemma send_messages_rule:
  assumes send: "async_ok I (on_conn K (client_send (de_net K) m)) (\<lambda>_. I)"
    and failed: "\<And>v e. I v \<Longrightarrow> Q True (set_error K e (v\<lparr>dv_num_unsent := of_nat (all_len - i)\<rparr>))"
    and recv: "de_full_duplex K \<Longrightarrow> async_ok I (async_bind (recv_one K) (\<lambda>finished.
      if finished then async_return True else send_messages K all_len (i + 1) ms)) Q"
    and rest: "\<not> de_full_duplex K \<Longrightarrow> async_ok I (send_messages K all_len (i + 1) ms) Q"
  shows "async_ok I (send_messages K all_len i (m # ms)) Q"
  unfolding send_messages.simps
proof (rule async_ok_bind [where R = "\<lambda>_. I"], goal_cases)
  case 1
  show ?case by (auto intro: async_ok_delay async_ok_return)
next
  case 2
  show ?case
  proof (rule async_ok_bind [OF send], goal_cases)
    case (1 r)
    have "async_ok I (async_bind (async_update (\<lambda>v. set_error K e (v\<lparr>dv_num_unsent := of_nat (all_len - i)\<rparr>)))
        (\<lambda>_. async_return True)) Q" for e
      by (rule async_ok_bind [where R = "\<lambda>_. Q True"]) (auto intro!: async_ok_update async_ok_return failed)
    with recv rest show ?case by (auto split: sum.split simp del: send_messages.simps)
  qed
qed

lemma send_messages_quota:
  assumes N: "net_ok (de_net K)"
  shows "i + length ms \<le> all_len \<Longrightarrow> async_ok (quota_open K) (send_messages K all_len i ms)
    (\<lambda>finished v. if finished then run_met K all_len v else quota_open K v)"
proof (induction ms arbitrary: i)
  case Nil
  show ?case by (auto intro: async_ok_return)
next
  case (Cons m ms)
  have next_one: "async_ok (quota_open K) (send_messages K all_len (i + 1) ms)
      (\<lambda>finished v. if finished then run_met K all_len v else quota_open K v)"
    using Cons by simp
  have recv: "async_ok (quota_open K) (async_bind (recv_one K) (\<lambda>finished.
        if finished then async_return True else send_messages K all_len (i + 1) ms))
      (\<lambda>finished v. if finished then run_met K all_len v else quota_open K v)"
  proof (rule async_ok_bind [OF recv_one_quota [OF N]])
    fix fin
    show "async_ok (\<lambda>v. if fin then quota_met K v \<and> dv_num_unsent v = 0 else quota_open K v)
       (if fin then async_return True else send_messages K all_len (i + 1) ms)
       (\<lambda>finished v. if finished then run_met K all_len v else quota_open K v)"
      using next_one by (cases fin) (auto intro!: async_ok_return run_met_all_sent)
  qed
  have send: "async_ok (quota_open K) (on_conn K (client_send (de_net K) m)) (\<lambda>_. quota_open K)"
    by (rule async_ok_on_conn) (auto intro: quota_open_conn send_keeps_live)
  show ?case
    by (rule send_messages_rule [OF send _ recv next_one]) (simp add: run_met_unsent)
qed

lemma close_phase_quota: "async_ok (quota_open K) (close_phase K) (\<lambda>_. quota_open K)"
  unfolding close_phase_def
proof (rule async_ok_bind [where R = "\<lambda>_. quota_open K"])
  show "async_ok (quota_open K)
       (if de_cancel K = Some BeforeCloseSend then async_update set_cancelled
        else async_bind (on_conn K (close_send (de_net K))) (\<lambda>_. async_return ())) (\<lambda>_. quota_open K)"
  proof (cases "de_cancel K = Some BeforeCloseSend")
    case True
    then show ?thesis
      by (auto intro!: async_ok_update simp: quota_open_def quota_of_def set_cancelled_def)
  next
    case False
    have "async_ok (quota_open K) (on_conn K (close_send (de_net K))) (\<lambda>_. quota_open K)"
      by (rule async_ok_on_conn) (auto intro: quota_open_conn close_keeps_live)
    with False show ?thesis by (auto intro: async_ok_bind async_ok_return)
  qed
  show "async_ok (quota_open K)
       (case de_cancel K of
         Some (AfterCloseSendMs ms) \<Rightarrow>
           if de_single_response K then
             async_bind (runtime_delay K (from_millis (unat ms))) (\<lambda>_. async_update set_cancelled)
           else (\<lambda>os v. (Finished (), v\<lparr>dv_spawned := Some (clock os, from_millis (unat ms))\<rparr>, os))
       | _ \<Rightarrow> async_return ()) (\<lambda>_. quota_open K)" for u :: unit
  proof (cases "\<exists>ms. de_cancel K = Some (AfterCloseSendMs ms)")
    case True
    then obtain ms where c: "de_cancel K = Some (AfterCloseSendMs ms)" by blast
    have "async_ok (quota_open K) (async_bind (runtime_delay K (from_millis (unat ms))) (\<lambda>_. async_update set_cancelled))
        (\<lambda>_. quota_open K)"
      by (rule async_ok_bind [OF async_ok_delay]) (auto intro!: async_ok_update simp: quota_open_def quota_of_def c set_cancelled_def)
    then show ?thesis
      by (auto simp: c async_ok_def quota_open_def quota_of_def)
  next
    case False
    then show ?thesis by (auto intro!: async_ok_return split: option.split cancel_timing.split)
  qed
qed

lemma drain_quota:
  assumes "net_ok (de_net K)"
  shows "async_ok (quota_open K) (drain fuel K) (\<lambda>_. run_met K all_len)"
proof (induction fuel)
  case 0
  show ?case by (simp add: async_ok_def)
next
  case (Suc fuel)
  show ?case
    unfolding drain.simps
    by (rule async_ok_bind [OF recv_one_quota [OF assms]], rename_tac fin, case_tac fin)
      (auto intro!: async_ok_return run_met_all_sent Suc)
qed

lemma run_call_met:
  assumes "net_ok (de_net K)"
  shows "async_ok (quota_open K) (run_call fuel K ms) (\<lambda>_. run_met K (length ms))"
  unfolding run_call_def
proof (rule async_ok_bind [OF send_messages_quota [OF assms]], simp, rename_tac fin, case_tac fin)
qed (auto intro!: async_ok_return async_ok_bind [OF close_phase_quota] drain_quota [OF assms])

lemma map_sum_Inr_iff: "map_sum f g x = Inr y \<longleftrightarrow> (\<exists>z. x = Inr z \<and> y = g z)"
  by (cases x) auto

lemma decode_requests_length: "decode_requests P want anys = Inr ms \<Longrightarrow> length ms = length anys"
  by (induction P want anys arbitrary: ms rule: decode_requests.induct)
    (auto simp: Let_def map_sum_Inr_iff split: if_splits sum.splits)

text \<open>The parts of a run that reports a response.\<close>

lemma drive_call_response:
  assumes "drive_call fuel N P M path full_duplex req os = Finished (ResponseResult r)"
  obtains messages c v os' where
    "decode_requests (dm_request M) (CLIENT_TYPE_PREFIX @ dm_short M) (cr_request_messages req) = Inr messages"
    "dm_single_request M \<Longrightarrow> length messages = 1"
    "client_new N (clock os) (prost_codec (dm_request M)) (prost_codec (dm_response M)) path
       (metadata_from_headers (e_base64 (n_env N)) (cr_request_headers req))
       (map_option (\<lambda>ms. duration_of (from_millis (unat ms))) (cr_timeout_ms req)) full_duplex = Some c"
    "run_call fuel (drive_env_of N P M full_duplex req) messages os (drive_vars_of c) = (Finished (), v, os')"
    "ResponseResult r = report (e_headers (n_env N)) (check_single (drive_env_of N P M full_duplex req) v)"
  using assms
  by (auto simp: drive_call_def client_error_def Let_def split: sum.splits if_splits option.splits outcome.splits prod.splits)

lemma drive_vars_open: "quota_open (drive_env_of N P M full_duplex req) (drive_vars_of c)"
  by (auto simp: quota_open_def drive_vars_of_def quota_of_after unat_gt_0 word_gt_0)

section \<open>Lemmas: a half-duplex call before it fires\<close>

definition unfired :: "('r, 'w, 'h, 'q, 'p) client_conn \<Rightarrow> bool" where
  "unfired c \<longleftrightarrow> (\<exists>pd. gcc_inner c = Inner_Pending pd) \<and> gcc_init_error c = None \<and> \<not> gcc_full_duplex c"

lemma client_new_unfired:
  "client_new N now Kq Kp path md timeout False = Some c \<Longrightarrow> unfired c"
  by (auto simp: client_new_def client_open_def unfired_def Let_def split: option.splits)

lemma send_unfired: "client_send N m os c = (x, c', os') \<Longrightarrow> unfired c \<Longrightarrow> unfired c'"
  by (auto simp: client_send_def unfired_def split: sum.splits if_splits)

text \<open>What has happened before the half-close: nothing is there to report.\<close>

definition nothing_yet :: "('r, 'w, 'h, 'q, 'p) drive_vars \<Rightarrow> bool" where
  "nothing_yet v \<longleftrightarrow> unfired (dv_conn v) \<and> dv_payloads v = [] \<and> dv_error v = None \<and> dv_num_unsent v = 0 \<and>
     \<not> dv_cancelled v \<and> dv_spawned v = None"

definition send_failed :: "('r, 'w, 'h, 'q, 'p) drive_vars \<Rightarrow> bool" where
  "send_failed v \<longleftrightarrow> unfired (dv_conn v) \<and> dv_payloads v = [] \<and> dv_error v \<noteq> None \<and> dv_num_unsent v \<noteq> 0"

lemma drive_vars_nothing: "unfired c \<Longrightarrow> nothing_yet (drive_vars_of c)"
  by (simp add: nothing_yet_def drive_vars_of_def)

lemma send_messages_unfired:
  assumes "\<not> de_full_duplex K"
  shows "i + length ms = all_len \<Longrightarrow> all_len < 2 ^ 32 \<Longrightarrow> async_ok nothing_yet (send_messages K all_len i ms)
    (\<lambda>finished v. if finished then send_failed v else nothing_yet v)"
proof (induction ms arbitrary: i)
  case Nil
  show ?case by (auto intro: async_ok_return)
next
  case (Cons m ms)
  have unsent: "(of_nat (all_len - i) :: i32) \<noteq> 0"
    using Cons.prems by (subst word_of_nat_eq_0_iff) (auto dest: dvd_imp_le)
  have send: "async_ok nothing_yet (on_conn K (client_send (de_net K) m)) (\<lambda>_. nothing_yet)"
    by (rule async_ok_on_conn) (auto simp: nothing_yet_def intro: send_unfired)
  have rest: "async_ok nothing_yet (send_messages K all_len (i + 1) ms)
      (\<lambda>finished v. if finished then send_failed v else nothing_yet v)"
    using Cons by simp
  show ?case
    by (rule send_messages_rule [OF send _ _ rest])
      (use assms unsent in \<open>simp_all add: send_failed_def nothing_yet_def set_error_def\<close>)
qed

section \<open>Lemmas: a half-duplex call that is cancelled before it is read\<close>

text \<open>
  The call is cancelled, with nothing received: it has not fired, it has fired and is live, or
  it has failed.
\<close>

definition cut_off :: "bool \<Rightarrow> ('r, 'w, 'h, 'q, 'p) drive_vars \<Rightarrow> bool" where
  "cut_off fired v \<longleftrightarrow> dv_payloads v = [] \<and> dv_error v = None \<and> dv_num_unsent v = 0 \<and> dv_cancelled v \<and>
     (if fired then is_live (gcc_inner (dv_conn v)) \<or> (\<exists>e. gcc_inner (dv_conn v) = Inner_Failed e)
      else unfired (dv_conn v))"

lemma close_unfired:
  assumes "close_send N os c = (Finished x, c', os')" and "unfired c"
  shows "is_live (gcc_inner c') \<or> (\<exists>e. gcc_inner c' = Inner_Failed e)"
proof -
  from assms(2) obtain pd where pd: "gcc_inner c = Inner_Pending pd" "\<not> gcc_full_duplex c" by (auto simp: unfired_def)
  let ?c = "c\<lparr>gcc_inner := Inner_Pending (pd\<lparr>pd_send_closed := True\<rparr>)\<rparr>"
  from assms(1) pd have "(if gcc_full_duplex ?c then materialize_duplex N else materialize_reading N) os ?c
      = (Finished x, c', os')" by (simp add: close_send_def)
  from materialize_either_step [OF _ this] show ?thesis by (cases x) auto
qed

lemma recv_unfired_no_polls: "unfired c \<Longrightarrow> client_recv N [] c = (Suspended, snd (take_body c), [])"
  by (auto simp: unfired_def client_recv_def async_try_def materialize_reading_def materialize_def take_body_def
      build_request_def Let_def)

lemma recv_cut_off:
  assumes N: "net_ok (de_net K)" and v: "cut_off fired v"
    and r: "client_recv (de_net K) (map (seen (n_delay (de_net K)) v) os) (dv_conn v) = (Finished r, c, os')"
  shows "\<exists>e. r = Inl e \<and> (\<not> fired \<longrightarrow> (\<exists>d o1. race_error d o1 e) \<and> gcc_inner c = Inner_Failed e)"
proof -
  consider "fired" "is_live (gcc_inner (dv_conn v))" | e where "fired" "gcc_inner (dv_conn v) = Inner_Failed e"
    | "\<not> fired" "unfired (dv_conn v)"
    using v by (auto simp: cut_off_def split: if_splits)
  then show ?thesis
  proof cases
    case 1
    with recv_after_cancel [OF N _ _ r] v show ?thesis by (auto simp: cut_off_def)
  next
    case 2
    with r show ?thesis by (auto simp: client_recv_def recv_live_def)
  next
    case 3
    show ?thesis
    proof (cases os)
      case Nil
      with r 3 recv_unfired_no_polls [of "dv_conn v" "de_net K"] show ?thesis by simp
    next
      case (Cons o1 rest)
      from 3(2) obtain pd where pd: "gcc_inner (dv_conn v) = Inner_Pending pd" "gcc_init_error (dv_conn v) = None"
        by (auto simp: unfired_def)
      from v have "ob_shutdown (seen (n_delay (de_net K)) v o1)" by (simp add: cut_off_def seen_cancelled)
      from recv_cancelled_pending [OF N this pd, of "map (seen (n_delay (de_net K)) v) rest"] r Cons
      show ?thesis by auto
    qed
  qed
qed

definition cut_short :: "bool \<Rightarrow> ('r, 'w, 'h, 'q, 'p) drive_vars \<Rightarrow> bool" where
  "cut_short fired v \<longleftrightarrow> dv_payloads v = [] \<and> dv_num_unsent v = 0 \<and>
     (\<exists>e. dv_error v = Some e \<and> (\<not> fired \<longrightarrow> er_code e \<in> {1, 4} \<and> (\<exists>st. gcc_inner (dv_conn v) = Inner_Failed st)))"

lemma race_error_code: "race_error d o1 e \<Longrightarrow> er_code (rpc_error E P e t) = 1 \<or> er_code (rpc_error E P e t) = 4"
  by (auto simp: race_error_def rpc_error_def st_call_cancelled_def st_elapsed_def status_new_def)

lemma drain_cut_off:
  assumes N: "net_ok (de_net K)"
  shows "async_ok (cut_off fired) (drain fuel K) (\<lambda>_. cut_short fired)"
proof (cases fuel)
  case 0
  then show ?thesis by (simp add: async_ok_def)
next
  case (Suc n)
  show ?thesis
  proof (rule async_okI)
    fix os v x v' os'
    assume v: "cut_off fired v" and d: "drain fuel K os v = (Finished x, v', os')"
    obtain r c os1 where r: "client_recv (de_net K) (map (seen (n_delay (de_net K)) v) os) (dv_conn v) = (r, c, os1)"
      by (metis surj_pair)
    from d r Suc obtain y where y: "r = Finished y"
      by (cases r) (auto simp: recv_one_def on_conn_def async_bind_def)
    from recv_cut_off [OF N v r [unfolded y]] obtain e where e: "y = Inl e"
      "\<not> fired \<longrightarrow> (\<exists>d o1. race_error d o1 e) \<and> gcc_inner c = Inner_Failed e" by blast
    with d r y Suc have "v' = set_error K e (v\<lparr>dv_conn := c\<rparr>)"
      by (simp add: recv_one_def on_conn_def async_bind_def async_return_def)
    with v e(2) show "cut_short fired v'"
      by (auto simp: cut_off_def cut_short_def set_error_def dest: race_error_code)
  qed
qed

lemma close_phase_cut:
  assumes "de_cancel K = Some BeforeCloseSend \<or> (de_single_response K \<and> (\<exists>ms. de_cancel K = Some (AfterCloseSendMs ms)))"
  shows "async_ok nothing_yet (close_phase K) (\<lambda>_. cut_off (de_cancel K \<noteq> Some BeforeCloseSend))"
proof (cases "de_cancel K = Some BeforeCloseSend")
  case True
  then show ?thesis
    by (auto simp: close_phase_def async_ok_def async_bind_def async_update_def async_return_def cut_off_def
        nothing_yet_def set_cancelled_def)
next
  case False
  with assms obtain ms where ms: "de_single_response K" "de_cancel K = Some (AfterCloseSendMs ms)" by blast
  let ?I = "\<lambda>v. dv_payloads v = [] \<and> dv_error v = None \<and> dv_num_unsent v = 0 \<and>
      (is_live (gcc_inner (dv_conn v)) \<or> (\<exists>e. gcc_inner (dv_conn v) = Inner_Failed e))"
  have close: "async_ok nothing_yet (on_conn K (close_send (de_net K))) (\<lambda>_. ?I)"
    by (rule async_ok_on_conn) (auto simp: nothing_yet_def dest: close_unfired)
  have delay: "async_ok ?I (async_bind (runtime_delay K d) (\<lambda>_. async_update set_cancelled)) (\<lambda>_. cut_off True)" for d
    by (rule async_ok_bind [OF async_ok_delay]) (auto intro!: async_ok_update simp: cut_off_def set_cancelled_def)
  have closed: "async_ok nothing_yet (async_bind (on_conn K (close_send (de_net K))) (\<lambda>_. async_return ())) (\<lambda>_. ?I)"
    by (rule async_ok_bind [OF close]) (rule async_ok_return)
  have "async_ok nothing_yet
      (async_bind (async_bind (on_conn K (close_send (de_net K))) (\<lambda>_. async_return ()))
        (\<lambda>_. async_bind (runtime_delay K (from_millis (unat ms))) (\<lambda>_. async_update set_cancelled))) (\<lambda>_. cut_off True)"
    by (rule async_ok_bind [OF closed delay])
  then show ?thesis by (simp add: close_phase_def ms)
qed

lemma run_call_cut:
  assumes "net_ok (de_net K)" and "\<not> de_full_duplex K" and "length ms < 2 ^ 32"
    and "de_cancel K = Some BeforeCloseSend \<or> (de_single_response K \<and> (\<exists>ms. de_cancel K = Some (AfterCloseSendMs ms)))"
  shows "async_ok nothing_yet (run_call fuel K ms)
    (\<lambda>_ v. send_failed v \<or> cut_short (de_cancel K \<noteq> Some BeforeCloseSend) v)"
  unfolding run_call_def
proof (rule async_ok_bind [OF send_messages_unfired [OF assms(2)]], goal_cases)
  case (3 fin)
  have "async_ok nothing_yet (async_bind (close_phase K) (\<lambda>_. drain fuel K))
      (\<lambda>_. cut_short (de_cancel K \<noteq> Some BeforeCloseSend))"
    by (rule async_ok_bind [OF close_phase_cut [OF assms(4)] drain_cut_off [OF assms(1)]])
  then show ?case by (cases fin) (auto intro: async_ok_return elim: async_ok_weaken)
qed (use assms(3) in simp_all)

section \<open>Lemmas: a cancelled call does not poll its request\<close>

lemma client_race_unpolled:
  assumes "or_ok f_or" and "ob_shutdown o1"
  shows "client_race D f_or deadline fut o1 (Unstarted, s) = client_race D f_or deadline fut' o1 (Unstarted, s)"
  using assms by (auto simp: client_race_def or_ok_def cancel_fut_def split: option.splits)

lemma build_request_unpolled: "build_request (N\<lparr>n_poll := poll\<rparr>) = build_request N"
  by (intro ext) (simp add: build_request_def Let_def split: inner.split option.split)

lemma materialize_unpolled:
  assumes N: "net_ok N" and os: "os = [] \<or> ob_shutdown (hd os)"
  shows "materialize (N\<lparr>n_poll := poll\<rparr>) fire enter os c = materialize N fire enter os c"
proof (cases os)
  case Nil
  then show ?thesis by (auto simp: materialize_def build_request_def Let_def split: option.split prod.split inner.split)
next
  case (Cons o1 rest)
  with os have o1: "ob_shutdown o1" by simp
  have "await_fut (client_race (n_delay N) (n_or_send N) d (fut_map_err transport_error poll)) os (Unstarted, x) =
      await_fut (client_race (n_delay N) (n_or_send N) d (fut_map_err transport_error (n_poll N))) os (Unstarted, x)" for d x
  proof -
    obtain t e where "client_race (n_delay N) (n_or_send N) d (fut_map_err transport_error poll) o1 (Unstarted, x)
        = (Ready (Inl e), (t, x))"
      using client_race_disturbed [OF net_okD(1) [OF N] o1] by blast
    then show ?thesis
      using client_race_unpolled [OF net_okD(1) [OF N] o1, of "n_delay N" d "fut_map_err transport_error poll" x
        "fut_map_err transport_error (n_poll N)"] by (simp add: Cons)
  qed
  then show ?thesis by (simp add: materialize_def build_request_unpolled cong: option.case_cong prod.case_cong outcome.case_cong sum.case_cong)
qed

lemma recv_unpolled:
  assumes N: "net_ok N" and c: "unfired c" and os: "\<forall>o1 \<in> set os. ob_shutdown o1"
  shows "client_recv (N\<lparr>n_poll := poll\<rparr>) os c = client_recv N os c"
proof -
  from c obtain pd where pd: "gcc_inner c = Inner_Pending pd" "gcc_init_error c = None" "\<not> gcc_full_duplex c"
    by (auto simp: unfired_def)
  have same: "materialize_reading (N\<lparr>n_poll := poll\<rparr>) os c = materialize_reading N os c"
    using os by (cases os) (simp_all add: materialize_reading_def materialize_unpolled [OF N])
  have "\<nexists>v s os'. materialize_reading N os c = (Finished (Inr v), s, os')"
  proof (cases os)
    case Nil
    with pd show ?thesis
      by (auto simp: materialize_reading_def materialize_def take_body_def build_request_def Let_def)
  next
    case (Cons o1 rest)
    with os have o1: "ob_shutdown o1" by simp
    from materialize_cancelled [OF N o1 pd(1,2), of "n_send N" "\<lambda>head conn. Inner_Reading (live_from head conn)" rest]
    show ?thesis unfolding materialize_reading_def Cons by auto
  qed
  then show ?thesis
    using pd same by (simp add: client_recv_def async_try_def split: prod.split outcome.split sum.split)
qed

text \<open>The same of the whole run.\<close>

lemma request_frame_unpolled: "request_frame (N\<lparr>n_poll := poll\<rparr>) c m = request_frame N c m"
  by (simp add: request_frame_def)

lemma set_error_unpolled: "set_error (K\<lparr>de_net := de_net K\<lparr>n_poll := poll\<rparr>\<rparr>) e v = set_error K e v"
  by (simp add: set_error_def)

lemma send_unpolled: "unfired c \<Longrightarrow> client_send (N\<lparr>n_poll := poll\<rparr>) m os c = client_send N m os c"
  by (auto simp: unfired_def client_send_def request_frame_unpolled split: sum.split)

lemma async_bind_eq:
  assumes "m os s = r" and "m' os s = r" and "\<And>y s1 os1. r = (Finished y, s1, os1) \<Longrightarrow> k y os1 s1 = k' y os1 s1"
  shows "async_bind m k os s = async_bind m' k' os s"
  using assms by (cases r) (auto simp: async_bind_def split: outcome.split)

lemma send_messages_unpolled:
  fixes K :: "('r, 'w, 'h, 'x, 'p) drive_env" and poll :: "('x, str + ('r, 'h) response) fut"
  defines "K' \<equiv> K\<lparr>de_net := de_net K\<lparr>n_poll := poll\<rparr>\<rparr>"
  assumes K: "\<not> de_full_duplex K"
  shows "unfired (dv_conn (v :: ('r, 'w, 'h, 'q, 'p) drive_vars)) \<Longrightarrow> send_messages K' all_len i ms os v = send_messages K all_len i ms os v"
proof (induction ms arbitrary: i os v)
  case (Cons m ms)
  have delay: "runtime_delay K' d os v = runtime_delay K d os v" for d
    by (simp add: K'_def runtime_delay_def)
  have send: "on_conn K' (client_send (de_net K') m) os v = on_conn K (client_send (de_net K) m) os v"
    if "unfired (dv_conn v)" for os v
    using that by (simp add: K'_def on_conn_def send_unpolled)
  have after: "unfired (dv_conn v')" if "on_conn K (client_send (de_net K) m) os v = (x, v', os')" "unfired (dv_conn v)"
    for os v x v' os'
    using that by (auto simp: on_conn_def split: prod.splits dest: send_unfired)
  have stays: "v' = v" if "(if b then runtime_delay K d else async_return ()) os v = (x, v', os')"
    for b d x v' os' and v :: "('r, 'w, 'h, 'q, 'p) drive_vars" and os
    using that by (auto simp: runtime_delay_def async_return_def split: if_splits prod.splits)
  obtain x v1 os1 where d: "(if de_request_delay K \<noteq> 0 then runtime_delay K (de_request_delay K) else async_return ()) os v
      = (x, v1, os1)" by (metis surj_pair)
  then have d': "(if de_request_delay K' \<noteq> 0 then runtime_delay K' (de_request_delay K') else async_return ()) os v
      = (x, v1, os1)" using delay by (auto simp: K'_def)
  from stays [OF d] Cons.prems have v1: "unfired (dv_conn v1)" by simp
  obtain y v2 os2 where s: "on_conn K (client_send (de_net K) m) os1 v1 = (y, v2, os2)" by (metis surj_pair)
  with send [OF v1] have s': "on_conn K' (client_send (de_net K') m) os1 v1 = (y, v2, os2)" by simp
  have err: "set_error K' e w = set_error K e w" "de_full_duplex K' = de_full_duplex K" for e and w :: "('r, 'w, 'h, 'q, 'p) drive_vars"
    by (simp_all add: K'_def set_error_unpolled)
  note rest = Cons.IH [OF after [OF s v1]]
  have failed: "async_bind (async_update (\<lambda>v. set_error K' e (v\<lparr>dv_num_unsent := u\<rparr>))) (\<lambda>_. async_return True) os2 v2 =
      async_bind (async_update (\<lambda>v. set_error K e (v\<lparr>dv_num_unsent := u\<rparr>))) (\<lambda>_. async_return True) os2 v2" for e u
    by (simp add: async_bind_def async_update_def err)
  show ?case
    unfolding send_messages.simps
  proof (rule async_bind_eq, rule d', rule d, goal_cases)
    case (1 y1 w ws)
    then have w: "w = v1" "ws = os1" by simp_all
    show ?case
      unfolding w
    proof (rule async_bind_eq, rule s', rule s, goal_cases)
      case (1 r w2 ws2)
      then show ?case
        using failed rest K err(2) by (cases r) simp_all
    qed
  qed
qed simp

lemma drain_unpolled:
  fixes K :: "('r, 'w, 'h, 'x, 'p) drive_env" and poll :: "('x, str + ('r, 'h) response) fut"
  defines "K' \<equiv> K\<lparr>de_net := de_net K\<lparr>n_poll := poll\<rparr>\<rparr>"
  assumes N: "net_ok (de_net K)" and v: "cut_off False (v :: ('r, 'w, 'h, 'a, 'p) drive_vars)"
  shows "drain fuel K' os v = drain fuel K os v"
proof (cases fuel)
  case (Suc n)
  let ?os = "map (seen (n_delay (de_net K)) v) os"
  have u: "unfired (dv_conn v)" "\<forall>o1 \<in> set ?os. ob_shutdown o1"
    using v by (auto simp: cut_off_def seen_cancelled)
  obtain r c os1 where r: "client_recv (de_net K) ?os (dv_conn v) = (r, c, os1)" by (metis surj_pair)
  with recv_unpolled [OF N u] have r': "client_recv (de_net K') ?os (dv_conn v) = (r, c, os1)" by (simp add: K'_def)
  have err: "set_error K' e w = set_error K e w" "n_delay (de_net K') = n_delay (de_net K)" for e and w :: "('r, 'w, 'h, 'a, 'p) drive_vars"
    by (simp_all add: K'_def set_error_unpolled)
  show ?thesis
  proof (cases r)
    case (Finished y)
    with recv_cut_off [OF N v, of os y] r obtain e where "y = Inl e" by blast
    with r r' Finished err show ?thesis by (simp add: Suc recv_one_def on_conn_def async_bind_def)
  qed (use r r' err in \<open>simp_all add: Suc recv_one_def on_conn_def async_bind_def\<close>)
qed simp

lemma run_call_unpolled:
  fixes K :: "('r, 'w, 'h, 'x, 'p) drive_env" and poll :: "('x, str + ('r, 'h) response) fut"
  assumes N: "net_ok (de_net K)" and K: "\<not> de_full_duplex K" "de_cancel K = Some BeforeCloseSend"
    and v: "nothing_yet v" and ms: "length ms < 2 ^ 32"
  shows "run_call fuel (K\<lparr>de_net := de_net K\<lparr>n_poll := poll\<rparr>\<rparr>) ms os v = run_call fuel K ms os v"
proof -
  let ?K = "K\<lparr>de_net := de_net K\<lparr>n_poll := poll\<rparr>\<rparr>"
  obtain x v1 os1 where s: "send_messages K (length ms) 0 ms os v = (x, v1, os1)" by (metis surj_pair)
  with send_messages_unpolled [OF K(1), of v poll "length ms" 0 ms os] v have s': "send_messages ?K (length ms) 0 ms os v = (x, v1, os1)"
    by (simp add: nothing_yet_def)
  show ?thesis
  proof (cases "x = Finished False")
    case True
    with async_okD [OF send_messages_unfired [OF K(1)] v s [unfolded True]] ms have "nothing_yet v1" by simp
    then have "cut_off False (set_cancelled v1)" by (simp add: nothing_yet_def cut_off_def set_cancelled_def)
    from drain_unpolled [OF N this] show ?thesis
      using True K(2) by (simp add: run_call_def async_bind_def s s' close_phase_def async_update_def async_return_def)
  next
    case False
    then show ?thesis by (cases x) (auto simp: run_call_def async_bind_def s s')
  qed
qed

end
