(* ===== verification/ConformanceReport.thy ===== *)
theory ConformanceReport
  imports ConformanceClient UnaryCall
begin

text \<open>
  What the conformance client reports (\<open>conformance/src/bin/client.rs\<close>): a half-duplex call that
  nothing disturbs reports what the response delivers; the accounting of any run; a call that is
  cancelled before it is read; the types of the request messages.
\<close>

section \<open>The report of a delivery\<close>

definition payload_or_default :: "conformance_payload option \<Rightarrow> conformance_payload" where
  "payload_or_default p = (case p of Some x \<Rightarrow> x | None \<Rightarrow> payload_default)"

definition wrong_count :: "nat \<Rightarrow> error_msg" where
  "wrong_count n = \<lparr>er_code = ucast (as_u8 Unimplemented),
     er_message = Some (lit ''expected exactly one response message, got '' @ show_nat n), er_details = []\<rparr>"

text \<open>The report of a call that delivers the messages \<open>ms\<close> and the verdict \<open>w\<close>.\<close>

definition reported ::
  "'h env \<Rightarrow> conformance_pb \<Rightarrow> ('q, 'p) driven_method \<Rightarrow> 'h \<Rightarrow> 'h \<Rightarrow> 'p list \<Rightarrow> unit result \<Rightarrow> client_response_result" where
  "reported E P M h t ms w =
     (let bad = (w = Inr () \<and> dm_single_response M \<and> length ms \<noteq> 1) in
      \<lparr>cx_response_headers = headers_to_proto (e_headers E) (Some h),
       cx_payloads = (if bad then [] else map (\<lambda>m. payload_or_default (dm_payload M m)) ms),
       cx_error = (case w of Inl st \<Rightarrow> Some (rpc_error E P st (Some t))
                   | Inr _ \<Rightarrow> if bad then Some (wrong_count (length ms)) else None),
       cx_response_trailers = headers_to_proto (e_headers E) (Some t),
       cx_num_unsent_requests = 0, cx_http_status_code = None, cx_feedback = []\<rparr>)"

text \<open>The polls that are left when \<open>n\<close> delays in a row have passed.\<close>

fun after_delays :: "delay_fn \<Rightarrow> nat \<Rightarrow> nat \<Rightarrow> obs list \<Rightarrow> obs list option" where
  "after_delays D d 0 os = Some os"
| "after_delays D d (Suc n) os =
     (if d = 0 then after_delays D d n os
      else (case await_fut (sleep_poll D d) os Unstarted of
              (Finished _, _, os') \<Rightarrow> after_delays D d n os'
            | _ \<Rightarrow> None))"

lemma after_delays_rest: "after_delays D d n os = Some os1 \<Longrightarrow> set os1 \<subseteq> set os"
proof (induction n arbitrary: os)
  case (Suc n)
  obtain x t os2 where a: "await_fut (sleep_poll D d) os Unstarted = (x, t, os2)" by (metis surj_pair)
  from await_rest [OF a] Suc.prems Suc.IH [of os] Suc.IH [of os2] a show ?case
    by (auto split: if_splits outcome.splits)
qed simp

section \<open>Lemmas: a half-duplex call that nothing disturbs\<close>

definition calm_vars :: "('r, 'w, 'h, 'q, 'p) drive_vars \<Rightarrow> bool" where
  "calm_vars v \<longleftrightarrow> \<not> dv_cancelled v \<and> dv_spawned v = None"

lemma async_bind_finished: "m os s = (Finished x, s1, os1) \<Longrightarrow> async_bind m k os s = k x os1 s1"
  by (simp add: async_bind_def)

lemma seen_calm: "calm_vars v \<Longrightarrow> \<forall>o1 \<in> set os. \<not> ob_shutdown o1 \<Longrightarrow> map (seen D v) os = os"
  by (intro map_idI) (simp add: calm_vars_def seen_def)

lemma on_conn_calm:
  "calm_vars v \<Longrightarrow> \<forall>o1 \<in> set os. \<not> ob_shutdown o1 \<Longrightarrow>
   on_conn K m os v = (case m os (dv_conn v) of (x, c, os) \<Rightarrow> (x, v\<lparr>dv_conn := c\<rparr>, os))"
  by (simp add: on_conn_def seen_calm)

lemma calm_vars_conn [simp]: "calm_vars (v\<lparr>dv_conn := c\<rparr>) = calm_vars v"
  by (simp add: calm_vars_def)

lemma send_messages_buffers:
  assumes K: "\<not> de_full_duplex K"
  shows "calm_vars v \<Longrightarrow> \<forall>o1 \<in> set os. \<not> ob_shutdown o1 \<Longrightarrow>
    gcc_inner (dv_conn v) = Inner_Pending pd \<Longrightarrow> \<not> pd_send_closed pd \<Longrightarrow>
    list_all2 (\<lambda>m f. request_frame (de_net K) (dv_conn v) m = Inr f) ms frames \<Longrightarrow>
    after_delays (n_delay (de_net K)) (de_request_delay K) (length ms) os = Some os1 \<Longrightarrow>
    send_messages K all_len i ms os v = (Finished False,
      v\<lparr>dv_conn := (dv_conn v)\<lparr>gcc_inner := Inner_Pending (pd\<lparr>pd_body := pd_body pd @ concat frames\<rparr>)\<rparr>\<rparr>, os1)"
proof (induction ms arbitrary: i os v pd frames)
  case Nil
  then have "v\<lparr>dv_conn := (dv_conn v)\<lparr>gcc_inner := Inner_Pending pd\<rparr>\<rparr> = v" by simp
  with Nil show ?case by (simp add: async_return_def)
next
  case (Cons m ms)
  from Cons.prems(5) obtain f fs where f: "frames = f # fs" "request_frame (de_net K) (dv_conn v) m = Inr f"
    "list_all2 (\<lambda>m f. request_frame (de_net K) (dv_conn v) m = Inr f) ms fs" by (auto simp: list_all2_Cons1)
  obtain os2 where d: "(if de_request_delay K \<noteq> 0 then runtime_delay K (de_request_delay K) else async_return ()) os v
      = (Finished (), v, os2)"
    and os2: "after_delays (n_delay (de_net K)) (de_request_delay K) (length ms) os2 = Some os1" "set os2 \<subseteq> set os"
  proof (cases "de_request_delay K = 0")
    case True
    with Cons.prems(6) that [of os] show ?thesis by (simp add: async_return_def)
  next
    case False
    obtain x t os2 where a: "await_fut (sleep_poll (n_delay (de_net K)) (de_request_delay K)) os Unstarted = (x, t, os2)"
      by (metis surj_pair)
    from await_rest [OF a] Cons.prems(6) False a that [of os2] show ?thesis
      by (auto simp: runtime_delay_def split: outcome.splits)
  qed
  let ?c = "(dv_conn v)\<lparr>gcc_inner := Inner_Pending (pd\<lparr>pd_body := pd_body pd @ f\<rparr>)\<rparr>"
  have calm: "\<forall>o1 \<in> set os2. \<not> ob_shutdown o1" using Cons.prems(2) os2(2) by blast
  then have s: "on_conn K (client_send (de_net K) m) os2 v = (Finished (Inr ()), v\<lparr>dv_conn := ?c\<rparr>, os2)"
    using Cons.prems(1,3,4) f(2) by (simp add: on_conn_calm client_send_def)
  have "list_all2 (\<lambda>m f. request_frame (de_net K) (dv_conn (v\<lparr>dv_conn := ?c\<rparr>)) m = Inr f) ms fs"
    using f(3) by (simp add: request_frame_def)
  from Cons.IH [OF _ calm _ _ this os2(1), of "pd\<lparr>pd_body := pd_body pd @ f\<rparr>" "i + 1"] Cons.prems(1,4)
  have rest: "send_messages K all_len (i + 1) ms os2 (v\<lparr>dv_conn := ?c\<rparr>) = (Finished False,
      v\<lparr>dv_conn := (dv_conn v)\<lparr>gcc_inner := Inner_Pending (pd\<lparr>pd_body := pd_body pd @ concat frames\<rparr>)\<rparr>\<rparr>, os1)"
    by (simp add: f(1))
  show ?case
    unfolding send_messages.simps
    by (subst async_bind_finished, rule d, subst async_bind_finished, rule s) (use K rest in simp)
qed

text \<open>Draining is receiving until the end.\<close>

lemma materialize_rest: "materialize N fire enter os c = (x, c', os') \<Longrightarrow> set os' \<subseteq> set os"
  by (fastforce simp: materialize_def client_fail_def split: option.splits prod.splits outcome.splits sum.splits
      dest: await_rest)

lemma read_one_rest: "client_read_one N os c = (x, c', os') \<Longrightarrow> set os' \<subseteq> set os"
  by (fastforce simp: client_read_one_def split: option.splits prod.splits outcome.splits sum.splits if_splits
      dest: await_rest)

lemma recv_live_rest: "recv_live N os c = (x, c', os') \<Longrightarrow> set os' \<subseteq> set os"
  by (auto simp: recv_live_def split: inner.splits dest: read_one_rest)

lemma recv_rest:
  assumes "client_recv N os c = (x, c', os')"
  shows "set os' \<subseteq> set os"
proof (cases "\<exists>pd. gcc_inner c = Inner_Pending pd")
  case True
  with assms have "async_try (if gcc_full_duplex c then materialize_duplex N else materialize_reading N)
      (recv_live N) os c = (x, c', os')" by (auto simp: client_recv_def)
  then show ?thesis
  proof (cases rule: async_try_cases)
    case (first y)
    then show ?thesis
      by (auto simp: materialize_duplex_def materialize_reading_def split: if_splits dest: materialize_rest)
  next
    case (second v c1 os1)
    from second(1) have "set os1 \<subseteq> set os"
      by (auto simp: materialize_duplex_def materialize_reading_def split: if_splits dest: materialize_rest)
    with recv_live_rest [OF second(2)] show ?thesis by blast
  qed
next
  case False
  with assms recv_live_rest [of N os c x c' os'] show ?thesis by (cases "gcc_inner c") (auto simp: client_recv_def)
qed

lemma drain_recv_all:
  assumes "de_cancel K = None"
  shows "calm_vars v \<Longrightarrow> \<forall>o1 \<in> set os. \<not> ob_shutdown o1 \<Longrightarrow>
    recv_all n (de_net K) os (dv_conn v) = (ms, Some w, c) \<Longrightarrow>
    \<exists>os'. drain n K os v = (Finished (),
      (let u = v\<lparr>dv_conn := c, dv_payloads := dv_payloads v @ map (\<lambda>m. payload_or_default (de_payload K m)) ms\<rparr> in
       case w of Inl e \<Rightarrow> set_error K e u | Inr _ \<Rightarrow> u), os')"
proof (induction n arbitrary: v os ms)
  case (Suc n)
  obtain x c1 os1 where r: "client_recv (de_net K) os (dv_conn v) = (x, c1, os1)" by (metis surj_pair)
  have one: "recv_one K os v = (case x of
       Finished (Inr (Some resp)) \<Rightarrow> (Finished False, push_payload K resp (v\<lparr>dv_conn := c1\<rparr>), os1)
     | Finished (Inr None) \<Rightarrow> (Finished True, v\<lparr>dv_conn := c1\<rparr>, os1)
     | Finished (Inl e) \<Rightarrow> (Finished True, set_error K e (v\<lparr>dv_conn := c1\<rparr>), os1)
     | Panicked \<Rightarrow> (Panicked, v\<lparr>dv_conn := c1\<rparr>, os1) | Suspended \<Rightarrow> (Suspended, v\<lparr>dv_conn := c1\<rparr>, os1))"
    using Suc.prems(1,2) r by (simp add: recv_one_def async_bind_def on_conn_calm split: outcome.split sum.split option.split)
  show ?case
  proof (cases "\<exists>m. x = Finished (Inr (Some m))")
    case True
    then obtain m where m: "x = Finished (Inr (Some m))" ..
    obtain ms1 w1 c2 where all: "recv_all n (de_net K) os1 c1 = (ms1, w1, c2)" by (metis surj_pair)
    with Suc.prems(3) r m have eq: "ms = m # ms1" "w1 = Some w" "c2 = c" by auto
    let ?v = "push_payload K m (v\<lparr>dv_conn := c1\<rparr>)"
    have v: "?v = v\<lparr>dv_conn := c1, dv_payloads := dv_payloads v @ [payload_or_default (de_payload K m)]\<rparr>"
      using assms by (simp add: push_payload_def payload_or_default_def Let_def)
    have calm: "calm_vars ?v" using Suc.prems(1) by (simp add: v calm_vars_def)
    have all': "recv_all n (de_net K) os1 (dv_conn ?v) = (ms1, Some w, c)" using all eq by (simp add: v)
    have "\<forall>o1 \<in> set os1. \<not> ob_shutdown o1" using recv_rest [OF r] Suc.prems(2) by blast
    from Suc.IH [OF calm this all'] obtain os' where "drain n K os1 ?v = (Finished (),
        (let u = ?v\<lparr>dv_conn := c, dv_payloads := dv_payloads ?v @ map (\<lambda>m. payload_or_default (de_payload K m)) ms1\<rparr> in
         case w of Inl e \<Rightarrow> set_error K e u | Inr _ \<Rightarrow> u), os')"
      by blast
    then show ?thesis by (simp add: async_bind_def one m eq v Let_def)
  next
    case False
    with Suc.prems(3) r show ?thesis
      by (auto simp: async_bind_def async_return_def one Let_def split: outcome.splits sum.splits option.splits)
  qed
qed simp

text \<open>The call as a whole.\<close>

lemma client_new_pending:
  assumes "client_new N now Kq Kp path md timeout False = Some c"
  obtains pd where "gcc_inner c = Inner_Pending pd" "\<not> pd_send_closed pd" "pd_body pd = []"
    and "gcc_init_error c = None" "\<not> gcc_full_duplex c" "gcc_decode c = decode_response Kp"
      "gcc_max_message_size c = DEFAULT_MAX_MESSAGE_SIZE"
  using assms by (auto simp: client_new_def client_open_def Let_def split: option.splits)

lemma recv_all_step: "net_ok N \<Longrightarrow> recv_all n N os c = (ms, w, c') \<Longrightarrow> conn_step c c'"
proof (induction n arbitrary: os c ms)
  case (Suc n)
  obtain x c1 os1 where r: "client_recv N os c = (x, c1, os1)" by (metis surj_pair)
  with recv_step [OF Suc.prems(1)] have "conn_step c c1" by blast
  with Suc r show ?case
    by (auto split: outcome.splits sum.splits option.splits prod.splits intro: conn_step_trans)
qed simp

lemma run_call_delivers:
  assumes N: "net_ok (de_net K)"
    and src: "response_source (n_response_body (de_net K)) content good delay (n_response_trailers (de_net K)) final"
    and K: "\<not> de_full_duplex K" "de_cancel K = None"
    and v: "calm_vars v" "gcc_inner (dv_conn v) = Inner_Pending pd" "\<not> pd_send_closed pd" "pd_body pd = []"
      "gcc_init_error (dv_conn v) = None" "\<not> gcc_full_duplex (dv_conn v)"
    and frames: "list_all2 (\<lambda>m f. request_frame (de_net K) (dv_conn v) m = Inr f) ms frames"
    and calm: "\<forall>o1 \<in> set os. \<not> disturbed (gcc_deadline (dv_conn v)) o1"
    and delays: "after_delays (n_delay (de_net K)) (de_request_delay K) (length ms) os = Some os1"
    and fired: "build_request (de_net K) (clock os1) (dv_conn v) (concat frames) = Some rq"
    and answer: "await_fut (n_poll (de_net K)) os1 (n_send (de_net K) rq) = (Finished (Inr rp), x, os2)"
      "process_head (n_env (de_net K)) rp = Inr head" "good (rp_reader rp)" "delay (rp_reader rp) < length os2"
    and xs: "items (e_codecs (n_env (de_net K))) (gcc_decode (dv_conn v)) (hd_response_encoding head)
      (gcc_max_message_size (dv_conn v)) (content (rp_reader rp)) = xs" "length xs < fuel"
    and out: "delivered (hd_head_status head \<noteq> None) xs
      (verdict (n_env (de_net K)) (hd_head_status head) (final (rp_reader rp))) = (ps, w)"
  shows "\<exists>c t os'. run_call fuel K ms os v = (Finished (),
      (let u = v\<lparr>dv_conn := c, dv_payloads := dv_payloads v @ map (\<lambda>m. payload_or_default (de_payload K m)) ps\<rparr> in
       case w of Inl e \<Rightarrow> set_error K e u | Inr _ \<Rightarrow> u), os') \<and>
    gcc_inner c = Inner_Done (hd_response_headers head) t \<and>
    ((\<forall>e. Inl e \<notin> set xs) \<and> (hd_head_status head \<noteq> None \<longrightarrow> xs = []) \<longrightarrow>
      t = shown_trailers (n_env (de_net K)) (hd_head_status head) (hd_response_headers head) (final (rp_reader rp)))"
proof -
  let ?N = "de_net K" and ?c = "(dv_conn v)\<lparr>gcc_inner := Inner_Pending (pd\<lparr>pd_body := pd_body pd @ concat frames\<rparr>)\<rparr>"
  have quiet: "\<forall>o1 \<in> set os. \<not> ob_shutdown o1" using calm by (auto simp: disturbed_def)
  note sent = send_messages_buffers [OF K(1) v(1) quiet v(2,3) frames delays, of "length ms" 0]
  have os1: "set os1 \<subseteq> set os" by (rule after_delays_rest [OF delays])
  obtain y os3 where race: "await_fut (client_race (n_delay ?N) (n_or_send ?N) (gcc_deadline ?c)
      (fut_map_err transport_error (n_poll ?N))) os1 (Unstarted, n_send ?N rq) = (Finished (Inr rp), y, os2)"
  proof -
    have raw: "await_fut (fut_map_err transport_error (n_poll ?N)) os s = (case await_fut (n_poll ?N) os s of
        (Finished r, s', os') \<Rightarrow> (Finished (map_sum transport_error id r), s', os')
      | (Suspended, s', os') \<Rightarrow> (Suspended, s', os') | (Panicked, s', os') \<Rightarrow> (Panicked, s', os'))" for os s
      by (induction os arbitrary: s) (auto simp: fut_map_err_def split: prod.split poll.split)
    have "\<forall>o1 \<in> set os1. \<not> disturbed (gcc_deadline ?c) o1" using calm os1 by auto
    from await_race_calm [OF net_okD(1) [OF N] net_okD(4) [OF N] timer_ok_Unstarted this,
        of "fut_map_err transport_error (n_poll ?N)" "n_send ?N rq"] that show thesis
      by (auto simp: raw answer(1))
  qed
  have rq: "build_request ?N (clock os1) (snd (take_body ?c)) (concat frames) = Some rq"
    using fired v(2) by (auto simp: build_request_def take_body_def Let_def split: option.splits)
  obtain c2 where closed: "close_send ?N os1 ?c = (Finished (Inr ()), c2, os2)"
    "gcc_inner c2 = Inner_Reading (live_from head (rp_reader rp))" "gcc_deadline c2 = gcc_deadline (dv_conn v)"
    "gcc_decode c2 = gcc_decode (dv_conn v)" "gcc_max_message_size c2 = gcc_max_message_size (dv_conn v)"
    using fire_unary [of ?c "pd\<lparr>pd_body := pd_body pd @ concat frames\<rparr>" "concat frames" _ ?N os1 rq rp y os2 head]
      v rq race answer(2) by (auto simp: take_body_def)
  have os2: "set os2 \<subseteq> set os" using await_rest [OF answer(1)] os1 by blast
  have live: "message_sound good (live_stream (gcc_decode c2) (gcc_max_message_size c2) (live_from head (rp_reader rp)))"
    "lv_read_state (live_from head (rp_reader rp)) \<noteq> Done" "delay (lv_reader (live_from head (rp_reader rp))) < length os2"
    using answer(3,4) by (simp_all add: message_sound_fresh) (simp_all add: live_from_def)
  have calm2: "\<forall>o1 \<in> set os2. \<not> disturbed (gcc_deadline c2) o1" using calm os2 closed(3) by auto
  have todo: "message_todo (e_codecs (n_env ?N)) content
      (live_stream (gcc_decode c2) (gcc_max_message_size c2) (live_from head (rp_reader rp))) = xs"
    using xs(1) closed(4,5) by (simp add: message_todo_fresh)
  have "\<exists>c3 h t. recv_all fuel ?N os2 c2 = (ps, Some w, c3) \<and> gcc_inner c3 = Inner_Done h t \<and>
    ((\<forall>e. Inl e \<notin> set xs) \<and> (hd_head_status head \<noteq> None \<longrightarrow> xs = []) \<longrightarrow> gcc_inner c3 = Inner_Done (hd_response_headers head)
      (shown_trailers (n_env ?N) (hd_head_status head) (hd_response_headers head) (final (rp_reader rp))))"
    using reading.recv_all_delivers [OF N src closed(2) live calm2 todo xs(2)] out by (simp add: live_from_def)
  then obtain c3 h t where all: "recv_all fuel ?N os2 c2 = (ps, Some w, c3)" "gcc_inner c3 = Inner_Done h t"
    and exact: "(\<forall>e. Inl e \<notin> set xs) \<and> (hd_head_status head \<noteq> None \<longrightarrow> xs = []) \<longrightarrow>
      t = shown_trailers (n_env ?N) (hd_head_status head) (hd_response_headers head) (final (rp_reader rp))"
    by (metis inner.inject(4))
  from recv_all_step [OF N all(1)] closed(2) all(2) have h: "h = hd_response_headers head"
    by (simp add: conn_step_def live_from_def)
  have quiet1: "\<forall>o1 \<in> set os1. \<not> ob_shutdown o1" "\<forall>o1 \<in> set os2. \<not> ob_shutdown o1"
    using quiet os1 os2 by auto
  let ?v1 = "v\<lparr>dv_conn := ?c\<rparr>" and ?v2 = "v\<lparr>dv_conn := c2\<rparr>"
  have close: "close_phase K os1 ?v1 = (Finished (), ?v2, os2)"
    using K(2) v(1) quiet1(1) closed(1)
    by (simp add: close_phase_def async_bind_def async_return_def on_conn_calm)
  from drain_recv_all [OF K(2), of ?v2 os2 fuel ps w c3] v(1) quiet1(2) all(1)
  obtain os4 where "drain fuel K os2 ?v2 = (Finished (),
      (let u = ?v2\<lparr>dv_conn := c3, dv_payloads := dv_payloads ?v2 @ map (\<lambda>m. payload_or_default (de_payload K m)) ps\<rparr> in
       case w of Inl e \<Rightarrow> set_error K e u | Inr _ \<Rightarrow> u), os4)" by auto
  then show ?thesis
    using sent close all(2) h exact
    by (intro exI [of _ c3] exI [of _ t] exI [of _ os4]) (simp add: run_call_def async_bind_def)
qed

lemma report_delivered:
  assumes "v = (let u = (drive_vars_of c)\<lparr>dv_conn := c', dv_payloads := map (\<lambda>m. payload_or_default (dm_payload M m)) ps\<rparr> in
      case w of Inl e \<Rightarrow> set_error (drive_env_of N P M full_duplex req) e u | Inr _ \<Rightarrow> u)"
    and "gcc_inner c' = Inner_Done h t"
  shows "report (e_headers (n_env N)) (check_single (drive_env_of N P M full_duplex req) v) =
    ResponseResult (reported (n_env N) P M h t ps w)"
  using assms
  by (auto simp: report_def check_single_def drive_env_of_def drive_vars_of_def reported_def set_error_def Let_def
      client_headers_def client_trailers_def wrong_count_def split: sum.split)

lemma drive_delivers:
  assumes N: "net_ok N"
    and src: "response_source (n_response_body N) content good delay (n_response_trailers N) final"
    and req: "decode_requests (dm_request M) (CLIENT_TYPE_PREFIX @ dm_short M) (cr_request_messages req) = Inr ms"
      "dm_single_request M \<Longrightarrow> length ms = 1" "Option.bind (cr_cancel req) id = None"
    and c: "client_new N (clock os) (prost_codec (dm_request M)) (prost_codec (dm_response M)) path
      (metadata_from_headers (e_base64 (n_env N)) (cr_request_headers req))
      (map_option (\<lambda>ms. duration_of (from_millis (unat ms))) (cr_timeout_ms req)) False = Some c"
    and frames: "list_all2 (\<lambda>m f. request_frame N c m = Inr f) ms frames"
    and calm: "\<forall>o1 \<in> set os. \<not> disturbed (gcc_deadline c) o1"
    and delays: "after_delays (n_delay N) (from_millis (unat (cr_request_delay_ms req))) (length ms) os = Some os1"
    and fired: "build_request N (clock os1) c (concat frames) = Some rq"
    and answer: "await_fut (n_poll N) os1 (n_send N rq) = (Finished (Inr rp), x, os2)"
      "process_head (n_env N) rp = Inr head" "good (rp_reader rp)" "delay (rp_reader rp) < length os2"
    and xs: "items (e_codecs (n_env N)) (decode_response (prost_codec (dm_response M))) (hd_response_encoding head)
      DEFAULT_MAX_MESSAGE_SIZE (content (rp_reader rp)) = xs" "length xs < fuel"
    and out: "delivered (hd_head_status head \<noteq> None) xs (verdict (n_env N) (hd_head_status head) (final (rp_reader rp))) = (ps, w)"
  shows "\<exists>t. drive_call fuel N P M path False req os =
      Finished (ResponseResult (reported (n_env N) P M (hd_response_headers head) t ps w)) \<and>
    ((\<forall>e. Inl e \<notin> set xs) \<and> (hd_head_status head \<noteq> None \<longrightarrow> xs = []) \<longrightarrow>
      t = shown_trailers (n_env N) (hd_head_status head) (hd_response_headers head) (final (rp_reader rp)))"
proof -
  let ?K = "drive_env_of N P M False req"
  have K: "de_net ?K = N" "\<not> de_full_duplex ?K" "de_cancel ?K = None" "de_payload ?K = dm_payload M"
    "de_request_delay ?K = from_millis (unat (cr_request_delay_ms req))"
    using req(3) by (simp_all add: drive_env_of_def)
  obtain pd where pd: "gcc_inner c = Inner_Pending pd" "\<not> pd_send_closed pd" "pd_body pd = []"
    "gcc_init_error c = None" "\<not> gcc_full_duplex c" "gcc_decode c = decode_response (prost_codec (dm_response M))"
    "gcc_max_message_size c = DEFAULT_MAX_MESSAGE_SIZE"
    by (rule client_new_pending [OF c])
  have v: "calm_vars (drive_vars_of c)" "dv_conn (drive_vars_of c) = c" "dv_payloads (drive_vars_of c) = []"
    by (simp_all add: calm_vars_def drive_vars_of_def)
  from run_call_delivers [of ?K content good delay final "drive_vars_of c" pd ms frames os os1 rq rp x os2 head xs fuel ps w,
      unfolded K v pd append_Nil, OF N src K(2) refl v(1) refl pd(2) refl refl pd(5) frames calm delays fired answer xs out]
  obtain c' t os' where run: "run_call fuel ?K ms os (drive_vars_of c) = (Finished (),
      (let u = (drive_vars_of c)\<lparr>dv_conn := c', dv_payloads := map (\<lambda>m. payload_or_default (dm_payload M m)) ps\<rparr> in
       case w of Inl e \<Rightarrow> set_error ?K e u | Inr _ \<Rightarrow> u), os')"
    and c': "gcc_inner c' = Inner_Done (hd_response_headers head) t"
    and t: "(\<forall>e. Inl e \<notin> set xs) \<and> (hd_head_status head \<noteq> None \<longrightarrow> xs = []) \<longrightarrow>
      t = shown_trailers (n_env N) (hd_head_status head) (hd_response_headers head) (final (rp_reader rp))"
    by blast
  have "drive_call fuel N P M path False req os =
      Finished (ResponseResult (reported (n_env N) P M (hd_response_headers head) t ps w))"
    using req(2) c by (auto simp: drive_call_def req(1) run report_delivered [OF refl c'])
  with t show ?thesis by blast
qed

section \<open>An example\<close>

text \<open>A method whose messages are their bytes, and a request of the runner for it.\<close>

definition raw_prost :: "bytes prost_api" where
  "raw_prost = \<lparr>pm_encode = Inr, pm_decode = Inr\<rparr>"

definition raw_method :: "(bytes, bytes) driven_method" where
  "raw_method = \<lparr>dm_request = raw_prost, dm_response = raw_prost, dm_short = lit ''UnaryRequest'',
     dm_single_request = True, dm_single_response = True,
     dm_payload = (\<lambda>b. Some \<lparr>cp_data = b, cp_request_info = None\<rparr>)\<rparr>"

lemma raw_method_fields: "dm_request raw_method = raw_prost" "dm_response raw_method = raw_prost"
  by (simp_all add: raw_method_def)

definition example_compat_request :: "(cancel_timing option) option \<Rightarrow> client_compat_request" where
  "example_compat_request cancel =
     \<lparr>cr_test_name = [], cr_compression = 0, cr_host = [], cr_port = 0, cr_server_tls_cert = [], cr_service = None,
      cr_method = None, cr_stream_type = 1, cr_request_headers = [],
      cr_request_messages = [to_any raw_prost (lit ''UnaryRequest'') [7]], cr_timeout_ms = None,
      cr_request_delay_ms = 0, cr_cancel = cancel\<rparr>"

definition example_answer :: "(example_reader, example_headers) response" where
  "example_answer = example_response ([0, 0, 0, 0, 1, 7],
     status_write_into dalist_headers (e_base64 example_env) status_ok DAList.empty)"

lemma prost_codec_raw: "encode_msg (prost_codec raw_prost) = Inr" "decode_response (prost_codec raw_prost) = Inr"
  "content_type_suffix (prost_codec raw_prost) = lit ''proto''"
  by (auto simp: prost_codec_def raw_prost_def prost_encode_def decode_response_def prost_decode_def fun_eq_iff)

lemma example_decoded:
  "decode_requests (dm_request raw_method) (CLIENT_TYPE_PREFIX @ dm_short raw_method)
     (cr_request_messages (example_compat_request cancel)) = Inr [[7]]"
  by (simp add: raw_method_def example_compat_request_def to_any_def raw_prost_def encode_to_vec_def TYPE_PREFIX_def
      CLIENT_TYPE_PREFIX_def after_last_slash_def lit_def)

lemma example_client:
  "client_new (example_net 0 rp) now (prost_codec raw_prost) (prost_codec raw_prost) (lit ''Say'') metadata_new None False =
     Some (example_call\<lparr>gcc_inner := Inner_Pending \<lparr>pd_path = lit ''Say'', pd_content_type = lit ''application/grpc+proto'',
        pd_request_metadata = metadata_new, pd_body = [], pd_send_closed = False\<rparr>,
      gcc_decode := Inr, gcc_encode := Inr\<rparr>)"
proof -
  have "h_get_str dalist_headers DAList.empty k = None" for k
    by (rule h_get_str_None [OF headers_ok_dalist]) (simp add: dalist_headers_def)
  moreover have "lit ''application/grpc+'' @ lit ''proto'' = lit ''application/grpc+proto''" by (simp add: lit_def)
  ultimately show ?thesis
    by (simp add: client_new_def client_open_def prost_codec_raw example_net_def example_env_def example_call_def)
qed

text \<open>The same request, cancelled before its half-close.\<close>

lemma example_cancelled:
  "\<exists>r. drive_call 1 (example_net 0 rp) P raw_method (lit ''Say'') False
      (example_compat_request (Some (Some BeforeCloseSend))) [at_time 0] = Finished (ResponseResult r)"
proof -
  let ?N = "example_net 0 rp" and ?req = "example_compat_request (Some (Some BeforeCloseSend))"
  let ?K = "drive_env_of ?N P raw_method False ?req"
  let ?pd = "\<lparr>pd_path = lit ''Say'', pd_content_type = lit ''application/grpc+proto'',
        pd_request_metadata = metadata_new, pd_body = [], pd_send_closed = False\<rparr>"
  let ?c = "example_call\<lparr>gcc_inner := Inner_Pending ?pd, gcc_decode := Inr, gcc_encode := Inr\<rparr>
    :: (example_reader, example_reader, example_headers, bytes, bytes) client_conn"
  let ?v = "set_cancelled ((drive_vars_of ?c)\<lparr>dv_conn := ?c\<lparr>gcc_inner := Inner_Pending (?pd\<lparr>pd_body := [0, 0, 0, 0, 1, 7]\<rparr>)\<rparr>\<rparr>)"
  have K: "de_net ?K = ?N" "de_cancel ?K = Some BeforeCloseSend" "\<not> de_full_duplex ?K" "de_request_delay ?K = 0"
    by (simp_all add: drive_env_of_def example_compat_request_def from_millis_def)
  have client: "client_new ?N (clock [at_time 0]) (prost_codec raw_prost) (prost_codec raw_prost) (lit ''Say'')
      (metadata_from_headers (e_base64 (n_env ?N)) (cr_request_headers ?req))
      (map_option (\<lambda>ms. duration_of (from_millis (unat ms))) (cr_timeout_ms ?req)) False = Some ?c"
    by (simp add: example_client example_compat_request_def metadata_from_headers_def)
  have frame: "request_frame ?N ?c [7] = Inr [0, 0, 0, 0, 1, 7]"
    by (simp add: request_frame_def example_call_def encode_payload_eq u32_to_be_bytes_def example_net_def example_env_def)
  have sent: "send_messages ?K 1 0 [[7]] [at_time 0] (drive_vars_of ?c) = (Finished False,
      (drive_vars_of ?c)\<lparr>dv_conn := ?c\<lparr>gcc_inner := Inner_Pending (?pd\<lparr>pd_body := [0, 0, 0, 0, 1, 7]\<rparr>)\<rparr>\<rparr>, [at_time 0])"
    using send_messages_buffers [OF K(3), of "drive_vars_of ?c" "[at_time 0]" ?pd "[[7]]" "[[0, 0, 0, 0, 1, 7]]" "[at_time 0]" 1 0]
      frame by (simp add: K calm_vars_def drive_vars_of_def)
  have "ob_shutdown (seen (n_delay ?N) ?v (at_time 0))" by (simp add: seen_def set_cancelled_def)
  moreover have "gcc_inner (dv_conn ?v) = Inner_Pending (?pd\<lparr>pd_body := [0, 0, 0, 0, 1, 7]\<rparr>)"
    "gcc_init_error (dv_conn ?v) = None" by (simp_all add: set_cancelled_def example_call_def)
  ultimately obtain e c' where recv: "client_recv ?N [seen (n_delay ?N) ?v (at_time 0)] (dv_conn ?v) =
      (Finished (Inl e), c', [seen (n_delay ?N) ?v (at_time 0)])"
    using recv_cancelled_pending [OF net_ok_example, of _ "dv_conn ?v" _ 0 rp "[]"] by blast
  then have "drain 1 ?K [at_time 0] ?v = (Finished (), set_error ?K e (?v\<lparr>dv_conn := c'\<rparr>), [seen (n_delay ?N) ?v (at_time 0)])"
    by (simp add: recv_one_def on_conn_def async_bind_def async_return_def K(1))
  then have "run_call 1 ?K [[7]] [at_time 0] (drive_vars_of ?c) =
      (Finished (), set_error ?K e (?v\<lparr>dv_conn := c'\<rparr>), [seen (n_delay ?N) ?v (at_time 0)])"
    using sent by (simp add: run_call_def async_bind_def async_update_def async_return_def close_phase_def K(2))
  then show ?thesis
    using client by (simp add: drive_call_def example_decoded [unfolded raw_method_fields] report_def raw_method_fields Let_def)
qed

lemma client_new_unpolled:
  "client_new (N\<lparr>n_poll := poll\<rparr>) now Kq Kp path md t full_duplex = client_new N now Kq Kp path md t full_duplex"
  by (simp add: client_new_def client_open_def Let_def split: option.split)

section \<open>Lemmas: request messages\<close>

lemma sum_prost_ok:
  "prost_ok P \<Longrightarrow> (\<And>s m. project s = Some m \<Longrightarrow> s = inject m) \<Longrightarrow> prost_ok (sum_prost inject project P)"
  unfolding prost_ok_def by (force simp: sum_prost_def split: option.splits)

lemma find_method_short:
  "find_method P C name = Some M \<Longrightarrow> dm_short M = name @ lit ''Request'' \<and> 0x2F \<notin> set (dm_short M)"
  by (auto simp: find_method_def lit_def split: if_splits)

text \<open>A test case whose request messages are not the method's ends before a client is made.\<close>

lemma handle_bad_requests:
  assumes "find_method P C name = Some M" and "cr_service req \<in> {None, Some SERVICE}" and "cr_method req = Some name"
    and "connector_for pem_certs req \<noteq> None"
    and "decode_requests (dm_request M) (CLIENT_TYPE_PREFIX @ dm_short M) (cr_request_messages req) = Inl e"
  shows "handle fuel mk_client H pem_certs P C req os = Finished (client_error e)"
  using assms by (auto simp: handle_def drive_call_def Let_def split: option.splits)

text \<open>A type URL ends in the name of its type, which has no slash.\<close>

lemma after_last_slash_prefix: "0x2F \<notin> set t \<Longrightarrow> after_last_slash (s @ 0x2F # t) = t"
proof (induction s)
  case Nil
  then show ?case by (simp add: after_last_slash_def split_on_no_sep)
next
  case (Cons b s)
  have "length (split_on 0x2F (s @ 0x2F # t)) \<ge> 2"
    by (induction s) (auto split: list.split simp: Suc_le_eq)
  with Cons show ?case by (auto simp: after_last_slash_def split: list.split)
qed

lemma any_type_name: "0x2F \<notin> set short \<Longrightarrow> after_last_slash (type_url (to_any P short m)) = CLIENT_TYPE_PREFIX @ short"
proof -
  assume "0x2F \<notin> set short"
  then have "0x2F \<notin> set (CLIENT_TYPE_PREFIX @ short)" by (simp add: CLIENT_TYPE_PREFIX_def lit_def)
  from after_last_slash_prefix [OF this, of "lit ''type.googleapis.com''"] show ?thesis
    by (simp add: to_any_def TYPE_PREFIX_def CLIENT_TYPE_PREFIX_def lit_def)
qed

lemma decode_requests_anys:
  assumes "prost_ok Q" and "0x2F \<notin> set short"
  shows "\<forall>m \<in> set ms. \<exists>b. pm_encode Q m = Inr b \<Longrightarrow>
    decode_requests Q (CLIENT_TYPE_PREFIX @ short) (map (to_any Q short) ms @ rest) =
      map_sum id ((@) ms) (decode_requests Q (CLIENT_TYPE_PREFIX @ short) rest)"
proof (induction ms)
  case Nil
  show ?case by (cases "decode_requests Q (CLIENT_TYPE_PREFIX @ short) rest") simp_all
next
  case (Cons m ms)
  then obtain b where "pm_encode Q m = Inr b" by auto
  with assms(1) have "pm_decode Q (any_value (to_any Q short m)) = Inr m"
    by (simp add: to_any_def encode_to_vec_def prost_ok_def)
  with Cons any_type_name [OF assms(2), of Q m] show ?case
    by (cases "decode_requests Q (CLIENT_TYPE_PREFIX @ short) rest") (simp_all add: Let_def)
qed

section \<open>Properties\<close>

text \<open>
  C30: What the conformance client reports is what the response delivers. For a half-duplex call
  without a cancellation: when the delays before the requests pass, the transport answers the
  request that carries exactly the frames of the request messages with a head that is accepted,
  and nothing disturbs the call, the program returns (given fuel for every message of the body
  and one more), having sent everything. It reports the payloads of the messages before the
  first broken one and, as the error, that one's or the verdict of the trailers with its code,
  message and details; of a method with a single response, a successful end after any other
  number of messages is reported as an error without payloads. The headers are the head's,
  and when no message is broken the trailers are the response's.
\<close>

theorem conformance_delivery:
  assumes "net_ok N"
    and "response_source (n_response_body N) content good delay (n_response_trailers N) final"
    and "decode_requests (dm_request M) (CLIENT_TYPE_PREFIX @ dm_short M) (cr_request_messages req) = Inr ms"
      "dm_single_request M \<Longrightarrow> length ms = 1" "Option.bind (cr_cancel req) id = None"
    and "client_new N (clock os) (prost_codec (dm_request M)) (prost_codec (dm_response M)) path
      (metadata_from_headers (e_base64 (n_env N)) (cr_request_headers req))
      (map_option (\<lambda>ms. duration_of (from_millis (unat ms))) (cr_timeout_ms req)) False = Some c"
    and "list_all2 (\<lambda>m f. request_frame N c m = Inr f) ms frames"
    and "\<forall>o1 \<in> set os. \<not> disturbed (gcc_deadline c) o1"
    and "after_delays (n_delay N) (from_millis (unat (cr_request_delay_ms req))) (length ms) os = Some os1"
    and "build_request N (clock os1) c (concat frames) = Some rq"
    and "await_fut (n_poll N) os1 (n_send N rq) = (Finished (Inr rp), x, os2)"
      "process_head (n_env N) rp = Inr head" "good (rp_reader rp)" "delay (rp_reader rp) < length os2"
    and "items (e_codecs (n_env N)) (decode_response (prost_codec (dm_response M))) (hd_response_encoding head)
      DEFAULT_MAX_MESSAGE_SIZE (content (rp_reader rp)) = xs" "length xs < fuel"
    and "delivered (hd_head_status head \<noteq> None) xs (verdict (n_env N) (hd_head_status head) (final (rp_reader rp))) = (ps, w)"
  shows "\<exists>t. drive_call fuel N P M path False req os =
      Finished (ResponseResult (reported (n_env N) P M (hd_response_headers head) t ps w)) \<and>
    ((\<forall>e. Inl e \<notin> set xs) \<and> (hd_head_status head \<noteq> None \<longrightarrow> xs = []) \<longrightarrow>
      t = shown_trailers (n_env N) (hd_head_status head) (hd_response_headers head) (final (rp_reader rp)))"
  using assms by (rule drive_delivers)

theorem conformance_delivery_witness:
  "\<exists>r. drive_call 2 (example_net 0 example_answer) example_pb raw_method (lit ''Say'') False (example_compat_request None) [at_time 0]
     = Finished (ResponseResult r) \<and> cx_payloads r = [\<lparr>cp_data = [7], cp_request_info = None\<rparr>] \<and> cx_error r = None"
proof -
  let ?N = "example_net 0 example_answer"
  let ?tr = "status_write_into dalist_headers (e_base64 example_env) status_ok DAList.empty"
  let ?c = "example_call\<lparr>gcc_inner := Inner_Pending \<lparr>pd_path = lit ''Say'', pd_content_type = lit ''application/grpc+proto'',
        pd_request_metadata = metadata_new, pd_body = [], pd_send_closed = False\<rparr>,
      gcc_decode := Inr, gcc_encode := Inr\<rparr> :: (example_reader, example_reader, example_headers, bytes, bytes) client_conn"
  have E: "n_env (example_net 0 rp) = example_env" "n_delay (example_net 0 rp) = exact_delay"
    "e_codecs example_env = prefix_codecs" "e_headers example_env = dalist_headers" for rp
    by (simp_all add: example_net_def example_env_def)
  have src: "response_source (n_response_body ?N) fst (\<lambda>_. True) (\<lambda>_. 0) (n_response_trailers ?N) snd"
    by (simp add: example_net_def example_source.response_source_axioms)
  obtain rq where rq: "build_request ?N (clock [at_time 0]) ?c (concat [[0, 0, 0, 0, 1, 7]]) = Some rq"
    by (simp add: build_request_def Let_def)
  have frames: "list_all2 (\<lambda>m f. request_frame ?N ?c m = Inr f) [[7]] [[0, 0, 0, 0, 1, 7]]"
    by (simp add: request_frame_def E example_call_def encode_payload_eq u32_to_be_bytes_def)
  have items: "items prefix_codecs Inr Identity DEFAULT_MAX_MESSAGE_SIZE [0, 0, 0, 0, 1, 7] = [Inr [7]]"
    using items_frame [of "[7]" DEFAULT_MAX_MESSAGE_SIZE prefix_codecs Inr Identity 0 "[]"]
    by (simp add: u32_to_be_bytes_def finish_message_def DEFAULT_MAX_MESSAGE_SIZE_def)
  have ok: "from_trailers dalist_headers (e_base64 example_env) ?tr = Inr ()"
    by (rule from_trailers_written_ok [OF headers_ok_dalist]) (simp_all add: status_ok_def metadata_wf_new)
  have client: "client_new ?N (clock [at_time 0]) (prost_codec (dm_request raw_method)) (prost_codec (dm_response raw_method))
      (lit ''Say'') (metadata_from_headers (e_base64 (n_env ?N)) (cr_request_headers (example_compat_request None)))
      (map_option (\<lambda>ms. duration_of (from_millis (unat ms))) (cr_timeout_ms (example_compat_request None))) False = Some ?c"
    by (simp add: raw_method_def example_client example_compat_request_def metadata_from_headers_def)
  have calm: "\<forall>o1 \<in> set [at_time 0]. \<not> disturbed (gcc_deadline ?c) o1"
    by (simp add: disturbed_def example_call_def)
  have delays: "after_delays (n_delay ?N) (from_millis (unat (cr_request_delay_ms (example_compat_request None))))
      (length [[7 :: u8]]) [at_time 0] = Some [at_time 0]"
    by (simp add: example_compat_request_def from_millis_def)
  have answer: "await_fut (n_poll ?N) [at_time 0] (n_send ?N rq) = (Finished (Inr example_answer), 0, [at_time 0])"
    "process_head (n_env ?N) example_answer = Inr example_head"
    by (simp add: example_net_def example_poll_def) (simp add: example_net_def example_answer_def example_head_accepted)
  have xs: "items (e_codecs (n_env ?N)) (decode_response (prost_codec (dm_response raw_method)))
      (hd_response_encoding example_head) DEFAULT_MAX_MESSAGE_SIZE (fst (rp_reader example_answer)) = [Inr [7]]"
    using items by (simp add: E raw_method_def prost_codec_raw example_head_def example_answer_def example_response_def)
  have out: "delivered (hd_head_status example_head \<noteq> None) [Inr [7 :: u8]]
      (verdict (n_env ?N) (hd_head_status example_head) (snd (rp_reader example_answer))) = ([[7]], Inr ())"
    using ok by (simp add: E verdict_def example_head_def example_answer_def example_response_def)
  obtain t where "drive_call 2 ?N example_pb raw_method (lit ''Say'') False (example_compat_request None) [at_time 0] =
      Finished (ResponseResult (reported (n_env ?N) example_pb raw_method (hd_response_headers example_head) t [[7]] (Inr ())))"
    using conformance_delivery [OF net_ok_example src example_decoded _ _ client frames calm delays rq answer _ _ xs _ out, of 2 example_pb]
    by (auto simp: example_compat_request_def)
  then show ?thesis
    by (auto simp: reported_def raw_method_def payload_or_default_def)
qed

text \<open>
  C31: The accounting of any report, whatever the transport, the polls, the mode, the delays and
  the cancellation: of a method with a single response, a report without an error has exactly
  one payload; the number of unsent requests is at most that of the requests, and is 0 unless
  the report has an error; and with \<open>AfterNumResponses(n)\<close> for a positive \<open>n\<close> there are never
  more than \<open>n\<close> payloads, and with \<open>n\<close> of them the report has an error, because the cancelled
  call is still live when it is received from again.
\<close>

theorem conformance_report:
  assumes "net_ok N" and "drive_call fuel N P M path full_duplex req os = Finished (ResponseResult r)"
    and "length (cr_request_messages req) < 2 ^ 31"
  shows "(dm_single_response M \<and> cx_error r = None \<longrightarrow> length (cx_payloads r) = 1) \<and>
    (\<exists>k \<le> length (cr_request_messages req). sint (cx_num_unsent_requests r) = int k \<and> (0 < k \<longrightarrow> cx_error r \<noteq> None)) \<and>
    (\<forall>n. cr_cancel req = Some (Some (AfterNumResponses n)) \<and> 0 < n \<longrightarrow>
       length (cx_payloads r) \<le> unat n \<and> (length (cx_payloads r) = unat n \<longrightarrow> cx_error r \<noteq> None))"
proof -
  let ?K = "drive_env_of N P M full_duplex req"
  from drive_call_response [OF assms(2)] obtain ms c v os' where
    ms: "decode_requests (dm_request M) (CLIENT_TYPE_PREFIX @ dm_short M) (cr_request_messages req) = Inr ms"
    and run: "run_call fuel ?K ms os (drive_vars_of c) = (Finished (), v, os')"
    and r: "ResponseResult r = report (e_headers (n_env N)) (check_single ?K v)" by metis
  have "run_met ?K (length ms) v"
    using async_okD [OF run_call_met drive_vars_open run] assms(1) by (simp add: drive_env_of_def)
  then obtain k where k: "k \<le> length (cr_request_messages req)" "dv_num_unsent v = of_nat k" "0 < k \<longrightarrow> dv_error v \<noteq> None"
    and quota: "quota_met ?K v"
    using decode_requests_length [OF ms] by (auto simp: run_met_def)
  have sint: "sint (of_nat k :: i32) = int k"
    using k(1) assms(3) by (simp add: signed_of_nat signed_take_bit_int_eq_self)
  have n: "de_single_response ?K = dm_single_response M" "de_cancel ?K = Option.bind (cr_cancel req) id"
    by (simp_all add: drive_env_of_def)
  show ?thesis
    using r k sint quota
    by (auto simp: report_def check_single_def n quota_met_def quota_of_after word_gt_0 unat_eq_0 intro!: exI [of _ k])
qed

theorem conformance_report_witness:
  "\<exists>r k. drive_call 1 (example_net 0 example_rp) example_pb raw_method (lit ''Say'') False
      (example_compat_request (Some (Some BeforeCloseSend))) [at_time 0] = Finished (ResponseResult r) \<and>
     k \<le> 1 \<and> sint (cx_num_unsent_requests r) = int k"
proof -
  obtain r where r: "drive_call 1 (example_net 0 example_rp) example_pb raw_method (lit ''Say'') False
      (example_compat_request (Some (Some BeforeCloseSend))) [at_time 0] = Finished (ResponseResult r)"
    using example_cancelled by blast
  from conformance_report [OF net_ok_example r] show ?thesis
    using r by (auto simp: example_compat_request_def)
qed

text \<open>
  C32: A half-duplex call that is cancelled before it is read reports no payload and an error:
  with \<open>BeforeCloseSend\<close>, or with \<open>AfterCloseSendMs\<close> on a method with a single response, whatever
  has arrived by then. With \<open>BeforeCloseSend\<close> the request never reaches the network: the run
  is the same for every behaviour of the transport's futures; unless a request could not be sent,
  the error is \<open>Cancelled\<close> (1) or \<open>DeadlineExceeded\<close> (4), and there are no headers or trailers.
\<close>

theorem conformance_cancel:
  assumes "net_ok N" and "drive_call fuel N P M path False req os = Finished (ResponseResult r)"
    and "length (cr_request_messages req) < 2 ^ 32"
    and "cr_cancel req = Some (Some BeforeCloseSend) \<or>
      (dm_single_response M \<and> (\<exists>ms. cr_cancel req = Some (Some (AfterCloseSendMs ms))))"
  shows "cx_payloads r = [] \<and> cx_error r \<noteq> None \<and>
    (cr_cancel req = Some (Some BeforeCloseSend) \<longrightarrow>
      (\<forall>poll. drive_call fuel (N\<lparr>n_poll := poll\<rparr>) P M path False req os = Finished (ResponseResult r)) \<and>
      cx_response_headers r = [] \<and> cx_response_trailers r = [] \<and>
      (cx_num_unsent_requests r = 0 \<longrightarrow> er_code (the (cx_error r)) \<in> {1, 4}))"
proof -
  let ?K = "drive_env_of N P M False req"
  from drive_call_response [OF assms(2)] obtain ms c v os' where
    ms: "decode_requests (dm_request M) (CLIENT_TYPE_PREFIX @ dm_short M) (cr_request_messages req) = Inr ms"
    and c: "client_new N (clock os) (prost_codec (dm_request M)) (prost_codec (dm_response M)) path
       (metadata_from_headers (e_base64 (n_env N)) (cr_request_headers req))
       (map_option (\<lambda>ms. duration_of (from_millis (unat ms))) (cr_timeout_ms req)) False = Some c"
    and run: "run_call fuel ?K ms os (drive_vars_of c) = (Finished (), v, os')"
    and r: "ResponseResult r = report (e_headers (n_env N)) (check_single ?K v)" by metis
  have K: "de_net ?K = N" "\<not> de_full_duplex ?K" "de_cancel ?K = Option.bind (cr_cancel req) id"
    "de_single_response ?K = dm_single_response M" by (simp_all add: drive_env_of_def)
  have N: "net_ok (de_net ?K)" using assms(1) by (simp add: K(1))
  have few: "length ms < 2 ^ 32" using decode_requests_length [OF ms] assms(3) by simp
  have fresh: "nothing_yet (drive_vars_of c)" by (rule drive_vars_nothing [OF client_new_unfired [OF c]])
  have cancel: "de_cancel ?K = Some BeforeCloseSend \<or>
      (de_single_response ?K \<and> (\<exists>ms. de_cancel ?K = Some (AfterCloseSendMs ms)))"
    using assms(4) by (auto simp: K)
  have v: "send_failed v \<or> cut_short (de_cancel ?K \<noteq> Some BeforeCloseSend) v"
    using async_okD [OF run_call_cut [OF N K(2) few cancel] fresh run] .
  then have "dv_payloads v = []" "dv_error v \<noteq> None" by (auto simp: send_failed_def cut_short_def)
  with r have report: "r = \<lparr>cx_response_headers = headers_to_proto (e_headers (n_env N)) (client_headers (dv_conn v)),
      cx_payloads = [], cx_error = dv_error v,
      cx_response_trailers = headers_to_proto (e_headers (n_env N)) (client_trailers (dv_conn v)),
      cx_num_unsent_requests = dv_num_unsent v, cx_http_status_code = None, cx_feedback = []\<rparr>"
    by (simp add: report_def check_single_def)
  have before: "drive_call fuel (N\<lparr>n_poll := poll\<rparr>) P M path False req os = drive_call fuel N P M path False req os"
    if b: "cr_cancel req = Some (Some BeforeCloseSend)" for poll
  proof -
    have "run_call fuel (drive_env_of (N\<lparr>n_poll := poll\<rparr>) P M False req) ms os (drive_vars_of c) =
        run_call fuel ?K ms os (drive_vars_of c)"
      using run_call_unpolled [of ?K "drive_vars_of c" ms fuel poll os] assms(1) K fresh few b
      by (simp add: drive_env_of_def)
    moreover have "check_single (drive_env_of (N\<lparr>n_poll := poll\<rparr>) P M False req) v = check_single ?K v"
      by (simp add: check_single_def drive_env_of_def)
  ultimately show ?thesis by (simp add: drive_call_def client_new_unpolled ms c run Let_def)
  qed
  have quiet: "client_headers (dv_conn v) = None \<and> client_trailers (dv_conn v) = None \<and>
      (dv_num_unsent v = 0 \<longrightarrow> er_code (the (dv_error v)) \<in> {1, 4})"
    if "cr_cancel req = Some (Some BeforeCloseSend)"
    using v that by (auto simp: K send_failed_def cut_short_def unfired_def client_headers_def client_trailers_def)
  show ?thesis
    using \<open>dv_error v \<noteq> None\<close> before quiet assms(2) by (auto simp: report headers_to_proto_def)
qed

theorem conformance_cancel_witness:
  "\<exists>r. drive_call 1 (example_net 0 example_rp) example_pb raw_method (lit ''Say'') False
      (example_compat_request (Some (Some BeforeCloseSend))) [at_time 0] = Finished (ResponseResult r) \<and>
     cx_payloads r = [] \<and> cx_response_headers r = []"
proof -
  obtain r where r: "drive_call 1 (example_net 0 example_rp) example_pb raw_method (lit ''Say'') False
      (example_compat_request (Some (Some BeforeCloseSend))) [at_time 0] = Finished (ResponseResult r)"
    using example_cancelled by blast
  from conformance_cancel [OF net_ok_example r] show ?thesis
    using r by (auto simp: example_compat_request_def)
qed

text \<open>
  C33: The types of the request messages. The client takes the request messages of a method
  out of their \<open>Any\<close> wrappers, as the service wraps them, when they are typed as that
  method's requests, and gets each message back, in order; the first that is typed as the request
  of another method ends the test case with an error that names both types. It ends before any
  call: \<open>handle\<close> reports the error, whatever the transport is and whatever is observed.
\<close>

theorem conformance_any_types:
  assumes "find_method P C name = Some M" and "prost_ok (dm_request M)"
    and "\<forall>m \<in> set ms. \<exists>b. pm_encode (dm_request M) m = Inr b"
  shows "decode_requests (dm_request M) (CLIENT_TYPE_PREFIX @ dm_short M) (map (to_any (dm_request M) (dm_short M)) ms) = Inr ms \<and>
    (\<forall>name' M' m rest. find_method P C name' = Some M' \<and> name' \<noteq> name \<longrightarrow>
      (let anys = map (to_any (dm_request M) (dm_short M)) ms @ to_any (dm_request M') (dm_short M') m # rest;
           e = lit ''expected request type '' @ (CLIENT_TYPE_PREFIX @ dm_short M) @ lit '', got '' @ (CLIENT_TYPE_PREFIX @ dm_short M') in
       decode_requests (dm_request M) (CLIENT_TYPE_PREFIX @ dm_short M) anys = Inl e \<and>
       (\<forall>req. cr_request_messages req = anys \<and> cr_service req \<in> {None, Some SERVICE} \<and> cr_method req = Some name \<and>
          connector_for pem_certs req \<noteq> None \<longrightarrow>
          (\<forall>fuel mk_client os. handle fuel mk_client H pem_certs P C req os = Finished (client_error e)))))"
proof -
  have short: "dm_short M = name @ lit ''Request''" "0x2F \<notin> set (dm_short M)"
    using find_method_short [OF assms(1)] by blast+
  note any = decode_requests_anys [OF assms(2) short(2) assms(3)]
  have other: "decode_requests (dm_request M) (CLIENT_TYPE_PREFIX @ dm_short M)
        (map (to_any (dm_request M) (dm_short M)) ms @ to_any (dm_request M') (dm_short M') m # rest) =
      Inl (lit ''expected request type '' @ (CLIENT_TYPE_PREFIX @ dm_short M) @ lit '', got '' @ (CLIENT_TYPE_PREFIX @ dm_short M'))"
    if "find_method P C name' = Some M'" "name' \<noteq> name" for name' M' m rest
  proof -
    have short': "dm_short M' = name' @ lit ''Request''" "0x2F \<notin> set (dm_short M')"
      using find_method_short [OF that(1)] by blast+
    with short(1) that(2) have "dm_short M' \<noteq> dm_short M" by simp
    then show ?thesis by (simp add: any any_type_name [OF short'(2)] Let_def)
  qed
  show ?thesis
    unfolding Let_def
  proof (intro conjI allI impI, goal_cases)
    case 1
    show ?case using any [of "[]"] by simp
  next
    case (2 name' M' m rest)
    then show ?case using other by blast
  next
    case (3 name' M' m rest req fuel mk_client os)
    then have m: "cr_request_messages req =
        map (to_any (dm_request M) (dm_short M)) ms @ to_any (dm_request M') (dm_short M') m # rest"
      and o: "find_method P C name' = Some M'" "name' \<noteq> name"
      by blast+
    from 3 have "cr_service req \<in> {None, Some SERVICE}" "cr_method req = Some name" "connector_for pem_certs req \<noteq> None"
      by blast+
    then show ?case by (rule handle_bad_requests [OF assms(1)]) (simp only: m other [OF o])
  qed
qed

definition example_client_pb :: client_pb where
  "example_client_pb =
     \<lparr>cb_unary_response = one_message \<lparr>ur_payload = None\<rparr>,
      cb_idempotent_unary_response = one_message \<lparr>iu_payload = None\<rparr>,
      cb_unimplemented_request = one_message UnimplementedRequest,
      cb_unimplemented_response = one_message UnimplementedResponse,
      cb_client_stream_response = one_message \<lparr>cs_payload = None\<rparr>,
      cb_server_stream_response = one_message \<lparr>ss_payload = None\<rparr>,
      cb_bidi_stream_response = one_message \<lparr>bs_payload = None\<rparr>\<rparr>"

definition example_mistyped_request :: client_compat_request where
  "example_mistyped_request = (example_compat_request None)\<lparr>cr_method := Some (lit ''Unimplemented''),
     cr_request_messages := [to_any (one_message example_unary_request) (lit ''UnaryRequest'') example_unary_request]\<rparr>"

theorem conformance_any_types_witness:
  "\<exists>M. find_method example_pb example_client_pb (lit ''Unimplemented'') = Some M \<and>
     decode_requests (dm_request M) (CLIENT_TYPE_PREFIX @ dm_short M)
       [to_any (dm_request M) (dm_short M) (Req_Unimplemented UnimplementedRequest)]
     = Inr [Req_Unimplemented UnimplementedRequest] \<and>
     (\<forall>fuel os (mk_client :: connector \<Rightarrow> str \<Rightarrow> ((str, str list) alist \<Rightarrow> (str, str list) alist)
           \<Rightarrow> (unit, unit, (str, str list) alist, unit, conformance_response) net).
       handle fuel mk_client dalist_headers (\<lambda>_. None) example_pb example_client_pb example_mistyped_request os =
       Finished (client_error (lit (''expected request type connectrpc.conformance.v1.UnimplementedRequest, '' @
         ''got connectrpc.conformance.v1.UnaryRequest''))))"
proof -
  obtain M where M: "find_method example_pb example_client_pb (lit ''Unimplemented'') = Some M"
    and Q: "dm_request M = sum_prost Req_Unimplemented (\<lambda>s. case s of Req_Unimplemented m \<Rightarrow> Some m | _ \<Rightarrow> None)
      (one_message UnimplementedRequest)" and S: "dm_short M = lit ''UnimplementedRequest''"
    by (simp add: find_method_def example_client_pb_def lit_def)
  obtain M' where M': "find_method example_pb example_client_pb (lit ''Unary'') = Some M'"
    and Q': "dm_request M' = sum_prost Req_Unary (\<lambda>s. case s of Req_Unary m \<Rightarrow> Some m | _ \<Rightarrow> None)
      (one_message example_unary_request)" and S': "dm_short M' = lit ''UnaryRequest''"
    by (simp add: find_method_def example_pb_def lit_def)
  have "prost_ok (one_message UnimplementedRequest)"
    unfolding prost_ok_def one_message_def by (metis prost_api.select_convs(2) unimplemented_request.exhaust)
  then have ok: "prost_ok (dm_request M)"
    unfolding Q by (rule sum_prost_ok) (auto split: conformance_request.splits)
  have enc: "\<forall>m \<in> set [Req_Unimplemented UnimplementedRequest]. \<exists>b. pm_encode (dm_request M) m = Inr b"
    by (simp add: Q sum_prost_def one_message_def)
  have any: "to_any (dm_request M') (dm_short M') (Req_Unary example_unary_request)
      = to_any (one_message example_unary_request) (lit ''UnaryRequest'') example_unary_request"
    by (simp add: to_any_def Q' S' sum_prost_def one_message_def encode_to_vec_def)
  have names: "lit ''Unary'' \<noteq> lit ''Unimplemented''" by (simp add: lit_def)
  have req: "cr_request_messages example_mistyped_request = map (to_any (dm_request M) (dm_short M)) [] @
        to_any (dm_request M') (dm_short M') (Req_Unary example_unary_request) # []"
      "cr_service example_mistyped_request \<in> {None, Some SERVICE}"
      "cr_method example_mistyped_request = Some (lit ''Unimplemented'')"
      "connector_for (\<lambda>_. None) example_mistyped_request \<noteq> None"
    by (simp_all add: any example_mistyped_request_def example_compat_request_def connector_for_def)
  have none: "\<forall>m \<in> set []. \<exists>b. pm_encode (dm_request M) m = Inr b" by simp
  note bad = conjunct2 [OF conformance_any_types [OF M ok none], unfolded Let_def]
  have "handle fuel mk_client dalist_headers (\<lambda>_. None) example_pb example_client_pb example_mistyped_request os =
       Finished (client_error (lit (''expected request type connectrpc.conformance.v1.UnimplementedRequest, '' @
         ''got connectrpc.conformance.v1.UnaryRequest'')))"
    for fuel os and mk_client :: "connector \<Rightarrow> str \<Rightarrow> ((str, str list) alist \<Rightarrow> (str, str list) alist)
           \<Rightarrow> (unit, unit, (str, str list) alist, unit, conformance_response) net"
    using bad [THEN spec [of _ "lit ''Unary''"], THEN spec [of _ M'], THEN spec [of _ "Req_Unary example_unary_request"],
      THEN spec [of _ "[]"], THEN mp, OF conjI [OF M' names], THEN conjunct2, THEN spec [of _ example_mistyped_request],
      THEN mp, OF conjI [OF req(1) conjI [OF req(2) conjI [OF req(3,4)]]],
      THEN spec [of _ fuel], THEN spec [of _ mk_client], THEN spec [of _ os], of dalist_headers]
    by (simp add: S S' CLIENT_TYPE_PREFIX_def lit_def)
  with conjunct1 [OF conformance_any_types [OF M ok enc]] M show ?thesis by simp
qed

end
