(* ===== verification/ConformanceCase.thy ===== *)
theory ConformanceCase
  imports ConformanceReport
begin

text \<open>
  A unary test case of the conformance suite with this repository's client program
  (\<open>conformance/src/bin/client.rs\<close>) against its service (\<open>conformance/src/service.rs\<close>): the report
  is what the response definition of the request asks for. Between the two programs lie
  HTTP/2 and \<open>trillium\<close>, as in \<open>UnaryCall\<close>.
\<close>

section \<open>What a report is expected to be\<close>

text \<open>
  The runner compares the payloads, and of an error the code, the message and the details, to
  which the service appends what it has observed of the request.
\<close>

definition expected_report ::
  "conformance_pb \<Rightarrow> unary_response_definition option \<Rightarrow> request_info \<Rightarrow> client_response_result \<Rightarrow> bool" where
  "expected_report P def info r \<longleftrightarrow>
     (case Option.bind def ud_response of
        Some (ResponseError err) \<Rightarrow>
          cx_payloads r = [] \<and>
          cx_error r = Some \<lparr>er_code = er_code err, er_message = Some (error_text err),
            er_details = er_details err @ [request_info_any P info]\<rparr>
      | Some (ResponseData data) \<Rightarrow> cx_payloads r = [\<lparr>cp_data = data, cp_request_info = Some info\<rparr>] \<and> cx_error r = None
      | None \<Rightarrow> cx_payloads r = [\<lparr>cp_data = [], cp_request_info = Some info\<rparr>] \<and> cx_error r = None)"

text \<open>
  A definition that the protocol can carry: custom headers and trailers only; an error of one
  of gRPC's codes, with a text and with details that are encoded; or a payload that fits.
\<close>

definition custom_headers :: "header_msg list \<Rightarrow> bool" where
  "custom_headers hs \<longleftrightarrow> (\<forall>h \<in> set hs. \<not> is_reserved (to_ascii_lowercase (hm_name h)))"

definition carried_error :: "'h env \<Rightarrow> conformance_pb \<Rightarrow> request_info \<Rightarrow> error_msg \<Rightarrow> bool" where
  "carried_error E P info err \<longleftrightarrow>
     1 \<le> er_code err \<and> er_code err \<le> 16 \<and> utf8_valid (error_text err) \<and>
     (let details = er_details err @ [request_info_any P info] in
      utf8_valid (details_value E P err details) \<and>
      (\<exists>b. pm_encode (pb_rpc_status P)
         \<lparr>rst_code = er_code err, rst_message = error_text err, rst_details = details\<rparr> = Inr b))"

definition carried ::
  "'h env \<Rightarrow> conformance_pb \<Rightarrow> client_pb \<Rightarrow> encoding \<Rightarrow> unary_response_definition option \<Rightarrow> request_info \<Rightarrow> bool" where
  "carried E P C enc def info \<longleftrightarrow>
     (\<forall>d. def = Some d \<longrightarrow> custom_headers (ud_response_headers d) \<and> custom_headers (ud_response_trailers d)) \<and>
     (case single_result def info of
        Inr payload \<Rightarrow> \<exists>frame. fits (e_codecs E) (prost_codec (cb_unary_response C)) enc DEFAULT_MAX_MESSAGE_SIZE
          \<lparr>ur_payload = Some payload\<rparr> frame
      | Inl _ \<Rightarrow> \<forall>d err. def = Some d \<and> ud_response d = Some (ResponseError err) \<longrightarrow> carried_error E P info err)"

section \<open>Lemmas: the trailers of an error\<close>

lemma lower_details [simp]:
  "to_ascii_lowercase (lit ''grpc-status-details-bin'') = lit ''grpc-status-details-bin''"
  "is_reserved (lit ''grpc-status-details-bin'')" "is_reserved (lit ''grpc-message'')"
  by (simp_all add: to_ascii_lowercase_def byte_simps lower_byte_def is_reserved_def lit_def starts_with_def)

lemma apply_headers_other:
  assumes "headers_ok H" and "to_ascii_lowercase k = k" and "is_reserved k"
  shows "custom_headers hs \<Longrightarrow> h_get_values H (apply_headers H hs h) k = h_get_values H h k"
proof (induction hs arbitrary: h)
  case (Cons x hs)
  have "h_get_values H (foldl (\<lambda>dest v. h_append H dest (hm_name x) v) h vs) k = h_get_values H h k" for vs
    using assms Cons.prems
    by (induction vs arbitrary: h)
      (auto simp: custom_headers_def h_get_values_append [OF assms(1)] eq_ignore_ascii_case_def)
  with Cons show ?case by (simp add: apply_headers_def custom_headers_def)
qed (simp add: apply_headers_def)

lemma single_headers_muts:
  assumes "headers_ok (e_headers E)" and "\<forall>d. def = Some d \<longrightarrow> custom_headers (ud_response_headers d)"
  obtains fs where "single_headers E def = map ResponseHeadersMut fs" and "\<forall>f \<in> set fs. keeps_reserved (e_headers E) f"
proof (cases def)
  case None
  with that [of "[]"] show thesis by (simp add: single_headers_def)
next
  case (Some d)
  with that [of "[apply_headers (e_headers E) (ud_response_headers d)]"] assms show thesis
    by (simp add: single_headers_def keeps_reserved_def apply_headers_other)
qed

lemma single_trailers_values:
  assumes "headers_ok (e_headers E)" and "\<forall>d. def = Some d \<longrightarrow> custom_headers (ud_response_trailers d)"
  shows "h_get_values (e_headers E) (single_trailers E P def info (h_new (e_headers E))) (lit ''grpc-message'') = None"
    and "def = Some d \<Longrightarrow> ud_response d = Some (ResponseError err) \<Longrightarrow>
      h_get_values (e_headers E) (single_trailers E P def info (h_new (e_headers E))) (lit ''grpc-status-details-bin'') =
        Some [details_value E P err (er_details err @ [request_info_any P info])]"
proof -
  let ?H = "e_headers E"
  have "lit ''grpc-status-details-bin'' \<noteq> lit ''grpc-message''" by simp
  then show "h_get_values ?H (single_trailers E P def info (h_new ?H)) (lit ''grpc-message'') = None"
    using assms
    by (auto simp: single_trailers_def Let_def h_get_values_insert apply_headers_other eq_ignore_ascii_case_lower
        split: option.splits unary_response_kind.splits)
  show "def = Some d \<Longrightarrow> ud_response d = Some (ResponseError err) \<Longrightarrow>
      h_get_values ?H (single_trailers E P def info (h_new ?H)) (lit ''grpc-status-details-bin'') =
        Some [details_value E P err (er_details err @ [request_info_any P info])]"
    using assms(1) by (simp add: single_trailers_def Let_def h_get_values_insert)
qed

text \<open>The details that the client recovers from the trailers of the answer.\<close>

lemma details_recovered:
  assumes H: "headers_ok (e_headers E)" "base64_ok (e_base64 E)" and P: "prost_ok (pb_rpc_status P)"
    and F: "e_headers F = e_headers E" "e_base64 F = e_base64 E"
    and tr: "h_get_values (e_headers E) tr (lit ''grpc-status-details-bin'') = Some [details_value E P err details]"
      "utf8_valid (details_value E P err details)"
    and enc: "pm_encode (pb_rpc_status P) \<lparr>rst_code = er_code err, rst_message = error_text err, rst_details = details\<rparr> = Inr b"
    and st: "metadata_wf (st_metadata st)"
  shows "error_details F P (status_write_into (e_headers E) (e_base64 E) st tr) = details"
proof -
  have "h_get_values (e_headers E) (status_write_into (e_headers E) (e_base64 E) st tr) (lit ''grpc-status-details-bin'') =
      Some [details_value E P err details]"
    using H(1) st tr(1)
    by (simp add: status_write_into_def Let_def get_values_write_into_reserved h_get_values_insert eq_ignore_ascii_case_lower)
  then have "h_get_str (e_headers E) (status_write_into (e_headers E) (e_base64 E) st tr) (lit ''grpc-status-details-bin'') =
      Some (details_value E P err details)"
    by (rule get_str_values [OF H(1) _ tr(2)])
  moreover have "pm_decode (pb_rpc_status P) (encode_to_vec (pb_rpc_status P)
      \<lparr>rst_code = er_code err, rst_message = error_text err, rst_details = details\<rparr>) =
      Inr \<lparr>rst_code = er_code err, rst_message = error_text err, rst_details = details\<rparr>"
    using P enc by (simp add: encode_to_vec_def prost_ok_def)
  ultimately show ?thesis
    using H(2) by (simp add: error_details_def F details_value_def base64_ok_def ok_of_def)
qed

text \<open>A code of gRPC comes back as the number that it was in the definition.\<close>

lemma error_code_back:
  assumes "1 \<le> er_code err" and "er_code err \<le> 16"
  shows "error_code err \<noteq> Ok" and "ucast (as_u8 (error_code err)) = er_code err"
proof -
  let ?n = "ucast (er_code err) :: u8"
  have u: "1 \<le> unat (er_code err)" "unat (er_code err) \<le> 16"
    using assms by (simp_all add: word_le_nat_alt)
  then have n: "unat ?n = unat (er_code err)"
    by (simp add: unsigned_ucast_eq unsigned_take_bit_eq take_bit_nat_eq_self)
  then have "\<not> 16 < ?n" using u(2) by (simp add: word_less_nat_alt)
  then obtain c where c: "code_from_u8 ?n = Some c" using code_numbers [of ?n] by (cases "code_from_u8 ?n") auto
  then have e: "error_code err = c" "as_u8 c = ?n" by (simp_all add: error_code_def as_u8_from)
  show "error_code err \<noteq> Ok" using e n u(1) by auto
  show "ucast (as_u8 (error_code err)) = er_code err"
    unfolding e using n u by (subst word_unat_eq_iff) (simp add: unsigned_ucast_eq unsigned_take_bit_eq take_bit_nat_eq_self)
qed

section \<open>Lemmas: the request and the codecs\<close>

lemma insert_header_value_wf: "metadata_wf md \<Longrightarrow> metadata_wf (insert_header_value B name md v)"
  by (auto simp: insert_header_value_def or_unchanged_def split: option.split sum.split
      intro: insert_ascii_wf insert_binary_wf)

lemma metadata_from_headers_wf: "metadata_wf (metadata_from_headers B hs)"
proof -
  have inner: "metadata_wf md \<Longrightarrow> metadata_wf (foldl (insert_header_value B n) md vs)" for n vs md
    by (induction vs arbitrary: md) (simp_all add: insert_header_value_wf)
  have "metadata_wf md \<Longrightarrow>
      metadata_wf (foldl (\<lambda>md h. foldl (insert_header_value B (to_ascii_lowercase (hm_name h))) md (hm_value h)) md hs)" for md
    by (induction hs arbitrary: md) (simp_all add: inner)
  then show ?thesis by (simp add: metadata_from_headers_def metadata_wf_new)
qed

lemma client_new_fields:
  assumes "client_new N now (prost_codec Q) Kp path md timeout False = Some c"
  shows "gcc_encode c = encode_msg (prost_codec Q)"
    and "gcc_inner c = Inner_Pending \<lparr>pd_path = path, pd_content_type = lit ''application/grpc+proto'',
      pd_request_metadata = md, pd_body = [], pd_send_closed = False\<rparr>"
  using assms
  by (auto simp: client_new_def client_open_def Let_def prost_codec_def lit_def split: option.splits)

text \<open>The encodings that the client says it accepts arrive; so it has the one of the answer.\<close>

lemma answer_encoding:
  assumes N: "net_ok N" "headers_ok (e_headers E)"
    and c: "client_new N now (prost_codec Q) Kp path (metadata_from_headers B hs) timeout False = Some c"
    and rq: "build_request N now' c body = Some rq"
    and sent: "same_headers (e_headers (n_env N)) (rq_headers rq) (e_headers E) g"
  shows "enabled (e_features (n_env N)) (negotiate_response_encoding E g)"
proof -
  have "h_get_values (e_headers E) g (lit ''grpc-accept-encoding'') =
      Some [accepted_encodings (e_features (n_env N))]"
    using request_values [OF N(1) client_new_fields(2) [OF c] _ rq, of "lit ''grpc-accept-encoding''"] sent
    by (simp add: same_headers_def metadata_from_headers_wf)
  from negotiated_both [OF N(2) this] show ?thesis by blast
qed

text \<open>The sum types of the client are encoded like their parts.\<close>

lemma encode_sum:
  assumes "\<And>m. project (inject m) = Some m"
  shows "encode_frame C (prost_codec (sum_prost inject project Q)) (inject m) enc = encode_frame C (prost_codec Q) m enc"
    and "fits C (prost_codec (sum_prost inject project Q)) enc n (inject m) f \<longleftrightarrow> fits C (prost_codec Q) enc n m f"
    and "unary_body E (prost_codec (sum_prost inject project Q)) enc (map_sum id inject res) = unary_body E (prost_codec Q) enc res"
    and "unary_status E (prost_codec (sum_prost inject project Q)) enc (map_sum id inject res) = unary_status E (prost_codec Q) enc res"
proof -
  have e: "encode_msg (prost_codec (sum_prost inject project Q)) (inject m) = encode_msg (prost_codec Q) m" for m
    by (simp add: prost_codec_def prost_encode_def sum_prost_def assms)
  then show f: "encode_frame C (prost_codec (sum_prost inject project Q)) (inject m) enc = encode_frame C (prost_codec Q) m enc"
    for C m by (simp add: encode_frame_def)
  show "fits C (prost_codec (sum_prost inject project Q)) enc n (inject m) f \<longleftrightarrow> fits C (prost_codec Q) enc n m f"
    by (simp add: fits_def e f)
  show "unary_body E (prost_codec (sum_prost inject project Q)) enc (map_sum id inject res) = unary_body E (prost_codec Q) enc res"
    "unary_status E (prost_codec (sum_prost inject project Q)) enc (map_sum id inject res) = unary_status E (prost_codec Q) enc res"
    by (cases res; simp add: unary_body_def unary_status_def f)+
qed

lemma single_result_cases:
  "single_result def info = Inl st \<longleftrightarrow>
     (\<exists>d err. def = Some d \<and> ud_response d = Some (ResponseError err) \<and> st = status_new (error_code err) (error_text err))"
  by (auto simp: single_result_def split: option.splits unary_response_kind.splits bind_splits)

lemma unary_method:
  assumes "find_method P C (lit ''Unary'') = Some M"
  shows "dm_request M = sum_prost Req_Unary (\<lambda>s. case s of Req_Unary m \<Rightarrow> Some m | _ \<Rightarrow> None) (pb_unary_request P)"
    and "dm_response M = sum_prost Resp_Unary (\<lambda>s. case s of Resp_Unary m \<Rightarrow> Some m | _ \<Rightarrow> None) (cb_unary_response C)"
    and "dm_short M = lit ''UnaryRequest''" "dm_single_request M" "dm_single_response M" "dm_payload M = payload_of"
  using assms by (auto simp: find_method_def)

lemma unary_method_decodes:
  assumes M: "find_method P C (lit ''Unary'') = Some M" and pb: "prost_ok (pb_unary_request P)"
    and q: "pm_encode (pb_unary_request P) q = Inr b"
  shows "decode_requests (dm_request M) (CLIENT_TYPE_PREFIX @ dm_short M)
    [to_any (pb_unary_request P) (lit ''UnaryRequest'') q] = Inr [Req_Unary q]"
proof -
  note M' = unary_method [OF M]
  have ok: "prost_ok (dm_request M)"
    unfolding M' by (rule sum_prost_ok [OF pb]) (auto split: conformance_request.splits)
  have e: "pm_encode (dm_request M) (Req_Unary q) = Inr b" "to_any (dm_request M) (dm_short M) (Req_Unary q) =
      to_any (pb_unary_request P) (lit ''UnaryRequest'') q"
    by (simp_all add: M' to_any_def encode_to_vec_def sum_prost_def q)
  have "0x2F \<notin> set (dm_short M)" using find_method_short [OF M] by blast
  from decode_requests_anys [OF ok this, of "[Req_Unary q]" "[]"] show ?thesis by (simp add: e)
qed

text \<open>The head and the content of the answer to a unary call of the service.\<close>

lemma case_answer:
  assumes N: "net_ok N" and E: "env_ok E" "e_headers (n_env N) = e_headers E"
    and enc: "enabled (e_features (n_env N)) (negotiate_response_encoding E (cn_request_headers conn))"
    and prep: "prepare_grpc_conn E conn (lit ''proto'') = Inr conn1" "cn_ops conn = []"
    and def: "\<forall>d. def = Some d \<longrightarrow> custom_headers (ud_response_headers d)"
    and ops: "cn_ops conn2 = cn_ops conn1 @ single_headers E def @ [WithBody (OneShot (one_shot_new bs tr)), Halt]"
    and sent: "transmitted (e_headers E) conn2 rp body final"
  shows "body = bs \<and> final = tr \<and> (\<exists>head. process_head (n_env N) rp = Inr head \<and>
    hd_response_encoding head = negotiate_response_encoding E (cn_request_headers conn) \<and> hd_head_status head = None)"
proof -
  have H: "headers_ok (e_headers E)" and HN: "headers_ok (e_headers (n_env N))"
    using E unfolding env_ok_def by auto
  obtain fs where fs: "\<forall>f \<in> set fs. keeps_reserved (e_headers E) f"
      "cn_ops conn2 = cn_ops conn1 @ map ResponseHeadersMut fs @ [WithBody (OneShot (one_shot_new bs tr)), Halt]"
    using single_headers_muts [OF H def] ops by metis
  have suffix: "plain_suffix (lit ''proto'')" by (simp add: plain_suffix_def lit_def)
  note head = preflight_head [OF H prep fs]
  from head_accepted [of "n_env N" "lit ''proto''" "negotiate_response_encoding E (cn_request_headers conn)" rp
      "accepted_encodings (e_features E)", OF HN suffix enc] sent head
  have "\<exists>head. process_head (n_env N) rp = Inr head \<and>
      hd_response_encoding head = negotiate_response_encoding E (cn_request_headers conn) \<and> hd_head_status head = None"
    by (simp add: transmitted_def E(2))
  moreover have "body = bs" "final = tr"
    using sent ops by (auto simp: transmitted_def answered_with_def one_shot_new_def)
  ultimately show ?thesis by blast
qed

text \<open>What the client makes of the answer, when the definition can be carried.\<close>

lemma case_delivered:
  assumes N: "e_headers (n_env N) = e_headers E" "e_base64 (n_env N) = e_base64 E" and E: "env_ok E"
    and pb: "prost_ok (pb_rpc_status P)" "prost_ok (cb_unary_response C)"
    and M: "find_method P C (lit ''Unary'') = Some M"
    and ok: "carried E P C enc def info"
  defines "reply \<equiv> map_sum id (\<lambda>payload. \<lparr>ur_payload = Some payload\<rparr>) (single_result def info)"
  defines "final \<equiv> status_write_into (e_headers E) (e_base64 E) (unary_status E (prost_codec (cb_unary_response C)) enc reply)
    (single_trailers E P def info (h_new (e_headers E)))"
  obtains xs ps w where
    "items (e_codecs E) (decode_response (prost_codec (dm_response M))) enc DEFAULT_MAX_MESSAGE_SIZE
        (unary_body E (prost_codec (cb_unary_response C)) enc reply) = xs"
    and "length xs \<le> 1" and "\<forall>e. Inl e \<notin> set xs"
    and "delivered False xs (from_trailers (e_headers E) (e_base64 E) final) = (ps, w)"
    and "expected_report P def info (reported (n_env N) P M h final ps w)"
proof -
  note M' = unary_method [OF M]
  have H: "headers_ok (e_headers E)" and B: "base64_ok (e_base64 E)" using E unfolding env_ok_def by auto
  let ?Q = "cb_unary_response C" and ?tr = "single_trailers E P def info (h_new (e_headers E))"
  let ?res = "map_sum id Resp_Unary reply"
  have sums: "unary_body E (prost_codec (dm_response M)) enc ?res = unary_body E (prost_codec ?Q) enc reply"
    "unary_status E (prost_codec (dm_response M)) enc ?res = unary_status E (prost_codec ?Q) enc reply"
    unfolding M'(2) by (simp_all add: encode_sum)
  have codec: "codec_ok (prost_codec (dm_response M))"
    unfolding M'(2) by (intro codec_ok_prost sum_prost_ok [OF pb(2)]) (auto split: conformance_response.splits)
  have trailers: "\<forall>d. def = Some d \<longrightarrow> custom_headers (ud_response_trailers d)"
    using ok by (simp add: carried_def)
  note msg = single_trailers_values(1) [OF H trailers, of P info]
  have fits: "\<exists>frame. fits (e_codecs E) (prost_codec (dm_response M)) enc DEFAULT_MAX_MESSAGE_SIZE v frame" if "?res = Inr v" for v
    using that ok unfolding M'(2) carried_def
    by (auto simp: reply_def encode_sum split: sum.splits)
  have sendable: "metadata_wf (st_metadata st) \<and> utf8_valid (st_message st)" if "?res = Inl st" for st
  proof -
    have e: "single_result def info = Inl st" using that by (cases "single_result def info") (auto simp: reply_def)
    with ok show ?thesis
      by (auto simp: carried_def carried_error_def metadata_wf_new dest: single_result_cases [THEN iffD1])
  qed
  have xs: "items (e_codecs E) (decode_response (prost_codec (dm_response M))) enc DEFAULT_MAX_MESSAGE_SIZE
      (unary_body E (prost_codec ?Q) enc reply) = (case ?res of Inr m \<Rightarrow> [Inr m] | Inl _ \<Rightarrow> [])"
    unfolding sums [symmetric] by (rule answer_items [OF E codec]) (use fits in blast)
  have out: "delivered False (items (e_codecs E) (decode_response (prost_codec (dm_response M))) enc DEFAULT_MAX_MESSAGE_SIZE
        (unary_body E (prost_codec ?Q) enc reply)) (from_trailers (e_headers E) (e_base64 E) final) =
      (case ?res of
         Inr m \<Rightarrow> ([m], Inr ())
       | Inl st \<Rightarrow> ([], if st_code st = Ok then Inr ()
           else Inl \<lparr>st_code = st_code st, st_message = st_message st,
                      st_metadata = from_headers (e_headers E) (e_base64 E) final\<rparr>))"
    unfolding final_def sums [symmetric]
    by (rule answer_delivered [OF E msg codec]) (use fits sendable in blast)+
  show thesis
  proof (cases "single_result def info")
    case (Inr payload)
    then have res: "?res = Inr (Resp_Unary \<lparr>ur_payload = Some payload\<rparr>)" by (simp add: reply_def)
    show thesis
    proof (rule that [OF refl])
      show "expected_report P def info (reported (n_env N) P M h final [Resp_Unary \<lparr>ur_payload = Some payload\<rparr>] (Inr ()))"
        using Inr by (auto simp: expected_report_def reported_def M' payload_or_default_def single_result_def
            split: option.splits unary_response_kind.splits)
    qed (use out xs in \<open>simp_all add: res\<close>)
  next
    case (Inl st)
    then obtain d err where d: "def = Some d" "ud_response d = Some (ResponseError err)"
      and st: "st = status_new (error_code err) (error_text err)" by (auto simp: single_result_cases)
    have c: "carried_error E P info err" using ok Inl d by (simp add: carried_def)
    have res: "?res = Inl st" using Inl by (simp add: reply_def)
    have s: "unary_status E (prost_codec ?Q) enc reply = st" using Inl by (simp add: reply_def unary_status_def)
    have code: "st_code st \<noteq> Ok" "ucast (as_u8 (st_code st)) = er_code err"
      using error_code_back [of err] c by (simp_all add: st carried_error_def)
    have details: "error_details (n_env N) P final = er_details err @ [request_info_any P info]"
      unfolding final_def s
      using c single_trailers_values(2) [OF H trailers d, of P info] st
      by (auto simp: carried_error_def Let_def metadata_wf_new intro!: details_recovered [OF H B pb(1) N])
    show thesis
    proof (rule that [OF refl])
      show "expected_report P def info (reported (n_env N) P M h final []
          (Inl \<lparr>st_code = st_code st, st_message = st_message st,
                 st_metadata = from_headers (e_headers E) (e_base64 E) final\<rparr>))"
        using code details by (simp add: expected_report_def d reported_def rpc_error_def st)
    qed (use out xs in \<open>simp_all add: res code\<close>)
  qed
qed

text \<open>The server's half: what the service leaves on the connection.\<close>

lemma case_served:
  assumes E: "codecs_ok (e_codecs E)" "select_ok S" "delay_ok D" "delay_ok T"
    and pb: "prost_ok (pb_unary_request P)"
    and q: "fits (e_codecs E) (prost_codec (pb_unary_request P)) renc DEFAULT_MAX_MESSAGE_SIZE q (content1 (cn_request_body conn))"
    and src: "live_source poll_read content1 good1 delay1" "good1 (cn_request_body conn)"
    and run: "prepare_grpc_conn E conn (lit ''proto'') = Inr conn1"
      "call_setup E conn1 t2 t3 = Some (Inr (cancel, renc, enc, g))" "\<forall>o1 \<in> set os3. undisturbed cancel o1"
      "unary_impl E D S poll_read (prost_codec (pb_unary_request P)) (prost_codec (cb_unary_response C)) (unary_start P)
        (unary_poll E P T) t2 t3 os3 conn1 = Finished conn2"
  obtains o1 where "o1 \<in> set os3" and "enc = negotiate_response_encoding E (cn_request_headers conn)"
    and "let info = make_request_info (echo_headers (e_headers E) (cn_request_headers conn))
          (timeout_ms (ob_now o1) (gc_deadline g)) [to_any (pb_unary_request P) (lit ''UnaryRequest'') q];
        reply = map_sum id (\<lambda>payload. \<lparr>ur_payload = Some payload\<rparr>) (single_result (ur_response_definition q) info) in
      cn_ops conn2 = cn_ops conn1 @ single_headers E (ur_response_definition q) @
      [WithBody (OneShot (one_shot_new (unary_body E (prost_codec (cb_unary_response C)) enc reply)
         (status_write_into (e_headers E) (e_base64 E) (unary_status E (prost_codec (cb_unary_response C)) enc reply)
            (single_trailers E P (ur_response_definition q) info (h_new (e_headers E)))))), Halt]"
proof -
  have conn1: "cn_request_headers conn1 = cn_request_headers conn" "cn_request_body conn1 = cn_request_body conn"
    using run(1) by (auto simp: preflight Let_def split: if_splits)
  have one: "one_request (items (e_codecs E) (decode_msg (prost_codec (pb_unary_request P))) renc
      DEFAULT_MAX_MESSAGE_SIZE (content1 (cn_request_body conn1))) = Inr q"
    using items_fits [OF E(1) codec_ok_prost [OF pb] _ q, of "[]"] by (simp add: DEFAULT_MAX_MESSAGE_SIZE_def conn1)
  have "enc = negotiate_response_encoding E (cn_request_headers conn)"
    using call_setup_deadline [OF run(2)] by (simp add: conn1)
  with unary_served_single [OF E(2-4) src(1) src(2) [folded conn1(2)] run(2,3) one run(4)] that show thesis
    by (auto simp: Let_def conn1)
qed

section \<open>A test case for examples\<close>

text \<open>The one message of a type that can be encoded is encoded as nothing.\<close>

definition only_message :: "'m \<Rightarrow> 'm prost_api" where
  "only_message m0 = \<lparr>pm_encode = (\<lambda>m. if m = m0 then Inr [] else Inl []), pm_decode = (\<lambda>_. Inr m0)\<rparr>"

lemma prost_ok_only: "prost_ok (only_message m)"
  by (auto simp: prost_ok_def only_message_def split: if_splits)

text \<open>A request that asks for the error \<open>NotFound\<close> with the text \<open>m\<close>.\<close>

definition case_error :: error_msg where
  "case_error = \<lparr>er_code = 5, er_message = Some (lit ''m''), er_details = []\<rparr>"

definition case_request :: unary_request where
  "case_request = \<lparr>ur_response_definition = Some \<lparr>ud_response_headers = [],
     ud_response = Some (ResponseError case_error), ud_response_trailers = [], ud_response_delay_ms = 0,
     ud_raw_response = None\<rparr>, ur_request_data = []\<rparr>"

definition case_info_any :: any_msg where
  "case_info_any = \<lparr>type_url = TYPE_PREFIX @ lit ''ConformancePayload.RequestInfo'', any_value = []\<rparr>"

definition case_pb :: conformance_pb where
  "case_pb = example_pb\<lparr>pb_unary_request := only_message case_request,
     pb_rpc_status := only_message \<lparr>rst_code = 5, rst_message = lit ''m'', rst_details = [case_info_any]\<rparr>\<rparr>"

definition case_client_pb :: client_pb where
  "case_client_pb = example_client_pb\<lparr>cb_unary_response := only_message \<lparr>ur_payload = None\<rparr>\<rparr>"

definition case_test :: client_compat_request where
  "case_test = (example_compat_request None)\<lparr>cr_request_messages :=
     [to_any (pb_unary_request case_pb) (lit ''UnaryRequest'') case_request]\<rparr>"

definition case_net ::
  "(example_reader, example_headers) response
   \<Rightarrow> (example_reader, example_reader, example_headers, nat, conformance_response) net" where
  "case_net rp =
     \<lparr>n_env = example_env, n_delay = exact_delay, n_default_headers = DAList.empty,
      n_post = (\<lambda>_. DAList.empty), n_send = (\<lambda>_. 0), n_upgrade = (\<lambda>_. 0), n_poll = example_poll rp,
      n_response_body = example_read, n_response_trailers = (\<lambda>r. Some (snd r)), n_into_upgrade = id,
      n_upgrade_read = example_read, n_received_trailers = (\<lambda>r. Some (snd r)),
      n_write_all = (\<lambda>bs o1 r. (Ready (Inr ()), (fst r @ bs, snd r))), n_close = (\<lambda>o1 r. (Ready (Inr ()), r)),
      n_or_send = fl_or simple_select, n_or_write = fl_or simple_select, n_or_read = fl_or simple_select\<rparr>"

lemma case_net_ok: "net_ok (case_net rp)"
  by (simp add: net_ok_def case_net_def env_ok_example delay_ok_exact or_ok_simple)

lemma case_fields [simp]:
  "pb_unary_request case_pb = only_message case_request"
  "cb_unary_response case_client_pb = only_message \<lparr>ur_payload = None\<rparr>"
  "request_info_any case_pb info = case_info_any"
  "n_env (case_net rp) = example_env" "n_delay (case_net rp) = exact_delay"
  "cr_request_messages case_test = [to_any (only_message case_request) (lit ''UnaryRequest'') case_request]"
  "cr_cancel case_test = None" "cr_timeout_ms case_test = None" "cr_request_headers case_test = []"
  "cr_request_delay_ms case_test = 0"
  by (simp_all add: case_pb_def case_client_pb_def request_info_any_def case_info_any_def to_any_def example_pb_def
      encode_to_vec_def one_message_def case_net_def case_test_def example_compat_request_def)

lemma case_carried: "carried example_env case_pb case_client_pb enc (ur_response_definition case_request) info"
  by (simp add: carried_def case_request_def custom_headers_def single_result_def carried_error_def case_error_def
      error_text_def details_value_def Let_def)
    (simp add: case_pb_def only_message_def encode_to_vec_def example_env_def case_error_def utf8_valid_ascii lit_def)

text \<open>The service's side of it, of a connection on which the request has arrived.\<close>

lemma case_served_example:
  fixes conn :: "((str, str list) alist, bytes, (unit, bytes, (str, str list) alist) response_body, unit) conn"
  assumes "extract_request_encoding example_env (cn_request_headers conn) = Inr Identity"
    and "h_get_str dalist_headers (cn_request_headers conn) (lit ''grpc-timeout'') = None"
    and "cn_request_body conn = [0, 0, 0, 0, 0]"
  obtains conn' g bs tr where "call_setup example_env conn 0 0 = Some (Inr (\<lparr>c_deadline = None\<rparr>, Identity,
      negotiate_response_encoding example_env (cn_request_headers conn), g))"
    and "unary_impl example_env exact_delay simple_select cursor_read (prost_codec (pb_unary_request case_pb))
      (prost_codec (cb_unary_response case_client_pb)) (unary_start case_pb) (unary_poll example_env case_pb exact_delay) 0 0
      [at_time 0] conn = Finished conn'"
    and "answered_with conn' bs tr"
proof -
  let ?K = "prost_codec (pb_unary_request case_pb)"
  let ?g = "\<lparr>gc_conn = conn, gc_response_trailers = h_new (e_headers example_env),
        gc_request_encoding = Identity, gc_deadline = None\<rparr>"
  have E: "e_headers example_env = dalist_headers" "e_codecs example_env = prefix_codecs" by (simp_all add: example_env_def)
  have g: "call_setup example_env conn 0 0 = Some (Inr (\<lparr>c_deadline = None\<rparr>, Identity,
      negotiate_response_encoding example_env (cn_request_headers conn), ?g))"
    using assms by (simp add: call_setup_def cancellation_from_conn_def grpc_server_conn_new_def Let_def E)
  have dec: "decode_msg (prost_codec (only_message case_request)) = (\<lambda>_. Inr case_request)"
    by (simp add: prost_codec_def prost_decode_def only_message_def fun_eq_iff)
  have start: "call_start ?K ?g = (?g, CReading (RFirst (request_stream_new [0, 0, 0, 0, 0] (\<lambda>_. Inr case_request) Identity)))"
    by (simp add: call_start_def requests_def dec assms(3))
  have "\<exists>x gs. unary_poll example_env case_pb exact_delay o1 (g, unary_start case_pb case_request) = (Ready x, gs)"
    for o1 and g :: "((str, str list) alist, bytes, (unit, bytes, (str, str list) alist) response_body, unit) grpc_conn"
    by (simp add: unary_poll_def fut_ok_def unary_start_def case_request_def Let_def respond_defined_def raise_error_eq)
  then obtain x gs where poll: "call_poll prefix_codecs cursor_read (unary_start case_pb) (unary_poll example_env case_pb exact_delay)
      (at_time 0) (call_start ?K ?g) = (Ready x, gs)"
    unfolding start call_poll_reading example_read_empty [of "\<lambda>_. Inr case_request", OF refl]
      prod.case poll.case sum.case by (metis map_prod_simp id_apply)
  have "\<exists>conn' enc res tr. unary_impl example_env exact_delay simple_select cursor_read ?K
      (prost_codec (cb_unary_response case_client_pb)) (unary_start case_pb) (unary_poll example_env case_pb exact_delay) 0 0
      [at_time 0] conn = Finished (finish_unary example_env (prost_codec (cb_unary_response case_client_pb)) conn' res enc tr)"
    using poll by (cases gs) (auto simp: unary_impl_def g E race_def interruptible_def simple_select_def into_parts_def)
  with that [OF g] finish_unary_answered show thesis by metis
qed

section \<open>Properties\<close>

text \<open>
  C4: The client program and the service pass a unary test case. The runner asks for a unary call
  with a request message \<open>q\<close>, without a cancellation; the request that the client builds arrives
  at a server of the service, which takes the call in the encoding it comes in; the answer
  arrives at the client, and neither side is disturbed by a shutdown or a deadline. When the
  response definition of \<open>q\<close> can be carried, the client reports what it asks for: the payload with
  its data, or the error with its code, its text and its details; and in the payload or after the
  details stand the headers that the server received, the time that was left, and \<open>q\<close> itself.
\<close>

theorem conformance_case:
  assumes N: "net_ok N" and E: "env_ok E" "select_ok S" "delay_ok D" "delay_ok T"
      "e_headers (n_env N) = e_headers E" "e_base64 (n_env N) = e_base64 E" "e_codecs (n_env N) = e_codecs E"
    and pb: "prost_ok (pb_unary_request P)" "prost_ok (pb_rpc_status P)" "prost_ok (cb_unary_response C)"
    and M: "find_method P C (lit ''Unary'') = Some M"
    and req: "cr_request_messages req = [to_any (pb_unary_request P) (lit ''UnaryRequest'') q]"
      "Option.bind (cr_cancel req) id = None" "1 < fuel"
    and c: "client_new N (clock os) (prost_codec (dm_request M)) (prost_codec (dm_response M)) path
        (metadata_from_headers (e_base64 (n_env N)) (cr_request_headers req))
        (map_option (\<lambda>ms. duration_of (from_millis (unat ms))) (cr_timeout_ms req)) False = Some c"
      "fits (e_codecs E) (prost_codec (pb_unary_request P)) (gcc_outbound_encoding c) DEFAULT_MAX_MESSAGE_SIZE q frame"
      "after_delays (n_delay N) (from_millis (unat (cr_request_delay_ms req))) 1 os = Some os1"
      "build_request N (clock os1) c frame = Some rq"
    and there: "same_headers (e_headers E) (rq_headers rq) (e_headers E) (cn_request_headers conn)"
      "live_source poll_read content1 good1 delay1" "good1 (cn_request_body conn)" "content1 (cn_request_body conn) = rq_body rq"
      "cn_ops conn = []"
    and run: "prepare_grpc_conn E conn (lit ''proto'') = Inr conn1"
      "call_setup E conn1 t2 t3 = Some (Inr (cancel, gcc_outbound_encoding c, enc, g))"
      "\<forall>o1 \<in> set os3. undisturbed cancel o1"
      "unary_impl E D S poll_read (prost_codec (pb_unary_request P)) (prost_codec (cb_unary_response C)) (unary_start P)
        (unary_poll E P T) t2 t3 os3 conn1 = Finished conn2"
    and answer: "await_fut (n_poll N) os1 (n_send N rq) = (Finished (Inr rp), x, os2)"
      "transmitted (e_headers E) conn2 rp (content (rp_reader rp)) (final (rp_reader rp))"
      "response_source (n_response_body N) content good delay (n_response_trailers N) final"
      "good (rp_reader rp)" "delay (rp_reader rp) < length os2" "\<forall>o1 \<in> set os. \<not> disturbed (gcc_deadline c) o1"
  shows "\<exists>o1 \<in> set os3.
    let info = make_request_info (echo_headers (e_headers E) (cn_request_headers conn)) (timeout_ms (ob_now o1) (gc_deadline g))
          [to_any (pb_unary_request P) (lit ''UnaryRequest'') q] in
    carried E P C enc (ur_response_definition q) info \<longrightarrow>
      (\<exists>r. drive_call fuel N P M path False req os = Finished (ResponseResult r) \<and>
        expected_report P (ur_response_definition q) info r)"
proof -
  note M' = unary_method [OF M]
  have C: "codecs_ok (e_codecs E)" and H: "headers_ok (e_headers E)" using E(1) unfolding env_ok_def by auto
  have "rq_body rq = frame" using c(4) client_new_fields(2) [OF c(1) [unfolded M'(1)]] by (auto simp: build_request_def Let_def)
  then have body: "fits (e_codecs E) (prost_codec (pb_unary_request P)) (gcc_outbound_encoding c) DEFAULT_MAX_MESSAGE_SIZE q
      (content1 (cn_request_body conn))" using c(2) there(4) by simp
  obtain o1 where o1: "o1 \<in> set os3" and enc: "enc = negotiate_response_encoding E (cn_request_headers conn)"
    and ops: "let info = make_request_info (echo_headers (e_headers E) (cn_request_headers conn))
          (timeout_ms (ob_now o1) (gc_deadline g)) [to_any (pb_unary_request P) (lit ''UnaryRequest'') q];
        reply = map_sum id (\<lambda>payload. \<lparr>ur_payload = Some payload\<rparr>) (single_result (ur_response_definition q) info) in
      cn_ops conn2 = cn_ops conn1 @ single_headers E (ur_response_definition q) @
      [WithBody (OneShot (one_shot_new (unary_body E (prost_codec (cb_unary_response C)) enc reply)
         (status_write_into (e_headers E) (e_base64 E) (unary_status E (prost_codec (cb_unary_response C)) enc reply)
            (single_trailers E P (ur_response_definition q) info (h_new (e_headers E)))))), Halt]"
    by (rule case_served [OF C E(2-4) pb(1) body there(2,3) run])
  define info where "info = make_request_info (echo_headers (e_headers E) (cn_request_headers conn))
    (timeout_ms (ob_now o1) (gc_deadline g)) [to_any (pb_unary_request P) (lit ''UnaryRequest'') q]"
  have "\<exists>r. drive_call fuel N P M path False req os = Finished (ResponseResult r) \<and>
      expected_report P (ur_response_definition q) info r" if ok: "carried E P C enc (ur_response_definition q) info"
  proof -
    have def: "\<forall>d. ur_response_definition q = Some d \<longrightarrow> custom_headers (ud_response_headers d)"
      using ok by (simp add: carried_def)
    have able: "enabled (e_features (n_env N)) (negotiate_response_encoding E (cn_request_headers conn))"
      using answer_encoding [OF N H c(1) [unfolded M'(1)] c(4)] there(1) by (simp add: E(5) M'(1))
    note sent = case_answer [OF N E(1,5) able run(1) there(5) def ops [unfolded Let_def, folded info_def] answer(2)]
    then obtain hh where hh: "process_head (n_env N) rp = Inr hh" "hd_response_encoding hh = enc" "hd_head_status hh = None"
      using enc by blast
    obtain xs ps w where xs: "items (e_codecs E) (decode_response (prost_codec (dm_response M))) enc
        DEFAULT_MAX_MESSAGE_SIZE (content (rp_reader rp)) = xs" "length xs \<le> 1" "\<forall>e. Inl e \<notin> set xs"
      and out: "delivered False xs (from_trailers (e_headers E) (e_base64 E) (final (rp_reader rp))) = (ps, w)"
      and report: "expected_report P (ur_response_definition q) info
        (reported (n_env N) P M (hd_response_headers hh) (final (rp_reader rp)) ps w)"
      using sent by (metis case_delivered [OF E(5,6,1) pb(2,3) M ok])
    obtain b where "pm_encode (pb_unary_request P) q = Inr b"
      using c(2) by (auto simp: fits_def prost_codec_def prost_encode_def split: sum.splits)
    note decoded = unary_method_decodes [OF M pb(1) this, folded req(1)]
    have frames: "list_all2 (\<lambda>m f. request_frame N c m = Inr f) [Req_Unary q] [frame]"
      using c(2) encode_sum(1) [of "\<lambda>s. case s of Req_Unary m \<Rightarrow> Some m | _ \<Rightarrow> None" Req_Unary "e_codecs E" "pb_unary_request P" q]
      by (simp add: request_frame_def client_new_fields(1) [OF c(1) [unfolded M'(1)]] fits_def encode_frame_def M'(1) E(7))
    obtain t where "drive_call fuel N P M path False req os = Finished (ResponseResult
        (reported (n_env N) P M (hd_response_headers hh) t ps w))" "t = final (rp_reader rp)"
      using drive_delivers [OF N answer(3) decoded _ req(2) c(1) frames answer(6) _ _ answer(1) hh(1) answer(4,5), of xs fuel ps w P]
        c(3,4) xs out req(3) by (auto simp: hh E(7) verdict_def E(5,6) shown_trailers_def)
    with report show ?thesis by blast
  qed
  with o1 show ?thesis unfolding info_def Let_def by blast
qed

theorem conformance_case_witness:
  "\<exists>rp M r. find_method case_pb case_client_pb (lit ''Unary'') = Some M \<and>
     drive_call 2 (case_net rp) case_pb M (lit ''Say'') False case_test [at_time 0] = Finished (ResponseResult r) \<and>
     cx_payloads r = [] \<and>
     cx_error r = Some \<lparr>er_code = 5, er_message = Some (lit ''m''), er_details = [case_info_any]\<rparr>"
proof -
  let ?N = "\<lambda>rp. case_net rp" and ?H = "e_headers example_env" and ?q = case_request
  obtain M where M: "find_method case_pb case_client_pb (lit ''Unary'') = Some M" by (simp add: find_method_def)
  note M' = unary_method [OF M]
  have E: "?H = dalist_headers" "e_codecs example_env = prefix_codecs" by (simp_all add: example_env_def)
  have none: "h_get_values ?H (n_default_headers (?N rp)) k = None" "h_get_str ?H (n_default_headers (?N rp)) k = None" for rp k
    unfolding E(1) by (simp_all add: case_net_def dalist_headers_def)
  obtain c where c: "\<And>rp. client_new (?N rp) (clock [at_time 0]) (prost_codec (dm_request M)) (prost_codec (dm_response M)) (lit ''Say'')
        (metadata_from_headers (e_base64 (n_env (?N rp))) (cr_request_headers case_test))
        (map_option (\<lambda>ms. duration_of (from_millis (unat ms))) (cr_timeout_ms case_test)) False = Some c"
      "gcc_outbound_encoding c = Identity" "gcc_deadline c = None"
    using none by (auto simp: client_new_def client_open_def Let_def)
  note pd = client_new_fields(2) [OF c(1) [of example_rp, unfolded M'(1)], unfolded case_fields]
  obtain rq where rq: "\<And>rp. build_request (?N rp) (clock [at_time 0]) c [0, 0, 0, 0, 0] = Some rq"
    by (simp add: build_request_def pd Let_def case_net_def)
  let ?conn = "\<lparr>cn_request_headers = rq_headers rq, cn_request_body = rq_body rq, cn_has_runtime = True, cn_ops = []\<rparr>
    :: (example_headers, bytes, (unit, bytes, example_headers) response_body, unit) conn"
  have body: "rq_body rq = [0, 0, 0, 0, 0]" using rq [of example_rp] pd by (auto simp: build_request_def Let_def)
  note arrives = request_values [OF case_net_ok [of example_rp] pd _ rq [of example_rp], unfolded case_fields]
  have sent: "h_get_values ?H (rq_headers rq) (lit ''content-type'') = Some [lit ''application/grpc+'' @ lit ''proto'']"
    "h_get_values ?H (rq_headers rq) (lit ''te'') = Some [lit ''trailers'']"
    "h_get_values ?H (rq_headers rq) (lit ''grpc-encoding'') = None"
    "h_get_values ?H (rq_headers rq) (lit ''grpc-timeout'') = None"
    using none(1) by (simp_all add: arrives metadata_from_headers_wf c(2,3)) (simp add: lit_def)
  have H: "headers_ok ?H" by (simp add: E(1) headers_ok_dalist)
  have "plain_suffix (lit ''proto'')" by (simp add: plain_suffix_def lit_def)
  from request_preflight [where E = example_env and conn = ?conn, OF H this] sent
  obtain conn1 where prep: "prepare_grpc_conn example_env ?conn (lit ''proto'') = Inr conn1"
    and conn1: "cn_request_headers conn1 = rq_headers rq" "cn_request_body conn1 = rq_body rq" by auto
  have "extract_request_encoding example_env (cn_request_headers conn1) = Inr Identity"
    "h_get_str dalist_headers (cn_request_headers conn1) (lit ''grpc-timeout'') = None"
    using sent(3,4) by (simp_all add: extract_request_encoding_def conn1 H headers_ok_dalist E(1))
  from case_served_example [OF this] body conn1(2)
  obtain conn2 g bs tr where accepted: "call_setup example_env conn1 0 0 = Some (Inr (\<lparr>c_deadline = None\<rparr>, Identity,
      negotiate_response_encoding example_env (cn_request_headers conn1), g))"
    and run: "unary_impl example_env exact_delay simple_select cursor_read (prost_codec (pb_unary_request case_pb))
      (prost_codec (cb_unary_response case_client_pb)) (unary_start case_pb) (unary_poll example_env case_pb exact_delay) 0 0
      [at_time 0] conn1 = Finished conn2"
    and ans: "answered_with conn2 bs tr" by metis
  define rp where "rp = \<lparr>rp_status = response_code (cn_ops conn2), rp_headers = response_head ?H (cn_ops conn2), rp_reader = (bs, tr)\<rparr>"
  have src: "response_source (n_response_body (?N rp)) fst (\<lambda>_. True) (\<lambda>_. 0) (n_response_trailers (?N rp)) snd"
    by (simp add: case_net_def example_source.response_source_axioms)
  have fits: "fits (e_codecs example_env) (prost_codec (pb_unary_request case_pb)) (gcc_outbound_encoding c) DEFAULT_MAX_MESSAGE_SIZE
      case_request [0, 0, 0, 0, 0]"
    by (simp add: c(2) E(2) fits_def encode_frame_Inr prost_codec_def prost_encode_def only_message_def u32_to_be_bytes_def
        PREFIX_LEN_def)
  have reply: "await_fut (n_poll (?N rp)) [at_time 0] (n_send (?N rp) rq) = (Finished (Inr rp), 0, [at_time 0])"
    by (simp add: case_net_def example_poll_def)
  have trans: "transmitted ?H conn2 rp (fst (rp_reader rp)) (snd (rp_reader rp))"
    using ans by (simp add: transmitted_def rp_def)
  have calm: "\<forall>o1 \<in> set [at_time 0]. \<not> disturbed (gcc_deadline c) o1"
      "\<forall>o1 \<in> set [at_time 0]. undisturbed \<lparr>c_deadline = None\<rparr> o1"
    by (simp_all add: disturbed_def undisturbed_def c(3))
  have pb: "prost_ok (pb_rpc_status case_pb)" by (simp add: case_pb_def prost_ok_only)
  have req: "cr_request_messages case_test = [to_any (pb_unary_request case_pb) (lit ''UnaryRequest'') case_request]"
    "Option.bind (cr_cancel case_test) id = None" "1 < (2::nat)" by simp_all
  have delays: "after_delays (n_delay (?N rp)) (from_millis (unat (cr_request_delay_ms case_test))) 1 [at_time 0] = Some [at_time 0]"
    by (simp add: from_millis_def)
  have shared: "e_headers (n_env (?N rp)) = ?H" "e_base64 (n_env (?N rp)) = e_base64 example_env" "e_codecs (n_env (?N rp)) = e_codecs example_env"
    by simp_all
  have there: "same_headers ?H (rq_headers rq) ?H (cn_request_headers ?conn)" "cn_request_body ?conn = rq_body rq" "cn_ops ?conn = []"
    by (simp_all add: same_headers_def)
  have ok: "prost_ok (pb_unary_request case_pb)" "prost_ok (cb_unary_response case_client_pb)" by (simp_all add: prost_ok_only)
  from conformance_case [OF case_net_ok env_ok_example select_ok_simple delay_ok_exact delay_ok_exact shared ok(1) pb ok(2) M req
      c(1) [of rp] fits delays rq there(1) cursor.live_source_axioms TrueI there(2,3) prep accepted [folded c(2)] calm(2) run
      reply trans src TrueI _ calm(1)] case_carried
  obtain info r where "drive_call 2 (?N rp) case_pb M (lit ''Say'') False case_test [at_time 0] = Finished (ResponseResult r)"
    "expected_report case_pb (ur_response_definition case_request) info r" by (auto simp: Let_def)
  then show ?thesis
    using M by (intro exI [of _ rp] exI [of _ M] exI [of _ r])
      (simp add: expected_report_def case_request_def case_error_def error_text_def)
qed

end
