(* ===== verification/ConformanceHarness.thy ===== *)
theory ConformanceHarness
  imports ConformanceCase
begin

text \<open>
  The programs that the conformance runner starts (\<open>conformance/src/bin\<close>): the length-delimited
  messages on their standard input and output, the \<open>main\<close> function of \<open>client.rs\<close>, which handles
  the test cases on tasks of their own, as a step relation on its tasks, its semaphore and its
  output, and the \<open>main\<close> function of \<open>server.rs\<close>.

  Standard input delivers some bytes and then ends or fails. Standard output takes everything.
\<close>

section \<open>Length-delimited messages\<close>

datatype io_error = UnexpectedEof | OtherError str

record input_stream =
  in_bytes :: bytes
  in_failure :: "str option"

text \<open>\<open>Read::read_exact\<close>: what it has read of a buffer that it cannot fill is lost.\<close>

definition read_exact :: "nat \<Rightarrow> input_stream \<Rightarrow> (io_error + bytes) \<times> input_stream" where
  "read_exact n i =
     (if n \<le> length (in_bytes i) then
        (Inr (take n (in_bytes i)), i\<lparr>in_bytes := drop n (in_bytes i)\<rparr>)
      else
        (Inl (case in_failure i of None \<Rightarrow> UnexpectedEof | Some e \<Rightarrow> OtherError e), i\<lparr>in_bytes := []\<rparr>))"

fun prefix_value :: "bytes \<Rightarrow> nat" where
  "prefix_value [a, b, c, d] = unat (u32_from_be_bytes a b c d)"
| "prefix_value _ = 0"

definition read_delimited :: "'m prost_api \<Rightarrow> input_stream \<Rightarrow> (io_error + 'm) \<times> input_stream" where
  "read_delimited P i =
     (case read_exact 4 i of
        (Inl e, i) \<Rightarrow> (Inl e, i)
      | (Inr len_buf, i) \<Rightarrow>
          (case read_exact (prefix_value len_buf) i of
             (Inl e, i) \<Rightarrow> (Inl e, i)
           | (Inr buf, i) \<Rightarrow> (map_sum OtherError id (pm_decode P buf), i)))"

text \<open>The bytes that \<open>write_delimited\<close> appends to the output. The length is cut to 32 bits.\<close>

definition write_delimited :: "'m prost_api \<Rightarrow> bytes \<Rightarrow> 'm \<Rightarrow> bytes" where
  "write_delimited P out msg =
     (let data = encode_to_vec P msg in
      out @ u32_to_be_bytes (of_nat (length data)) @ data)"

lemma read_delimited_shorter:
  "read_delimited P i = (r, i') \<Longrightarrow> in_bytes i \<noteq> [] \<Longrightarrow> length (in_bytes i') < length (in_bytes i)"
  by (auto simp: read_delimited_def read_exact_def split: if_splits)

text \<open>What the reader of such an output gets out of it, up to its end: the specification of a run.\<close>

function read_all :: "'m prost_api \<Rightarrow> input_stream \<Rightarrow> 'm list" where
  "read_all P i =
     (if in_bytes i = [] then []
      else (case read_delimited P i of (Inr m, i') \<Rightarrow> m # read_all P i' | (Inl _, _) \<Rightarrow> []))"
  by pat_completeness auto

termination
  by (relation "measure (\<lambda>(P, i). length (in_bytes i))") (auto dest: read_delimited_shorter [OF sym])

declare read_all.simps [simp del]

section \<open>The main function of the client\<close>

record client_compat_response =
  cc_test_name :: str
  cc_result :: "compat_result option"

text \<open>What the program is linked against: the transport, the TLS parser and the message encoders.\<close>

record ('r, 'w, 'h, 'x) harness =
  hx_client :: "connector \<Rightarrow> str \<Rightarrow> ('h \<Rightarrow> 'h) \<Rightarrow> ('r, 'w, 'h, 'x, conformance_response) net"
  hx_headers :: "'h headers_api"
  hx_pem_certs :: "bytes \<Rightarrow> (bytes list) option"
  hx_pb :: conformance_pb
  hx_client_pb :: client_pb
  hx_request :: "client_compat_request prost_api"
  hx_response :: "client_compat_response prost_api"

definition handled ::
  "('r, 'w, 'h, 'x) harness \<Rightarrow> nat \<Rightarrow> client_compat_request \<Rightarrow> obs list \<Rightarrow> compat_result outcome" where
  "handled X fuel req os = handle fuel (hx_client X) (hx_headers X) (hx_pem_certs X) (hx_pb X) (hx_client_pb X) req os"

definition MAX_IN_FLIGHT :: nat where
  "MAX_IN_FLIGHT = 32"

text \<open>
  A spawned task waits for a permit of the semaphore, handles its request with it, and ends with
  its response written or by a panic; either gives the permit back. The runtime that shuts down
  drops a task that has not ended, wherever it waits.
\<close>

datatype task_state = Waiting | InFlight | Answered compat_result | TaskPanicked | Dropped

text \<open>The loop that reads; the loop that joins the tasks; the value that \<open>main\<close> has returned.\<close>

datatype main_phase = Reading | Joining | Returned "io_error + unit"

record pool =
  po_phase :: main_phase
  po_input :: input_stream
  po_tasks :: "(client_compat_request \<times> task_state) list"
  po_permits :: nat
  po_output :: bytes

definition main_start :: "input_stream \<Rightarrow> pool" where
  "main_start i = \<lparr>po_phase = Reading, po_input = i, po_tasks = [], po_permits = MAX_IN_FLIGHT, po_output = []\<rparr>"

definition set_task :: "nat \<Rightarrow> task_state \<Rightarrow> pool \<Rightarrow> pool" where
  "set_task k t s = s\<lparr>po_tasks := (po_tasks s)[k := (fst (po_tasks s ! k), t)]\<rparr>"

definition respond_with :: "('r, 'w, 'h, 'x) harness \<Rightarrow> client_compat_request \<Rightarrow> compat_result \<Rightarrow> bytes \<Rightarrow> bytes" where
  "respond_with X req res out =
     write_delimited (hx_response X) out \<lparr>cc_test_name = cr_test_name req, cc_result = Some res\<rparr>"

text \<open>One turn of the loop that reads the requests.\<close>

definition read_turn :: "('r, 'w, 'h, 'x) harness \<Rightarrow> pool \<Rightarrow> pool" where
  "read_turn X s =
     (case read_delimited (hx_request X) (po_input s) of
        (Inr req, i) \<Rightarrow> s\<lparr>po_input := i, po_tasks := po_tasks s @ [(req, Waiting)]\<rparr>
      | (Inl UnexpectedEof, i) \<Rightarrow> s\<lparr>po_input := i, po_phase := Joining\<rparr>
      | (Inl (OtherError e), i) \<Rightarrow> s\<lparr>po_input := i, po_phase := Returned (Inl (OtherError e))\<rparr>)"

text \<open>A task whose join handle is ready, and one that has come to its own end.\<close>

definition ended :: "task_state \<Rightarrow> bool" where
  "ended t \<longleftrightarrow> t \<noteq> Waiting \<and> t \<noteq> InFlight"

definition ran_to_end :: "task_state \<Rightarrow> bool" where
  "ran_to_end t \<longleftrightarrow> ended t \<and> t \<noteq> Dropped"

text \<open>
  The tasks run on several threads: any of them may take the next step. When \<open>main\<close> has returned
  an error of the input, the runtime shuts down under the tasks that are left: each of them may
  still go on for a while, and is dropped at a point where it waits, with the permit that it holds.
  When \<open>main\<close> returns without an error it has joined all tasks, so that none is left to be dropped.
\<close>

inductive main_step :: "('r, 'w, 'h, 'x) harness \<Rightarrow> pool \<Rightarrow> pool \<Rightarrow> bool" for X where
  step_read: "po_phase s = Reading \<Longrightarrow> main_step X s (read_turn X s)"
| step_acquire: "k < length (po_tasks s) \<Longrightarrow> snd (po_tasks s ! k) = Waiting \<Longrightarrow> 0 < po_permits s \<Longrightarrow>
    main_step X s (set_task k InFlight (s\<lparr>po_permits := po_permits s - 1\<rparr>))"
| step_answer: "k < length (po_tasks s) \<Longrightarrow> po_tasks s ! k = (req, InFlight) \<Longrightarrow>
    handled X fuel req os = Finished res \<Longrightarrow>
    main_step X s (set_task k (Answered res)
      (s\<lparr>po_permits := po_permits s + 1, po_output := respond_with X req res (po_output s)\<rparr>))"
| step_panic: "k < length (po_tasks s) \<Longrightarrow> po_tasks s ! k = (req, InFlight) \<Longrightarrow>
    handled X fuel req os = Panicked \<Longrightarrow>
    main_step X s (set_task k TaskPanicked (s\<lparr>po_permits := po_permits s + 1\<rparr>))"
| step_shutdown: "po_phase s = Returned r \<Longrightarrow> k < length (po_tasks s) \<Longrightarrow> po_tasks s ! k = (req, t) \<Longrightarrow>
    \<not> ended t \<Longrightarrow>
    main_step X s (set_task k Dropped (s\<lparr>po_permits := po_permits s + (if t = InFlight then 1 else 0)\<rparr>))"
| step_join: "po_phase s = Joining \<Longrightarrow> \<forall>t \<in> set (po_tasks s). ended (snd t) \<Longrightarrow>
    main_step X s (s\<lparr>po_phase := Returned (Inr ())\<rparr>)"

text \<open>The states that a run on an input can be in.\<close>

inductive main_reaches :: "('r, 'w, 'h, 'x) harness \<Rightarrow> input_stream \<Rightarrow> pool \<Rightarrow> bool" for X i where
  reach_start: "main_reaches X i (main_start i)"
| reach_step: "main_reaches X i s \<Longrightarrow> main_step X s s' \<Longrightarrow> main_reaches X i s'"

section \<open>The main function of the server\<close>

text \<open>\<open>TLSCreds\<close>, \<open>ServerCompatRequest\<close>, \<open>ServerCompatResponse\<close>, with the fields that are used.\<close>

record tls_creds =
  tc_cert :: bytes
  tc_key :: bytes

record server_compat_request =
  sq_use_tls :: bool
  sq_server_creds :: "tls_creds option"

record server_compat_response =
  sp_host :: str
  sp_port :: u32
  sp_pem_cert :: bytes

text \<open>
  \<open>acceptor\<close> is \<open>RustlsAcceptor::from_single_cert\<close>, which may panic; \<open>spawn\<close> is the port of the
  TCP socket, if any, that the server with this acceptor is bound to. The result is that of
  \<open>main\<close> up to the wait for the shutdown, with the bytes on standard output.
\<close>

definition server_main ::
  "server_compat_request prost_api \<Rightarrow> server_compat_response prost_api \<Rightarrow> (bytes \<Rightarrow> bytes \<Rightarrow> 'a option)
   \<Rightarrow> ('a option \<Rightarrow> 16 word option) \<Rightarrow> input_stream \<Rightarrow> (io_error + bytes) outcome" where
  "server_main Q P acceptor spawn i =
     (case fst (read_delimited Q i) of
        Inl e \<Rightarrow> Finished (Inl e)
      | Inr request \<Rightarrow>
          (let reply = (\<lambda>bound pem_cert.
             case bound of
               None \<Rightarrow> Finished (Inl (OtherError (lit ''server did not bind a TCP socket'')))
             | Some p \<Rightarrow> Finished (Inr (write_delimited P []
                 \<lparr>sp_host = lit ''127.0.0.1'', sp_port = ucast p, sp_pem_cert = pem_cert\<rparr>))) in
           if sq_use_tls request then
             (case sq_server_creds request of
                None \<Rightarrow> Finished (Inl (OtherError (lit ''use_tls set but no server_creds provided'')))
              | Some creds \<Rightarrow>
                  (case acceptor (tc_cert creds) (tc_key creds) of
                     None \<Rightarrow> Panicked
                   | Some a \<Rightarrow> reply (spawn (Some a)) (tc_cert creds)))
           else reply (spawn None) []))"

section \<open>Lemmas: length-delimited messages\<close>

lemma prefix_value_be [simp]: "prefix_value (u32_to_be_bytes w) = unat w"
  by (simp add: u32_to_be_bytes_def u32_be_bytes_inverse)

text \<open>A message that can be encoded in less than 4 GiB and is decoded to itself.\<close>

definition deliverable :: "'m prost_api \<Rightarrow> 'm \<Rightarrow> bool" where
  "deliverable P m \<longleftrightarrow> (\<exists>b. pm_encode P m = Inr b \<and> length b < 2 ^ 32)"

lemma read_exact_append [simp]:
  "read_exact (length b) (\<lparr>in_bytes = b @ rest, in_failure = f\<rparr>) = (Inr b, \<lparr>in_bytes = rest, in_failure = f\<rparr>)"
  by (simp add: read_exact_def)

lemma deliverable_data:
  "prost_ok P \<Longrightarrow> deliverable P m \<Longrightarrow> pm_decode P (encode_to_vec P m) = Inr m \<and> length (encode_to_vec P m) < 2 ^ 32"
  by (auto simp: prost_ok_def deliverable_def encode_to_vec_def)

lemma write_delimited_eq:
  "write_delimited P out m = out @ u32_to_be_bytes (of_nat (length (encode_to_vec P m))) @ encode_to_vec P m"
  by (simp add: write_delimited_def Let_def)

lemma write_delimited_out: "write_delimited P out m = out @ write_delimited P [] m"
  by (simp add: write_delimited_eq)

lemma read_written:
  assumes "prost_ok P" and "deliverable P m"
  shows "read_delimited P \<lparr>in_bytes = write_delimited P [] m @ rest, in_failure = f\<rparr> =
    (Inr m, \<lparr>in_bytes = rest, in_failure = f\<rparr>)"
proof -
  let ?d = "encode_to_vec P m" and ?w = "of_nat (length (encode_to_vec P m)) :: u32"
  have u: "unat ?w = length ?d"
    using deliverable_data [OF assms] by (simp add: unat_of_nat)
  have "read_exact 4 \<lparr>in_bytes = u32_to_be_bytes ?w @ ?d @ rest, in_failure = f\<rparr> =
      (Inr (u32_to_be_bytes ?w), \<lparr>in_bytes = ?d @ rest, in_failure = f\<rparr>)"
    using read_exact_append [of "u32_to_be_bytes ?w" "?d @ rest" f] by simp
  then show ?thesis
    using deliverable_data [OF assms] by (simp add: read_delimited_def write_delimited_eq u)
qed

text \<open>A message that is cut off is an unexpected end.\<close>

lemma read_truncated:
  assumes "deliverable P m" and "n < length (write_delimited P [] m)"
  shows "\<exists>i. read_delimited P \<lparr>in_bytes = take n (write_delimited P [] m), in_failure = f\<rparr> =
    (Inl (case f of None \<Rightarrow> UnexpectedEof | Some e \<Rightarrow> OtherError e), i)"
proof -
  let ?d = "encode_to_vec P m" and ?w = "of_nat (length (encode_to_vec P m)) :: u32"
  have u: "unat ?w = length ?d"
    using assms(1) by (auto simp: deliverable_def encode_to_vec_def unat_of_nat)
  show ?thesis
  proof (cases "n < 4")
    case True
    with assms(2) show ?thesis by (auto simp: read_delimited_def read_exact_def write_delimited_eq)
  next
    case False
    then have "take n (write_delimited P [] m) = u32_to_be_bytes ?w @ take (n - 4) ?d"
      by (simp add: write_delimited_eq)
    moreover have "read_exact 4 \<lparr>in_bytes = u32_to_be_bytes ?w @ take (n - 4) ?d, in_failure = f\<rparr> =
        (Inr (u32_to_be_bytes ?w), \<lparr>in_bytes = take (n - 4) ?d, in_failure = f\<rparr>)"
      using read_exact_append [of "u32_to_be_bytes ?w" "take (n - 4) ?d" f] by simp
    moreover have "n - 4 < length ?d" using assms(2) False by (simp add: write_delimited_eq)
    ultimately show ?thesis by (simp add: read_delimited_def u) (simp add: read_exact_def)
  qed
qed

lemma read_all_Inr: "read_delimited P i = (Inr m, i') \<Longrightarrow> read_all P i = m # read_all P i'"
  by (subst read_all.simps) (auto simp: read_delimited_def read_exact_def split: if_splits)

lemma read_all_Inl: "read_delimited P i = (Inl e, i') \<Longrightarrow> read_all P i = []"
  by (subst read_all.simps) simp

definition written :: "'m prost_api \<Rightarrow> 'm list \<Rightarrow> bytes" where
  "written P ms = foldl (write_delimited P) [] ms"

lemma written_Nil [simp]: "written P [] = []"
  by (simp add: written_def)

lemma written_snoc: "written P (ms @ [m]) = write_delimited P (written P ms) m"
  by (simp add: written_def)

lemma written_eq: "written P ms = concat (map (write_delimited P []) ms)"
proof (induction ms rule: rev_induct)
  case (snoc m ms)
  then show ?case using write_delimited_out [of P "written P ms" m] by (simp add: written_snoc)
qed simp

lemma read_all_written_append:
  assumes "prost_ok P" and "\<forall>m \<in> set ms. deliverable P m"
  shows "read_all P \<lparr>in_bytes = written P ms @ rest, in_failure = f\<rparr> =
    ms @ read_all P \<lparr>in_bytes = rest, in_failure = f\<rparr>"
  using assms(2)
proof (induction ms)
  case (Cons m ms)
  then show ?case
    using read_all_Inr [OF read_written [OF assms(1), of m "written P ms @ rest" f]] by (simp add: written_eq)
qed simp

section \<open>Lemmas: what a state of a run holds\<close>

text \<open>The same elements, each as often, in any order.\<close>

definition permuted :: "'a list \<Rightarrow> 'a list \<Rightarrow> bool" where
  "permuted xs ys \<longleftrightarrow> (\<forall>z. count_list xs z = count_list ys z)"

definition in_flight :: "pool \<Rightarrow> nat" where
  "in_flight s = length (filter (\<lambda>t. snd t = InFlight) (po_tasks s))"

text \<open>The responses of the tasks that have answered.\<close>

definition response_to :: "client_compat_request \<times> task_state \<Rightarrow> client_compat_response option" where
  "response_to t =
     (case snd t of
        Answered res \<Rightarrow> Some \<lparr>cc_test_name = cr_test_name (fst t), cc_result = Some res\<rparr>
      | _ \<Rightarrow> None)"

fun task_sound :: "('r, 'w, 'h, 'x) harness \<Rightarrow> client_compat_request \<times> task_state \<Rightarrow> bool" where
  "task_sound X (req, Answered res) \<longleftrightarrow> (\<exists>fuel os. handled X fuel req os = Finished res)"
| "task_sound X (req, TaskPanicked) \<longleftrightarrow> (\<exists>fuel os. handled X fuel req os = Panicked)"
| "task_sound X (req, _) \<longleftrightarrow> True"

definition pool_inv :: "('r, 'w, 'h, 'x) harness \<Rightarrow> input_stream \<Rightarrow> pool \<Rightarrow> bool" where
  "pool_inv X i s \<longleftrightarrow>
     map fst (po_tasks s) @ (if po_phase s = Reading then read_all (hx_request X) (po_input s) else []) =
       read_all (hx_request X) i \<and>
     po_permits s + in_flight s = MAX_IN_FLIGHT \<and>
     (\<forall>t \<in> set (po_tasks s). task_sound X t) \<and>
     (\<exists>ms. po_output s = written (hx_response X) ms \<and>
        permuted ms (List.map_filter response_to (po_tasks s))) \<and>
     (po_phase s = Returned (Inr ()) \<longrightarrow> (\<forall>t \<in> set (po_tasks s). ended (snd t))) \<and>
     ((\<exists>t \<in> set (po_tasks s). snd t = Dropped) \<longrightarrow> (\<exists>e. po_phase s = Returned (Inl e)))"

lemma split_task:
  "k < length xs \<Longrightarrow> xs ! k = x \<Longrightarrow> \<exists>a b. xs = a @ x # b \<and> (\<forall>y. xs[k := y] = a @ y # b)"
  by (metis id_take_nth_drop upd_conv_take_nth_drop)

lemma task_changed:
  assumes "k < length (po_tasks s)" and "po_tasks s ! k = (req, t)"
  obtains a b where "po_tasks s = a @ (req, t) # b" and "po_tasks (set_task k t' s) = a @ (req, t') # b"
  using split_task [OF assms] assms(2) by (auto simp: set_task_def)

lemma set_task_fields [simp]:
  "po_phase (set_task k t s) = po_phase s" "po_input (set_task k t s) = po_input s"
  "po_permits (set_task k t s) = po_permits s" "po_output (set_task k t s) = po_output s"
  by (simp_all add: set_task_def)

lemma map_filter_append [simp]: "List.map_filter f (xs @ ys) = List.map_filter f xs @ List.map_filter f ys"
  by (simp add: List.map_filter_def)

lemma pool_inv_read: "pool_inv X i s \<Longrightarrow> po_phase s = Reading \<Longrightarrow> pool_inv X i (read_turn X s)"
  unfolding pool_inv_def read_turn_def in_flight_def
  by (auto simp: response_to_def List.map_filter_simps dest: read_all_Inr read_all_Inl
      split: prod.split sum.split io_error.split)

lemma pool_inv_step:
  assumes "main_step X s s'" and "pool_inv X i s"
  shows "pool_inv X i s'"
  using assms
proof cases
  case step_read
  with assms(2) show ?thesis by (simp add: pool_inv_read)
next
  case (step_acquire k)
  obtain req where t: "po_tasks s ! k = (req, Waiting)" using step_acquire(3) by (metis prod.collapse)
  let ?s = "s\<lparr>po_permits := po_permits s - 1\<rparr>"
  obtain a b where "po_tasks s = a @ (req, Waiting) # b" "po_tasks (set_task k InFlight ?s) = a @ (req, InFlight) # b"
    using task_changed [of k ?s req Waiting InFlight] step_acquire(2) t by auto
  with step_acquire assms(2) show ?thesis
    by (auto simp: pool_inv_def in_flight_def response_to_def ended_def List.map_filter_simps)
next
  case (step_answer k req fuel os res)
  let ?s = "s\<lparr>po_permits := po_permits s + 1, po_output := respond_with X req res (po_output s)\<rparr>"
  obtain a b where ab: "po_tasks s = a @ (req, InFlight) # b" "po_tasks (set_task k (Answered res) ?s) = a @ (req, Answered res) # b"
    using task_changed [of k ?s req InFlight "Answered res"] step_answer by auto
  obtain ms where ms: "po_output s = written (hx_response X) ms" "permuted ms (List.map_filter response_to (po_tasks s))"
    using assms(2) by (auto simp: pool_inv_def)
  have "po_output s' = written (hx_response X) (ms @ [\<lparr>cc_test_name = cr_test_name req, cc_result = Some res\<rparr>])"
    by (simp add: step_answer(1) ms(1) written_snoc respond_with_def)
  moreover have "permuted (ms @ [\<lparr>cc_test_name = cr_test_name req, cc_result = Some res\<rparr>])
      (List.map_filter response_to (po_tasks s'))"
    using ms(2) ab by (simp add: permuted_def step_answer(1) response_to_def List.map_filter_simps)
  moreover have "\<forall>t \<in> set (po_tasks s'). task_sound X t"
    using assms(2) ab step_answer by (auto simp: pool_inv_def)
  ultimately show ?thesis
    using step_answer assms(2) ab by (fastforce simp: pool_inv_def in_flight_def ended_def)
next
  case (step_panic k req fuel os)
  let ?s = "s\<lparr>po_permits := po_permits s + 1\<rparr>"
  obtain a b where ab: "po_tasks s = a @ (req, InFlight) # b" "po_tasks (set_task k TaskPanicked ?s) = a @ (req, TaskPanicked) # b"
    using task_changed [of k ?s req InFlight TaskPanicked] step_panic by auto
  have "\<forall>t \<in> set (po_tasks s'). task_sound X t"
    using assms(2) ab step_panic by (auto simp: pool_inv_def)
  with step_panic assms(2) ab show ?thesis
    by (auto simp: pool_inv_def in_flight_def response_to_def ended_def List.map_filter_simps)
next
  case (step_shutdown r k req t)
  let ?s = "s\<lparr>po_permits := po_permits s + (if t = InFlight then 1 else 0)\<rparr>"
  obtain a b where ab: "po_tasks s = a @ (req, t) # b" "po_tasks (set_task k Dropped ?s) = a @ (req, Dropped) # b"
    using task_changed [of k ?s req t Dropped] step_shutdown by auto
  then obtain e where r: "r = Inl e"
    using assms(2) step_shutdown(2,5) by (cases r) (auto simp: pool_inv_def)
  have "t = Waiting \<or> t = InFlight" using step_shutdown(5) by (simp add: ended_def)
  with step_shutdown assms(2) ab r show ?thesis
    by (auto simp: pool_inv_def in_flight_def response_to_def List.map_filter_simps)
next
  case step_join
  with assms(2) show ?thesis by (auto simp: pool_inv_def in_flight_def)
qed

lemma main_reaches_inv: "main_reaches X i s \<Longrightarrow> pool_inv X i s"
proof (induction rule: main_reaches.induct)
  case reach_start
  show ?case by (simp add: pool_inv_def main_start_def in_flight_def permuted_def List.map_filter_simps exI [of _ "[]"])
qed (rule pool_inv_step)

lemma pool_inv_requests: "pool_inv X i s \<Longrightarrow> \<exists>later. map fst (po_tasks s) @ later = read_all (hx_request X) i"
  unfolding pool_inv_def by blast

lemma pool_inv_task:
  assumes "pool_inv X i s" and "t \<in> set (po_tasks s)"
  shows "fst t \<in> set (read_all (hx_request X) i)"
proof -
  obtain later where "read_all (hx_request X) i = map fst (po_tasks s) @ later"
    using pool_inv_requests [OF assms(1)] by metis
  with assms(2) show ?thesis by simp
qed

lemma response_to_SomeD:
  "response_to t = Some m \<Longrightarrow>
    \<exists>req res. t = (req, Answered res) \<and> m = \<lparr>cc_test_name = cr_test_name req, cc_result = Some res\<rparr>"
  by (cases t; cases "snd t") (auto simp: response_to_def)

lemma main_output:
  assumes "pool_inv X i s" and "prost_ok (hx_response X)"
    and "\<forall>req \<in> set (read_all (hx_request X) i). \<forall>fuel os res. handled X fuel req os = Finished res \<longrightarrow>
      deliverable (hx_response X) \<lparr>cc_test_name = cr_test_name req, cc_result = Some res\<rparr>"
  shows "permuted (read_all (hx_response X) \<lparr>in_bytes = po_output s, in_failure = None\<rparr>)
    (List.map_filter response_to (po_tasks s))"
proof -
  obtain ms where ms: "po_output s = written (hx_response X) ms" "permuted ms (List.map_filter response_to (po_tasks s))"
    using assms(1) by (auto simp: pool_inv_def)
  have "set ms = set (List.map_filter response_to (po_tasks s))"
    using ms(2) count_list_0_iff [of ms] count_list_0_iff [of "List.map_filter response_to (po_tasks s)"]
    by (auto simp: permuted_def)
  moreover have "deliverable (hx_response X) m" if "m \<in> set (List.map_filter response_to (po_tasks s))" for m
  proof -
    from that obtain t where "t \<in> set (po_tasks s)" "response_to t = Some m"
      by (auto simp: List.map_filter_def)
    then obtain req res where t: "(req, Answered res) \<in> set (po_tasks s)"
        "m = \<lparr>cc_test_name = cr_test_name req, cc_result = Some res\<rparr>"
      by (metis response_to_SomeD)
    have "req \<in> set (read_all (hx_request X) i)"
      using pool_inv_task [OF assms(1) t(1)] by simp
    then show ?thesis using assms(1,3) t unfolding pool_inv_def by fastforce
  qed
  ultimately have "\<forall>m \<in> set ms. deliverable (hx_response X) m" by blast
  then have "read_all (hx_response X) \<lparr>in_bytes = po_output s, in_failure = None\<rparr> = ms"
    using read_all_written_append [OF assms(2), of ms "[]" None] ms(1) by (simp add: read_all.simps)
  with ms(2) show ?thesis by simp
qed

section \<open>Lemmas: how long a run can be\<close>

fun task_weight :: "task_state \<Rightarrow> nat" where
  "task_weight Waiting = 2"
| "task_weight InFlight = 1"
| "task_weight _ = 0"

fun phase_weight :: "main_phase \<Rightarrow> nat" where
  "phase_weight Reading = 2"
| "phase_weight Joining = 1"
| "phase_weight (Returned _) = 0"

definition steps_left :: "pool \<Rightarrow> nat" where
  "steps_left s = length (in_bytes (po_input s)) + phase_weight (po_phase s) + (\<Sum>t \<leftarrow> po_tasks s. task_weight (snd t))"

lemma read_delimited_Inr_length:
  "read_delimited P i = (Inr m, i') \<Longrightarrow> length (in_bytes i') + 4 \<le> length (in_bytes i)"
  by (auto simp: read_delimited_def read_exact_def split: if_splits)

lemma read_delimited_Inl_length: "read_delimited P i = (Inl e, i') \<Longrightarrow> length (in_bytes i') \<le> length (in_bytes i)"
  by (auto simp: read_delimited_def read_exact_def split: if_splits)

lemma read_turn_decreases: "po_phase s = Reading \<Longrightarrow> steps_left (read_turn X s) < steps_left s"
  unfolding read_turn_def steps_left_def
  by (auto dest: read_delimited_Inr_length read_delimited_Inl_length split: prod.split sum.split io_error.split)

lemma step_decreases: "main_step X s s' \<Longrightarrow> steps_left s' < steps_left s"
proof (induction rule: main_step.induct)
  case (step_read s)
  then show ?case by (rule read_turn_decreases)
next
  case (step_acquire k s)
  obtain req where t: "po_tasks s ! k = (req, Waiting)" using step_acquire(2) by (metis prod.collapse)
  let ?s = "s\<lparr>po_permits := po_permits s - 1\<rparr>"
  obtain a b where "po_tasks s = a @ (req, Waiting) # b" "po_tasks (set_task k InFlight ?s) = a @ (req, InFlight) # b"
    using task_changed [of k ?s req Waiting InFlight] step_acquire(1) t by auto
  then show ?case by (simp add: steps_left_def)
next
  case (step_answer k s req fuel os res)
  let ?s = "s\<lparr>po_permits := po_permits s + 1, po_output := respond_with X req res (po_output s)\<rparr>"
  obtain a b where "po_tasks s = a @ (req, InFlight) # b" "po_tasks (set_task k (Answered res) ?s) = a @ (req, Answered res) # b"
    using task_changed [of k ?s req InFlight "Answered res"] step_answer by auto
  then show ?case by (simp add: steps_left_def)
next
  case (step_panic k s req fuel os)
  let ?s = "s\<lparr>po_permits := po_permits s + 1\<rparr>"
  obtain a b where "po_tasks s = a @ (req, InFlight) # b" "po_tasks (set_task k TaskPanicked ?s) = a @ (req, TaskPanicked) # b"
    using task_changed [of k ?s req InFlight TaskPanicked] step_panic by auto
  then show ?case by (simp add: steps_left_def)
next
  case (step_shutdown s r k req t)
  let ?s = "s\<lparr>po_permits := po_permits s + (if t = InFlight then 1 else 0)\<rparr>"
  obtain a b where "po_tasks s = a @ (req, t) # b" "po_tasks (set_task k Dropped ?s) = a @ (req, Dropped) # b"
    using task_changed [of k ?s req t Dropped] step_shutdown by auto
  moreover have "t = Waiting \<or> t = InFlight" using step_shutdown(4) by (simp add: ended_def)
  ultimately show ?case by (auto simp: steps_left_def)
qed (simp add: steps_left_def)

lemma steps_bound: "(main_step X ^^ n) s s' \<Longrightarrow> n + steps_left s' \<le> steps_left s"
proof (induction n arbitrary: s')
  case (Suc n)
  then show ?case by (fastforce dest: step_decreases)
qed simp

lemma main_reaches_relpow: "(main_step X ^^ n) (main_start i) s \<Longrightarrow> main_reaches X i s"
  by (induction n arbitrary: s) (auto intro: main_reaches.intros)

text \<open>
  No deadlock: a run that cannot go on while a task is left is at the joins, each call in flight is
  one that does not return, and a task waits for a permit only if there are 32 such calls.
\<close>

definition hung :: "('r, 'w, 'h, 'x) harness \<Rightarrow> client_compat_request \<Rightarrow> bool" where
  "hung X req \<longleftrightarrow> (\<forall>fuel os. handled X fuel req os = Suspended)"

lemma stuck_in_flight:
  assumes "\<forall>s'. \<not> main_step X s s'" and "(req, InFlight) \<in> set (po_tasks s)"
  shows "hung X req"
  unfolding hung_def
proof (intro allI)
  fix fuel os
  obtain k where k: "k < length (po_tasks s)" "po_tasks s ! k = (req, InFlight)"
    using assms(2) by (metis in_set_conv_nth)
  show "handled X fuel req os = Suspended"
    using assms(1) step_answer [OF k] step_panic [OF k] by (cases "handled X fuel req os") blast+
qed

lemma stuck_waiting:
  assumes "\<forall>s'. \<not> main_step X s s'" and "pool_inv X i s" and "(req, Waiting) \<in> set (po_tasks s)"
  shows "in_flight s = MAX_IN_FLIGHT"
proof -
  obtain k where "k < length (po_tasks s)" "po_tasks s ! k = (req, Waiting)"
    using assms(3) by (metis in_set_conv_nth)
  then have "po_permits s = 0"
    using assms(1) step_acquire [of k s X] by auto
  then show ?thesis using assms(2) by (simp add: pool_inv_def)
qed

lemma stuck_returned:
  assumes "\<forall>s'. \<not> main_step X s s'" and "po_phase s = Returned r" and "t \<in> set (po_tasks s)"
  shows "ended (snd t)"
  using assms step_shutdown [OF assms(2), of _ "fst t" "snd t" X] by (metis in_set_conv_nth prod.collapse)

lemma some_in_flight: "in_flight s = MAX_IN_FLIGHT \<Longrightarrow> \<exists>req. (req, InFlight) \<in> set (po_tasks s)"
  by (cases "filter (\<lambda>t. snd t = InFlight) (po_tasks s)")
    (fastforce simp: in_flight_def MAX_IN_FLIGHT_def filter_eq_Cons_iff)+

lemma stuck_joining:
  assumes "\<forall>s'. \<not> main_step X s s'" and "pool_inv X i s" and "po_phase s = Joining"
  shows "\<exists>req. (req, InFlight) \<in> set (po_tasks s)"
proof -
  obtain t where "t \<in> set (po_tasks s)" "\<not> ended (snd t)"
    using assms(1,3) step_join [of s X] by blast
  then show ?thesis
    using stuck_waiting [OF assms(1,2)] some_in_flight by (metis ended_def prod.collapse)
qed

section \<open>Lemmas: the reply of the server\<close>

text \<open>
  The server replies only when it is bound: with the port of the socket that the client reaches,
  and with the certificate that its acceptor was made from exactly if it was asked for TLS.
\<close>

lemma server_main_reply:
  assumes "server_main Q P acceptor spawn i = Finished (Inr out)"
  obtains request p pem where "fst (read_delimited Q i) = Inr request"
    and "out = written P [\<lparr>sp_host = lit ''127.0.0.1'', sp_port = ucast p, sp_pem_cert = pem\<rparr>]"
    and "\<not> sq_use_tls request \<Longrightarrow> pem = [] \<and> spawn None = Some p"
    and "sq_use_tls request \<Longrightarrow> \<exists>creds a. sq_server_creds request = Some creds \<and> pem = tc_cert creds \<and>
      acceptor (tc_cert creds) (tc_key creds) = Some a \<and> spawn (Some a) = Some p"
proof -
  obtain request where r: "fst (read_delimited Q i) = Inr request"
    using assms by (auto simp: server_main_def split: sum.splits)
  show thesis
  proof (cases "sq_use_tls request")
    case True
    with assms r obtain creds a p where "sq_server_creds request = Some creds"
        "acceptor (tc_cert creds) (tc_key creds) = Some a" "spawn (Some a) = Some p"
        "out = write_delimited P [] \<lparr>sp_host = lit ''127.0.0.1'', sp_port = ucast p, sp_pem_cert = tc_cert creds\<rparr>"
      by (auto simp: server_main_def Let_def split: option.splits)
    with True show thesis using that [OF r] by (simp add: written_eq)
  next
    case False
    with assms r obtain p where "spawn None = Some p"
        "out = write_delimited P [] \<lparr>sp_host = lit ''127.0.0.1'', sp_port = ucast p, sp_pem_cert = []\<rparr>"
      by (auto simp: server_main_def Let_def split: option.splits)
    with False show thesis using that [OF r] by (simp add: written_eq)
  qed
qed

text \<open>A client that is given the reply uses TLS exactly if the server has a certificate.\<close>

lemma reply_connector:
  "connector_for pem_certs (req\<lparr>cr_host := sp_host r, cr_port := sp_port r, cr_server_tls_cert := sp_pem_cert r\<rparr>) =
     (let at = sp_host r @ lit '':'' @ show_nat (unat (sp_port r)) in
      if sp_pem_cert r = [] then Some (PlainTcp, lit ''http://'' @ at)
      else map_option (\<lambda>certs. (TlsOverTcp certs [lit ''h2''], lit ''https://'' @ at)) (pem_certs (sp_pem_cert r)))"
  by (simp add: connector_for_def tls_connector_def option.map_comp comp_def Let_def)

section \<open>A program for examples\<close>

text \<open>Its requests name a service that the client does not know, so that it answers without a call.\<close>

definition example_main_request :: "str \<Rightarrow> client_compat_request" where
  "example_main_request service = (example_compat_request None)\<lparr>cr_service := Some service\<rparr>"

definition example_main_response :: "str \<Rightarrow> client_compat_response" where
  "example_main_response e = \<lparr>cc_test_name = [], cc_result = Some (ErrorResult e)\<rparr>"

definition example_response_prost :: "client_compat_response prost_api" where
  "example_response_prost =
     \<lparr>pm_encode = (\<lambda>m. case cc_result m of
          Some (ErrorResult e) \<Rightarrow> if cc_test_name m = [] then Inr e else Inl []
        | _ \<Rightarrow> Inl []),
      pm_decode = (\<lambda>b. Inr (example_main_response b))\<rparr>"

definition example_harness :: "(example_reader, example_reader, example_headers, nat) harness" where
  "example_harness =
     \<lparr>hx_client = (\<lambda>_ _ _. case_net example_rp), hx_headers = dalist_headers, hx_pem_certs = (\<lambda>_. None),
      hx_pb = example_pb, hx_client_pb = example_client_pb,
      hx_request = \<lparr>pm_encode = (\<lambda>_. Inl []), pm_decode = (\<lambda>b. Inr (example_main_request b))\<rparr>,
      hx_response = example_response_prost\<rparr>"

definition example_stdin :: input_stream where
  "example_stdin = \<lparr>in_bytes = [0, 0, 0, 1, 120, 0, 0], in_failure = None\<rparr>"

lemma example_handled:
  "service \<noteq> SERVICE \<Longrightarrow> handled example_harness fuel (example_main_request service) os =
     Finished (ErrorResult (lit ''unknown service '' @ service))"
  by (simp add: handled_def handle_def example_main_request_def client_error_def)

lemma prost_ok_example_response: "prost_ok example_response_prost"
  by (auto simp: prost_ok_def example_response_prost_def example_main_response_def
      split: option.splits compat_result.splits if_splits)

lemma example_stdin_requests: "read_all (hx_request example_harness) example_stdin = [example_main_request [120]]"
  by (simp add: read_all.simps read_delimited_def read_exact_def example_stdin_def example_harness_def
      u32_from_be_bytes_def)

lemma example_service: "[120] \<noteq> SERVICE"
  by (simp add: SERVICE_def lit_def)

lemma example_responses:
  "\<forall>req \<in> set (read_all (hx_request example_harness) example_stdin). \<forall>fuel os res.
     handled example_harness fuel req os = Finished res \<longrightarrow>
     deliverable (hx_response example_harness) \<lparr>cc_test_name = cr_test_name req, cc_result = Some res\<rparr>"
  unfolding example_stdin_requests
  by (auto simp: example_handled [OF example_service] deliverable_def)
    (simp add: example_harness_def example_response_prost_def example_main_request_def example_compat_request_def lit_def)

definition example_end :: pool where
  "example_end =
     \<lparr>po_phase = Returned (Inr ()), po_input = \<lparr>in_bytes = [], in_failure = None\<rparr>,
      po_tasks = [(example_main_request [120], Answered (ErrorResult (lit ''unknown service x'')))],
      po_permits = 32, po_output = respond_with example_harness (example_main_request [120])
        (ErrorResult (lit ''unknown service x'')) []\<rparr>"

lemma example_end_phase: "po_phase example_end = Returned (Inr ())"
  by (simp add: example_end_def)

text \<open>A whole run: two reads, the second at the end of the input, a permit, the answer and the join.\<close>

lemma example_run: "(main_step example_harness ^^ 5) (main_start example_stdin) example_end"
proof -
  let ?X = example_harness
  let ?req = "example_main_request [120]" and ?res = "ErrorResult (lit ''unknown service x'')"
  define s1 where "s1 = \<lparr>po_phase = Reading, po_input = \<lparr>in_bytes = [0, 0], in_failure = None\<rparr>,
      po_tasks = [(?req, Waiting)], po_permits = 32, po_output = []\<rparr>"
  define s2 where "s2 = s1\<lparr>po_phase := Joining, po_input := \<lparr>in_bytes = [], in_failure = None\<rparr>\<rparr>"
  define s3 where "s3 = s2\<lparr>po_tasks := [(?req, InFlight)], po_permits := 31\<rparr>"
  define s4 where "s4 = example_end\<lparr>po_phase := Joining\<rparr>"
  have "main_step ?X (main_start example_stdin) s1"
    using step_read [of "main_start example_stdin" ?X]
    by (simp add: read_turn_def main_start_def MAX_IN_FLIGHT_def s1_def read_delimited_def read_exact_def
        example_stdin_def example_harness_def u32_from_be_bytes_def)
  moreover have "main_step ?X s1 s2"
    using step_read [of s1 ?X] by (simp add: read_turn_def s1_def s2_def read_delimited_def read_exact_def)
  moreover have "main_step ?X s2 s3"
    using step_acquire [of 0 s2 ?X] by (simp add: set_task_def s1_def s2_def s3_def)
  moreover have "main_step ?X s3 s4"
    using step_answer [of 0 s3 ?req ?X 0 "[]" ?res] example_handled [OF example_service, of 0 "[]"]
    by (simp add: set_task_def s1_def s2_def s3_def s4_def example_end_def lit_def)
  moreover have "main_step ?X s4 example_end"
    using step_join [of s4 ?X] by (simp add: s4_def example_end_def ended_def)
  ultimately show ?thesis by (auto simp: numeral_eq_Suc intro!: relcomppI)
qed

text \<open>Another, whose input fails after the first request: its task is dropped with its permit unused.\<close>

definition example_failing_stdin :: input_stream where
  "example_failing_stdin = \<lparr>in_bytes = [0, 0, 0, 1, 120], in_failure = Some [1]\<rparr>"

definition example_dropped :: pool where
  "example_dropped =
     \<lparr>po_phase = Returned (Inl (OtherError [1])), po_input = \<lparr>in_bytes = [], in_failure = Some [1]\<rparr>,
      po_tasks = [(example_main_request [120], Dropped)], po_permits = 32, po_output = []\<rparr>"

lemma example_failing_run: "(main_step example_harness ^^ 3) (main_start example_failing_stdin) example_dropped"
proof -
  let ?X = example_harness
  let ?req = "example_main_request [120]"
  define s1 where "s1 = \<lparr>po_phase = Reading, po_input = \<lparr>in_bytes = [], in_failure = Some [1]\<rparr>,
      po_tasks = [(?req, Waiting)], po_permits = 32, po_output = []\<rparr>"
  define s2 where "s2 = s1\<lparr>po_phase := Returned (Inl (OtherError [1]))\<rparr>"
  have "main_step ?X (main_start example_failing_stdin) s1"
    using step_read [of "main_start example_failing_stdin" ?X]
    by (simp add: read_turn_def main_start_def MAX_IN_FLIGHT_def s1_def read_delimited_def read_exact_def
        example_failing_stdin_def example_harness_def u32_from_be_bytes_def)
  moreover have "main_step ?X s1 s2"
    using step_read [of s1 ?X] by (simp add: read_turn_def s1_def s2_def read_delimited_def read_exact_def)
  moreover have "main_step ?X s2 example_dropped"
    using step_shutdown [of s2 _ 0 ?req Waiting ?X]
    by (simp add: set_task_def s1_def s2_def example_dropped_def ended_def)
  ultimately show ?thesis by (auto simp: numeral_eq_Suc intro!: relcomppI)
qed

section \<open>Properties\<close>

text \<open>
  C36: Length-delimited messages are read back. Of the messages that have been written one after the
  other, each shorter than 4 GiB, the reader gets all, in order, each of the reads leaving exactly
  what follows its message; what is left of a last message that has been cut off adds none, and
  the read that meets it reports an unexpected end (which the programs take for the end of the
  input) or the failure of the input.
\<close>

theorem delimited_roundtrip:
  assumes "prost_ok P" and "\<forall>m \<in> set (ms @ [m']). deliverable P m" and "n < length (write_delimited P [] m')"
  shows "read_all P \<lparr>in_bytes = written P ms @ take n (write_delimited P [] m'), in_failure = f\<rparr> = ms \<and>
    (\<forall>m rest. m \<in> set ms \<longrightarrow>
       read_delimited P \<lparr>in_bytes = written P [m] @ rest, in_failure = f\<rparr> = (Inr m, \<lparr>in_bytes = rest, in_failure = f\<rparr>)) \<and>
    (\<exists>i. read_delimited P \<lparr>in_bytes = take n (write_delimited P [] m'), in_failure = f\<rparr> =
       (Inl (case f of None \<Rightarrow> UnexpectedEof | Some e \<Rightarrow> OtherError e), i))"
proof -
  obtain i where i: "read_delimited P \<lparr>in_bytes = take n (write_delimited P [] m'), in_failure = f\<rparr> =
      (Inl (case f of None \<Rightarrow> UnexpectedEof | Some e \<Rightarrow> OtherError e), i)"
    using read_truncated [of P m' n f] assms(2,3) by auto
  then show ?thesis
    using read_all_written_append [OF assms(1), of ms _ f] read_all_Inl [OF i] assms(2)
    by (simp add: written_eq read_written [OF assms(1)])
qed

theorem delimited_roundtrip_witness:
  "read_all example_response_prost
     \<lparr>in_bytes = written example_response_prost [example_main_response [1, 2], example_main_response []]
        @ take 5 (write_delimited example_response_prost [] (example_main_response [7, 8])), in_failure = None\<rparr> =
   [example_main_response [1, 2], example_main_response []]"
proof -
  have "deliverable example_response_prost (example_main_response b)" if "length b < 3" for b
    using that by (simp add: deliverable_def example_response_prost_def example_main_response_def)
  then show ?thesis
    using delimited_roundtrip [OF prost_ok_example_response, of "[example_main_response [1, 2], example_main_response []]"
        "example_main_response [7, 8]" 5 None]
    by (simp add: write_delimited_eq encode_to_vec_def example_response_prost_def example_main_response_def)
qed

text \<open>
  C34: The concurrent program answers as a sequential one would, up to the order. In every state of a
  run on any input and under any scheduling of the tasks: at most 32 requests are in flight; the
  tasks are for the first requests of the input, in order; the output is whole frames, from which
  its reader gets exactly one response for each task that has answered and none else, with the
  name of the task's test and a result of \<open>handle\<close> on the task's request. When the program has
  returned without an error, there is a task for every request of the input, and each has answered
  or has panicked: none has been dropped.
\<close>

theorem conformance_pool:
  assumes "main_reaches X i s" and "prost_ok (hx_response X)"
    and "\<forall>req \<in> set (read_all (hx_request X) i). \<forall>fuel os res. handled X fuel req os = Finished res \<longrightarrow>
      deliverable (hx_response X) \<lparr>cc_test_name = cr_test_name req, cc_result = Some res\<rparr>"
  shows "in_flight s \<le> 32 \<and>
    (\<exists>later. read_all (hx_request X) i = map fst (po_tasks s) @ later \<and> (po_phase s = Returned (Inr ()) \<longrightarrow> later = [])) \<and>
    permuted (read_all (hx_response X) \<lparr>in_bytes = po_output s, in_failure = None\<rparr>)
      (List.map_filter response_to (po_tasks s)) \<and>
    (\<forall>t \<in> set (po_tasks s). task_sound X t \<and> (po_phase s = Returned (Inr ()) \<longrightarrow> ran_to_end (snd t)))"
proof -
  note ok = main_reaches_inv [OF assms(1)]
  note main_output [OF ok assms(2,3)]
  moreover have "in_flight s \<le> 32" using ok by (simp add: pool_inv_def MAX_IN_FLIGHT_def)
  moreover have "\<exists>later. read_all (hx_request X) i = map fst (po_tasks s) @ later \<and> (po_phase s = Returned (Inr ()) \<longrightarrow> later = [])"
    using ok by (intro exI [of _ "if po_phase s = Reading then read_all (hx_request X) (po_input s) else []"])
      (simp add: pool_inv_def)
  moreover have "\<forall>t \<in> set (po_tasks s). po_phase s = Returned (Inr ()) \<longrightarrow> ran_to_end (snd t)"
    using ok by (auto simp: pool_inv_def ran_to_end_def)
  ultimately show ?thesis using ok unfolding pool_inv_def by blast
qed

theorem conformance_pool_witness:
  "\<exists>s. main_reaches example_harness example_stdin s \<and> po_phase s = Returned (Inr ()) \<and>
     permuted (read_all example_response_prost \<lparr>in_bytes = po_output s, in_failure = None\<rparr>)
       [example_main_response (lit ''unknown service x'')]"
proof -
  have "hx_response example_harness = example_response_prost" by (simp add: example_harness_def)
  moreover have "List.map_filter response_to (po_tasks example_end) = [example_main_response (lit ''unknown service x'')]"
    by (simp add: example_end_def response_to_def example_main_response_def example_main_request_def
        example_compat_request_def lit_def List.map_filter_simps)
  ultimately show ?thesis
    using conformance_pool [OF main_reaches_relpow [OF example_run] _ example_responses] prost_ok_example_response
      main_reaches_relpow [OF example_run]
    by (metis example_end_phase)
qed

text \<open>
  C35: The program comes to its end. However its tasks are scheduled, a run has at most as many steps
  as the input has bytes, and two. A run that cannot go on does not stop at reading. It has
  returned without an error, every request of the input having its task, which has answered or
  panicked; or it has returned an error of the input, and then nothing is left running: a task that
  had not come to its end was dropped when the runtime shut down. Or it is at the joins for ever,
  and then each request in flight is one whose call never returns, there is one, and a request waits
  for a permit only behind 32 of them. A task is dropped only after an error of the input.
\<close>

theorem conformance_main_ends:
  assumes "(main_step X ^^ n) (main_start i) s"
  shows "n \<le> length (in_bytes i) + 2 \<and>
    ((\<exists>t \<in> set (po_tasks s). snd t = Dropped) \<longrightarrow> (\<exists>e. po_phase s = Returned (Inl e))) \<and>
    ((\<forall>s'. \<not> main_step X s s') \<longrightarrow>
       (case po_phase s of
          Reading \<Rightarrow> False
        | Joining \<Rightarrow>
            (\<exists>req. (req, InFlight) \<in> set (po_tasks s)) \<and>
            (\<forall>req. (req, InFlight) \<in> set (po_tasks s) \<longrightarrow> hung X req) \<and>
            ((\<exists>req. (req, Waiting) \<in> set (po_tasks s)) \<longrightarrow> in_flight s = 32)
        | Returned (Inl e) \<Rightarrow> \<forall>t \<in> set (po_tasks s). ended (snd t)
        | Returned (Inr _) \<Rightarrow>
            map fst (po_tasks s) = read_all (hx_request X) i \<and> (\<forall>t \<in> set (po_tasks s). ran_to_end (snd t))))"
proof (intro conjI impI)
  show "n \<le> length (in_bytes i) + 2"
    using steps_bound [OF assms] by (simp add: steps_left_def main_start_def)
next
  note ok = main_reaches_inv [OF main_reaches_relpow [OF assms]]
  then show "\<exists>e. po_phase s = Returned (Inl e)" if "\<exists>t \<in> set (po_tasks s). snd t = Dropped"
    using that by (simp add: pool_inv_def)
  show "case po_phase s of
          Reading \<Rightarrow> False
        | Joining \<Rightarrow>
            (\<exists>req. (req, InFlight) \<in> set (po_tasks s)) \<and>
            (\<forall>req. (req, InFlight) \<in> set (po_tasks s) \<longrightarrow> hung X req) \<and>
            ((\<exists>req. (req, Waiting) \<in> set (po_tasks s)) \<longrightarrow> in_flight s = 32)
        | Returned (Inl e) \<Rightarrow> \<forall>t \<in> set (po_tasks s). ended (snd t)
        | Returned (Inr _) \<Rightarrow>
            map fst (po_tasks s) = read_all (hx_request X) i \<and> (\<forall>t \<in> set (po_tasks s). ran_to_end (snd t))"
    if stuck: "\<forall>s'. \<not> main_step X s s'"
  proof (cases "po_phase s")
    case Reading
    with stuck show ?thesis by (blast intro: step_read)
  next
    case Joining
    then show ?thesis
      using stuck_joining [OF stuck ok] stuck_in_flight [OF stuck] stuck_waiting [OF stuck ok]
      by (simp add: MAX_IN_FLIGHT_def) blast
  next
    case (Returned r)
    then show ?thesis
      using stuck_returned [OF stuck] ok
      by (cases r) (auto simp: pool_inv_def ran_to_end_def)
  qed
qed

theorem conformance_main_ends_witness:
  "(\<exists>s. (main_step example_harness ^^ 5) (main_start example_stdin) s \<and> (\<forall>s'. \<not> main_step example_harness s s') \<and>
     po_phase s = Returned (Inr ()) \<and> map fst (po_tasks s) = [example_main_request [120]] \<and>
     (\<forall>t \<in> set (po_tasks s). ran_to_end (snd t))) \<and>
   (\<exists>s. (main_step example_harness ^^ 3) (main_start example_failing_stdin) s \<and> (\<forall>s'. \<not> main_step example_harness s s') \<and>
     po_phase s = Returned (Inl (OtherError [1])) \<and> po_tasks s = [(example_main_request [120], Dropped)]) \<and>
   (3::nat) \<le> length (in_bytes example_failing_stdin) + 2"
proof -
  have "\<forall>s'. \<not> main_step example_harness example_end s'"
    by (auto simp: main_step.simps example_end_def ended_def less_Suc_eq)
  moreover have "\<forall>s'. \<not> main_step example_harness example_dropped s'"
    by (auto simp: main_step.simps example_dropped_def ended_def less_Suc_eq)
  ultimately show ?thesis
    using conformance_main_ends [OF example_run] conformance_main_ends [OF example_failing_run]
      example_run example_failing_run example_stdin_requests example_end_phase
    by (intro conjI exI [of _ example_end] exI [of _ example_dropped]) (simp_all add: example_dropped_def)
qed

end
