(* ===== verification/Spec2Isabelle.thy ===== *)
theory Spec2Isabelle
  imports UnaryCall Generate ConformanceBidi ConformanceHarness
begin

text \<open>
  Verification of trillium-grpc: a gRPC client and server over the \<open>trillium\<close> HTTP stack, with
  a code generator for protobuf services.

  \<^bold>\<open>The program and its parts.\<close> A message is encoded by a \<open>Codec\<close> (\<open>src/codec\<close>), compressed
  (\<open>src/encoding.rs\<close>) and framed (\<open>src/frame/writer.rs\<close>); the peer's reader
  (\<open>src/frame/reader.rs\<close>) cuts the body into frames again. A call ends with a \<open>Status\<close>
  (\<open>src/status.rs\<close>) and custom \<open>Metadata\<close> (\<open>src/metadata.rs\<close>) in the HTTP trailers; its deadline
  travels as \<open>grpc-timeout\<close> (\<open>src/timeout.rs\<close>). On the server, \<open>src/server/dispatch.rs\<close> checks the
  request, races the handler against shutdown and deadline, and answers with one of the bodies
  of \<open>src/server/body.rs\<close>, or hands the connection to the upgrade of \<open>src/server/bidi.rs\<close>. On the
  client, the engine \<open>src/client/conn.rs\<close> holds one call, the handles of \<open>src/client/typed.rs\<close> wrap
  it per call shape, and \<open>src/client/service_client.rs\<close> carries the options of a generated client.
  The generator \<open>codegen/src/lib.rs\<close> and the macros \<open>macros/src/lib.rs\<close> emit the traits, routers and
  clients that call all of this.

  \<^bold>\<open>Theories.\<close> The order is that of the imports.

  \<^item> \<open>Prelude\<close>, \<open>Utf8\<close>: machine integers, byte strings, \<open>Result\<close> and \<open>Poll\<close>, and the functions of
    Rust's standard library on them that the code uses.
  \<^item> \<open>HttpHeaders\<close>: the header map of \<open>trillium\<close>, a parameter with its documented laws
    (\<open>headers_ok\<close>); the locale \<open>wire_token\<close> of values that travel in one header.
  \<^item> \<open>Metadata\<close>: \<open>src/metadata.rs\<close>. The record \<open>metadata\<close> is the struct; \<open>metadata_wf\<close> its
    invariant, \<open>documented_entry\<close> the stricter rule of its documentation; the round trip through headers.
  \<^item> \<open>Status\<close>: \<open>src/status.rs\<close>. \<open>code\<close>, \<open>status\<close>, the percent encoding, \<open>status_write_into\<close>
    (\<open>write_into\<close>) and \<open>from_trailers\<close>; what trailers mean to the client.
  \<^item> \<open>Encoding\<close>: \<open>src/encoding.rs\<close>. The tokens, and \<open>compress\<close> and \<open>decompress\<close> with the cap on the
    decompressed size; the compression libraries are the parameter \<open>codecs\<close>.
  \<^item> \<open>Codec\<close>, \<open>FrameWriter\<close>, \<open>FrameReader\<close>: \<open>src/codec\<close>, \<open>src/frame\<close>. \<open>poll_read_message\<close> is one poll of the
    reader's state machine over any partial reads; the list \<open>items\<close> of a byte string is its
    reference grammar, which the reader refines. The locale \<open>live_source\<close> is the contract of a
    reader, interpreted on a cursor and on both server bodies.
  \<^item> \<open>Streams\<close>: the locale \<open>item_source\<close>, the contract of a stream of items, a sublocale for every
    message stream.
  \<^item> \<open>Timeout\<close>, \<open>ContentType\<close>: \<open>src/timeout.rs\<close>, \<open>src/content_type.rs\<close>, \<open>src/server/content_type.rs\<close>.
  \<^item> \<open>ServerBody\<close>: \<open>src/server/body.rs\<close>. \<open>one_shot\<close> and \<open>stream_body\<close>, their \<open>poll_read\<close> and trailers; they
    are sources with a definite content.
  \<^item> \<open>Cancellation\<close>: futures as poll functions on a state (\<open>fut\<close>, \<open>drive\<close>) and the \<open>Cancellation\<close> of
    \<open>src/server/dispatch.rs\<close>: \<open>race\<close> changes nothing until it fires, and fires promptly.
  \<^item> \<open>ServerConn\<close>, \<open>Bidi\<close>, \<open>Dispatch\<close>: \<open>src/server/grpc_conn.rs\<close>, \<open>src/server/streaming.rs\<close>,
    \<open>src/server/bidi.rs\<close> and the rest of \<open>src/server/dispatch.rs\<close>: the control surface, the preflight, the
    reading of exactly one request, the four call shapes, the bidirectional upgrade.
  \<^item> \<open>ClientConn\<close>, \<open>ClientCalls\<close>, \<open>Delivery\<close>: \<open>src/client/conn.rs\<close>. \<open>inner\<close> is the enum \<open>Inner\<close>,
    \<open>client_conn\<close> the struct; every method is an \<open>async\<close> function of the polls. \<open>client_step\<close> is the
    relation of what a caller can do to a call, \<open>conn_step\<close> the invariant of its life, \<open>spent\<close> that it has
    left the pending state. \<open>Delivery\<close>
    shows that a response is delivered item by item and with the right verdict, whether the
    call was upgraded or not (the locales \<open>response_source\<close> and \<open>live_mode\<close>).
  \<^item> \<open>Typed\<close>, \<open>ServiceClient\<close>: \<open>src/client/typed.rs\<close>, \<open>src/client/service_client.rs\<close>,
    \<open>src/client/mod.rs\<close>.
  \<^item> \<open>Codegen\<close>, \<open>Macros\<close>, \<open>Generate\<close>: \<open>codegen/src/lib.rs\<close>, \<open>macros/src/lib.rs\<close>. What is emitted is kept as
    data (services, methods with their shape, imports, modules); the routing of the emitted
    server against the paths of the emitted client; the tree of modules; the front ends.
  \<^item> \<open>EndToEnd\<close>, \<open>UnaryCall\<close>: this repository's client against its server.
  \<^item> \<open>ConformanceProto\<close>, \<open>ConformanceService\<close>, \<open>ConformanceBidi\<close>: \<open>conformance/src/service.rs\<close>, the service
    under test, on the messages of \<open>conformance/proto\<close>. A method is the polls of its future: the
    answer to a response definition with its delay, the stream of responses and its pace, the
    prologue and the responder of the bidirectional call against a reference function.
  \<^item> \<open>ConformanceClient\<close>, \<open>ConformanceReport\<close>: the call of a test case, \<open>handle\<close> and \<open>drive\<close> of
    \<open>conformance/src/bin/client.rs\<close>, as \<open>async\<close> functions on the engine with rules for what holds
    when an await finishes (\<open>async_ok\<close>); what it reports of a delivery and of a cancellation.
  \<^item> \<open>ConformanceCase\<close>: a unary test case, the client program against the service.
  \<^item> \<open>ConformanceHarness\<close>: the two programs around it, \<open>conformance/src/bin\<close>. The length-delimited
    messages, the tasks and the semaphore of the client's \<open>main\<close>, and the shutdown of its runtime, as
    the step relation \<open>main_step\<close> with its invariant \<open>pool_inv\<close> and its measure \<open>steps_left\<close>, and the
    server's \<open>main\<close>.

  \<^bold>\<open>How code is rendered.\<close> A \<open>str\<close> is its UTF-8 bytes. \<open>Result<T, Status>\<close> is \<open>status + 'a\<close> with
  \<open>Inl\<close> the error. An integer whose overflow can be observed is a word or has its bound written
  out. A future is a state and a poll function of type \<open>fut\<close>; a poll sees an observation of the
  outside (\<open>obs\<close>: the clock, and whether shutdown or the caller's cancellation is visible). An
  operation of the client's engine is of type \<open>async\<close>: a function of the observations its polls
  will see, to a panic, a suspension with the state it leaves, or a result. A panic is a value
  (\<open>None\<close> or \<open>Panicked\<close>). A loop that is not structural has a termination proof, and a future
  that is never ready is \<open>Suspended\<close> for every list of observations. Two kinds of loop take fuel.
  In the futures of the conformance service (\<open>poll_steps\<close>) it is the number of steps of one poll,
  and what is shown holds for any. The loops that run to the end of a stream (\<open>send_requests\<close>,
  \<open>recv_all\<close>, \<open>drain\<close>) count as suspended without it: one more than the messages is shown to be
  enough. The bounds are those of the code: \<open>DEFAULT_MAX_MESSAGE_SIZE\<close>, the 5 bytes of a frame
  prefix, the 64 bits of \<open>usize\<close>, the 32 requests in flight.

  \<^bold>\<open>Parameters.\<close> Code that is not in the repository is an argument of the definitions that use it,
  with its documented behaviour as a named hypothesis: the header map (\<open>headers_ok\<close>), base64
  (\<open>base64_ok\<close>), the compression libraries (\<open>codecs_ok\<close>), \<open>prost\<close> (\<open>prost_ok\<close>), the future
  combinators (\<open>select_ok\<close>, \<open>or_ok\<close>), the timers (\<open>delay_ok\<close>: they do not fire early), the HTTP
  client (\<open>net\<close>), the template engine, the identifiers it accepts and the protobuf compiler of the
  generator. Each hypothesis
  has a concrete instance that the witnesses use.

  \<^bold>\<open>What the properties show.\<close> A unary call from the generated client's method reaches the
  generated server's handler with the request, deadline and metadata it was given, and the
  caller gets the handler's response or status (\<open>UnaryCall\<close>, \<open>EndToEnd\<close>). Framing is a round trip over
  every split of the bytes, and the reader is a refinement of the grammar with bounded
  allocation. Statuses and metadata survive the wire. The server answers every call with
  exactly one status, the cause of which is determined; the client's engine never panics, never
  repeats an opening that has finished (one that the caller drops half-way it may repeat, with an
  empty body: \<open>dropped_open_loses_body\<close>), and its cancellation and deadline win over data. An
  insert into a metadata map enforces the documented rules; parsed headers are held to them but
  for the values of text, which only have to be UTF-8. The emitted router sends each path to its
  own method, and the emitted imports are exact for a run with one package. The conformance service answers as the response
  definitions say, in order and no sooner than their delays; the conformance client reports
  what its call delivered, and runs its test cases concurrently with the outcome of a sequential
  run up to the order, unless its input fails, in which case the tasks that are left are dropped; a
  unary test case of the one against the other passes (\<open>ConformanceCase\<close>). Some properties pin down behaviour that a comment or the intention
  contradicts; these are the manifest's findings.

  \<^bold>\<open>Not modelled.\<close> The crate root and the re-exports; the wrappers \<open>*_dispatch\<close>, which only box
  the functions modelled here; \<open>Debug\<close> formatting; logging; HTTP/2, TLS, sockets and the process
  environment; writes to standard output that fail; the example program; the text of the Rust that the generator emits, beyond what is listed above; the
  unit tests.
\<close>

end
